(* ===== verification/Prelude.thy ===== *)
theory Prelude
  imports Main "HOL-Library.List_Lexorder"
begin

text \<open>
  The vocabulary every component of the development shares: Python strings, bytes and aware or
  naive datetimes as HOL types, the exceptions the code raises as one datatype, fallible
  computations as \<open>exc + 'a\<close>, and the generic lemmas and rule collections the component
  proofs use.

  A Python \<open>str\<close> is the list of its code points (a \<open>nat list\<close>, so that JSON text, UTF-8 and
  UTF-16 ordering are modelled over the whole Unicode range and not over the 256 values of
  the HOL type \<open>char\<close>); a literal of the source is written \<open>u ''...''\<close>. A Python \<open>bytes\<close>
  object is a list of octets, again as numbers.
\<close>

section \<open>Strings and bytes\<close>

type_synonym ustr = "nat list"

type_synonym octets = "nat list"

definition u :: "string \<Rightarrow> ustr" where
  "u s = map of_char s"

lemma u_eq_iff [simp]: "u s = u t \<longleftrightarrow> s = t"
  unfolding u_def by (auto intro: inj_map_eq_map [THEN iffD1] simp: inj_on_def)

lemma u_eq_Nil [simp]: "u s = [] \<longleftrightarrow> s = []" "[] = u s \<longleftrightarrow> s = []"
  by (auto simp: u_def)

lemma length_u [simp]: "length (u s) = length s"
  by (simp add: u_def)

lemma u_Nil [simp]: "u [] = []"
  by (simp add: u_def)

lemma u_append: "u (s @ t) = u s @ u t"
  by (simp add: u_def)

fun starts_with :: "'a list \<Rightarrow> 'a list \<Rightarrow> bool" where
  "starts_with [] s = True"
| "starts_with (p # ps) [] = False"
| "starts_with (p # ps) (c # s) = (p = c \<and> starts_with ps s)"

definition ends_with :: "'a list \<Rightarrow> 'a list \<Rightarrow> bool" where
  "ends_with p s = starts_with (rev p) (rev s)"

fun is_infix_of :: "'a list \<Rightarrow> 'a list \<Rightarrow> bool" where
  "is_infix_of p [] = (p = [])"
| "is_infix_of p (c # s) = (starts_with p (c # s) \<or> is_infix_of p s)"

lemma starts_with_iff: "starts_with p s \<longleftrightarrow> (\<exists>t. s = p @ t)"
  by (induction p s rule: starts_with.induct) auto

lemma starts_with_append [simp]: "starts_with p (p @ s)"
  by (auto simp: starts_with_iff)

lemma ends_with_append [simp]: "ends_with p (s @ p)"
  by (simp add: ends_with_def)

lemma ends_with_iff: "ends_with p s \<longleftrightarrow> (\<exists>t. s = t @ p)"
  unfolding ends_with_def starts_with_iff
  by (metis rev_append rev_rev_ident)

text \<open>\<open>s.split(sep)\<close> for a one-character separator, and \<open>sep.join(parts)\<close>.\<close>

fun split_on :: "nat \<Rightarrow> ustr \<Rightarrow> ustr list" where
  "split_on d [] = [[]]"
| "split_on d (c # s) =
     (if c = d then [] # split_on d s
      else (c # hd (split_on d s)) # tl (split_on d s))"

fun join_with :: "ustr \<Rightarrow> ustr list \<Rightarrow> ustr" where
  "join_with d [] = []"
| "join_with d [p] = p"
| "join_with d (p # q # ps) = p @ d @ join_with d (q # ps)"

lemma split_on_ne [simp]: "split_on d s \<noteq> []"
  by (cases s) auto

lemma join_split [simp]: "join_with [d] (split_on d s) = s"
proof (induction s)
  case Nil
  then show ?case by simp
next
  case (Cons c s)
  obtain p ps where ps: "split_on d s = p # ps"
    by (cases "split_on d s") auto
  with Cons.IH show ?case
    by (cases ps) auto
qed

lemma split_on_free: "d \<notin> set p \<Longrightarrow> split_on d p = [p]"
  by (induction p) auto

lemma split_on_app: "d \<notin> set p \<Longrightarrow> split_on d (p @ d # s) = p # split_on d s"
  by (induction p) auto

lemma split_join:
  "ps \<noteq> [] \<Longrightarrow> \<forall>p \<in> set ps. d \<notin> set p \<Longrightarrow> split_on d (join_with [d] ps) = ps"
proof (induction ps rule: induct_list012)
  case (2 p)
  then show ?case by (simp add: split_on_free)
next
  case (3 p q ps)
  then show ?case by (simp add: split_on_app)
qed simp

lemma split_on_parts_free: "p \<in> set (split_on d s) \<Longrightarrow> d \<notin> set p"
proof (induction s arbitrary: p)
  case (Cons c s)
  obtain q qs where qs: "split_on d s = q # qs"
    by (cases "split_on d s") auto
  with Cons show ?case by (auto split: if_splits)
qed auto

lemma set_split_on: "p \<in> set (split_on d s) \<Longrightarrow> set p \<subseteq> set s"
proof (induction s arbitrary: p)
  case (Cons c s)
  obtain q qs where qs: "split_on d s = q # qs"
    by (cases "split_on d s") auto
  with Cons show ?case by (fastforce split: if_splits)
qed auto

lemma join_with_append:
  "ps \<noteq> [] \<Longrightarrow> qs \<noteq> [] \<Longrightarrow> join_with d (ps @ qs) = join_with d ps @ d @ join_with d qs"
proof (induction ps rule: induct_list012)
  case (2 p)
  then show ?case by (cases qs) auto
qed auto

section \<open>Exceptions\<close>

text \<open>
  A datetime is its wall clock, in microseconds since 0001-01-01T00:00, and its UTC offset in
  microseconds (\<open>None\<close> for a naive value). The operations on it are in theory \<open>Pytime\<close>;
  the type stands here because exceptions carry datetimes.
\<close>

datatype dt = Dt (wall: int) (utcoff: "int option")

text \<open>
  An exception that code outside the repository raises (the NATS client): the name of its
  class, whether it is a \<open>KeyError\<close> or a \<open>TypeError\<close>, and those of its attributes whose
  value is an \<open>int\<close>.
\<close>

datatype ext_exn =
  ExtExn (xn_name: string) (xn_key_error: bool) (xn_type_error: bool)
    (xn_int_attrs: "(string \<times> int) list")

text \<open>
  \<open>ClassErr n\<close> is an exception class of the repository, by its name, that has no attribute any
  code reads and is no \<open>ValueError\<close>.
\<close>

datatype exc =
    ValueErr | JsonDecodeErr | UnicodeDecodeErr | UnicodeEncodeErr
  | TypeErr | OverflowErr | KeyErr | AttributeErr | IndexErr | OutOfFuel
  | KidResolverErr | SchemaValidationErr | NotImplementedErr
  | SubjectFormatErr string
  | RegisteredByCapabilityErr
  | PolicyEnvelopeErr | PolicyValidationErr | PolicyBackendErr
  | PolicyConflictErr ustr int "int option"
  | RevocationConflictErr ustr dt "dt option"
  | SchemaConflictErr ustr int "int option"
  | ClassErr string
  | ExtErr ext_exn

text \<open>
  \<open>except ValueError\<close> also catches the subclasses of \<open>ValueError\<close>: the JSON and Unicode
  errors of the standard library, and the subject errors of the code.
\<close>

fun is_value_error :: "exc \<Rightarrow> bool" where
  "is_value_error ValueErr = True"
| "is_value_error JsonDecodeErr = True"
| "is_value_error UnicodeDecodeErr = True"
| "is_value_error UnicodeEncodeErr = True"
| "is_value_error (SubjectFormatErr r) = True"
| "is_value_error SchemaValidationErr = True"
| "is_value_error e = False"

section \<open>Fallible computations\<close>

type_synonym 'a res = "exc + 'a"

fun sbind :: "'e + 'a \<Rightarrow> ('a \<Rightarrow> 'e + 'b) \<Rightarrow> 'e + 'b" where
  "sbind (Inl e) f = Inl e"
| "sbind (Inr a) f = f a"

definition ensure :: "bool \<Rightarrow> 'e \<Rightarrow> 'e + unit" where
  "ensure c e = (if c then Inr () else Inl e)"

text \<open>\<open>except E as exc: raise F\<close>: the errors that \<open>catches\<close> describes become \<open>f\<close>.\<close>

fun rethrow :: "('e \<Rightarrow> bool) \<Rightarrow> 'e \<Rightarrow> 'e + 'a \<Rightarrow> 'e + 'a" where
  "rethrow catches f (Inl e) = (if catches e then Inl f else Inl e)"
| "rethrow catches f (Inr a) = Inr a"

fun mapM_sum :: "('a \<Rightarrow> 'e + 'b) \<Rightarrow> 'a list \<Rightarrow> 'e + 'b list" where
  "mapM_sum f [] = Inr []"
| "mapM_sum f (x # xs) =
     sbind (f x) (\<lambda>y. sbind (mapM_sum f xs) (\<lambda>ys. Inr (y # ys)))"

text \<open>\<open>None if raw is None else f(raw)\<close>.\<close>

fun opt_res :: "('a \<Rightarrow> 'e + 'b) \<Rightarrow> 'a option \<Rightarrow> 'e + 'b option" where
  "opt_res f None = Inr None"
| "opt_res f (Some a) = sbind (f a) (\<lambda>b. Inr (Some b))"

named_theorems res_elims \<open>what the success of a fallible computation implies\<close>

lemma sbind_Inr [res_elims, simp]: "sbind m f = Inr b \<longleftrightarrow> (\<exists>a. m = Inr a \<and> f a = Inr b)"
  by (cases m) auto

lemma sbind_Inl: "sbind m f = Inl e \<longleftrightarrow> m = Inl e \<or> (\<exists>a. m = Inr a \<and> f a = Inl e)"
  by (cases m) auto

lemma sbind_cong [fundef_cong]:
  "m = m' \<Longrightarrow> (\<And>a. m' = Inr a \<Longrightarrow> f a = f' a) \<Longrightarrow> sbind m f = sbind m' f'"
  by (cases m') auto

lemma ensure_Inr [res_elims, simp]: "ensure c e = Inr x \<longleftrightarrow> c"
  by (auto simp: ensure_def)

lemma ensure_Inl [res_elims, simp]: "ensure c e = Inl e' \<longleftrightarrow> \<not> c \<and> e' = e"
  by (auto simp: ensure_def)

lemma ensure_True [simp]: "ensure True e = Inr ()"
  by (simp add: ensure_def)

lemma ensure_False [simp]: "ensure False e = Inl e"
  by (simp add: ensure_def)

lemma rethrow_Inr [res_elims, simp]: "rethrow c f m = Inr a \<longleftrightarrow> m = Inr a"
  by (cases m) auto

lemma rethrow_Inl:
  "rethrow c f m = Inl e \<longleftrightarrow> (\<exists>e'. m = Inl e' \<and> e = (if c e' then f else e'))"
  by (cases m) auto

lemma opt_res_Inr_None [simp]: "opt_res f x = Inr None \<longleftrightarrow> x = None"
  by (cases x) auto

lemma opt_res_Inr_Some [simp]:
  "opt_res f x = Inr (Some b) \<longleftrightarrow> (\<exists>a. x = Some a \<and> f a = Inr b)"
  by (cases x) auto

lemma opt_res_Inl [simp]: "opt_res f x = Inl e \<longleftrightarrow> (\<exists>a. x = Some a \<and> f a = Inl e)"
  by (cases x) (auto simp: sbind_Inl)

lemma mapM_sum_Inr_iff:
  "mapM_sum f xs = Inr ys \<longleftrightarrow> list_all2 (\<lambda>x y. f x = Inr y) xs ys"
  by (induction xs arbitrary: ys) (auto simp: list_all2_Cons1)

lemma mapM_sum_Inr_map: "(\<And>x. x \<in> set xs \<Longrightarrow> f x = Inr (g x)) \<Longrightarrow> mapM_sum f xs = Inr (map g xs)"
  by (induction xs) auto

lemma mapM_sum_Inl: "mapM_sum f xs = Inl e \<Longrightarrow> \<exists>x \<in> set xs. f x = Inl e"
  by (induction xs) (auto simp: sbind_Inl)

lemma mapM_sum_cong [fundef_cong]:
  "xs = xs' \<Longrightarrow> (\<And>x. x \<in> set xs' \<Longrightarrow> f x = f' x) \<Longrightarrow> mapM_sum f xs = mapM_sum f' xs'"
  by (induction xs arbitrary: xs') auto

section \<open>Stateful computations\<close>

text \<open>
  A coroutine of the code that reads and writes a store: it takes the store, may raise, and
  leaves a store behind in either case (an exception does not undo the writes before it).
\<close>

type_synonym ('s, 'a) io = "'s \<Rightarrow> 'a res \<times> 's"

definition io_bind :: "('s, 'a) io \<Rightarrow> ('a \<Rightarrow> ('s, 'b) io) \<Rightarrow> ('s, 'b) io" where
  "io_bind m f s = (case m s of (Inl e, s') \<Rightarrow> (Inl e, s') | (Inr a, s') \<Rightarrow> f a s')"

definition io_res :: "'a res \<Rightarrow> ('s, 'a) io" where
  "io_res r s = (r, s)"

abbreviation io_ret :: "'a \<Rightarrow> ('s, 'a) io" where
  "io_ret a \<equiv> io_res (Inr a)"

abbreviation io_raise :: "exc \<Rightarrow> ('s, 'a) io" where
  "io_raise e \<equiv> io_res (Inl e)"

text \<open>A read of the store, which may raise.\<close>

definition io_read :: "('s \<Rightarrow> 'a res) \<Rightarrow> ('s, 'a) io" where
  "io_read f s = (f s, s)"

lemma io_res_apply [simp]: "io_res r s = (r, s)"
  by (simp add: io_res_def)

lemma io_read_apply [simp]: "io_read f s = (f s, s)"
  by (simp add: io_read_def)

lemma io_bind_ret [simp]: "io_bind (io_res (Inr a)) f s = f a s"
  by (simp add: io_bind_def)

lemma io_bind_raise [simp]: "io_bind (io_res (Inl e)) f s = (Inl e, s)"
  by (simp add: io_bind_def)

lemma io_bind_read [simp]:
  "io_bind (io_read g) f s = (case g s of Inl e \<Rightarrow> (Inl e, s) | Inr a \<Rightarrow> f a s)"
  by (simp add: io_bind_def split: sum.split)

lemma io_bind_Inr:
  "io_bind m f s = (Inr b, s'') \<longleftrightarrow> (\<exists>a s'. m s = (Inr a, s') \<and> f a s' = (Inr b, s''))"
  by (auto simp: io_bind_def split: prod.splits sum.splits)

section \<open>Lists as dictionaries\<close>

text \<open>
  A Python dict keeps the order of insertion; storing under a present key replaces the value
  in place.
\<close>

fun dict_set :: "('k \<times> 'v) list \<Rightarrow> 'k \<Rightarrow> 'v \<Rightarrow> ('k \<times> 'v) list" where
  "dict_set [] k v = [(k, v)]"
| "dict_set ((k', v') # d) k v = (if k' = k then (k, v) # d else (k', v') # dict_set d k v)"

definition dict_pop :: "('k \<times> 'v) list \<Rightarrow> 'k \<Rightarrow> ('k \<times> 'v) list" where
  "dict_pop d k = filter (\<lambda>kv. fst kv \<noteq> k) d"

lemma map_of_dict_set [simp]: "map_of (dict_set d k v) = (map_of d)(k \<mapsto> v)"
  by (induction d k v rule: dict_set.induct) auto

lemma map_of_dict_pop [simp]: "map_of (dict_pop d k) = (map_of d)(k := None)"
  by (induction d) (auto simp: dict_pop_def)

lemma keys_dict_set: "fst ` set (dict_set d k v) = insert k (fst ` set d)"
  by (induction d k v rule: dict_set.induct) auto

lemma distinct_dict_set [intro]: "distinct (map fst d) \<Longrightarrow> distinct (map fst (dict_set d k v))"
proof (induction d k v rule: dict_set.induct)
  case (2 k' v' d k v)
  have "k' \<notin> fst ` set (dict_set d k v)" if "k' \<noteq> k" "k' \<notin> fst ` set d"
    using that by (simp add: keys_dict_set)
  with 2 show ?case by auto
qed auto

lemma distinct_dict_pop [intro]: "distinct (map fst d) \<Longrightarrow> distinct (map fst (dict_pop d k))"
  by (induction d) (auto simp: dict_pop_def)

lemma keys_dict_pop [simp]: "fst ` set (dict_pop d k) = fst ` set d - {k}"
  by (auto simp: dict_pop_def)

lemma sorted_key_list_unique:
  fixes xs ys :: "'a::linorder list"
  assumes "sorted xs" "distinct xs" "sorted ys" "distinct ys" "set xs = set ys"
  shows "xs = ys"
  using assms by (simp add: sorted_distinct_set_unique)

end
