(* ===== verification/Fnmatch.thy ===== *)
theory Fnmatch
  imports Prelude
begin

text \<open>
  \<open>fnmatch.fnmatchcase\<close> of the standard library, as the capability gate uses it for the name
  globs of a policy. The pattern is read into items the way \<open>fnmatch.translate\<close> reads it: runs of
  \<open>*\<close> count as one, an unclosed \<open>[\<close> is a literal, and the hyphens of a bracket expression
  split it into chunks, of which reversed ranges are merged away.
\<close>

section \<open>Patterns\<close>

datatype glob_item =
    GStar | GAny | GNever | GLit nat
  | GSet bool "ustr list"

text \<open>The inside of a bracket expression and what follows its closing bracket.\<close>

definition class_end :: "ustr \<Rightarrow> (ustr \<times> ustr) option" where
  "class_end s =
     (let a = (if starts_with [33] s then [33] else []);
          s1 = drop (length a) s;
          b = (if starts_with [93] s1 then [93] else []);
          s2 = drop (length b) s1;
          rest = dropWhile (\<lambda>c. c \<noteq> 93) s2
      in if rest = [] then None
         else Some (a @ b @ takeWhile (\<lambda>c. c \<noteq> 93) s2, tl rest))"

lemma class_end_shorter: "class_end s = Some (stuff, r) \<Longrightarrow> length r < length s"
proof -
  assume "class_end s = Some (stuff, r)"
  obtain k x where "class_end s = (if dropWhile (\<lambda>c. c \<noteq> 93) (drop k s) = [] then None
      else Some (x, tl (dropWhile (\<lambda>c. c \<noteq> 93) (drop k s))))"
    unfolding class_end_def Let_def drop_drop by blast
  then have "r = tl (dropWhile (\<lambda>c. c \<noteq> 93) (drop k s))"
    and "dropWhile (\<lambda>c. c \<noteq> 93) (drop k s) \<noteq> []"
    using \<open>class_end s = Some (stuff, r)\<close> by (auto split: if_splits)
  then have "Suc (length r) = length (dropWhile (\<lambda>c. c \<noteq> 93) (drop k s))"
    by simp
  also have "\<dots> \<le> length s"
    using length_dropWhile_le [of "\<lambda>c. c \<noteq> 93" "drop k s"] by simp
  finally show ?thesis by simp
qed

text \<open>
  The chunks between the range hyphens of a bracket expression: the search for the first hyphen
  starts at position \<open>n\<close>, for each later one two places after the start of its chunk.
\<close>

fun chunk_at :: "nat \<Rightarrow> ustr \<Rightarrow> (ustr \<times> ustr) option" where
  "chunk_at n [] = None"
| "chunk_at n (c # s) =
     (if n = 0 \<and> c = 45 then Some ([], s)
      else (case chunk_at (n - 1) s of None \<Rightarrow> None | Some (a, r) \<Rightarrow> Some (c # a, r)))"

lemma chunk_at_shorter: "chunk_at n s = Some (a, r) \<Longrightarrow> length r < length s"
  by (induction n s arbitrary: a r rule: chunk_at.induct) (auto split: if_splits option.splits)

function chunks_of :: "nat \<Rightarrow> ustr \<Rightarrow> ustr list" where
  "chunks_of n s =
     (case chunk_at n s of None \<Rightarrow> [s] | Some (a, r) \<Rightarrow> a # chunks_of 2 r)"
  by pat_completeness auto
termination
  by (relation "measure (\<lambda>(n, s). length s)") (auto dest: chunk_at_shorter)

text \<open>A trailing hyphen belongs to the chunk before it.\<close>

definition close_chunks :: "ustr list \<Rightarrow> ustr list" where
  "close_chunks cs =
     (if last cs = [] \<and> 2 \<le> length cs
      then butlast (butlast cs) @ [last (butlast cs) @ [45]] else cs)"

text \<open>Neighbouring chunks whose range would be empty are merged, the last pair first.\<close>

fun merge_chunks :: "ustr list \<Rightarrow> ustr list" where
  "merge_chunks [] = []"
| "merge_chunks (c # cs) =
     (case merge_chunks cs of
        [] \<Rightarrow> [c]
      | d # ds \<Rightarrow> if hd d < last c then (butlast c @ tl d) # ds else c # d # ds)"

text \<open>
  The item for the inside of a bracket expression. When the merging leaves an exclamation mark
  alone in the first chunk, the hyphen after it is a literal of the next chunk.
\<close>

definition class_item :: "ustr \<Rightarrow> glob_item" where
  "class_item stuff =
     (let cs = merge_chunks (close_chunks
                 (chunks_of (if starts_with [33] stuff then 2 else 1) stuff))
      in case cs of
           [[]] \<Rightarrow> GNever
         | [[c]] \<Rightarrow> (if c = 33 then GAny else GSet False cs)
         | (c # cc) # ds \<Rightarrow>
             (if c \<noteq> 33 then GSet False cs
              else if cc = [] then GSet True ((45 # hd ds) # tl ds)
              else GSet True (cc # ds))
         | _ \<Rightarrow> GSet False cs)"

function glob_items :: "ustr \<Rightarrow> glob_item list" where
  "glob_items [] = []"
| "glob_items (c # s) =
     (if c = 42 then
        (case glob_items s of GStar # is \<Rightarrow> GStar # is | is \<Rightarrow> GStar # is)
      else if c = 63 then GAny # glob_items s
      else if c = 91 then
        (case class_end s of
           None \<Rightarrow> GLit 91 # glob_items s
         | Some (stuff, r) \<Rightarrow> class_item stuff # glob_items r)
      else GLit c # glob_items s)"
  by pat_completeness auto
termination
  by (relation "measure length") (auto dest: class_end_shorter)

section \<open>Matching\<close>

text \<open>The characters of a class: those of its chunks, and the ranges between neighbours.\<close>

fun in_chunks :: "ustr list \<Rightarrow> nat \<Rightarrow> bool" where
  "in_chunks [] c = False"
| "in_chunks [a] c = (c \<in> set a)"
| "in_chunks (a # b # cs) c =
     (c \<in> set a \<or> (last a \<le> c \<and> c \<le> hd b) \<or> in_chunks (b # cs) c)"

fun item_matches :: "glob_item \<Rightarrow> nat \<Rightarrow> bool" where
  "item_matches GStar c = True"
| "item_matches GAny c = True"
| "item_matches GNever c = False"
| "item_matches (GLit d) c = (c = d)"
| "item_matches (GSet neg cs) c = (in_chunks cs c \<noteq> neg)"

function glob_match :: "glob_item list \<Rightarrow> ustr \<Rightarrow> bool" where
  "glob_match [] s = (s = [])"
| "glob_match (p # ps) [] = (p = GStar \<and> glob_match ps [])"
| "glob_match (p # ps) (c # s) =
     (if p = GStar then glob_match ps (c # s) \<or> glob_match (GStar # ps) s
      else item_matches p c \<and> glob_match ps s)"
  by pat_completeness auto
termination
  by (relation "measures [\<lambda>(ps, s). length ps + length s]") auto

definition fnmatchcase :: "ustr \<Rightarrow> ustr \<Rightarrow> bool" where
  "fnmatchcase name pat = glob_match (glob_items pat) name"

section \<open>Plain patterns\<close>

lemma glob_match_star: "glob_match (GStar # ps) s \<longleftrightarrow> (\<exists>a b. s = a @ b \<and> glob_match ps b)"
proof (induction s)
  case (Cons c s)
  have "(\<exists>a b. c # s = a @ b \<and> glob_match ps b)
      \<longleftrightarrow> glob_match ps (c # s) \<or> (\<exists>a b. s = a @ b \<and> glob_match ps b)"
    by (auto simp: Cons_eq_append_conv)
  with Cons show ?case by simp
qed simp

lemma glob_items_literal:
  "42 \<notin> set p \<Longrightarrow> 63 \<notin> set p \<Longrightarrow> 91 \<notin> set p \<Longrightarrow> glob_items p = map GLit p"
  by (induction p) auto

lemma glob_match_literal: "glob_match (map GLit p) s \<longleftrightarrow> s = p"
proof (induction p arbitrary: s)
  case (Cons c p)
  then show ?case by (cases s) auto
qed simp

text \<open>A pattern without a metacharacter matches itself alone; \<open>*\<close> matches every name.\<close>

lemma fnmatchcase_literal:
  "42 \<notin> set p \<Longrightarrow> 63 \<notin> set p \<Longrightarrow> 91 \<notin> set p \<Longrightarrow> fnmatchcase s p \<longleftrightarrow> s = p"
  by (simp add: fnmatchcase_def glob_items_literal glob_match_literal)

lemma fnmatchcase_star [simp]: "fnmatchcase s [42]"
  by (simp add: fnmatchcase_def glob_match_star)

text \<open>A literal prefix followed by a star matches exactly the names with that prefix.\<close>

lemma glob_items_append_star:
  "42 \<notin> set p \<Longrightarrow> 63 \<notin> set p \<Longrightarrow> 91 \<notin> set p \<Longrightarrow> glob_items (p @ [42]) = map GLit p @ [GStar]"
  by (induction p) auto

lemma fnmatchcase_prefix:
  assumes "42 \<notin> set p" "63 \<notin> set p" "91 \<notin> set p"
  shows "fnmatchcase s (p @ [42]) \<longleftrightarrow> starts_with p s"
proof -
  have "glob_match (map GLit p @ [GStar]) s \<longleftrightarrow> starts_with p s" for s
  proof (induction p arbitrary: s)
    case Nil
    then show ?case by (simp add: glob_match_star)
  next
    case (Cons c p)
    then show ?case by (cases s) auto
  qed
  with glob_items_append_star [OF assms] show ?thesis
    by (simp add: fnmatchcase_def)
qed

end
