(* ===== verification/Utf8.thy ===== *)
theory Utf8
  imports Prelude
begin

text \<open>
  UTF-8, as \<open>str.encode("utf-8")\<close> and \<open>bytes.decode("utf-8")\<close> perform it in strict mode:
  surrogates and values above U+10FFFF do not encode, and the decoder refuses overlong forms,
  encoded surrogates, stray continuation bytes and truncated sequences. Decoding inverts
  encoding, so the encoding is injective.
\<close>

definition is_surrogate :: "nat \<Rightarrow> bool" where
  "is_surrogate c \<longleftrightarrow> 55296 \<le> c \<and> c \<le> 57343"

definition encode_cp :: "nat \<Rightarrow> octets res" where
  "encode_cp c =
     (if c < 128 then Inr [c]
      else if c < 2048 then Inr [192 + c div 64, 128 + c mod 64]
      else if is_surrogate c then Inl UnicodeEncodeErr
      else if c < 65536 then
        Inr [224 + c div 4096, 128 + c div 64 mod 64, 128 + c mod 64]
      else if c < 1114112 then
        Inr [240 + c div 262144, 128 + c div 4096 mod 64, 128 + c div 64 mod 64, 128 + c mod 64]
      else Inl UnicodeEncodeErr)"

fun utf8_encode :: "ustr \<Rightarrow> octets res" where
  "utf8_encode [] = Inr []"
| "utf8_encode (c # s) =
     sbind (encode_cp c) (\<lambda>b. sbind (utf8_encode s) (\<lambda>bs. Inr (b @ bs)))"

definition is_cont :: "nat \<Rightarrow> bool" where
  "is_cont b \<longleftrightarrow> 128 \<le> b \<and> b < 192"

text \<open>One code point off the front of the octets.\<close>

definition decode2 :: "nat \<Rightarrow> octets \<Rightarrow> (nat \<times> octets) option" where
  "decode2 b bs = (case bs of
     c1 # r \<Rightarrow> (if is_cont c1 then Some ((b - 192) * 64 + (c1 - 128), r) else None)
   | _ \<Rightarrow> None)"

definition decode3 :: "nat \<Rightarrow> octets \<Rightarrow> (nat \<times> octets) option" where
  "decode3 b bs = (case bs of
     c1 # c2 # r \<Rightarrow>
       (let cp = (b - 224) * 4096 + (c1 - 128) * 64 + (c2 - 128) in
        if is_cont c1 \<and> is_cont c2 \<and> 2048 \<le> cp \<and> \<not> is_surrogate cp then Some (cp, r) else None)
   | _ \<Rightarrow> None)"

definition decode4 :: "nat \<Rightarrow> octets \<Rightarrow> (nat \<times> octets) option" where
  "decode4 b bs = (case bs of
     c1 # c2 # c3 # r \<Rightarrow>
       (let cp = (b - 240) * 262144 + (c1 - 128) * 4096 + (c2 - 128) * 64 + (c3 - 128) in
        if is_cont c1 \<and> is_cont c2 \<and> is_cont c3 \<and> 65536 \<le> cp \<and> cp < 1114112
        then Some (cp, r) else None)
   | _ \<Rightarrow> None)"

definition decode_cp :: "nat \<Rightarrow> octets \<Rightarrow> (nat \<times> octets) option" where
  "decode_cp b bs =
     (if b < 128 then Some (b, bs)
      else if 194 \<le> b \<and> b < 224 then decode2 b bs
      else if 224 \<le> b \<and> b < 240 then decode3 b bs
      else if 240 \<le> b \<and> b < 245 then decode4 b bs
      else None)"

lemma decode_cp_shorter: "decode_cp b bs = Some (c, r) \<Longrightarrow> length r \<le> length bs"
  by (auto simp: decode_cp_def decode2_def decode3_def decode4_def Let_def
      split: if_splits list.splits)

function utf8_decode :: "octets \<Rightarrow> ustr res" where
  "utf8_decode [] = Inr []"
| "utf8_decode (b # bs) =
     (case decode_cp b bs of
        None \<Rightarrow> Inl UnicodeDecodeErr
      | Some (c, r) \<Rightarrow> sbind (utf8_decode r) (\<lambda>s. Inr (c # s)))"
  by pat_completeness auto
termination
  by (relation "measure length") (auto dest: decode_cp_shorter)

lemmas decode_defs = decode_cp_def decode2_def decode3_def decode4_def

lemma is_cont_low [simp]: "is_cont (128 + c mod 64)"
  by (simp add: is_cont_def)

lemma recompose2: "(c::nat) div 64 * 64 + c mod 64 = c"
  by simp

lemma recompose3: "(c::nat) div 4096 * 4096 + c div 64 mod 64 * 64 + c mod 64 = c"
proof -
  have "c div 4096 = c div 64 div 64"
    by (simp add: div_mult2_eq [symmetric])
  then have "c div 4096 * 64 + c div 64 mod 64 = c div 64"
    by (simp only: div_mult_mod_eq)
  then have "(c div 4096 * 64 + c div 64 mod 64) * 64 + c mod 64 = c"
    by simp
  then show ?thesis by (simp add: algebra_simps)
qed

lemma recompose4:
  "(c::nat) div 262144 * 262144 + c div 4096 mod 64 * 4096 + c div 64 mod 64 * 64 + c mod 64 = c"
proof -
  have "c div 262144 = c div 4096 div 64"
    by (simp add: div_mult2_eq [symmetric])
  then have "c div 262144 * 64 + c div 4096 mod 64 = c div 4096"
    by (simp only: div_mult_mod_eq)
  then have "(c div 262144 * 64 + c div 4096 mod 64) * 4096 + c div 64 mod 64 * 64 + c mod 64 = c"
    using recompose3 [of c] by simp
  then show ?thesis by (simp add: algebra_simps)
qed

lemma decode_encode_cp:
  assumes "encode_cp c = Inr b"
  shows "\<exists>b0 bs0. b = b0 # bs0 \<and> decode_cp b0 (bs0 @ bs) = Some (c, bs)"
proof -
  have range: "c < 1114112"
    using assms by (simp add: encode_cp_def split: if_split_asm)
  have sur: "\<not> is_surrogate c" if "2048 \<le> c"
    using assms that by (simp add: encode_cp_def split: if_split_asm)
  consider (one) "c < 128" | (two) "128 \<le> c" "c < 2048"
    | (three) "2048 \<le> c" "c < 65536" "\<not> is_surrogate c"
    | (four) "65536 \<le> c" "c < 1114112"
    using range sur by (meson not_le)
  then show ?thesis
  proof cases
    case one
    then have "b = [c]"
      using assms by (simp add: encode_cp_def)
    with one show ?thesis by (simp add: decode_cp_def)
  next
    case two
    then have b: "b = [192 + c div 64, 128 + c mod 64]"
      using assms by (simp add: encode_cp_def)
    have "2 \<le> c div 64" "c div 64 < 32"
      using two by auto
    then show ?thesis using b recompose2 [of c] by (simp add: decode_defs)
  next
    case three
    then have b: "b = [224 + c div 4096, 128 + c div 64 mod 64, 128 + c mod 64]"
      using assms by (simp add: encode_cp_def)
    have "c div 4096 < 16"
      using three by auto
    then show ?thesis using b three recompose3 [of c] by (simp add: decode_defs Let_def)
  next
    case four
    then have b: "b = [240 + c div 262144, 128 + c div 4096 mod 64, 128 + c div 64 mod 64,
        128 + c mod 64]"
      using assms by (simp add: encode_cp_def is_surrogate_def)
    have "c div 262144 < 5"
      using four by auto
    then show ?thesis using b four recompose4 [of c] by (simp add: decode_defs Let_def)
  qed
qed

lemma decode_encode_step:
  assumes "encode_cp c = Inr b"
  shows "utf8_decode (b @ bs) = sbind (utf8_decode bs) (\<lambda>s. Inr (c # s))"
  using decode_encode_cp [OF assms, of bs] by auto

lemma utf8_decode_encode: "utf8_encode s = Inr bs \<Longrightarrow> utf8_decode bs = Inr s"
  by (induction s arbitrary: bs) (auto simp: decode_encode_step)

lemma utf8_encode_inj:
  "utf8_encode s = Inr bs \<Longrightarrow> utf8_encode t = Inr bs \<Longrightarrow> s = t"
  by (metis utf8_decode_encode Inr_inject)

lemma utf8_encode_err: "utf8_encode s = Inl e \<Longrightarrow> e = UnicodeEncodeErr"
  by (induction s) (auto simp: sbind_Inl encode_cp_def split: if_splits)

lemma utf8_decode_err: "utf8_decode bs = Inl e \<Longrightarrow> e = UnicodeDecodeErr"
  by (induction bs rule: utf8_decode.induct) (auto simp: sbind_Inl split: option.splits)

text \<open>Encoding succeeds exactly on the strings of Unicode scalar values.\<close>

definition is_scalar :: "nat \<Rightarrow> bool" where
  "is_scalar c \<longleftrightarrow> c < 1114112 \<and> \<not> is_surrogate c"

lemma encode_cp_scalar: "(\<exists>b. encode_cp c = Inr b) \<longleftrightarrow> is_scalar c"
  by (auto simp: encode_cp_def is_scalar_def is_surrogate_def)

lemma utf8_encode_scalars: "(\<exists>bs. utf8_encode s = Inr bs) \<longleftrightarrow> (\<forall>c \<in> set s. is_scalar c)"
proof (induction s)
  case (Cons c s)
  show ?case
    using Cons.IH encode_cp_scalar [of c] by auto
qed simp

text \<open>ASCII text encodes to itself, one octet for each character.\<close>

lemma utf8_encode_ascii: "\<forall>c \<in> set s. c < 128 \<Longrightarrow> utf8_encode s = Inr s"
  by (induction s) (auto simp: encode_cp_def)

lemma encode_cp_length: "encode_cp c = Inr b \<Longrightarrow> 1 \<le> length b \<and> length b \<le> 4"
  by (auto simp: encode_cp_def split: if_splits)

lemma utf8_encode_length: "utf8_encode s = Inr bs \<Longrightarrow> length s \<le> length bs"
proof (induction s arbitrary: bs)
  case (Cons c s)
  then obtain b bs' where "encode_cp c = Inr b" "utf8_encode s = Inr bs'" "bs = b @ bs'"
    by auto
  with Cons.IH [of bs'] encode_cp_length [of c b] show ?case by simp
qed simp

lemma u_ok: "\<forall>c \<in> set (u s). is_scalar c"
proof
  fix c
  assume "c \<in> set (u s)"
  then obtain x :: char where "c = of_char x" by (auto simp: u_def)
  then have "c < 256" by simp
  then show "is_scalar c" by (simp add: is_scalar_def is_surrogate_def)
qed

end
