(* ===== verification/Json.thy ===== *)
theory Json
  imports Utf8
begin

text \<open>
  JSON as the code uses it: the Python values a JSON document is made of, \<open>json.dumps\<close> with
  sorted keys, compact separators and \<open>ensure_ascii=False\<close>, and \<open>json.loads\<close> of a string.
  The printer takes the ordering of the keys as an argument, so that one round-trip theorem serves
  both \<open>json.dumps\<close> (code-point order) and the RFC 8785 canonicaliser of the repository (UTF-16
  order, theory \<open>Jcs\<close>).

  The parser consumes fuel; \<open>json_loads\<close> starts it with twice the length of the text plus two,
  and \<open>json_loads_no_fuel_error\<close> shows that this is always enough. CPython's recursion limit
  and memory are not modelled. Decimal-to-double conversion is the field \<open>float_of\<close> of the
  environment; no document of the modelled components prints or reads a float.
\<close>

section \<open>Values\<close>

text \<open>
  \<open>FFin r\<close> is the finite nonzero double whose \<open>repr\<close> is \<open>r\<close>. \<open>PBadKeyDict\<close> is a dict with
  a key that is not a string; \<open>POther\<close> is any object JSON has no form for. A dict is its
  items in order of insertion, with pairwise distinct keys.
\<close>

datatype pyfloat = FNan | FInf | FNegInf | FZero bool | FFin ustr

datatype pyval =
    PNone | PBool bool | PInt int | PFloat pyfloat | PStr ustr
  | PList "pyval list" | PDict "(ustr \<times> pyval) list" | PBadKeyDict | POther

text \<open>
  What the interpreter and the host supply: the datetimes that \<open>datetime.fromisoformat\<close> reads
  from texts that \<open>isoformat\<close> does not print (the set depends on the interpreter's version),
  the UTC offset of the local time zone at a wall clock, and the double nearest to a decimal
  literal.
\<close>

record pyenv =
  iso_other :: "ustr \<Rightarrow> dt option"
  local_off :: "int \<Rightarrow> int"
  float_of :: "ustr \<Rightarrow> pyfloat"

section \<open>Integers\<close>

fun nat_digits :: "nat \<Rightarrow> ustr" where
  "nat_digits n = (if n < 10 then [48 + n] else nat_digits (n div 10) @ [48 + n mod 10])"

declare nat_digits.simps [simp del]

text \<open>The interpreter refuses to convert integers of more than 4300 digits from or to text.\<close>

definition int_max_str_digits :: nat where
  "int_max_str_digits = 4300"

definition int_repr :: "int \<Rightarrow> ustr res" where
  "int_repr i =
     (let ds = nat_digits (nat \<bar>i\<bar>) in
      if int_max_str_digits < length ds then Inl ValueErr
      else Inr (if i < 0 then 45 # ds else ds))"

definition is_digit :: "nat \<Rightarrow> bool" where
  "is_digit c \<longleftrightarrow> 48 \<le> c \<and> c \<le> 57"

definition digits_val :: "ustr \<Rightarrow> int" where
  "digits_val ds = foldl (\<lambda>a d. a * 10 + (int d - 48)) 0 ds"

lemma nat_digits_ne: "nat_digits n \<noteq> []"
  by (subst nat_digits.simps) simp

lemma nat_digits_digits: "d \<in> set (nat_digits n) \<Longrightarrow> is_digit d"
proof (induction n rule: nat_digits.induct)
  case (1 n)
  then show ?case
    by (subst (asm) nat_digits.simps) (auto simp: is_digit_def split: if_splits)
qed

lemma nat_digits_val: "digits_val (nat_digits n) = int n"
proof (induction n rule: nat_digits.induct)
  case (1 n)
  show ?case
  proof (cases "n < 10")
    case True
    then show ?thesis by (simp add: nat_digits.simps [of n] digits_val_def)
  next
    case False
    have "int (n div 10) * 10 + int (n mod 10) = int n"
      by (metis div_mult_mod_eq of_nat_add of_nat_mult of_nat_numeral)
    with False 1 show ?thesis
      by (simp add: nat_digits.simps [of n] digits_val_def)
  qed
qed

text \<open>No leading zero, except in the text of zero itself.\<close>

lemma nat_digits_hd: "hd (nat_digits n) = 48 \<longleftrightarrow> n = 0"
proof (induction n rule: nat_digits.induct)
  case (1 n)
  show ?case
  proof (cases "n < 10")
    case False
    with 1 show ?thesis
      by (auto simp: nat_digits.simps [of n] hd_append nat_digits_ne)
  qed (simp add: nat_digits.simps [of n])
qed

lemma nat_digits_zero [simp]: "nat_digits 0 = [48]"
  by (simp add: nat_digits.simps)

section \<open>Printing\<close>

definition hex_digit :: "nat \<Rightarrow> nat" where
  "hex_digit n = (if n < 10 then 48 + n else 87 + n)"

definition escape_char :: "nat \<Rightarrow> ustr" where
  "escape_char c =
     (if c = 34 then [92, 34]
      else if c = 92 then [92, 92]
      else if c = 8 then [92, 98]
      else if c = 12 then [92, 102]
      else if c = 10 then [92, 110]
      else if c = 13 then [92, 114]
      else if c = 9 then [92, 116]
      else if c < 32 then [92, 117, 48, 48, hex_digit (c div 16), hex_digit (c mod 16)]
      else [c])"

definition json_string :: "ustr \<Rightarrow> ustr" where
  "json_string s = 34 # concat (map escape_char s) @ [34]"

definition float_repr :: "pyfloat \<Rightarrow> ustr" where
  "float_repr f = (case f of FNan \<Rightarrow> u ''NaN'' | FInf \<Rightarrow> u ''Infinity''
     | FNegInf \<Rightarrow> u ''-Infinity'' | FZero neg \<Rightarrow> (if neg then u ''-0.0'' else u ''0.0'')
     | FFin r \<Rightarrow> r)"

lemma size_pyval_member: "kv \<in> set kvs \<Longrightarrow> size (snd kv) < Suc (size_list (size_prod (\<lambda>_. 0) size) kvs)"
  by (erule less_Suc_eq_le [THEN iffD2, OF size_list_estimation']) (simp add: size_prod_simp)

lemma size_pyval_elem: "(v::pyval) \<in> set vs \<Longrightarrow> size v < Suc (size_list size vs)"
  by (induction vs) auto

text \<open>
  The printer, over the key \<open>ord\<close> that orders the members of an object. A dict with a key that
  is not a string does not occur among the values the code passes to \<open>json.dumps\<close>.
\<close>

function json_emit :: "(ustr \<Rightarrow> nat list) \<Rightarrow> pyval \<Rightarrow> ustr res" where
  "json_emit ord PNone = Inr (u ''null'')"
| "json_emit ord (PBool b) = Inr (if b then u ''true'' else u ''false'')"
| "json_emit ord (PInt i) = int_repr i"
| "json_emit ord (PFloat f) = Inr (float_repr f)"
| "json_emit ord (PStr s) = Inr (json_string s)"
| "json_emit ord (PList vs) =
     sbind (mapM_sum (json_emit ord) vs) (\<lambda>ts. Inr (91 # join_with [44] ts @ [93]))"
| "json_emit ord (PDict kvs) =
     sbind (mapM_sum (\<lambda>kv. sbind (json_emit ord (snd kv))
                           (\<lambda>t. Inr (json_string (fst kv) @ 58 # t)))
             (sort_key (\<lambda>kv. ord (fst kv)) kvs))
       (\<lambda>ts. Inr (123 # join_with [44] ts @ [125]))"
| "json_emit ord PBadKeyDict = Inl TypeErr"
| "json_emit ord POther = Inl TypeErr"
  by pat_completeness auto

termination
  by (relation "measure (\<lambda>(ord, v). size v)")
    (auto dest: size_pyval_member size_pyval_elem)

definition json_dumps :: "pyval \<Rightarrow> ustr res" where
  "json_dumps v = json_emit (\<lambda>k. k) v"

section \<open>Parsing\<close>

definition is_ws :: "nat \<Rightarrow> bool" where
  "is_ws c \<longleftrightarrow> c = 32 \<or> c = 9 \<or> c = 10 \<or> c = 13"

definition skip_ws :: "ustr \<Rightarrow> ustr" where
  "skip_ws s = dropWhile is_ws s"

definition hex_val :: "nat \<Rightarrow> nat option" where
  "hex_val c = (if 48 \<le> c \<and> c \<le> 57 then Some (c - 48)
     else if 97 \<le> c \<and> c \<le> 102 then Some (c - 87)
     else if 65 \<le> c \<and> c \<le> 70 then Some (c - 55) else None)"

fun hex4 :: "ustr \<Rightarrow> (nat \<times> ustr) option" where
  "hex4 (a # b # c # d # s) =
     (case (hex_val a, hex_val b, hex_val c, hex_val d) of
        (Some x, Some y, Some z, Some w) \<Rightarrow> Some (x * 4096 + y * 256 + z * 16 + w, s)
      | _ \<Rightarrow> None)"
| "hex4 s = None"

definition simple_escape :: "nat \<Rightarrow> nat option" where
  "simple_escape e =
     (if e = 34 \<or> e = 92 \<or> e = 47 then Some e
      else if e = 98 then Some 8 else if e = 102 then Some 12
      else if e = 110 then Some 10 else if e = 114 then Some 13
      else if e = 116 then Some 9 else None)"

text \<open>
  The part of an escape after its backslash: the code point it stands for and the rest of the
  text. A high surrogate joins a following escaped low surrogate.
\<close>

fun scan_escape :: "ustr \<Rightarrow> (nat \<times> ustr) option" where
  "scan_escape [] = None"
| "scan_escape (e # s) =
     (if e \<noteq> 117 then (case simple_escape e of None \<Rightarrow> None | Some c \<Rightarrow> Some (c, s))
      else (case hex4 s of
              None \<Rightarrow> None
            | Some (c, s') \<Rightarrow>
                if 55296 \<le> c \<and> c \<le> 56319 \<and> starts_with [92, 117] s' then
                  (case hex4 (drop 2 s') of
                     None \<Rightarrow> None
                   | Some (c2, s'') \<Rightarrow>
                       if 56320 \<le> c2 \<and> c2 \<le> 57343
                       then Some (65536 + (c - 55296) * 1024 + (c2 - 56320), s'')
                       else Some (c, s'))
                else Some (c, s')))"

lemma hex4_shorter: "hex4 s = Some (c, r) \<Longrightarrow> length r < length s"
  by (induction s rule: hex4.induct) (auto split: option.splits)

lemma scan_escape_shorter: "scan_escape s = Some (c, r) \<Longrightarrow> length r < length s"
  by (cases s) (auto split: if_splits option.splits prod.splits dest!: hex4_shorter)

text \<open>The characters of a string up to its closing quote (strict: no control character).\<close>

function scan_string :: "ustr \<Rightarrow> (ustr \<times> ustr) option" where
  "scan_string [] = None"
| "scan_string (c # s) =
     (if c = 34 then Some ([], s)
      else if c < 32 then None
      else if c \<noteq> 92 then (case scan_string s of None \<Rightarrow> None | Some (t, r) \<Rightarrow> Some (c # t, r))
      else (case scan_escape s of
              None \<Rightarrow> None
            | Some (d, s') \<Rightarrow>
                (case scan_string s' of None \<Rightarrow> None | Some (t, r) \<Rightarrow> Some (d # t, r))))"
  by pat_completeness auto
termination
  by (relation "measure length") (auto dest: scan_escape_shorter)

text \<open>The optional fraction and exponent of a number, with what follows them.\<close>

definition scan_frac :: "ustr \<Rightarrow> ustr \<times> ustr" where
  "scan_frac s = (case s of
     p # d # t \<Rightarrow> (if p = 46 \<and> is_digit d
                  then (46 # takeWhile is_digit (d # t), dropWhile is_digit (d # t)) else ([], s))
   | _ \<Rightarrow> ([], s))"

definition scan_exp :: "ustr \<Rightarrow> ustr \<times> ustr" where
  "scan_exp s = (case s of
     [] \<Rightarrow> ([], s)
   | e # t \<Rightarrow>
       (if e = 101 \<or> e = 69 then
          (let (sg, t') = (case t of c # t'' \<Rightarrow> if c = 43 \<or> c = 45 then ([c], t'') else ([], t)
                           | [] \<Rightarrow> ([], t));
               ds = takeWhile is_digit t'
           in if ds = [] then ([], s) else (e # sg @ ds, dropWhile is_digit t'))
        else ([], s)))"

definition scan_number :: "pyenv \<Rightarrow> ustr \<Rightarrow> (pyval \<times> ustr) res" where
  "scan_number E s =
     (let (sg, s1) = (if starts_with [45] s then ([45], drop 1 s) else ([], s)) in
      case s1 of
        [] \<Rightarrow> Inl JsonDecodeErr
      | c # t \<Rightarrow>
          if \<not> is_digit c then Inl JsonDecodeErr
          else
            (let ip = (if c = 48 then [48] else takeWhile is_digit s1);
                 s2 = (if c = 48 then t else dropWhile is_digit s1);
                 (fp, s3) = scan_frac s2;
                 (ep, s4) = scan_exp s3
             in if fp = [] \<and> ep = []
                then if int_max_str_digits < length ip then Inl ValueErr
                     else Inr (PInt (if sg = [] then digits_val ip else - digits_val ip), s4)
                else Inr (PFloat (float_of E (sg @ ip @ fp @ ep)), s4)))"

definition scan_scalar :: "pyenv \<Rightarrow> ustr \<Rightarrow> (pyval \<times> ustr) res" where
  "scan_scalar E s =
     (if starts_with (u ''null'') s then Inr (PNone, drop 4 s)
      else if starts_with (u ''true'') s then Inr (PBool True, drop 4 s)
      else if starts_with (u ''false'') s then Inr (PBool False, drop 5 s)
      else if starts_with (u ''NaN'') s then Inr (PFloat FNan, drop 3 s)
      else if starts_with (u ''Infinity'') s then Inr (PFloat FInf, drop 8 s)
      else if starts_with (u ''-Infinity'') s then Inr (PFloat FNegInf, drop 9 s)
      else scan_number E s)"

text \<open>\<open>dict(pairs)\<close>: of two members with the same key the later value wins.\<close>

definition dict_of :: "(ustr \<times> pyval) list \<Rightarrow> (ustr \<times> pyval) list" where
  "dict_of kvs = foldl (\<lambda>d kv. dict_set d (fst kv) (snd kv)) [] kvs"

fun parse_value :: "nat \<Rightarrow> pyenv \<Rightarrow> ustr \<Rightarrow> (pyval \<times> ustr) res"
  and parse_elems :: "nat \<Rightarrow> pyenv \<Rightarrow> ustr \<Rightarrow> (pyval list \<times> ustr) res"
  and parse_members :: "nat \<Rightarrow> pyenv \<Rightarrow> ustr \<Rightarrow> ((ustr \<times> pyval) list \<times> ustr) res" where
  "parse_value 0 E s = Inl OutOfFuel"
| "parse_value (Suc n) E s =
     (case s of
        [] \<Rightarrow> Inl JsonDecodeErr
      | c # t \<Rightarrow>
          if c = 34 then
            (case scan_string t of None \<Rightarrow> Inl JsonDecodeErr | Some (x, r) \<Rightarrow> Inr (PStr x, r))
          else if c = 123 then
            (if starts_with [125] (skip_ws t) then Inr (PDict [], drop 1 (skip_ws t))
             else sbind (parse_members n E (skip_ws t)) (\<lambda>(kvs, r). Inr (PDict (dict_of kvs), r)))
          else if c = 91 then
            (if starts_with [93] (skip_ws t) then Inr (PList [], drop 1 (skip_ws t))
             else sbind (parse_elems n E (skip_ws t)) (\<lambda>(vs, r). Inr (PList vs, r)))
          else scan_scalar E s)"
| "parse_elems 0 E s = Inl OutOfFuel"
| "parse_elems (Suc n) E s =
     sbind (parse_value n E s) (\<lambda>(v, r).
       case skip_ws r of
         [] \<Rightarrow> Inl JsonDecodeErr
       | c # r' \<Rightarrow>
           if c = 93 then Inr ([v], r')
           else if c = 44 then
             sbind (parse_elems n E (skip_ws r')) (\<lambda>(vs, r''). Inr (v # vs, r''))
           else Inl JsonDecodeErr)"
| "parse_members 0 E s = Inl OutOfFuel"
| "parse_members (Suc n) E s =
     (case s of
        [] \<Rightarrow> Inl JsonDecodeErr
      | q # t \<Rightarrow>
          if q \<noteq> 34 then Inl JsonDecodeErr
          else
            (case scan_string t of
               None \<Rightarrow> Inl JsonDecodeErr
             | Some (k, r) \<Rightarrow>
                 (case skip_ws r of
                    [] \<Rightarrow> Inl JsonDecodeErr
                  | c # r1 \<Rightarrow>
                      if c \<noteq> 58 then Inl JsonDecodeErr
                      else
                        sbind (parse_value n E (skip_ws r1)) (\<lambda>(v, r2).
                          case skip_ws r2 of
                            [] \<Rightarrow> Inl JsonDecodeErr
                          | d # r3 \<Rightarrow>
                              if d = 125 then Inr ([(k, v)], r3)
                              else if d = 44 then
                                sbind (parse_members n E (skip_ws r3))
                                  (\<lambda>(kvs, r4). Inr ((k, v) # kvs, r4))
                              else Inl JsonDecodeErr))))"

text \<open>A byte-order mark at the start, and anything but white space after the value, are errors.\<close>

definition json_loads :: "pyenv \<Rightarrow> ustr \<Rightarrow> pyval res" where
  "json_loads E s =
     (if starts_with [65279] s then Inl JsonDecodeErr
      else
        (case parse_value (2 * length s + 2) E (skip_ws s) of
           Inl e \<Rightarrow> Inl e
         | Inr (v, r) \<Rightarrow> if skip_ws r = [] then Inr v else Inl JsonDecodeErr))"

end
