(* ===== verification/Pytime.thy ===== *)
theory Pytime
  imports Json
begin

text \<open>
  The datetimes of the code: comparison and equality as CPython defines them (a naive and an aware
  value are unequal, and ordering them raises \<open>TypeError\<close>), conversion to UTC, and the text
  form the code stores. \<open>isoformat\<close> of a UTC datetime and the reading of such a text are
  concrete; which other texts \<open>fromisoformat\<close> accepts depends on the interpreter (3.10
  accepts far fewer than 3.11) and is the field \<open>iso_other\<close> of the environment, as the local
  time zone is its field \<open>local_off\<close>. The round trip of the text form needs neither.
\<close>

section \<open>Comparison and conversion\<close>

definition us_day :: int where
  "us_day = 86400000000"

definition max_us :: int where
  "max_us = 3652059 * us_day"

text \<open>The values a Python \<open>datetime\<close> can have: years 1 to 9999, offsets under a day.\<close>

definition dt_valid :: "dt \<Rightarrow> bool" where
  "dt_valid d \<longleftrightarrow> 0 \<le> wall d \<and> wall d < max_us
     \<and> (case utcoff d of None \<Rightarrow> True | Some off \<Rightarrow> \<bar>off\<bar> < us_day)"

definition aware :: "dt \<Rightarrow> bool" where
  "aware d \<longleftrightarrow> utcoff d \<noteq> None"

definition instant :: "dt \<Rightarrow> int" where
  "instant d = wall d - (case utcoff d of None \<Rightarrow> 0 | Some off \<Rightarrow> off)"

definition dt_lt :: "dt \<Rightarrow> dt \<Rightarrow> bool res" where
  "dt_lt a b = (if aware a = aware b then Inr (instant a < instant b) else Inl TypeErr)"

definition dt_ge :: "dt \<Rightarrow> dt \<Rightarrow> bool res" where
  "dt_ge a b = (if aware a = aware b then Inr (instant b \<le> instant a) else Inl TypeErr)"

definition dt_eq :: "dt \<Rightarrow> dt \<Rightarrow> bool" where
  "dt_eq a b \<longleftrightarrow> aware a = aware b \<and> instant a = instant b"

definition opt_dt_eq :: "dt option \<Rightarrow> dt option \<Rightarrow> bool" where
  "opt_dt_eq a b = (case (a, b) of (None, None) \<Rightarrow> True
     | (Some x, Some y) \<Rightarrow> dt_eq x y | _ \<Rightarrow> False)"

text \<open>\<open>d.astimezone(timezone.utc)\<close>; a naive value is taken to be in the local time zone.\<close>

definition astimezone_utc :: "pyenv \<Rightarrow> dt \<Rightarrow> dt res" where
  "astimezone_utc E d =
     (let w = wall d - (case utcoff d of None \<Rightarrow> local_off E (wall d) | Some off \<Rightarrow> off) in
      if 0 \<le> w \<and> w < max_us then Inr (Dt w (Some 0)) else Inl OverflowErr)"

lemma dt_eq_refl [simp]: "dt_eq d d"
  by (simp add: dt_eq_def)

lemma dt_eq_sym: "dt_eq a b \<Longrightarrow> dt_eq b a"
  by (auto simp: dt_eq_def)

lemma dt_eq_trans: "dt_eq a b \<Longrightarrow> dt_eq b c \<Longrightarrow> dt_eq a c"
  by (auto simp: dt_eq_def)

lemma opt_dt_eq_simps [simp]:
  "opt_dt_eq None None" "\<not> opt_dt_eq None (Some d)" "\<not> opt_dt_eq (Some d) None"
  "opt_dt_eq (Some a) (Some b) = dt_eq a b" "opt_dt_eq x x"
  by (simp_all add: opt_dt_eq_def split: option.splits)

lemma opt_dt_eq_sym: "opt_dt_eq a b \<Longrightarrow> opt_dt_eq b a"
  by (cases a; cases b) (auto dest: dt_eq_sym)

lemma opt_dt_eq_trans: "opt_dt_eq a b \<Longrightarrow> opt_dt_eq b c \<Longrightarrow> opt_dt_eq a c"
  by (cases a; cases b; cases c) (auto dest: dt_eq_trans)

section \<open>The calendar\<close>

text \<open>Years are counted from 0 (year 1 of the calendar), days from 0 (0001-01-01).\<close>

definition days_before_year :: "nat \<Rightarrow> nat" where
  "days_before_year k = 365 * k + k div 4 - k div 100 + k div 400"

lemma days_before_year_ge: "k \<le> days_before_year k"
proof -
  have "k div 100 \<le> k div 4"
    by (simp add: div_le_mono2)
  then show ?thesis by (simp add: days_before_year_def)
qed

function find_year :: "nat \<Rightarrow> nat \<Rightarrow> nat" where
  "find_year d k = (if days_before_year (Suc k) \<le> d then find_year d (Suc k) else k)"
  by pat_completeness auto
termination
proof (relation "measure (\<lambda>(d, k). d - k)")
  fix d k
  assume "days_before_year (Suc k) \<le> d"
  with days_before_year_ge [of "Suc k"] show "((d, Suc k), d, k) \<in> measure (\<lambda>(d, k). d - k)"
    by simp
qed simp

declare find_year.simps [simp del]

definition is_leap :: "nat \<Rightarrow> bool" where
  "is_leap y \<longleftrightarrow> 4 dvd y \<and> (\<not> 100 dvd y \<or> 400 dvd y)"

definition days_in_month :: "nat \<Rightarrow> nat \<Rightarrow> nat" where
  "days_in_month y m =
     (if m = 2 then (if is_leap y then 29 else 28)
      else if m = 4 \<or> m = 6 \<or> m = 9 \<or> m = 11 then 30 else 31)"

definition days_before_month :: "nat \<Rightarrow> nat \<Rightarrow> nat" where
  "days_before_month y m = sum_list (map (days_in_month y) [1..<m])"

function find_month :: "nat \<Rightarrow> nat \<Rightarrow> nat \<Rightarrow> nat \<times> nat" where
  "find_month y m r =
     (if r < days_in_month y m \<or> 12 \<le> m then (m, Suc r)
      else find_month y (Suc m) (r - days_in_month y m))"
  by pat_completeness auto
termination
  by (relation "measure (\<lambda>(y, m, r). 12 - m)") auto

declare find_month.simps [simp del]

definition civil :: "nat \<Rightarrow> nat \<times> nat \<times> nat" where
  "civil d =
     (let k = find_year d (d div 366);
          (m, dd) = find_month (Suc k) 1 (d - days_before_year k)
      in (Suc k, m, dd))"

definition ordinal :: "nat \<Rightarrow> nat \<Rightarrow> nat \<Rightarrow> nat" where
  "ordinal y m dd = days_before_year (y - 1) + days_before_month y m + (dd - 1)"

definition date_valid :: "nat \<Rightarrow> nat \<Rightarrow> nat \<Rightarrow> bool" where
  "date_valid y m dd \<longleftrightarrow>
     1 \<le> y \<and> y \<le> 9999 \<and> 1 \<le> m \<and> m \<le> 12 \<and> 1 \<le> dd \<and> dd \<le> days_in_month y m"

section \<open>Text forms\<close>

text \<open>\<open>"%0kd" % n\<close> for a number of at most \<open>k\<close> digits, and the value of such digits.\<close>

fun pad :: "nat \<Rightarrow> nat \<Rightarrow> ustr" where
  "pad 0 n = []"
| "pad (Suc k) n = pad k (n div 10) @ [48 + n mod 10]"

definition num_of :: "ustr \<Rightarrow> nat" where
  "num_of ds = foldl (\<lambda>a d. a * 10 + (d - 48)) 0 ds"

text \<open>\<open>isoformat()\<close> of the UTC datetime at \<open>w\<close> microseconds, without the offset.\<close>

definition iso_base :: "int \<Rightarrow> ustr" where
  "iso_base w =
     (let n = nat w; (y, m, dd) = civil (n div 86400000000);
          us = n mod 86400000000; s = us div 1000000; f = us mod 1000000
      in pad 4 y @ [45] @ pad 2 m @ [45] @ pad 2 dd @ [84]
         @ pad 2 (s div 3600) @ [58] @ pad 2 (s div 60 mod 60) @ [58] @ pad 2 (s mod 60)
         @ (if f = 0 then [] else [46] @ pad 6 f))"

definition isoformat_utc :: "int \<Rightarrow> ustr" where
  "isoformat_utc w = iso_base w @ u ''+00:00''"

definition all_digits :: "ustr \<Rightarrow> bool" where
  "all_digits ds \<longleftrightarrow> (\<forall>d \<in> set ds. is_digit d)"

text \<open>A text of the form \<open>isoformat\<close> prints for UTC, read back.\<close>

definition parse_iso_utc :: "ustr \<Rightarrow> dt option" where
  "parse_iso_utc s =
     (let y = take 4 s; m = take 2 (drop 5 s); dd = take 2 (drop 8 s);
          hh = take 2 (drop 11 s); mi = take 2 (drop 14 s); ss = take 2 (drop 17 s);
          rest = drop 19 s;
          frac = (if starts_with [46] rest then take 6 (drop 1 rest) else pad 6 0);
          tail = (if starts_with [46] rest then drop 7 rest else rest)
      in if take 1 (drop 4 s) = [45] \<and> take 1 (drop 7 s) = [45] \<and> take 1 (drop 10 s) = [84]
            \<and> take 1 (drop 13 s) = [58] \<and> take 1 (drop 16 s) = [58] \<and> tail = u ''+00:00''
            \<and> length frac = 6 \<and> all_digits (y @ m @ dd @ hh @ mi @ ss @ frac)
            \<and> date_valid (num_of y) (num_of m) (num_of dd)
            \<and> num_of hh < 24 \<and> num_of mi < 60 \<and> num_of ss < 60
         then Some (Dt (int (ordinal (num_of y) (num_of m) (num_of dd) * 86400000000
                + (num_of hh * 3600 + num_of mi * 60 + num_of ss) * 1000000 + num_of frac)) (Some 0))
         else None)"

definition fromisoformat :: "pyenv \<Rightarrow> ustr \<Rightarrow> dt res" where
  "fromisoformat E s =
     (case parse_iso_utc s of
        Some d \<Rightarrow> Inr d
      | None \<Rightarrow> (case iso_other E s of Some d \<Rightarrow> Inr d | None \<Rightarrow> Inl ValueErr))"

text \<open>The two conversions the registries share.\<close>

definition dt_to_rfc3339 :: "pyenv \<Rightarrow> dt \<Rightarrow> ustr res" where
  "dt_to_rfc3339 E d =
     (if \<not> aware d then Inl ValueErr
      else sbind (astimezone_utc E d) (\<lambda>in_utc.
        let iso = isoformat_utc (wall in_utc) in
        Inr (if ends_with (u ''+00:00'') iso then take (length iso - 6) iso @ u ''Z'' else iso)))"

definition rfc3339_to_dt :: "pyenv \<Rightarrow> pyval \<Rightarrow> dt res" where
  "rfc3339_to_dt E value =
     (case value of
        PStr s \<Rightarrow>
          (let s' = (if ends_with (u ''Z'') s then take (length s - 1) s @ u ''+00:00'' else s) in
           sbind (fromisoformat E s') (astimezone_utc E))
      | _ \<Rightarrow> Inl ValueErr)"

section \<open>Reading a printed date\<close>

lemma div_Suc_dvd: "0 < n \<Longrightarrow> Suc k div n = k div n + (if n dvd Suc k then 1 else 0)"
  by (simp add: div_Suc dvd_eq_mod_eq_0)

lemma leap_step:
  fixes a b e k :: nat
  assumes "b \<le> a" "p100 \<longrightarrow> p4" "p400 \<longrightarrow> p100"
  shows "365 * Suc k + (a + (if p4 then 1 else 0)) - (b + (if p100 then 1 else 0))
      + (e + (if p400 then 1 else 0))
    = 365 * k + a - b + e + (if p4 \<and> (\<not> p100 \<or> p400) then 366 else 365)"
  using assms by (cases p4; cases p100; cases p400; simp; linarith?)

lemma days_before_year_Suc:
  "days_before_year (Suc k) = days_before_year k + (if is_leap (Suc k) then 366 else 365)"
proof -
  have le: "k div 100 \<le> k div 4"
    by (simp add: div_le_mono2)
  have c: "4 dvd Suc k" if "100 dvd Suc k"
    using that by (rule dvd_trans [rotated]) simp
  have e: "100 dvd Suc k" if "400 dvd Suc k"
    using that by (rule dvd_trans [rotated]) simp
  define p4 where "p4 \<longleftrightarrow> 4 dvd Suc k"
  define p100 where "p100 \<longleftrightarrow> 100 dvd Suc k"
  define p400 where "p400 \<longleftrightarrow> 400 dvd Suc k"
  have d: "Suc k div 4 = k div 4 + (if p4 then 1 else 0)"
    "Suc k div 100 = k div 100 + (if p100 then 1 else 0)"
    "Suc k div 400 = k div 400 + (if p400 then 1 else 0)"
    unfolding p4_def p100_def p400_def by (rule div_Suc_dvd, simp)+
  have l: "is_leap (Suc k) \<longleftrightarrow> p4 \<and> (\<not> p100 \<or> p400)"
    by (simp add: is_leap_def p4_def p100_def p400_def)
  have "p100 \<longrightarrow> p4" "p400 \<longrightarrow> p100"
    using c e by (auto simp: p4_def p100_def p400_def)
  with le show ?thesis
    unfolding days_before_year_def d l by (intro leap_step) auto
qed

lemma days_before_year_mono: "k \<le> l \<Longrightarrow> days_before_year k \<le> days_before_year l"
  by (rule lift_Suc_mono_le [of days_before_year]) (simp_all add: days_before_year_Suc)

lemma days_before_year_le: "days_before_year k \<le> 366 * k"
  by (induction k) (auto simp: days_before_year_Suc, simp add: days_before_year_def)

lemma find_year_correct:
  "days_before_year k \<le> d \<Longrightarrow>
     days_before_year (find_year d k) \<le> d \<and> d < days_before_year (Suc (find_year d k))"
proof (induction d k rule: find_year.induct)
  case (1 d k)
  then show ?case by (subst (1 2) find_year.simps) auto
qed

lemma find_month_correct:
  assumes "1 \<le> m" "m \<le> 12" "r < sum_list (map (days_in_month y) [m..<13])"
    and "find_month y m r = (m', dd)"
  shows "m \<le> m' \<and> m' \<le> 12 \<and> 1 \<le> dd \<and> dd \<le> days_in_month y m'
    \<and> r = sum_list (map (days_in_month y) [m..<m']) + (dd - 1)"
  using assms
proof (induction y m r arbitrary: m' dd rule: find_month.induct)
  case (1 y m r)
  have split: "[m..<13] = m # [Suc m..<13]"
    using "1.prems"(2) by (simp add: upt_rec)
  show ?case
  proof (cases "r < days_in_month y m \<or> 12 \<le> m")
    case True
    moreover have "r < days_in_month y m"
      using True "1.prems" split by (cases "m = 12") auto
    ultimately show ?thesis
      using "1.prems" by (subst (asm) find_month.simps) auto
  next
    case False
    then have r: "r - days_in_month y m < sum_list (map (days_in_month y) [Suc m..<13])"
      using "1.prems"(3) unfolding split by (simp only: list.map sum_list.Cons) linarith
    have "find_month y (Suc m) (r - days_in_month y m) = (m', dd)"
      using "1.prems"(4) False by (subst (asm) find_month.simps) simp
    from "1.IH" [OF False _ _ r this] False
    have ih: "Suc m \<le> m'" "m' \<le> 12" "1 \<le> dd" "dd \<le> days_in_month y m'"
      "r - days_in_month y m = sum_list (map (days_in_month y) [Suc m..<m']) + (dd - 1)"
      by auto
    then have "[m..<m'] = m # [Suc m..<m']"
      by (simp add: upt_rec)
    with ih False show ?thesis by simp
  qed
qed

lemma year_length:
  "sum_list (map (days_in_month y) [1..<13]) = (if is_leap y then 366 else 365)"
proof -
  have "[1..<13] = [1, 2, 3, 4, 5, 6, 7, 8, 9, 10, 11, 12::nat]"
    by (simp add: upt_rec)
  then show ?thesis by (simp add: days_in_month_def)
qed

lemma civil_correct:
  assumes "d < 3652059" "civil d = (y, m, dd)"
  shows "ordinal y m dd = d" "date_valid y m dd"
proof -
  let ?k = "find_year d (d div 366)"
  have "days_before_year (d div 366) \<le> d"
    using days_before_year_le [of "d div 366"] by (rule order_trans) simp
  note k = find_year_correct [OF this]
  have "days_before_year 9999 = 3652059"
    by (simp add: days_before_year_def)
  with k assms(1) days_before_year_mono [of 9999 ?k] have k9: "?k < 9999"
    by linarith
  obtain m' dd' where md: "find_month (Suc ?k) 1 (d - days_before_year ?k) = (m', dd')"
    by (cases "find_month (Suc ?k) 1 (d - days_before_year ?k)")
  with assms(2) have eqs: "y = Suc ?k" "m' = m" "dd' = dd"
    by (auto simp: civil_def Let_def)
  have "d - days_before_year ?k < sum_list (map (days_in_month (Suc ?k)) [1..<13])"
    unfolding year_length using k by (auto simp: days_before_year_Suc)
  from find_month_correct [OF _ _ this md] eqs
  have "1 \<le> m \<and> m \<le> 12 \<and> 1 \<le> dd \<and> dd \<le> days_in_month y m
      \<and> d - days_before_year ?k = days_before_month y m + (dd - 1)"
    by (simp add: days_before_month_def)
  note md' = this
  with eqs k9 show "date_valid y m dd"
    by (auto simp: date_valid_def)
  have "d - days_before_year ?k + days_before_year ?k = d"
    using k by simp
  with md' eqs(1) show "ordinal y m dd = d"
    unfolding ordinal_def by (simp only: diff_Suc_1 ac_simps)
qed

lemma length_pad [simp]: "length (pad k n) = k"
  by (induction k n rule: pad.induct) auto

lemma digits_pad: "d \<in> set (pad k n) \<Longrightarrow> is_digit d"
  by (induction k n rule: pad.induct) (auto simp: is_digit_def)

lemma num_of_pad: "n < 10 ^ k \<Longrightarrow> num_of (pad k n) = n"
proof (induction k n rule: pad.induct)
  case (2 k n)
  then have "n div 10 < 10 ^ k"
    by (simp add: less_mult_imp_div_less mult.commute)
  with 2 show ?case by (simp add: num_of_def)
qed (simp add: num_of_def)

lemma all_digits_app [simp]: "all_digits (a @ b) \<longleftrightarrow> all_digits a \<and> all_digits b"
  by (auto simp: all_digits_def)

lemma all_digits_pad [simp]: "all_digits (pad k n)"
  by (auto simp: all_digits_def digits_pad)

lemma split_day:
  fixes n :: nat
  shows "n div 86400000000 * 86400000000
    + ((n mod 86400000000 div 1000000) * 1000000 + n mod 86400000000 mod 1000000) = n"
  by simp

lemma split_seconds:
  fixes s :: nat
  assumes "s < 86400"
  shows "s div 3600 * 3600 + s div 60 mod 60 * 60 + s mod 60 = s" "s div 3600 < 24"
proof -
  have "s div 3600 = s div 60 div 60"
    by (simp add: div_mult2_eq [symmetric])
  then have "s div 3600 * 60 + s div 60 mod 60 = s div 60"
    by (simp only: div_mult_mod_eq)
  then have "(s div 3600 * 60 + s div 60 mod 60) * 60 + s mod 60 = s"
    by simp
  then show "s div 3600 * 3600 + s div 60 mod 60 * 60 + s mod 60 = s"
    by (simp add: algebra_simps)
  show "s div 3600 < 24"
    using assms by (simp add: less_mult_imp_div_less)
qed

lemma drop_app: "n = length a \<Longrightarrow> drop n (a @ b) = b" "n = length a \<Longrightarrow> take n (a @ b) = a"
  by auto

text \<open>The shape of a printed time, field by field.\<close>

lemma parse_shape:
  assumes len: "length y = 4" "length m = 2" "length dd = 2" "length hh = 2" "length mi = 2"
    "length ss = 2" "length f = 6"
    and dig: "all_digits (y @ m @ dd @ hh @ mi @ ss @ f)"
    and tl: "tail = [46] @ f @ u ''+00:00'' \<or> tail = u ''+00:00'' \<and> f = pad 6 0"
    and ok: "date_valid (num_of y) (num_of m) (num_of dd)"
      "num_of hh < 24" "num_of mi < 60" "num_of ss < 60"
  shows "parse_iso_utc (y @ [45] @ m @ [45] @ dd @ [84] @ hh @ [58] @ mi @ [58] @ ss @ tail)
    = Some (Dt (int (ordinal (num_of y) (num_of m) (num_of dd) * 86400000000
                + (num_of hh * 3600 + num_of mi * 60 + num_of ss) * 1000000 + num_of f)) (Some 0))"
proof -
  let ?s = "y @ [45] @ m @ [45] @ dd @ [84] @ hh @ [58] @ mi @ [58] @ ss @ tail"
  obtain y1 y2 y3 y4 where y: "y = [y1, y2, y3, y4]"
    using len(1) by (auto simp: length_Suc_conv eval_nat_numeral)
  obtain m1 m2 d1 d2 h1 h2 i1 i2 s1 s2 where ab: "m = [m1, m2]" "dd = [d1, d2]" "hh = [h1, h2]"
    "mi = [i1, i2]" "ss = [s1, s2]"
    using len(2-6) by (auto simp: length_Suc_conv eval_nat_numeral)
  have fields: "take 4 ?s = y" "take 2 (drop 5 ?s) = m" "take 2 (drop 8 ?s) = dd"
    "take 2 (drop 11 ?s) = hh" "take 2 (drop 14 ?s) = mi" "take 2 (drop 17 ?s) = ss"
    "drop 19 ?s = tail" "take 1 (drop 4 ?s) = [45]" "take 1 (drop 7 ?s) = [45]"
    "take 1 (drop 10 ?s) = [84]" "take 1 (drop 13 ?s) = [58]" "take 1 (drop 16 ?s) = [58]"
    unfolding y ab by simp_all
  have u0: "u ''+00:00'' = [43, 48, 48, 58, 48, 48]"
    by (simp add: u_def)
  have d7: "drop 7 ([46] @ f @ r) = r" "take 6 (drop 1 ([46] @ f @ r)) = f" for r
    using len(7) by simp_all
  have frac: "(if starts_with [46] tail then take 6 (drop 1 tail) else pad 6 0) = f"
    "(if starts_with [46] tail then drop 7 tail else tail) = u ''+00:00''"
    using tl d7 by (auto simp: u0 simp del: pad.simps)
  show ?thesis
    unfolding parse_iso_utc_def Let_def fields frac using dig ok len(7) by simp
qed

lemma parse_fields:
  assumes "y < 10000" "m < 100" "dd < 100" "hh < 24" "mi < 60" "ss < 60" "f < 1000000"
    and "date_valid y m dd"
  shows "parse_iso_utc (pad 4 y @ [45] @ pad 2 m @ [45] @ pad 2 dd @ [84]
           @ pad 2 hh @ [58] @ pad 2 mi @ [58] @ pad 2 ss
           @ (if f = 0 then [] else [46] @ pad 6 f) @ u ''+00:00'')
    = Some (Dt (int (ordinal y m dd * 86400000000
                + (hh * 3600 + mi * 60 + ss) * 1000000 + f)) (Some 0))"
proof -
  have n: "num_of (pad 4 y) = y" "num_of (pad 2 m) = m" "num_of (pad 2 dd) = dd"
    "num_of (pad 2 hh) = hh" "num_of (pad 2 mi) = mi" "num_of (pad 2 ss) = ss"
    "num_of (pad 6 f) = f"
    using assms by (auto intro!: num_of_pad simp del: pad.simps)
  have "parse_iso_utc (pad 4 y @ [45] @ pad 2 m @ [45] @ pad 2 dd @ [84] @ pad 2 hh @ [58]
      @ pad 2 mi @ [58] @ pad 2 ss @ ((if f = 0 then [] else [46] @ pad 6 f) @ u ''+00:00''))
    = Some (Dt (int (ordinal (num_of (pad 4 y)) (num_of (pad 2 m)) (num_of (pad 2 dd)) * 86400000000
        + (num_of (pad 2 hh) * 3600 + num_of (pad 2 mi) * 60 + num_of (pad 2 ss)) * 1000000
        + num_of (pad 6 f))) (Some 0))"
    by (rule parse_shape) (simp_all add: n assms del: pad.simps)
  then show ?thesis by (simp only: n)
qed

theorem parse_isoformat_utc:
  assumes "0 \<le> w" "w < max_us"
  shows "parse_iso_utc (isoformat_utc w) = Some (Dt w (Some 0))"
proof -
  define d where "d = nat w div 86400000000"
  define us where "us = nat w mod 86400000000"
  define s where "s = us div 1000000"
  define f where "f = us mod 1000000"
  have "nat w < 3652059 * 86400000000"
    using assms by (simp add: max_us_def us_day_def)
  then have d: "d < 3652059"
    unfolding d_def by (simp add: less_mult_imp_div_less)
  obtain y m dd where c: "civil d = (y, m, dd)"
    by (cases "civil d")
  note cc = civil_correct [OF d c]
  have dim: "days_in_month y m < 100"
    by (simp add: days_in_month_def)
  have "us < 86400 * 1000000"
    unfolding us_def by simp
  then have s: "s < 86400"
    unfolding s_def by (simp add: less_mult_imp_div_less)
  have f: "f < 1000000"
    unfolding f_def by simp
  have "ordinal y m dd * 86400000000
      + (s div 3600 * 3600 + s div 60 mod 60 * 60 + s mod 60) * 1000000 + f = nat w"
    unfolding cc(1) split_seconds(1) [OF s]
    using split_day [of "nat w"] unfolding d_def s_def f_def us_def by (simp only: add.assoc)
  note val = this
  have b: "y < 10000" "m < 100" "dd < 100"
    using cc(2) dim by (auto simp: date_valid_def)
  have "isoformat_utc w = pad 4 y @ [45] @ pad 2 m @ [45] @ pad 2 dd @ [84]
           @ pad 2 (s div 3600) @ [58] @ pad 2 (s div 60 mod 60) @ [58] @ pad 2 (s mod 60)
           @ (if f = 0 then [] else [46] @ pad 6 f) @ u ''+00:00''"
    unfolding isoformat_utc_def iso_base_def Let_def d_def [symmetric] us_def [symmetric]
      s_def [symmetric] f_def [symmetric] c by (simp del: pad.simps)
  also have "parse_iso_utc \<dots> = Some (Dt (int (nat w)) (Some 0))"
    unfolding val [symmetric]
    by (rule parse_fields [OF b split_seconds(2) [OF s] _ _ f cc(2)]) simp_all
  finally show ?thesis using assms(1) by simp
qed

lemma isoformat_utc_Z:
  assumes "0 \<le> w" "w < max_us"
  shows "fromisoformat E (isoformat_utc w) = Inr (Dt w (Some 0))"
  by (simp add: fromisoformat_def parse_isoformat_utc [OF assms])

lemma astimezone_utc_InrD:
  "astimezone_utc E d = Inr d' \<Longrightarrow> utcoff d' = Some 0 \<and> 0 \<le> wall d' \<and> wall d' < max_us"
  by (auto simp: astimezone_utc_def Let_def split: if_splits)

lemma astimezone_utc_utc [simp]:
  "0 \<le> w \<Longrightarrow> w < max_us \<Longrightarrow> astimezone_utc E (Dt w (Some 0)) = Inr (Dt w (Some 0))"
  by (simp add: astimezone_utc_def)

lemma astimezone_utc_eq: "aware d \<Longrightarrow> astimezone_utc E d = Inr d' \<Longrightarrow> dt_eq d' d"
  by (auto simp: astimezone_utc_def dt_eq_def aware_def instant_def Let_def split: if_splits)

text \<open>The text form of an aware datetime reads back as that datetime in UTC.\<close>

lemma rfc3339_roundtrip:
  assumes "dt_to_rfc3339 E d = Inr s"
  shows "aware d \<and> rfc3339_to_dt E (PStr s) = astimezone_utc E d"
proof -
  from assms obtain d' where d': "aware d" "astimezone_utc E d = Inr d'"
    and s: "s = iso_base (wall d') @ u ''Z''"
    by (auto simp: dt_to_rfc3339_def isoformat_utc_def Let_def ensure_def split: if_splits)
  note b = astimezone_utc_InrD [OF d'(2)]
  then have "d' = Dt (wall d') (Some 0)"
    by (cases d') auto
  then have "astimezone_utc E d' = Inr d'"
    using b astimezone_utc_utc [of "wall d'" E] by simp
  with b d' s show ?thesis
    using \<open>d' = Dt (wall d') (Some 0)\<close> isoformat_utc_Z [unfolded isoformat_utc_def, of "wall d'" E]
    by (simp add: rfc3339_to_dt_def)
qed

lemma pad_ok: "c \<in> set (pad k n) \<Longrightarrow> is_scalar c"
  using digits_pad by (fastforce simp: is_digit_def is_scalar_def is_surrogate_def)

lemma isoformat_ok: "\<forall>c \<in> set (isoformat_utc w). is_scalar c"
  by (auto simp: isoformat_utc_def iso_base_def u_def Let_def is_scalar_def [of "numeral _"] is_surrogate_def dest: pad_ok simp del: pad.simps
      split: prod.splits if_splits)

end
