(* ===== verification/PolicyGate.thy ===== *)
theory PolicyGate
  imports Fnmatch Pytime
begin

text \<open>
  The authorisation gate of the schema registry
  (\<open>wakir_protocol/schemas/registered_by_capability.py\<close>): the policy bundle and the checks of its
  constructor, the in-memory registry of bundles, and the gate that decides whether the identity
  that registered an entry was entitled to. A decision carries its source and the policy it rests
  on; the free-form \<open>reason\<close> string, which the code formats from the same data, is left out.

  A check of an argument's Python type is modelled where the code lets an unchecked value reach
  it (values read from a JSON document) and is a type of the model elsewhere. Comparing a naive
  with an aware datetime raises \<open>TypeError\<close>, so the gate can raise when the caller's clock or a
  policy's window is naive.
\<close>

section \<open>Decision sources\<close>

datatype decision_source =
    POLICY_MATCH | POLICY_DISABLED | NO_POLICY_FOR_ISSUER | KID_NOT_ALLOWED
  | TRIPLE_NOT_ALLOWED | OUTSIDE_VALIDITY_WINDOW | POLICY_REVOKED

text \<open>How specific a denial is: the gate reports the most specific one it met.\<close>

fun source_rank :: "decision_source \<Rightarrow> nat" where
  "source_rank NO_POLICY_FOR_ISSUER = 0"
| "source_rank POLICY_DISABLED = 1"
| "source_rank KID_NOT_ALLOWED = 2"
| "source_rank TRIPLE_NOT_ALLOWED = 3"
| "source_rank OUTSIDE_VALIDITY_WINDOW = 4"
| "source_rank POLICY_REVOKED = 5"
| "source_rank POLICY_MATCH = 6"

lemma source_rank_inj: "source_rank a = source_rank b \<Longrightarrow> a = b"
  by (cases a; cases b) auto

instantiation decision_source :: linorder
begin

definition less_eq_decision_source :: "decision_source \<Rightarrow> decision_source \<Rightarrow> bool" where
  "less_eq_decision_source a b \<longleftrightarrow> source_rank a \<le> source_rank b"

definition less_decision_source :: "decision_source \<Rightarrow> decision_source \<Rightarrow> bool" where
  "less_decision_source a b \<longleftrightarrow> source_rank a < source_rank b"

instance
  by standard
    (auto simp: less_eq_decision_source_def less_decision_source_def dest: source_rank_inj)

end

section \<open>Policies\<close>

record capability_policy =
  registered_by :: ustr
  allowed_kids :: "ustr list"
  allowed_triples :: "(ustr \<times> ustr) list"
  not_before :: "dt option"
  not_after :: "dt option"
  disabled :: bool
  policy_note :: "ustr option"
  revoked_at :: "dt option"
  revocation_reason :: "ustr option"

text \<open>
  \<open>CapabilityPolicy.__init__\<close> with its \<open>__post_init__\<close>. The identity and the key ids may be any
  Python value, as the envelope decoder passes them unchecked.
\<close>

fun as_str :: "exc \<Rightarrow> pyval \<Rightarrow> ustr res" where
  "as_str e (PStr s) = (if s = [] then Inl e else Inr s)"
| "as_str e v = Inl e"

definition window_ordered :: "dt option \<Rightarrow> dt option \<Rightarrow> unit res" where
  "window_ordered nb na =
     (case (nb, na) of
        (Some b, Some a) \<Rightarrow>
          sbind (dt_ge b a) (\<lambda>ge. ensure (\<not> ge) RegisteredByCapabilityErr)
      | _ \<Rightarrow> Inr ())"

definition mk_policy ::
  "pyval \<Rightarrow> pyval list \<Rightarrow> (ustr \<times> ustr) list \<Rightarrow> dt option \<Rightarrow> dt option \<Rightarrow> bool \<Rightarrow>
     ustr option \<Rightarrow> dt option \<Rightarrow> ustr option \<Rightarrow> capability_policy res" where
  "mk_policy rb kids triples nb na dis nt rv reason =
     sbind (as_str RegisteredByCapabilityErr rb) (\<lambda>rb.
     sbind (ensure (kids \<noteq> []) RegisteredByCapabilityErr) (\<lambda>_.
     sbind (mapM_sum (as_str RegisteredByCapabilityErr) kids) (\<lambda>kids.
     sbind (ensure (triples \<noteq> []) RegisteredByCapabilityErr) (\<lambda>_.
     sbind (ensure (\<forall>t \<in> set triples. fst t \<noteq> [] \<and> snd t \<noteq> []) RegisteredByCapabilityErr) (\<lambda>_.
     sbind (window_ordered nb na) (\<lambda>_.
     sbind (ensure (case rv of None \<Rightarrow> True | Some r \<Rightarrow> aware r) RegisteredByCapabilityErr) (\<lambda>_.
     sbind (ensure (reason \<noteq> None \<longrightarrow> rv \<noteq> None) RegisteredByCapabilityErr) (\<lambda>_.
     Inr \<lparr>registered_by = rb, allowed_kids = kids, allowed_triples = triples, not_before = nb,
          not_after = na, disabled = dis, policy_note = nt, revoked_at = rv,
          revocation_reason = reason\<rparr>))))))))"

fun covers_triple_list :: "(ustr \<times> ustr) list \<Rightarrow> ustr \<Rightarrow> ustr \<Rightarrow> bool" where
  "covers_triple_list [] layer name = False"
| "covers_triple_list ((pat_layer, pat_name) # ts) layer name =
     (if pat_layer \<noteq> u ''*'' \<and> pat_layer \<noteq> layer then covers_triple_list ts layer name
      else if \<not> fnmatchcase name pat_name then covers_triple_list ts layer name
      else True)"

definition covers_triple :: "capability_policy \<Rightarrow> ustr \<Rightarrow> ustr \<Rightarrow> bool" where
  "covers_triple p layer name = covers_triple_list (allowed_triples p) layer name"

text \<open>What the constructor guarantees of every policy that exists.\<close>

definition policy_wf :: "capability_policy \<Rightarrow> bool" where
  "policy_wf p \<longleftrightarrow> registered_by p \<noteq> [] \<and> allowed_kids p \<noteq> [] \<and> [] \<notin> set (allowed_kids p)
     \<and> allowed_triples p \<noteq> [] \<and> (\<forall>t \<in> set (allowed_triples p). fst t \<noteq> [] \<and> snd t \<noteq> [])
     \<and> (case (not_before p, not_after p) of (Some b, Some a) \<Rightarrow> dt_ge b a = Inr False | _ \<Rightarrow> True)
     \<and> (case revoked_at p of None \<Rightarrow> revocation_reason p = None | Some r \<Rightarrow> aware r)"

section \<open>The registry\<close>

text \<open>\<open>_by_issuer\<close>: a dict from identities to the policies added for them, oldest first.\<close>

type_synonym registry = "(ustr \<times> capability_policy list) list"

definition policies_for :: "registry \<Rightarrow> ustr \<Rightarrow> capability_policy list" where
  "policies_for reg rb = (case map_of reg rb of None \<Rightarrow> [] | Some ps \<Rightarrow> ps)"

definition add_policy :: "capability_policy \<Rightarrow> registry \<Rightarrow> registry" where
  "add_policy p reg = dict_set reg (registered_by p) (policies_for reg (registered_by p) @ [p])"

definition list_issuers :: "registry \<Rightarrow> ustr list" where
  "list_issuers reg = sort (map fst reg)"

section \<open>The gate\<close>

record schema_entry =
  entry_layer :: ustr
  entry_name :: ustr
  entry_version :: ustr
  schema_id :: ustr
  schema_body :: "(ustr \<times> pyval) list"
  schema_body_sha256 :: ustr
  entry_registered_at :: dt
  entry_registered_by :: ustr
  supersedes :: "ustr option"

record gate_decision =
  allowed :: bool
  source :: decision_source
  policy :: "capability_policy option"

definition is_revoked :: "capability_policy \<Rightarrow> dt option \<Rightarrow> bool res" where
  "is_revoked p as_of =
     (case revoked_at p of
        None \<Rightarrow> Inr False
      | Some r \<Rightarrow> (case as_of of None \<Rightarrow> Inr True | Some t \<Rightarrow> dt_ge t r))"

definition window_contains :: "capability_policy \<Rightarrow> dt option \<Rightarrow> bool res" where
  "window_contains p as_of =
     (case as_of of
        None \<Rightarrow> Inr True
      | Some t \<Rightarrow>
          sbind (case not_before p of None \<Rightarrow> Inr False | Some b \<Rightarrow> dt_lt t b) (\<lambda>before.
          if before then Inr False
          else sbind (case not_after p of None \<Rightarrow> Inr False | Some a \<Rightarrow> dt_ge t a) (\<lambda>after.
            Inr (\<not> after))))"

abbreviation deny :: "decision_source \<Rightarrow> capability_policy \<Rightarrow> gate_decision" where
  "deny s p \<equiv> \<lparr>allowed = False, source = s, policy = Some p\<rparr>"

text \<open>The loop over the candidates; \<open>fb\<close> is the denial remembered so far.\<close>

fun gate_loop ::
  "schema_entry \<Rightarrow> ustr \<Rightarrow> dt option \<Rightarrow> gate_decision option \<Rightarrow> capability_policy list \<Rightarrow>
     gate_decision res" where
  "gate_loop e kid as_of fb [] =
     (case fb of
        Some d \<Rightarrow> Inr d
      | None \<Rightarrow> Inr \<lparr>allowed = False, source = NO_POLICY_FOR_ISSUER, policy = None\<rparr>)"
| "gate_loop e kid as_of fb (p # ps) =
     sbind (is_revoked p as_of) (\<lambda>revoked.
     if revoked then
       gate_loop e kid as_of
         (if fb = None \<or> source (the fb) \<noteq> POLICY_REVOKED then Some (deny POLICY_REVOKED p) else fb) ps
     else if disabled p then
       gate_loop e kid as_of (if fb = None then Some (deny POLICY_DISABLED p) else fb) ps
     else if kid \<notin> set (allowed_kids p) then
       gate_loop e kid as_of
         (if fb = None \<or> source (the fb) = POLICY_DISABLED then Some (deny KID_NOT_ALLOWED p) else fb) ps
     else if \<not> covers_triple p (entry_layer e) (entry_name e) then
       gate_loop e kid as_of
         (if fb = None \<or> source (the fb) \<in> {POLICY_DISABLED, KID_NOT_ALLOWED}
          then Some (deny TRIPLE_NOT_ALLOWED p) else fb) ps
     else
       sbind (window_contains p as_of) (\<lambda>inside.
       if \<not> inside then
         gate_loop e kid as_of
           (if fb = None \<or> source (the fb) \<in> {POLICY_DISABLED, KID_NOT_ALLOWED, TRIPLE_NOT_ALLOWED}
            then Some (deny OUTSIDE_VALIDITY_WINDOW p) else fb) ps
       else Inr \<lparr>allowed = True, source = POLICY_MATCH, policy = Some p\<rparr>))"

definition check_registered_by_capability ::
  "schema_entry \<Rightarrow> pyval \<Rightarrow> registry \<Rightarrow> dt option \<Rightarrow> gate_decision res" where
  "check_registered_by_capability e signature_block reg as_of =
     (case signature_block of
        PDict sig \<Rightarrow>
          (case map_of sig (u ''kid'') of
             None \<Rightarrow> Inl RegisteredByCapabilityErr
           | Some v \<Rightarrow>
               sbind (as_str RegisteredByCapabilityErr v) (\<lambda>kid.
               let candidates = policies_for reg (entry_registered_by e) in
               if candidates = [] then
                 Inr \<lparr>allowed = False, source = NO_POLICY_FOR_ISSUER, policy = None\<rparr>
               else gate_loop e kid as_of None candidates))
      | _ \<Rightarrow> Inl RegisteredByCapabilityErr)"

record signed_entry =
  signed_part :: schema_entry
  signed_signature :: "(ustr \<times> pyval) list"

definition gate_signed_entry :: "signed_entry \<Rightarrow> registry \<Rightarrow> dt option \<Rightarrow> gate_decision res" where
  "gate_signed_entry s reg as_of =
     check_registered_by_capability (signed_part s) (PDict (signed_signature s)) reg as_of"

section \<open>One candidate at a time\<close>

text \<open>The outcome a single policy stands for, and the memory of the most specific denial.\<close>

definition verdict :: "schema_entry \<Rightarrow> ustr \<Rightarrow> dt option \<Rightarrow> capability_policy \<Rightarrow> decision_source res" where
  "verdict e kid as_of p =
     sbind (is_revoked p as_of) (\<lambda>revoked.
       if revoked then Inr POLICY_REVOKED
       else if disabled p then Inr POLICY_DISABLED
       else if kid \<notin> set (allowed_kids p) then Inr KID_NOT_ALLOWED
       else if \<not> covers_triple p (entry_layer e) (entry_name e) then Inr TRIPLE_NOT_ALLOWED
       else sbind (window_contains p as_of) (\<lambda>inside.
         Inr (if inside then POLICY_MATCH else OUTSIDE_VALIDITY_WINDOW)))"

definition remember :: "gate_decision option \<Rightarrow> decision_source \<Rightarrow> capability_policy \<Rightarrow> gate_decision option" where
  "remember fb s p =
     (case fb of None \<Rightarrow> Some (deny s p) | Some d \<Rightarrow> if source d < s then Some (deny s p) else fb)"

definition fallback_ok :: "gate_decision option \<Rightarrow> bool" where
  "fallback_ok fb \<longleftrightarrow> (case fb of None \<Rightarrow> True
     | Some d \<Rightarrow> \<not> allowed d \<and> source d \<noteq> NO_POLICY_FOR_ISSUER \<and> source d \<noteq> POLICY_MATCH)"

lemmas rank_simps = less_decision_source_def less_eq_decision_source_def

lemma verdict_not_no_policy: "verdict e kid as_of p = Inr s \<Longrightarrow> s \<noteq> NO_POLICY_FOR_ISSUER"
  by (auto simp: verdict_def split: if_splits)

lemma fallback_ok_remember:
  "fallback_ok fb \<Longrightarrow> s \<noteq> NO_POLICY_FOR_ISSUER \<Longrightarrow> s \<noteq> POLICY_MATCH \<Longrightarrow> fallback_ok (remember fb s p)"
  by (auto simp: fallback_ok_def remember_def split: option.splits)

lemma gate_loop_step:
  assumes "fallback_ok fb"
  shows "gate_loop e kid as_of fb (p # ps) =
    sbind (verdict e kid as_of p) (\<lambda>s.
      if s = POLICY_MATCH then Inr \<lparr>allowed = True, source = POLICY_MATCH, policy = Some p\<rparr>
      else gate_loop e kid as_of (remember fb s p) ps)"
proof -
  have rem: "remember fb POLICY_REVOKED p =
      (if fb = None \<or> source (the fb) \<noteq> POLICY_REVOKED then Some (deny POLICY_REVOKED p) else fb)"
    "remember fb POLICY_DISABLED p = (if fb = None then Some (deny POLICY_DISABLED p) else fb)"
    "remember fb KID_NOT_ALLOWED p =
      (if fb = None \<or> source (the fb) = POLICY_DISABLED then Some (deny KID_NOT_ALLOWED p) else fb)"
    "remember fb TRIPLE_NOT_ALLOWED p =
      (if fb = None \<or> source (the fb) \<in> {POLICY_DISABLED, KID_NOT_ALLOWED}
       then Some (deny TRIPLE_NOT_ALLOWED p) else fb)"
    "remember fb OUTSIDE_VALIDITY_WINDOW p =
      (if fb = None \<or> source (the fb) \<in> {POLICY_DISABLED, KID_NOT_ALLOWED, TRIPLE_NOT_ALLOWED}
       then Some (deny OUTSIDE_VALIDITY_WINDOW p) else fb)"
    using assms
    by (cases fb; cases "source (the fb)"; simp add: remember_def fallback_ok_def rank_simps)+
  show ?thesis
    by (cases "is_revoked p as_of"; cases "window_contains p as_of") (simp_all add: verdict_def rem)
qed

text \<open>What the whole loop computes: an allow by the first match, or the best of all denials.\<close>

lemma gate_loop_spec:
  assumes "fallback_ok fb" "gate_loop e kid as_of fb ps = Inr d"
  shows "if allowed d
    then source d = POLICY_MATCH \<and> (\<exists>qs p rs. ps = qs @ p # rs \<and> policy d = Some p
           \<and> verdict e kid as_of p = Inr POLICY_MATCH
           \<and> (\<forall>q \<in> set qs. \<exists>s. verdict e kid as_of q = Inr s \<and> s \<noteq> POLICY_MATCH))
    else (\<exists>ss. list_all2 (\<lambda>p s. verdict e kid as_of p = Inr s \<and> s \<noteq> POLICY_MATCH) ps ss
           \<and> Some d = (case foldl (\<lambda>fb (p, s). remember fb s p) fb (zip ps ss) of
               None \<Rightarrow> Some \<lparr>allowed = False, source = NO_POLICY_FOR_ISSUER, policy = None\<rparr>
             | Some d \<Rightarrow> Some d))"
  using assms
proof (induction ps arbitrary: fb)
  case Nil
  then show ?case by (auto simp: fallback_ok_def split: option.splits)
next
  case (Cons p ps)
  from Cons.prems obtain s where s: "verdict e kid as_of p = Inr s"
    and r: "(if s = POLICY_MATCH then Inr \<lparr>allowed = True, source = POLICY_MATCH, policy = Some p\<rparr>
      else gate_loop e kid as_of (remember fb s p) ps) = Inr d"
    by (auto simp: gate_loop_step simp del: gate_loop.simps)
  show ?case
  proof (cases "s = POLICY_MATCH")
    case True
    with r s show ?thesis by (auto intro: exI [of _ "[]"])
  next
    case False
    with r have r': "gate_loop e kid as_of (remember fb s p) ps = Inr d" by simp
    have ok: "fallback_ok (remember fb s p)"
      using Cons.prems(1) verdict_not_no_policy [OF s] False by (rule fallback_ok_remember)
    note ih = Cons.IH [OF ok r']
    show ?thesis
    proof (cases "allowed d")
      case True
      with ih obtain qs q rs where "ps = qs @ q # rs" "policy d = Some q" "source d = POLICY_MATCH"
        "verdict e kid as_of q = Inr POLICY_MATCH"
        "\<forall>q \<in> set qs. \<exists>s. verdict e kid as_of q = Inr s \<and> s \<noteq> POLICY_MATCH"
        by auto
      then have "p # ps = (p # qs) @ q # rs"
        "\<forall>q \<in> set (p # qs). \<exists>s. verdict e kid as_of q = Inr s \<and> s \<noteq> POLICY_MATCH"
        using s False by auto
      with True \<open>policy d = Some q\<close> \<open>source d = POLICY_MATCH\<close>
        \<open>verdict e kid as_of q = Inr POLICY_MATCH\<close> show ?thesis
        unfolding if_P [OF True] by blast
    next
      case ad: False
      with ih obtain ss where ss: "list_all2 (\<lambda>p s. verdict e kid as_of p = Inr s \<and> s \<noteq> POLICY_MATCH) ps ss"
        "Some d = (case foldl (\<lambda>fb (p, s). remember fb s p) (remember fb s p) (zip ps ss) of
               None \<Rightarrow> Some \<lparr>allowed = False, source = NO_POLICY_FOR_ISSUER, policy = None\<rparr>
             | Some d \<Rightarrow> Some d)"
        by auto
      show ?thesis
        using ad ss s False by (auto intro!: exI [of _ "s # ss"])
    qed
  qed
qed

text \<open>The fold that remembers denials keeps the first of the most specific ones.\<close>

lemma remember_fold:
  assumes "list_all2 (\<lambda>p s. V p = s) ps ss" "ps \<noteq> []"
  shows "\<exists>i < length ps. foldl (\<lambda>fb (p, s). remember fb s p) None (zip ps ss)
           = Some (deny (V (ps ! i)) (ps ! i))
         \<and> (\<forall>j < length ps. V (ps ! j) \<le> V (ps ! i) \<and> (j < i \<longrightarrow> V (ps ! j) < V (ps ! i)))"
  using assms
proof (induction ps arbitrary: ss rule: rev_induct)
  case (snoc p ps)
  from snoc.prems(1) obtain ts where ss: "ss = ts @ [V p]"
    and ts: "list_all2 (\<lambda>p s. V p = s) ps ts"
    by (auto simp: list_all2_append1 list_all2_Cons1)
  have len: "length ps = length ts"
    using ts by (rule list_all2_lengthD)
  show ?case
  proof (cases "ps = []")
    case True
    with ts ss show ?thesis by (auto simp: remember_def)
  next
    case False
    from snoc.IH [OF ts False] obtain i where i: "i < length ps"
      and f: "foldl (\<lambda>fb (p, s). remember fb s p) None (zip ps ts) = Some (deny (V (ps ! i)) (ps ! i))"
      and best: "\<forall>j < length ps. V (ps ! j) \<le> V (ps ! i) \<and> (j < i \<longrightarrow> V (ps ! j) < V (ps ! i))"
      by auto
    have f': "foldl (\<lambda>fb (p, s). remember fb s p) None (zip (ps @ [p]) ss)
        = (if V (ps ! i) < V p then Some (deny (V p) p) else Some (deny (V (ps ! i)) (ps ! i)))"
      using f len by (simp add: ss remember_def)
    show ?thesis
    proof (cases "V (ps ! i) < V p")
      case True
      have "\<forall>j < length ps. V (ps ! j) < V p"
        using best True by (auto intro: le_less_trans)
      with f' True show ?thesis
        by (intro exI [of _ "length ps"]) (auto simp: nth_append less_Suc_eq)
    next
      case nl: False
      with f' best i show ?thesis
        by (intro exI [of _ i]) (auto simp: nth_append less_Suc_eq)
    qed
  qed
qed simp

section \<open>The gate's contract\<close>

text \<open>When a policy entitles a key to register an entry at a time, stated over its fields.\<close>

definition in_window :: "capability_policy \<Rightarrow> dt \<Rightarrow> bool" where
  "in_window p t \<longleftrightarrow>
     (case not_before p of None \<Rightarrow> True | Some b \<Rightarrow> aware t = aware b \<and> instant b \<le> instant t)
     \<and> (case not_after p of None \<Rightarrow> True | Some a \<Rightarrow> aware t = aware a \<and> instant t < instant a)"

definition unrevoked_at :: "capability_policy \<Rightarrow> dt option \<Rightarrow> bool" where
  "unrevoked_at p as_of \<longleftrightarrow>
     (case revoked_at p of
        None \<Rightarrow> True
      | Some r \<Rightarrow> (\<exists>t. as_of = Some t \<and> aware t = aware r \<and> instant t < instant r))"

definition grants :: "schema_entry \<Rightarrow> ustr \<Rightarrow> dt option \<Rightarrow> capability_policy \<Rightarrow> bool" where
  "grants e kid as_of p \<longleftrightarrow>
     unrevoked_at p as_of \<and> \<not> disabled p \<and> kid \<in> set (allowed_kids p)
     \<and> (\<exists>(layer, glob) \<in> set (allowed_triples p).
          (layer = u ''*'' \<or> layer = entry_layer e) \<and> fnmatchcase (entry_name e) glob)
     \<and> (case as_of of None \<Rightarrow> True | Some t \<Rightarrow> in_window p t)"

lemma covers_triple_iff:
  "covers_triple p layer name \<longleftrightarrow>
     (\<exists>(l, g) \<in> set (allowed_triples p). (l = u ''*'' \<or> l = layer) \<and> fnmatchcase name g)"
proof -
  have "covers_triple_list ts layer name \<longleftrightarrow>
      (\<exists>(l, g) \<in> set ts. (l = u ''*'' \<or> l = layer) \<and> fnmatchcase name g)" for ts
    by (induction ts layer name rule: covers_triple_list.induct) auto
  then show ?thesis by (simp add: covers_triple_def)
qed

lemma is_revoked_False: "is_revoked p as_of = Inr False \<longleftrightarrow> unrevoked_at p as_of"
  by (auto simp: is_revoked_def unrevoked_at_def dt_ge_def split: option.splits)

lemma window_contains_True:
  "window_contains p as_of = Inr True \<longleftrightarrow> (case as_of of None \<Rightarrow> True | Some t \<Rightarrow> in_window p t)"
  by (cases as_of; cases "not_before p"; cases "not_after p")
    (auto simp: window_contains_def in_window_def dt_ge_def dt_lt_def)

lemma verdict_match: "verdict e kid as_of p = Inr POLICY_MATCH \<longleftrightarrow> grants e kid as_of p"
  unfolding grants_def is_revoked_False [symmetric] window_contains_True [symmetric]
    covers_triple_iff [symmetric]
  by (auto simp: verdict_def split: if_splits)

lemma check_gate:
  assumes "map_of sig (u ''kid'') = Some (PStr kid)" "kid \<noteq> []"
  shows "check_registered_by_capability e (PDict sig) reg as_of
    = gate_loop e kid as_of None (policies_for reg (entry_registered_by e))"
  using assms by (simp add: check_registered_by_capability_def Let_def)

lemma check_gateD:
  assumes "check_registered_by_capability e sb reg as_of = Inr d"
  obtains sig kid where "sb = PDict sig" "map_of sig (u ''kid'') = Some (PStr kid)" "kid \<noteq> []"
    "gate_loop e kid as_of None (policies_for reg (entry_registered_by e)) = Inr d"
proof -
  from assms obtain sig v where sig: "sb = PDict sig" "map_of sig (u ''kid'') = Some v"
    by (auto simp: check_registered_by_capability_def split: pyval.splits option.splits)
  with assms obtain kid where "v = PStr kid" "kid \<noteq> []"
    by (cases v) (auto simp: check_registered_by_capability_def split: if_splits)
  with sig assms that show thesis
    by (simp add: check_gate)
qed

lemma fallback_ok_None [simp]: "fallback_ok None"
  by (simp add: fallback_ok_def)

lemma policies_for_add:
  "policies_for (add_policy p reg) rb
     = policies_for reg rb @ (if rb = registered_by p then [p] else [])"
  by (auto simp: policies_for_def add_policy_def)

lemma policies_for_Nil [simp]: "policies_for [] rb = []"
  by (simp add: policies_for_def)

text \<open>A concrete registry: an enabled wildcard policy and a revoked, a disabled one.\<close>

definition sample_policy :: capability_policy where
  "sample_policy = \<lparr>registered_by = u ''ops'', allowed_kids = [u ''k1''], allowed_triples = [(u ''*'', u ''a*'')],
     not_before = None, not_after = None, disabled = False, policy_note = None, revoked_at = None,
     revocation_reason = None\<rparr>"

definition sample_entry :: schema_entry where
  "sample_entry = \<lparr>entry_layer = u ''wire'', entry_name = u ''ab'', entry_version = u ''1'',
     schema_id = u ''s'', schema_body = [], schema_body_sha256 = [], entry_registered_at = Dt 0 (Some 0),
     entry_registered_by = u ''ops'', supersedes = None\<rparr>"

definition sample_signature :: "(ustr \<times> pyval) list" where
  "sample_signature = [(u ''kid'', PStr (u ''k1''))]"

definition sample_registry :: registry where
  "sample_registry = add_policy sample_policy (add_policy (sample_policy\<lparr>disabled := True\<rparr>) [])"

definition denying_registry :: registry where
  "denying_registry = add_policy (sample_policy\<lparr>revoked_at := Some (Dt 5 (Some 0))\<rparr>)
     (add_policy (sample_policy\<lparr>disabled := True\<rparr>) [])"

lemmas sample_defs = sample_policy_def sample_entry_def sample_signature_def sample_registry_def
  denying_registry_def

lemma sample_glob [simp]: "fnmatchcase (u ''ab'') (u ''a*'')"
  using fnmatchcase_prefix [of "u ''a''" "u ''ab''"] by (simp add: u_def)

lemma sample_allowed:
  "check_registered_by_capability sample_entry (PDict sample_signature) sample_registry None
     = Inr \<lparr>allowed = True, source = POLICY_MATCH, policy = Some sample_policy\<rparr>"
  by (simp add: sample_defs check_registered_by_capability_def policies_for_add Let_def
      is_revoked_def window_contains_def covers_triple_def)

lemma sample_denied:
  "check_registered_by_capability sample_entry (PDict sample_signature) denying_registry None
     = Inr (deny POLICY_REVOKED (sample_policy\<lparr>revoked_at := Some (Dt 5 (Some 0))\<rparr>))"
  by (simp add: sample_defs check_registered_by_capability_def policies_for_add Let_def
      is_revoked_def window_contains_def covers_triple_def)

text \<open>
  C1: the gate allows an entry exactly when some policy registered for the entry's issuer is
  enabled, not revoked at the time of the check, names the signing key, covers the entry's layer
  and name, and has the time in its window; the decision then carries such a policy.
\<close>

theorem gate_allows_iff_granted:
  assumes "check_registered_by_capability e (PDict sig) reg as_of = Inr d"
    and "map_of sig (u ''kid'') = Some (PStr kid)"
  shows "(allowed d \<longleftrightarrow> (\<exists>p \<in> set (policies_for reg (entry_registered_by e)). grants e kid as_of p))
    \<and> (allowed d \<longrightarrow> (\<exists>p \<in> set (policies_for reg (entry_registered_by e)).
          policy d = Some p \<and> grants e kid as_of p))"
proof -
  from assms have g: "gate_loop e kid as_of None (policies_for reg (entry_registered_by e)) = Inr d"
    by (elim check_gateD) auto
  note spec = gate_loop_spec [OF fallback_ok_None g]
  show ?thesis
  proof (cases "allowed d")
    case True
    with spec obtain qs p rs where "policies_for reg (entry_registered_by e) = qs @ p # rs"
      "policy d = Some p" "verdict e kid as_of p = Inr POLICY_MATCH" by auto
    with True show ?thesis by (auto simp: verdict_match)
  next
    case False
    with spec obtain ss where
      "list_all2 (\<lambda>p s. verdict e kid as_of p = Inr s \<and> s \<noteq> POLICY_MATCH)
         (policies_for reg (entry_registered_by e)) ss" by auto
    then have "\<forall>p \<in> set (policies_for reg (entry_registered_by e)).
        verdict e kid as_of p \<noteq> Inr POLICY_MATCH"
      by (auto simp: list_all2_conv_all_nth in_set_conv_nth)
    with False show ?thesis by (auto simp: verdict_match)
  qed
qed

lemma gate_allows_witness:
  "\<exists>p \<in> set (policies_for sample_registry (entry_registered_by sample_entry)).
     grants sample_entry (u ''k1'') None p"
  using gate_allows_iff_granted [OF sample_allowed, of "u ''k1''"] by (simp add: sample_signature_def)

text \<open>
  C6: a denial reports the most specific reason any of the issuer's policies gives (revoked before
  outside-window before triple before key before disabled), and the policy it names is the first
  one that gives it; without a policy for the issuer the source says so.
\<close>

theorem gate_denial_most_specific:
  assumes "check_registered_by_capability e (PDict sig) reg as_of = Inr d" "\<not> allowed d"
    and "map_of sig (u ''kid'') = Some (PStr kid)"
    and "ps = policies_for reg (entry_registered_by e)"
  shows "if ps = [] then d = \<lparr>allowed = False, source = NO_POLICY_FOR_ISSUER, policy = None\<rparr>
    else \<exists>i < length ps. policy d = Some (ps ! i)
      \<and> verdict e kid as_of (ps ! i) = Inr (source d) \<and> source d \<noteq> POLICY_MATCH
      \<and> (\<forall>j < length ps. \<exists>s. verdict e kid as_of (ps ! j) = Inr s \<and> s \<le> source d
           \<and> (j < i \<longrightarrow> s < source d))"
proof -
  let ?V = "\<lambda>p. projr (verdict e kid as_of p)"
  from assms have g: "gate_loop e kid as_of None ps = Inr d"
    by (elim check_gateD) auto
  from gate_loop_spec [OF fallback_ok_None g] assms(2) obtain ss where
    ss: "list_all2 (\<lambda>p s. verdict e kid as_of p = Inr s \<and> s \<noteq> POLICY_MATCH) ps ss"
    and d: "Some d = (case foldl (\<lambda>fb (p, s). remember fb s p) None (zip ps ss) of
               None \<Rightarrow> Some \<lparr>allowed = False, source = NO_POLICY_FOR_ISSUER, policy = None\<rparr>
             | Some d \<Rightarrow> Some d)" by auto
  have V: "verdict e kid as_of (ps ! j) = Inr (?V (ps ! j)) \<and> ?V (ps ! j) \<noteq> POLICY_MATCH"
    if "j < length ps" for j
    using ss that by (auto simp: list_all2_conv_all_nth)
  show ?thesis
  proof (cases "ps = []")
    case True
    with d show ?thesis by simp
  next
    case False
    have "list_all2 (\<lambda>p s. ?V p = s) ps ss"
      using ss by (rule list_all2_mono) auto
    from remember_fold [OF this False] d obtain i where i: "i < length ps"
      and "d = deny (?V (ps ! i)) (ps ! i)"
      and best: "\<forall>j < length ps. ?V (ps ! j) \<le> ?V (ps ! i) \<and> (j < i \<longrightarrow> ?V (ps ! j) < ?V (ps ! i))"
      by auto
    then have "policy d = Some (ps ! i)" "source d = ?V (ps ! i)"
      by auto
    with False V i best show ?thesis by auto
  qed
qed

lemma gate_denial_witness:
  "\<exists>p \<in> set (policies_for denying_registry (entry_registered_by sample_entry)).
     verdict sample_entry (u ''k1'') None p = Inr POLICY_REVOKED"
  using gate_denial_most_specific [OF sample_denied _ _ refl, of "u ''k1''"]
  by (auto simp: sample_signature_def split: if_splits)

lemma gate_loop_app:
  "fallback_ok fb \<Longrightarrow> gate_loop e kid as_of fb ps = Inr d \<Longrightarrow> allowed d
     \<Longrightarrow> gate_loop e kid as_of fb (ps @ qs) = Inr d"
proof (induction ps arbitrary: fb)
  case Nil
  then show ?case by (auto simp: fallback_ok_def split: option.splits)
next
  case (Cons p ps)
  from Cons.prems obtain s where s: "verdict e kid as_of p = Inr s"
    by (auto simp: gate_loop_step simp del: gate_loop.simps)
  have "fallback_ok (remember fb s p)" if "s \<noteq> POLICY_MATCH"
    using Cons.prems(1) verdict_not_no_policy [OF s] that by (rule fallback_ok_remember)
  with Cons s show ?case by (auto simp: gate_loop_step simp del: gate_loop.simps)
qed

text \<open>
  adding a policy never takes an entitlement away: an allowed decision stays the very same
  decision, and decisions on the entries of every other issuer do not change at all.
\<close>

lemma add_policy_monotone:
  assumes "registered_by p \<noteq> entry_registered_by e
    \<or> (\<exists>d. check_registered_by_capability e sb reg as_of = Inr d \<and> allowed d)"
  shows "check_registered_by_capability e sb (add_policy p reg) as_of
    = check_registered_by_capability e sb reg as_of"
proof (cases "registered_by p = entry_registered_by e")
  case True
  with assms obtain d where d: "check_registered_by_capability e sb reg as_of = Inr d" "allowed d"
    by auto
  from d(1) obtain sig kid where k: "sb = PDict sig" "map_of sig (u ''kid'') = Some (PStr kid)" "kid \<noteq> []"
    "gate_loop e kid as_of None (policies_for reg (entry_registered_by e)) = Inr d"
    by (rule check_gateD)
  with d show ?thesis
    by (simp add: check_gate policies_for_add gate_loop_app)
next
  case False
  then have same: "policies_for (add_policy p reg) (entry_registered_by e)
      = policies_for reg (entry_registered_by e)"
    by (simp add: policies_for_add)
  show ?thesis unfolding check_registered_by_capability_def same ..
qed

lemma add_policy_monotone_witness:
  "check_registered_by_capability sample_entry (PDict sample_signature)
     (add_policy (sample_policy\<lparr>revoked_at := Some (Dt 0 (Some 0))\<rparr>) sample_registry) None
   = Inr \<lparr>allowed = True, source = POLICY_MATCH, policy = Some sample_policy\<rparr>"
  using add_policy_monotone [of "sample_policy\<lparr>revoked_at := Some (Dt 0 (Some 0))\<rparr>" sample_entry
      "PDict sample_signature" sample_registry None] sample_allowed by auto

text \<open>What the constructor checked holds of every policy it returns.\<close>

lemma as_str_Inr [simp]: "as_str x v = Inr s \<longleftrightarrow> v = PStr s \<and> s \<noteq> []"
  by (cases v) auto

lemma mapM_as_str: "mapM_sum (as_str x) vs = Inr ss \<Longrightarrow> vs = map PStr ss \<and> [] \<notin> set ss"
  by (induction vs arbitrary: ss) auto

lemma mk_policy_Inr:
  "mk_policy rb kids triples nb na dis nt rv reason = Inr p \<longleftrightarrow>
     rb = PStr (registered_by p) \<and> kids = map PStr (allowed_kids p)
     \<and> triples = allowed_triples p \<and> nb = not_before p \<and> na = not_after p \<and> dis = disabled p
     \<and> nt = policy_note p \<and> rv = revoked_at p \<and> reason = revocation_reason p \<and> policy_wf p"
  (is "?l \<longleftrightarrow> ?r")
proof -
  have kids: "mapM_sum (as_str x) vs = Inr ks \<longleftrightarrow> vs = map PStr ks \<and> [] \<notin> set ks" for x vs ks
  proof
    show "mapM_sum (as_str x) vs = Inr ks" if "vs = map PStr ks \<and> [] \<notin> set ks"
      using that by (induction ks arbitrary: vs) auto
  qed (rule mapM_as_str)
  have win: "window_ordered b a = Inr x \<longleftrightarrow>
      (case (b, a) of (Some b, Some a) \<Rightarrow> dt_ge b a = Inr False | _ \<Rightarrow> True)" for b a x
    by (auto simp: window_ordered_def split: option.splits)
  have rv: "(case rv of None \<Rightarrow> True | Some r \<Rightarrow> aware r) \<and> (reason \<noteq> None \<longrightarrow> rv \<noteq> None)
      \<longleftrightarrow> (case rv of None \<Rightarrow> reason = None | Some r \<Rightarrow> aware r)"
    by (cases rv) auto
  have eq: "p = \<lparr>registered_by = r, allowed_kids = ks, allowed_triples = triples, not_before = nb,
        not_after = na, disabled = dis, policy_note = nt, revoked_at = rv,
        revocation_reason = reason\<rparr>
      \<longleftrightarrow> r = registered_by p \<and> ks = allowed_kids p \<and> triples = allowed_triples p
        \<and> nb = not_before p \<and> na = not_after p \<and> dis = disabled p \<and> nt = policy_note p
        \<and> rv = revoked_at p \<and> reason = revocation_reason p" for r ks
    by (cases p) auto
  have "?l \<longleftrightarrow> (\<exists>r ks. rb = PStr r \<and> r \<noteq> [] \<and> kids \<noteq> [] \<and> kids = map PStr ks \<and> [] \<notin> set ks
      \<and> triples \<noteq> [] \<and> (\<forall>t \<in> set triples. fst t \<noteq> [] \<and> snd t \<noteq> [])
      \<and> (case (nb, na) of (Some b, Some a) \<Rightarrow> dt_ge b a = Inr False | _ \<Rightarrow> True)
      \<and> (case rv of None \<Rightarrow> reason = None | Some r \<Rightarrow> aware r)
      \<and> p = \<lparr>registered_by = r, allowed_kids = ks, allowed_triples = triples, not_before = nb,
          not_after = na, disabled = dis, policy_note = nt, revoked_at = rv,
          revocation_reason = reason\<rparr>)"
    unfolding rv [symmetric] mk_policy_def sbind_Inr ensure_Inr as_str_Inr kids win
    by (rule iffI; elim exE conjE; intro exI conjI; (assumption | (simp; fail) | (simp, erule sym)))
  also have "\<dots> \<longleftrightarrow> ?r"
    unfolding eq policy_wf_def by (rule iffI; clarify; simp)
  finally show ?thesis .
qed

end
