(* ===== verification/JsonRoundtrip.thy ===== *)
theory JsonRoundtrip
  imports Json
begin

text \<open>
  Parsing what the printer prints gives the value back, with the members of every object in
  printed order: the round trip of \<open>json.dumps\<close> and \<open>json.loads\<close> for the values without
  floats, and with it the injectivity of the printed form. The same theorem, over another ordering
  of the keys, serves the RFC 8785 canonicaliser.
\<close>

section \<open>Plain values and their printed order\<close>

fun json_plain :: "pyval \<Rightarrow> bool" where
  "json_plain (PFloat f) = False"
| "json_plain PBadKeyDict = False"
| "json_plain POther = False"
| "json_plain (PList vs) = (\<forall>v \<in> set vs. json_plain v)"
| "json_plain (PDict kvs) =
     (distinct (map fst kvs) \<and> (\<forall>kv \<in> set kvs. json_plain (snd kv)))"
| "json_plain v = True"

function json_canon :: "(ustr \<Rightarrow> nat list) \<Rightarrow> pyval \<Rightarrow> pyval" where
  "json_canon ord (PList vs) = PList (map (json_canon ord) vs)"
| "json_canon ord (PDict kvs) =
     PDict (map (\<lambda>kv. (fst kv, json_canon ord (snd kv))) (sort_key (\<lambda>kv. ord (fst kv)) kvs))"
| "json_canon ord PNone = PNone"
| "json_canon ord (PBool b) = PBool b"
| "json_canon ord (PInt i) = PInt i"
| "json_canon ord (PFloat f) = PFloat f"
| "json_canon ord (PStr s) = PStr s"
| "json_canon ord PBadKeyDict = PBadKeyDict"
| "json_canon ord POther = POther"
  by pat_completeness auto
termination
  by (relation "measure (\<lambda>(ord, v). size v)")
    (auto dest: size_pyval_member size_pyval_elem)

text \<open>Text after which a number ends.\<close>

definition delim :: "ustr \<Rightarrow> bool" where
  "delim r \<longleftrightarrow> r = [] \<or> (\<not> is_digit (hd r) \<and> hd r \<noteq> 46 \<and> hd r \<noteq> 101 \<and> hd r \<noteq> 69)"

lemma delim_simps [simp]:
  "delim []" "delim (44 # r)" "delim (93 # r)" "delim (125 # r)"
  by (simp_all add: delim_def is_digit_def)

section \<open>Strings\<close>

lemma hex_val_digit: "n < 16 \<Longrightarrow> hex_val (hex_digit n) = Some n"
  by (auto simp: hex_val_def hex_digit_def)

lemma scan_escaped_char:
  "scan_string (escape_char c @ t) =
     (case scan_string t of None \<Rightarrow> None | Some (x, r) \<Rightarrow> Some (c # x, r))"
proof (cases "c \<in> {34, 92, 8, 12, 10, 13, 9}")
  case True
  then show ?thesis
    by (auto simp: escape_char_def simple_escape_def)
next
  case special: False
  show ?thesis
  proof (cases "c < 32")
    case True
    then have "c div 16 < 16" "c mod 16 < 16" "c div 16 * 16 + c mod 16 = c"
      by auto
    then have "hex4 (48 # 48 # hex_digit (c div 16) # hex_digit (c mod 16) # t) = Some (c, t)"
      by (simp add: hex_val_digit) (simp add: hex_val_def)
    with True special show ?thesis
      by (simp add: escape_char_def del: hex4.simps)
  next
    case False
    with special show ?thesis by (simp add: escape_char_def)
  qed
qed

lemma scan_escaped: "scan_string (concat (map escape_char s) @ 34 # r) = Some (s, r)"
  by (induction s) (simp_all add: scan_escaped_char)

section \<open>Numbers\<close>

lemma takeWhile_digits:
  "\<forall>d \<in> set ds. is_digit d \<Longrightarrow> delim r \<Longrightarrow> takeWhile is_digit (ds @ r) = ds"
  by (cases r) (auto simp: delim_def takeWhile_append)

lemma dropWhile_digits:
  "\<forall>d \<in> set ds. is_digit d \<Longrightarrow> delim r \<Longrightarrow> dropWhile is_digit (ds @ r) = r"
  by (cases r) (auto simp: delim_def dropWhile_append)

lemma scan_frac_delim: "delim r \<Longrightarrow> scan_frac r = ([], r)"
  by (cases r) (auto simp: scan_frac_def delim_def split: list.splits)

lemma scan_exp_delim: "delim r \<Longrightarrow> scan_exp r = ([], r)"
  by (cases r) (auto simp: scan_exp_def delim_def)

lemma scan_number_nat:
  assumes "delim r" "length (nat_digits n) \<le> int_max_str_digits"
  shows "scan_number E (nat_digits n @ r) = Inr (PInt (int n), r)"
    and "scan_number E (45 # nat_digits n @ r) = Inr (PInt (- int n), r)"
proof -
  obtain d ds where ds: "nat_digits n = d # ds"
    using nat_digits_ne by (cases "nat_digits n") auto
  have dig: "\<forall>x \<in> set (d # ds). is_digit x"
    using nat_digits_digits [of _ n] ds by auto
  then have d45: "d \<noteq> 45" "is_digit d"
    by (auto simp: is_digit_def)
  have zero: "ds = [] \<and> n = 0" if "d = 48"
    using nat_digits_hd [of n] ds that by auto
  have val: "digits_val (d # ds) = int n"
    using nat_digits_val [of n] ds by simp
  have tw: "takeWhile is_digit (d # ds @ r) = d # ds" "dropWhile is_digit (d # ds @ r) = r"
    using takeWhile_digits [OF dig assms(1)] dropWhile_digits [OF dig assms(1)] by simp_all
  have ip: "(if d = 48 then [48] else takeWhile is_digit (d # ds @ r)) = d # ds"
      "(if d = 48 then ds @ r else dropWhile is_digit (d # ds @ r)) = r"
    using tw zero by (cases "d = 48"; simp)+
  have len: "\<not> int_max_str_digits < length (d # ds)"
    using assms(2) ds by simp
  show "scan_number E (nat_digits n @ r) = Inr (PInt (int n), r)"
    unfolding ds scan_number_def
    using d45 ip val len
    by (simp add: Let_def scan_frac_delim [OF assms(1)] scan_exp_delim [OF assms(1)]
        del: takeWhile.simps dropWhile.simps)
  show "scan_number E (45 # nat_digits n @ r) = Inr (PInt (- int n), r)"
    unfolding ds scan_number_def
    using d45 ip val len
    by (simp add: Let_def scan_frac_delim [OF assms(1)] scan_exp_delim [OF assms(1)]
        del: takeWhile.simps dropWhile.simps)
qed

lemma int_repr_cases:
  assumes "int_repr i = Inr s"
  obtains "s = nat_digits (nat i)" "0 \<le> i" "length (nat_digits (nat i)) \<le> int_max_str_digits"
  | "s = 45 # nat_digits (nat (- i))" "i < 0"
    "length (nat_digits (nat (- i))) \<le> int_max_str_digits"
  using assms by (cases "i < 0") (auto simp: int_repr_def Let_def split: if_splits)

lemma nat_digits_head: "\<exists>d ds. nat_digits n = d # ds \<and> is_digit d"
  using nat_digits_ne nat_digits_digits [of _ n] by (cases "nat_digits n") auto

lemma scan_scalar_int:
  assumes "int_repr i = Inr s" "delim r"
  shows "scan_scalar E (s @ r) = Inr (PInt i, r)"
  using assms(1)
proof (cases rule: int_repr_cases)
  case 1
  obtain d ds where d: "nat_digits (nat i) = d # ds" "is_digit d"
    using nat_digits_head by blast
  then have "scan_scalar E (s @ r) = scan_number E (s @ r)"
    using 1(1) by (auto simp: scan_scalar_def u_def is_digit_def)
  with 1 scan_number_nat(1) [OF assms(2)] show ?thesis by simp
next
  case 2
  obtain d ds where d: "nat_digits (nat (- i)) = d # ds" "is_digit d"
    using nat_digits_head by blast
  then have "scan_scalar E (s @ r) = scan_number E (s @ r)"
    using 2(1) by (auto simp: scan_scalar_def u_def is_digit_def)
  with 2 scan_number_nat(2) [OF assms(2)] show ?thesis by simp
qed

section \<open>Values\<close>

text \<open>How a printed value starts: with no white space and with no closing bracket.\<close>

definition opens :: "ustr \<Rightarrow> bool" where
  "opens t \<longleftrightarrow> t \<noteq> [] \<and> \<not> is_ws (hd t) \<and> hd t \<noteq> 93 \<and> hd t \<noteq> 125"

lemma opens_int: "int_repr i = Inr s \<Longrightarrow> opens s"
  by (erule int_repr_cases)
    (insert nat_digits_head [of "nat i"] nat_digits_head [of "nat (- i)"],
      auto simp: opens_def is_ws_def is_digit_def)

lemma emit_opens: "json_plain v \<Longrightarrow> json_emit ord v = Inr s \<Longrightarrow> opens s"
  by (cases v)
    (auto simp: opens_def is_ws_def u_def json_string_def split: if_splits
      dest: opens_int [unfolded opens_def])

lemma skip_ws_opens [simp]: "opens t \<Longrightarrow> skip_ws (t @ r) = t @ r"
  by (cases t) (auto simp: opens_def skip_ws_def)

lemma skip_ws_punct [simp]:
  "skip_ws (44 # r) = 44 # r" "skip_ws (93 # r) = 93 # r" "skip_ws (125 # r) = 125 # r"
  "skip_ws (58 # r) = 58 # r" "skip_ws (34 # r) = 34 # r" "skip_ws [] = []"
  by (simp_all add: skip_ws_def is_ws_def)

lemma parse_elems_emitted:
  assumes "list_all2 (\<lambda>v t. json_emit ord v = Inr t) vs ts" "vs \<noteq> []"
    and "\<And>v t r n. v \<in> set vs \<Longrightarrow> json_emit ord v = Inr t \<Longrightarrow> delim r \<Longrightarrow> 2 * length t < n \<Longrightarrow>
           parse_value n E (t @ r) = Inr (json_canon ord v, r)"
    and "\<And>v. v \<in> set vs \<Longrightarrow> json_plain v"
    and "2 * length (join_with [44] ts) + 1 < n"
  shows "parse_elems n E (join_with [44] ts @ 93 # r) = Inr (map (json_canon ord) vs, r)"
  using assms
proof (induction vs arbitrary: ts n)
  case (Cons v vs)
  from Cons.prems(1) obtain t ts' where ts: "ts = t # ts'"
      "json_emit ord v = Inr t" "list_all2 (\<lambda>v t. json_emit ord v = Inr t) vs ts'"
    by (auto simp: list_all2_Cons1)
  from Cons.prems(5) obtain m where n: "n = Suc m"
    by (cases n) auto
  show ?case
  proof (cases vs)
    case Nil
    with ts have "ts' = []" by simp
    with Nil ts Cons.prems(3) [of v t "93 # r" m] Cons.prems(5) n show ?thesis
      by simp
  next
    case (Cons w ws)
    with ts obtain t2 ts2 where ts2: "ts' = t2 # ts2" "json_emit ord w = Inr t2"
      by (auto simp: list_all2_Cons1)
    have op: "opens t2"
      using emit_opens [of w ord t2] ts2 Cons.prems(4) Cons by simp
    have len: "length (join_with [44] ts) = length t + 1 + length (join_with [44] ts')"
      using ts ts2 by simp
    have v: "parse_value m E (t @ 44 # join_with [44] ts' @ 93 # r)
        = Inr (json_canon ord v, 44 # join_with [44] ts' @ 93 # r)"
      using Cons.prems(3) [of v t] ts n len Cons.prems(5) by simp
    have "parse_elems m E (join_with [44] ts' @ 93 # r) = Inr (map (json_canon ord) vs, r)"
      using Cons.IH [of ts' m] ts Cons.prems Cons n len by simp
    moreover have "skip_ws (join_with [44] ts' @ 93 # r) = join_with [44] ts' @ 93 # r"
      using op ts2 by (cases ts2) (simp_all flip: append_assoc, simp_all add: append_assoc)
    ultimately show ?thesis
      using v ts ts2 n by simp
  qed
qed simp


lemma skip_ws_member [simp]: "skip_ws (json_string k @ r) = json_string k @ r"
  by (simp add: json_string_def)

text \<open>The text of one member, and the parser at its start.\<close>

definition member_text :: "(ustr \<Rightarrow> nat list) \<Rightarrow> ustr \<times> pyval \<Rightarrow> ustr res" where
  "member_text ord kv = sbind (json_emit ord (snd kv)) (\<lambda>t. Inr (json_string (fst kv) @ 58 # t))"

lemma parse_members_step:
  assumes "parse_value n E (t @ r) = Inr (v, r')" "opens t"
  shows "parse_members (Suc n) E ((json_string k @ 58 # t) @ r) =
    (case skip_ws r' of
       [] \<Rightarrow> Inl JsonDecodeErr
     | d # r3 \<Rightarrow>
         if d = 125 then Inr ([(k, v)], r3)
         else if d = 44 then
           sbind (parse_members n E (skip_ws r3)) (\<lambda>(kvs, r4). Inr ((k, v) # kvs, r4))
         else Inl JsonDecodeErr)"
  using assms by (simp add: json_string_def scan_escaped)

lemma parse_members_emitted:
  assumes "list_all2 (\<lambda>kv t. member_text ord kv = Inr t) kvs ts" "kvs \<noteq> []"
    and "\<And>kv t r n. kv \<in> set kvs \<Longrightarrow> json_emit ord (snd kv) = Inr t \<Longrightarrow> delim r \<Longrightarrow>
           2 * length t < n \<Longrightarrow> parse_value n E (t @ r) = Inr (json_canon ord (snd kv), r)"
    and "\<And>kv. kv \<in> set kvs \<Longrightarrow> json_plain (snd kv)"
    and "2 * length (join_with [44] ts) + 1 < n"
  shows "parse_members n E (join_with [44] ts @ 125 # r)
    = Inr (map (\<lambda>kv. (fst kv, json_canon ord (snd kv))) kvs, r)"
  using assms
proof (induction kvs arbitrary: ts n)
  case (Cons kv kvs)
  from Cons.prems(1) obtain t ts' where ts: "ts = (json_string (fst kv) @ 58 # t) # ts'"
      "json_emit ord (snd kv) = Inr t" "list_all2 (\<lambda>kv t. member_text ord kv = Inr t) kvs ts'"
    by (auto simp: list_all2_Cons1 member_text_def)
  from Cons.prems(5) obtain m where n: "n = Suc m"
    by (cases n) auto
  have t: "opens t"
    using emit_opens [of "snd kv" ord t] ts(2) Cons.prems(4) [of kv] by simp
  show ?case
  proof (cases kvs)
    case Nil
    with ts have "ts' = []" by simp
    moreover have "parse_value m E (t @ 125 # r) = Inr (json_canon ord (snd kv), 125 # r)"
      using Cons.prems(3) [of kv t] Cons.prems(5) ts n \<open>ts' = []\<close> by simp
    ultimately show ?thesis
      using parse_members_step [OF _ t, of m E "125 # r"] Nil ts n by simp
  next
    case (Cons kw ws)
    with ts obtain t2 ts2 where ts2: "ts' = (json_string (fst kw) @ t2) # ts2"
      by (auto simp: list_all2_Cons1 member_text_def)
    have len: "length (join_with [44] ts) = length (json_string (fst kv)) + 2 + length t
        + length (join_with [44] ts')"
      using ts ts2 by simp
    have v: "parse_value m E (t @ 44 # join_with [44] ts' @ 125 # r)
        = Inr (json_canon ord (snd kv), 44 # join_with [44] ts' @ 125 # r)"
      using Cons.prems(3) [of kv t] ts n len Cons.prems(5) by simp
    have "parse_members m E (join_with [44] ts' @ 125 # r)
        = Inr (map (\<lambda>kv. (fst kv, json_canon ord (snd kv))) kvs, r)"
      using Cons.IH [of ts' m] ts Cons.prems Cons n len by simp
    moreover have "skip_ws (join_with [44] ts' @ 125 # r) = join_with [44] ts' @ 125 # r"
      using ts2 by (cases ts2) simp_all
    moreover have "join_with [44] ts @ 125 # r
        = (json_string (fst kv) @ 58 # t) @ 44 # join_with [44] ts' @ 125 # r"
      using ts ts2 by simp
    ultimately show ?thesis
      using parse_members_step [OF v t, of "fst kv"] n by simp
  qed
qed simp

lemma dict_of_distinct: "distinct (map fst kvs) \<Longrightarrow> dict_of kvs = kvs"
proof -
  have new: "dict_set d k v = d @ [(k, v)]" if "k \<notin> fst ` set d" for d :: "(ustr \<times> pyval) list" and k v
    using that by (induction d k v rule: dict_set.induct) auto
  have "foldl (\<lambda>d kv. dict_set d (fst kv) (snd kv)) d kvs = d @ kvs"
    if "distinct (map fst (d @ kvs))" for d
    using that
  proof (induction kvs arbitrary: d)
    case (Cons kv kvs)
    from Cons.prems have "dict_set d (fst kv) (snd kv) = d @ [kv]"
      by (subst new) auto
    with Cons show ?case by simp
  qed simp
  then show "distinct (map fst kvs) \<Longrightarrow> dict_of kvs = kvs"
    by (simp add: dict_of_def)
qed

lemma distinct_sort_key_keys:
  "distinct (map fst kvs) \<Longrightarrow> distinct (map fst (sort_key f kvs))"
  by (metis distinct_map distinct_sort set_sort)

lemma emit_obj_unfold:
  "json_emit ord (PDict kvs) =
     sbind (mapM_sum (member_text ord) (sort_key (\<lambda>kv. ord (fst kv)) kvs))
       (\<lambda>ts. Inr (123 # join_with [44] ts @ [125]))"
  by (simp add: member_text_def [abs_def])

lemma members_open:
  "list_all2 (\<lambda>kv t. member_text ord kv = Inr t) kvs ts \<Longrightarrow> kvs \<noteq> [] \<Longrightarrow>
     \<exists>x. join_with [44] ts = 34 # x"
  by (cases kvs; cases "tl ts") (auto simp: list_all2_Cons1 member_text_def json_string_def)

theorem parse_emit:
  assumes "json_plain v" "json_emit ord v = Inr s" "delim r" "2 * length s < n"
  shows "parse_value n E (s @ r) = Inr (json_canon ord v, r)"
  using assms
proof (induction v arbitrary: s r n)
  case (PList vs)
  from PList.prems(2) obtain ts where ts: "s = 91 # join_with [44] ts @ [93]"
      "list_all2 (\<lambda>v t. json_emit ord v = Inr t) vs ts"
    by (auto simp: mapM_sum_Inr_iff)
  from PList.prems(4) obtain m where n: "n = Suc m"
    by (cases n) auto
  show ?case
  proof (cases vs)
    case Nil
    with ts n show ?thesis by simp
  next
    case (Cons v ws)
    with ts(2) obtain t ts' where t: "ts = t # ts'" "json_emit ord v = Inr t"
      by (auto simp: list_all2_Cons1)
    with Cons PList.prems(1) have op: "opens t"
      using emit_opens [of v ord t] by simp
    then have ws: "skip_ws (join_with [44] ts @ 93 # r) = join_with [44] ts @ 93 # r"
      "\<not> starts_with [93] (join_with [44] ts @ 93 # r)"
      using t by (cases ts'; cases t; auto simp: opens_def skip_ws_def)+
    have "parse_elems m E (join_with [44] ts @ 93 # r) = Inr (map (json_canon ord) vs, r)"
      using ts n PList.prems PList.IH Cons by (intro parse_elems_emitted) auto
    with ws ts n show ?thesis by simp
  qed
next
  case (PDict kvs)
  let ?kvs = "sort_key (\<lambda>kv. ord (fst kv)) kvs"
  from PDict.prems(2) obtain ts where ts: "s = 123 # join_with [44] ts @ [125]"
      "list_all2 (\<lambda>kv t. member_text ord kv = Inr t) ?kvs ts"
    unfolding emit_obj_unfold by (auto simp: mapM_sum_Inr_iff)
  from PDict.prems(4) obtain m where n: "n = Suc m"
    by (cases n) auto
  show ?case
  proof (cases "kvs = []")
    case True
    with ts n show ?thesis by simp
  next
    case False
    then have ne: "?kvs \<noteq> []"
      by (metis set_empty set_sort)
    obtain x where x: "join_with [44] ts = 34 # x"
      using members_open [OF ts(2) ne] by blast
    have "parse_members m E (join_with [44] ts @ 125 # r)
        = Inr (map (\<lambda>kv. (fst kv, json_canon ord (snd kv))) ?kvs, r)"
    proof (rule parse_members_emitted [OF ts(2) ne])
      show "2 * length (join_with [44] ts) + 1 < m"
        using ts n PDict.prems(4) by simp
    next
      fix kv t r' n'
      assume kv: "kv \<in> set ?kvs" and t: "json_emit ord (snd kv) = Inr t"
        and r: "delim r'" "2 * length t < n'"
      have "kv \<in> set kvs"
        using kv by simp
      moreover have "snd kv \<in> Basic_BNFs.snds kv"
        by (cases kv) simp
      ultimately show "parse_value n' E (t @ r') = Inr (json_canon ord (snd kv), r')"
        using PDict.IH t r PDict.prems(1) by auto
    qed (use PDict.prems(1) in auto)
    moreover have "distinct (map fst (map (\<lambda>kv. (fst kv, json_canon ord (snd kv))) ?kvs))"
      using PDict.prems(1) distinct_sort_key_keys [of kvs "\<lambda>kv. ord (fst kv)"]
      by (simp add: o_def)
    ultimately show ?thesis
      using ts n x by (simp add: dict_of_distinct)
  qed
next
  case (PInt i)
  then obtain m where n: "n = Suc m"
    by (cases n) auto
  have int: "int_repr i = Inr s"
    using PInt by simp
  then obtain c t where c: "s = c # t" "c \<noteq> 34" "c \<noteq> 123" "c \<noteq> 91"
    by (rule int_repr_cases)
      (insert nat_digits_head [of "nat i"] nat_digits_head [of "nat (- i)"],
        auto simp: is_digit_def)
  with n scan_scalar_int [OF int PInt.prems(3)] show ?case
    by simp
next
  case (PStr x)
  then obtain m where "n = Suc m"
    by (cases n) auto
  with PStr show ?case
    by (auto simp: json_string_def scan_escaped)
next
  case PNone
  then obtain m where "n = Suc m"
    by (cases n) auto
  with PNone show ?case by (auto simp: scan_scalar_def u_def)
next
  case (PBool b)
  then obtain m where "n = Suc m"
    by (cases n) auto
  with PBool show ?case by (auto simp: scan_scalar_def u_def split: if_splits)
qed simp_all

section \<open>The round trip of whole texts\<close>

lemma emit_head:
  assumes "json_plain v" "json_emit ord v = Inr s"
  shows "skip_ws s = s" "\<not> starts_with [65279] s"
proof -
  from emit_opens [OF assms] show "skip_ws s = s"
    using skip_ws_opens [of s "[]"] by simp
  show "\<not> starts_with [65279] s"
  proof (cases v)
    case (PInt i)
    with assms(2) have "int_repr i = Inr s" by simp
    then show ?thesis
      by (rule int_repr_cases)
        (insert nat_digits_head [of "nat i"] nat_digits_head [of "nat (- i)"],
          auto simp: is_digit_def)
  qed (use assms in \<open>auto simp: json_string_def u_def split: if_splits\<close>)
qed

lemma loads_emit:
  assumes "json_plain v" "json_emit ord v = Inr s"
  shows "json_loads E s = Inr (json_canon ord v)"
  using parse_emit [OF assms, of "[]" "2 * length s + 2" E] emit_head [OF assms]
  by (simp add: json_loads_def)

lemma emit_canon_inj:
  assumes "json_plain v" "json_plain w" "json_emit ord v = Inr s" "json_emit ord w = Inr s"
  shows "json_canon ord v = json_canon ord w"
  using loads_emit [OF assms(1,3)] loads_emit [OF assms(2,4)]
  by (metis Inr_inject)

section \<open>The fuel is enough\<close>

lemma skip_ws_length: "length (skip_ws s) \<le> length s"
  by (simp add: skip_ws_def length_dropWhile_le)

lemma scan_string_shorter: "scan_string s = Some (t, r) \<Longrightarrow> length r < length s"
proof (induction s arbitrary: t rule: scan_string.induct)
  case (2 c s)
  show ?case
    using "2.prems" "2.IH" scan_escape_shorter [of s]
    by (auto split: if_splits option.splits prod.splits) force+
qed simp

lemma scan_number_shorter: "scan_number E s = Inr (v, r) \<Longrightarrow> length r < length s"
proof -
  have frac: "length (snd (scan_frac t)) \<le> length t" for t
    by (auto simp: scan_frac_def split: list.splits intro: le_SucI length_dropWhile_le)
  have exp: "length (snd (scan_exp t)) \<le> length t" for t
    by (auto simp: scan_exp_def Let_def split: list.splits prod.splits if_splits
        intro!: le_SucI length_dropWhile_le)
  assume *: "scan_number E s = Inr (v, r)"
  obtain sg s1 where s1: "(if starts_with [45] s then ([45], drop 1 s) else ([], s)) = (sg, s1)"
    by fastforce
  then have len1: "length s1 \<le> length s"
    by (auto split: if_splits)
  from * s1 obtain c t where c: "s1 = c # t" "is_digit c"
    by (cases s1) (auto simp: scan_number_def split: if_splits)
  let ?s2 = "if c = 48 then t else dropWhile is_digit s1"
  have len2: "length ?s2 \<le> length t"
    using c by (simp add: length_dropWhile_le)
  have "r = snd (scan_exp (snd (scan_frac ?s2)))"
    using * s1 c
    by (simp add: scan_number_def Let_def split: prod.splits if_split_asm)
  with len1 len2 c frac [of ?s2] exp [of "snd (scan_frac ?s2)"] show ?thesis
    by simp
qed

lemma scan_scalar_shorter: "scan_scalar E s = Inr (v, r) \<Longrightarrow> length r < length s"
  by (auto simp: scan_scalar_def u_def starts_with_iff dest: scan_number_shorter split: if_splits)

lemma parse_shorter:
  "parse_value n E s = Inr (v, r) \<Longrightarrow> length r < length s"
  "parse_elems n E s = Inr (vs, r') \<Longrightarrow> length r' < length s"
  "parse_members n E s = Inr (kvs, r'') \<Longrightarrow> length r'' < length s"
proof (induction n E s and n E s and n E s arbitrary: v r and vs r' and kvs r''
    rule: parse_value_parse_elems_parse_members.induct)
  case (2 n E s)
  show ?case
  proof (cases s)
    case (Cons c t)
    show ?thesis
      using "2.prems" "2.IH" Cons skip_ws_length [of t]
      by (auto split: if_splits option.splits prod.splits dest: scan_string_shorter scan_scalar_shorter)
        force+
  qed (use "2.prems" in simp)
next
  case (4 n E s)
  from "4.prems" obtain v r where v: "parse_value n E s = Inr (v, r)"
    by auto
  then have "length r < length s"
    using "4.IH"(1) by blast
  with "4.prems" v "4.IH"(2) skip_ws_length [of r] show ?case
    by (auto split: list.splits if_splits) (metis (no_types, lifting) Suc_lessD le_less_trans length_Cons less_trans_Suc skip_ws_length)
next
  case (6 n E s)
  from "6.prems" obtain t k r where s: "s = 34 # t" and k: "scan_string t = Some (k, r)"
    by (auto split: list.splits if_splits option.splits)
  with "6.prems" obtain r1 where r1: "skip_ws r = 58 # r1"
    by (auto split: list.splits if_splits)
  with "6.prems" s k obtain v r2 where v: "parse_value n E (skip_ws r1) = Inr (v, r2)"
    by auto
  with "6.prems" s k r1 obtain d r3 where d: "skip_ws r2 = d # r3"
    by (cases "skip_ws r2") auto
  have l1: "length r < length t"
    using scan_string_shorter k by blast
  have l2: "Suc (length r1) \<le> length r"
    using skip_ws_length [of r] r1 by simp
  have l3: "length r2 < length (skip_ws r1)"
    using "6.IH"(1) [OF s _ k _ r1 _ v] by simp
  have l4: "Suc (length r3) \<le> length r2"
    using skip_ws_length [of r2] d by simp
  have small: "length r3 < length s"
    using l1 l2 l3 l4 skip_ws_length [of r1] s by simp
  show ?case
  proof (cases "d = 125")
    case True
    with "6.prems" s k r1 v d small show ?thesis by simp
  next
    case False
    with "6.prems" s k r1 v d obtain kvs' where
      m: "d = 44" "parse_members n E (skip_ws r3) = Inr (kvs', r'')"
      by (auto split: if_splits)
    have "length r'' < length (skip_ws r3)"
      using "6.IH"(2) [OF s _ k _ r1 _ v _ d False m] by simp
    with small skip_ws_length [of r3] show ?thesis by simp
  qed
qed simp_all

text \<open>With twice the length of its text as fuel, plus a constant, the parser does not run dry.\<close>

lemma scan_number_err: "scan_number E s = Inl e \<Longrightarrow> e \<noteq> OutOfFuel"
  by (auto simp: scan_number_def Let_def split: prod.splits list.splits if_splits)

lemma scan_scalar_err: "scan_scalar E s = Inl e \<Longrightarrow> e \<noteq> OutOfFuel"
  by (auto simp: scan_scalar_def dest: scan_number_err split: if_splits)

lemma parse_fuel:
  "2 * length s + 1 \<le> n \<Longrightarrow> parse_value n E s \<noteq> Inl OutOfFuel"
  "2 * length s + 2 \<le> n \<Longrightarrow> parse_elems n E s \<noteq> Inl OutOfFuel"
  "2 * length s + 2 \<le> n \<Longrightarrow> parse_members n E s \<noteq> Inl OutOfFuel"
proof (induction n E s and n E s and n E s rule: parse_value_parse_elems_parse_members.induct)
  case (2 n E s)
  show ?case
  proof (cases s)
    case (Cons c t)
    have "2 * length (skip_ws t) + 2 \<le> n"
      using "2.prems" Cons skip_ws_length [of t] by simp
    with "2.IH" Cons show ?thesis
      by (auto simp: sbind_Inl split: option.splits dest: scan_scalar_err)
  qed simp
next
  case (4 n E s)
  have v: "parse_value n E s \<noteq> Inl OutOfFuel"
    using "4.IH"(1) "4.prems" by simp
  have "parse_elems n E (skip_ws r') \<noteq> Inl OutOfFuel"
    if "parse_value n E s = Inr (v, r)" "skip_ws r = 44 # r'" for v r r'
  proof -
    have "length (skip_ws r') + 2 \<le> length s"
      using parse_shorter(1) [OF that(1)] skip_ws_length [of r] skip_ws_length [of r'] that(2)
      by simp
    then show ?thesis
      using "4.IH"(2) [OF that(1) refl that(2)] "4.prems" by simp
  qed
  with v show ?case
    by (auto simp: sbind_Inl split: list.splits if_splits)
next
  case (6 n E s)
  show ?case
  proof
    assume *: "parse_members (Suc n) E s = Inl OutOfFuel"
    then obtain t k r where s: "s = 34 # t" and k: "scan_string t = Some (k, r)"
      by (auto split: list.splits if_splits option.splits)
    with * obtain r1 where r1: "skip_ws r = 58 # r1"
      by (auto split: list.splits if_splits)
    have l2: "Suc (length r1) < length t"
      using scan_string_shorter [OF k] skip_ws_length [of r] r1 by simp
    have "parse_value n E (skip_ws r1) \<noteq> Inl OutOfFuel"
      using "6.IH"(1) [OF s _ k _ r1] "6.prems" s l2 skip_ws_length [of r1] by simp
    with * s k r1 obtain v r2 where v: "parse_value n E (skip_ws r1) = Inr (v, r2)"
      by (auto simp: sbind_Inl)
    with * s k r1 obtain r3 where d: "skip_ws r2 = 44 # r3"
        "parse_members n E (skip_ws r3) = Inl OutOfFuel"
      by (auto simp: sbind_Inl split: list.splits if_splits)
    have "length (skip_ws r3) + 2 \<le> length s"
      using parse_shorter(1) [OF v] skip_ws_length [of r1] skip_ws_length [of r2]
        skip_ws_length [of r3] d(1) l2 s by simp
    then show False
      using "6.IH"(2) [OF s _ k refl r1 _ v refl d(1)] d(2) "6.prems" by simp
  qed
qed simp_all

lemma json_loads_no_fuel_error: "json_loads E s \<noteq> Inl OutOfFuel"
proof -
  have "2 * length (skip_ws s) + 1 \<le> 2 * length s + 2"
    using skip_ws_length [of s] by simp
  from parse_fuel(1) [OF this, of E] show ?thesis
    by (auto simp: json_loads_def split: sum.splits)
qed

text \<open>The errors of the parser: a malformed text, or an integer with too many digits.\<close>

lemma scan_number_errs: "scan_number E s = Inl e \<Longrightarrow> e \<in> {JsonDecodeErr, ValueErr}"
  by (auto simp: scan_number_def Let_def split: prod.splits list.splits if_splits)

lemma scan_scalar_errs: "scan_scalar E s = Inl e \<Longrightarrow> e \<in> {JsonDecodeErr, ValueErr}"
  by (auto simp: scan_scalar_def dest: scan_number_errs split: if_splits)

lemma parse_errs:
  "parse_value n E s = Inl e \<Longrightarrow> e \<in> {JsonDecodeErr, ValueErr, OutOfFuel}"
  "parse_elems n E s = Inl e \<Longrightarrow> e \<in> {JsonDecodeErr, ValueErr, OutOfFuel}"
  "parse_members n E s = Inl e \<Longrightarrow> e \<in> {JsonDecodeErr, ValueErr, OutOfFuel}"
proof (induction n E s and n E s and n E s rule: parse_value_parse_elems_parse_members.induct)
  case (2 n E s)
  then show ?case
    by (auto simp: sbind_Inl split: list.splits if_splits option.splits dest: scan_scalar_errs)
next
  case (4 n E s)
  show ?case
  proof (cases "parse_value n E s")
    case (Inl e')
    with "4.prems" have "e' = e" by simp
    with Inl "4.IH"(1) show ?thesis by simp
  next
    case (Inr vr)
    then obtain v r where v: "parse_value n E s = Inr (v, r)"
      by (cases vr) auto
    show ?thesis
    proof (cases "\<exists>r'. skip_ws r = 44 # r'")
      case True
      then obtain r' where r': "skip_ws r = 44 # r'"
        by blast
      with "4.prems" v have "parse_elems n E (skip_ws r') = Inl e"
        by (simp add: sbind_Inl)
      with "4.IH"(2) [OF v refl r'] show ?thesis by simp
    next
      case False
      with "4.prems" v show ?thesis
        by (auto split: list.splits if_splits)
    qed
  qed
next
  case (6 n E s)
  show ?case
  proof (cases "\<exists>t k r r1. s = 34 # t \<and> scan_string t = Some (k, r) \<and> skip_ws r = 58 # r1")
    case False
    with "6.prems" show ?thesis
      by (auto split: list.splits if_splits option.splits)
  next
    case True
    then obtain t k r r1 where s: "s = 34 # t" and k: "scan_string t = Some (k, r)"
      and r1: "skip_ws r = 58 # r1"
      by blast
    show ?thesis
    proof (cases "parse_value n E (skip_ws r1)")
      case (Inl e')
      with "6.prems" s k r1 have "e' = e" by simp
      with Inl "6.IH"(1) [OF s _ k refl r1] show ?thesis by simp
    next
      case (Inr vr)
      then obtain v r2 where v: "parse_value n E (skip_ws r1) = Inr (v, r2)"
        by (cases vr) auto
      show ?thesis
      proof (cases "\<exists>r3. skip_ws r2 = 44 # r3")
        case True
        then obtain r3 where r3: "skip_ws r2 = 44 # r3"
          by blast
        with "6.prems" s k r1 v have "parse_members n E (skip_ws r3) = Inl e"
          by (simp add: sbind_Inl)
        with "6.IH"(2) [OF s _ k refl r1 _ v refl r3] show ?thesis by simp
      next
        case False
        with "6.prems" s k r1 v show ?thesis
          by (auto split: list.splits if_splits)
      qed
    qed
  qed
qed simp_all

lemma json_loads_errs: "json_loads E s = Inl e \<Longrightarrow> e \<in> {JsonDecodeErr, ValueErr}"
  using json_loads_no_fuel_error [of E s]
  by (auto simp: json_loads_def simp del: parse_value.simps
      split: sum.splits if_splits prod.splits dest: parse_errs(1))

section \<open>The order of the members\<close>

lemma map_of_sort_key:
  "distinct (map fst kvs) \<Longrightarrow> map_of (sort_key f kvs) = map_of kvs"
  by (rule map_of_eqI)
    (auto simp: distinct_sort_key_keys map_of_eq_Some_iff intro: map_of_is_SomeI)

section \<open>Which values have a text that encodes\<close>

abbreviation str_ok :: "ustr \<Rightarrow> bool" where
  "str_ok s \<equiv> (\<forall>c \<in> set s. is_scalar c)"

fun json_encodable :: "pyval \<Rightarrow> bool" where
  "json_encodable PNone = True"
| "json_encodable (PBool b) = True"
| "json_encodable (PStr s) = str_ok s"
| "json_encodable (PList vs) = (\<forall>v \<in> set vs. json_encodable v)"
| "json_encodable (PDict kvs) = (\<forall>kv \<in> set kvs. str_ok (fst kv) \<and> json_encodable (snd kv))"
| "json_encodable v = False"

lemma scalar_ascii [simp]: "c < 128 \<Longrightarrow> is_scalar c"
  by (simp add: is_scalar_def is_surrogate_def)

lemma hex_digit_scalar: "n < 16 \<Longrightarrow> is_scalar (hex_digit n)"
  by (simp add: hex_digit_def)

lemma escape_char_ok: "is_scalar c \<Longrightarrow> str_ok (escape_char c)"
  by (auto simp: escape_char_def hex_digit_scalar less_mult_imp_div_less)

lemma json_string_ok: "str_ok s \<Longrightarrow> str_ok (json_string s)"
  using escape_char_ok by (auto simp: json_string_def)

lemma join_with_ok: "str_ok d \<Longrightarrow> \<forall>p \<in> set ps. str_ok p \<Longrightarrow> str_ok (join_with d ps)"
  by (induction d ps rule: join_with.induct) auto

lemma mapM_sum_total:
  "\<forall>x \<in> set xs. \<exists>y. f x = Inr y \<and> P y \<Longrightarrow> \<exists>ys. mapM_sum f xs = Inr ys \<and> (\<forall>y \<in> set ys. P y)"
  by (induction xs) auto

lemma json_emit_ok: "json_encodable v \<Longrightarrow> \<exists>t. json_emit ord v = Inr t \<and> str_ok t"
proof (induction ord v rule: json_emit.induct)
  case (6 ord vs)
  then have "\<forall>v \<in> set vs. \<exists>t. json_emit ord v = Inr t \<and> str_ok t" by simp
  from mapM_sum_total [OF this] obtain ts where "mapM_sum (json_emit ord) vs = Inr ts"
    "\<forall>t \<in> set ts. str_ok t" by blast
  moreover from this(2) have "str_ok (join_with [44] ts)"
    by (intro join_with_ok) auto
  ultimately show ?case by auto
next
  case (7 ord kvs)
  have "\<forall>kv \<in> set (sort_key (\<lambda>kv. ord (fst kv)) kvs).
      \<exists>t. sbind (json_emit ord (snd kv)) (\<lambda>t. Inr (json_string (fst kv) @ 58 # t)) = Inr t \<and> str_ok t"
  proof
    fix kv
    assume "kv \<in> set (sort_key (\<lambda>kv. ord (fst kv)) kvs)"
    with 7 obtain t where "json_emit ord (snd kv) = Inr t" "str_ok t" "str_ok (fst kv)"
      by (cases kv) fastforce
    with json_string_ok [of "fst kv"] show
      "\<exists>t. sbind (json_emit ord (snd kv)) (\<lambda>t. Inr (json_string (fst kv) @ 58 # t)) = Inr t \<and> str_ok t"
      by auto
  qed
  from mapM_sum_total [OF this] obtain ts where
    "mapM_sum (\<lambda>kv. sbind (json_emit ord (snd kv)) (\<lambda>t. Inr (json_string (fst kv) @ 58 # t)))
       (sort_key (\<lambda>kv. ord (fst kv)) kvs) = Inr ts" "\<forall>t \<in> set ts. str_ok t" by blast
  moreover from this(2) have "str_ok (join_with [44] ts)"
    by (intro join_with_ok) auto
  ultimately show ?case by auto
next
  case (5 ord s)
  then show ?case using json_string_ok [of s] by simp
qed (auto simp: u_def)

lemma json_bytes_ok: "json_encodable v \<Longrightarrow> \<exists>b. sbind (json_dumps v) utf8_encode = Inr b"
  using json_emit_ok [of v "\<lambda>k. k"] utf8_encode_scalars by (auto simp: json_dumps_def)

end
