(* ===== verification/PolicyEnvelope.thy ===== *)
theory PolicyEnvelope
  imports PolicyGate JsonRoundtrip
begin

text \<open>
  The persisted form of a capability policy
  (\<open>wakir_protocol/schemas/capability_policy_nats_kv_backend.py\<close>): the keys of the bucket and the
  identity pairs they stand for, the record that wraps a policy with operator-side bookkeeping,
  the un-revoke audit marker, and the codec between records and canonical JSON bytes. The theorems
  are the two round trips of the codec and of the keys, the invariant of decoded records, and which
  errors can leave the decoder.
\<close>

section \<open>Keys\<close>

definition is_alnum :: "nat \<Rightarrow> bool" where
  "is_alnum c \<longleftrightarrow> (48 \<le> c \<and> c \<le> 57) \<or> (65 \<le> c \<and> c \<le> 90) \<or> (97 \<le> c \<and> c \<le> 122)"

text \<open>
  \<open>re.match("^[A-Za-z0-9][A-Za-z0-9...]*$", s)\<close>, where \<open>ok\<close> are the characters of the second
  class. In Python \<open>$\<close> also matches before a newline at the end of the string.
\<close>

definition re_ident :: "(nat \<Rightarrow> bool) \<Rightarrow> ustr \<Rightarrow> bool" where
  "re_ident ok s \<longleftrightarrow>
     (case s of
        [] \<Rightarrow> False
      | c # cs \<Rightarrow> is_alnum c \<and> (list_all ok cs \<or> (ends_with [10] cs \<and> list_all ok (butlast cs))))"

definition policy_id_match :: "ustr \<Rightarrow> bool" where
  "policy_id_match = re_ident (\<lambda>c. is_alnum c \<or> c \<in> {95, 46, 45})"

definition registered_by_match :: "ustr \<Rightarrow> bool" where
  "registered_by_match = re_ident (\<lambda>c. is_alnum c \<or> c \<in> {95, 46, 58, 45})"

definition key_prefix :: ustr where
  "key_prefix = u ''capability-policies/''"

definition check_component :: "(ustr \<Rightarrow> bool) \<Rightarrow> ustr \<Rightarrow> unit res" where
  "check_component pattern c =
     sbind (ensure (c \<noteq> []) ValueErr) (\<lambda>_.
     sbind (ensure (47 \<notin> set c) ValueErr) (\<lambda>_.
     ensure (pattern c) ValueErr))"

definition key_for_policy_pair :: "ustr \<Rightarrow> ustr \<Rightarrow> ustr res" where
  "key_for_policy_pair rb pid =
     sbind (check_component registered_by_match rb) (\<lambda>_.
     sbind (check_component policy_id_match pid) (\<lambda>_.
     Inr (key_prefix @ rb @ [47] @ pid)))"

definition pair_for_key :: "ustr \<Rightarrow> (ustr \<times> ustr) res" where
  "pair_for_key key =
     (if \<not> starts_with key_prefix key then Inl ValueErr
      else (case split_on 47 (drop (length key_prefix) key) of
              [rb, pid] \<Rightarrow> if rb \<noteq> [] \<and> pid \<noteq> [] then Inr (rb, pid) else Inl ValueErr
            | _ \<Rightarrow> Inl ValueErr))"

section \<open>Records\<close>

record unrevoke_marker =
  unrevoke_reason :: "ustr option"
  previous_revoked_at :: dt
  previous_revocation_reason :: "ustr option"

definition mk_marker :: "ustr option \<Rightarrow> dt \<Rightarrow> ustr option \<Rightarrow> unrevoke_marker res" where
  "mk_marker reason prev prev_reason =
     sbind (ensure (aware prev) PolicyValidationErr) (\<lambda>_.
     Inr \<lparr>unrevoke_reason = reason, previous_revoked_at = prev,
          previous_revocation_reason = prev_reason\<rparr>)"

record policy_record =
  rec_policy :: capability_policy
  policy_id :: ustr
  registered_at :: dt
  registered_by_publisher :: ustr
  unrevoke_audit_marker :: "unrevoke_marker option"

text \<open>\<open>CapabilityPolicyRecord.__init__\<close> with its \<open>__post_init__\<close>.\<close>

definition mk_record ::
  "capability_policy \<Rightarrow> pyval \<Rightarrow> dt \<Rightarrow> pyval \<Rightarrow> unrevoke_marker option \<Rightarrow> policy_record res" where
  "mk_record p pid at publisher marker =
     sbind (as_str PolicyValidationErr pid) (\<lambda>pid.
     sbind (ensure (policy_id_match pid) PolicyValidationErr) (\<lambda>_.
     sbind (ensure (aware at) PolicyValidationErr) (\<lambda>_.
     sbind (as_str PolicyValidationErr publisher) (\<lambda>publisher.
     sbind (ensure (marker = None \<or> revoked_at p = None) PolicyValidationErr) (\<lambda>_.
     Inr \<lparr>rec_policy = p, policy_id = pid, registered_at = at,
          registered_by_publisher = publisher, unrevoke_audit_marker = marker\<rparr>)))))"

definition record_key :: "policy_record \<Rightarrow> ustr res" where
  "record_key r = key_for_policy_pair (registered_by (rec_policy r)) (policy_id r)"

text \<open>What the constructors guarantee of every record that exists.\<close>

definition record_wf :: "policy_record \<Rightarrow> bool" where
  "record_wf r \<longleftrightarrow> policy_wf (rec_policy r) \<and> policy_id_match (policy_id r)
     \<and> aware (registered_at r) \<and> registered_by_publisher r \<noteq> []
     \<and> (case unrevoke_audit_marker r of None \<Rightarrow> True
        | Some m \<Rightarrow> aware (previous_revoked_at m) \<and> revoked_at (rec_policy r) = None)"

section \<open>Envelopes\<close>

definition value_schema :: ustr where
  "value_schema = u ''wakir.wirelang.capability-policy-entry/1''"

definition opt_str :: "ustr option \<Rightarrow> pyval" where
  "opt_str x = (case x of None \<Rightarrow> PNone | Some s \<Rightarrow> PStr s)"

definition opt_dt :: "pyenv \<Rightarrow> dt option \<Rightarrow> pyval res" where
  "opt_dt E x = sbind (opt_res (dt_to_rfc3339 E) x) (\<lambda>s. Inr (opt_str s))"

definition marker_payload :: "pyenv \<Rightarrow> unrevoke_marker \<Rightarrow> pyval res" where
  "marker_payload E m =
     sbind (dt_to_rfc3339 E (previous_revoked_at m)) (\<lambda>prev.
     Inr (PDict
       [(u ''unrevoke_reason'', opt_str (unrevoke_reason m)),
        (u ''previous_revoked_at'', PStr prev),
        (u ''previous_revocation_reason'', opt_str (previous_revocation_reason m))]))"

definition record_payload :: "pyenv \<Rightarrow> policy_record \<Rightarrow> pyval res" where
  "record_payload E r =
     (let p = rec_policy r in
      sbind (opt_dt E (not_before p)) (\<lambda>nb.
      sbind (opt_dt E (not_after p)) (\<lambda>na.
      sbind (opt_dt E (revoked_at p)) (\<lambda>rv.
      sbind (dt_to_rfc3339 E (registered_at r)) (\<lambda>at.
      sbind (case unrevoke_audit_marker r of
               None \<Rightarrow> Inr []
             | Some m \<Rightarrow> sbind (marker_payload E m) (\<lambda>v. Inr [(u ''unrevoke_audit_marker'', v)])) (\<lambda>mk.
      Inr (PDict
        ([(u ''schema'', PStr value_schema),
          (u ''registered_by'', PStr (registered_by p)),
          (u ''policy_id'', PStr (policy_id r)),
          (u ''allowed_kids'', PList (map PStr (allowed_kids p))),
          (u ''allowed_triples'', PList (map (\<lambda>t. PList [PStr (fst t), PStr (snd t)]) (allowed_triples p))),
          (u ''not_before'', nb),
          (u ''not_after'', na),
          (u ''disabled'', PBool (disabled p)),
          (u ''note'', opt_str (policy_note p)),
          (u ''revoked_at'', rv),
          (u ''revocation_reason'', opt_str (revocation_reason p)),
          (u ''registered_at'', PStr at),
          (u ''registered_by_publisher'', PStr (registered_by_publisher r))] @ mk))))))))"

definition record_to_envelope :: "pyenv \<Rightarrow> policy_record \<Rightarrow> octets res" where
  "record_to_envelope E r =
     sbind (record_payload E r) (\<lambda>payload. sbind (json_dumps payload) utf8_encode)"

text \<open>
  Reading. \<open>env e\<close> turns the exceptions that a clause catches into an envelope error;
  \<open>payload.get(k)\<close> is \<open>None\<close> for an absent key.
\<close>

abbreviation env_if :: "(exc \<Rightarrow> bool) \<Rightarrow> 'a res \<Rightarrow> 'a res" where
  "env_if catches \<equiv> rethrow catches PolicyEnvelopeErr"

definition dget :: "(ustr \<times> pyval) list \<Rightarrow> string \<Rightarrow> pyval" where
  "dget d k = (case map_of d (u k) of None \<Rightarrow> PNone | Some v \<Rightarrow> v)"

definition require_keys :: "string list \<Rightarrow> (ustr \<times> pyval) list \<Rightarrow> unit res" where
  "require_keys ks d = ensure (\<forall>k \<in> set ks. map_of d (u k) \<noteq> None) PolicyEnvelopeErr"

fun get_list :: "pyval \<Rightarrow> pyval list res" where
  "get_list (PList vs) = Inr vs"
| "get_list v = Inl PolicyEnvelopeErr"

fun get_triple :: "pyval \<Rightarrow> (ustr \<times> ustr) res" where
  "get_triple (PList [PStr a, PStr b]) = Inr (a, b)"
| "get_triple v = Inl PolicyEnvelopeErr"

fun get_bool :: "pyval \<Rightarrow> bool res" where
  "get_bool (PBool b) = Inr b"
| "get_bool v = Inl PolicyEnvelopeErr"

fun get_opt_str :: "pyval \<Rightarrow> ustr option res" where
  "get_opt_str PNone = Inr None"
| "get_opt_str (PStr s) = Inr (Some s)"
| "get_opt_str v = Inl PolicyEnvelopeErr"

definition get_opt_dt :: "pyenv \<Rightarrow> pyval \<Rightarrow> dt option res" where
  "get_opt_dt E v =
     (if v = PNone then Inr None
      else sbind (env_if is_value_error (rfc3339_to_dt E v)) (\<lambda>d. Inr (Some d)))"

definition marker_fields :: "string list" where
  "marker_fields = [''unrevoke_reason'', ''previous_revoked_at'', ''previous_revocation_reason'']"

definition decode_marker :: "pyenv \<Rightarrow> pyval \<Rightarrow> unrevoke_marker option res" where
  "decode_marker E v =
     (case v of
        PNone \<Rightarrow> Inr None
      | PDict m \<Rightarrow>
          sbind (require_keys marker_fields m) (\<lambda>_.
          sbind (get_opt_str (dget m ''unrevoke_reason'')) (\<lambda>reason.
          sbind (ensure (dget m ''previous_revoked_at'' \<noteq> PNone) PolicyEnvelopeErr) (\<lambda>_.
          sbind (env_if is_value_error (rfc3339_to_dt E (dget m ''previous_revoked_at''))) (\<lambda>prev.
          sbind (get_opt_str (dget m ''previous_revocation_reason'')) (\<lambda>prev_reason.
          sbind (env_if (\<lambda>e. e = PolicyValidationErr) (mk_marker reason prev prev_reason)) (\<lambda>mk.
          Inr (Some mk)))))))
      | _ \<Rightarrow> Inl PolicyEnvelopeErr)"

definition record_fields :: "string list" where
  "record_fields = [''registered_by'', ''policy_id'', ''allowed_kids'', ''allowed_triples'',
     ''disabled'', ''registered_at'', ''registered_by_publisher'']"

definition payload_to_record :: "pyenv \<Rightarrow> (ustr \<times> pyval) list \<Rightarrow> policy_record res" where
  "payload_to_record E d =
     sbind (ensure (dget d ''schema'' = PStr value_schema) PolicyEnvelopeErr) (\<lambda>_.
     sbind (require_keys record_fields d) (\<lambda>_.
     sbind (get_list (dget d ''allowed_kids'')) (\<lambda>kids.
     sbind (get_list (dget d ''allowed_triples'')) (\<lambda>raw_triples.
     sbind (mapM_sum get_triple raw_triples) (\<lambda>triples.
     sbind (get_opt_dt E (dget d ''not_before'')) (\<lambda>nb.
     sbind (get_opt_dt E (dget d ''not_after'')) (\<lambda>na.
     sbind (env_if is_value_error (rfc3339_to_dt E (dget d ''registered_at''))) (\<lambda>at.
     sbind (get_bool (dget d ''disabled'')) (\<lambda>dis.
     sbind (get_opt_str (dget d ''note'')) (\<lambda>nt.
     sbind (get_opt_dt E (dget d ''revoked_at'')) (\<lambda>rv.
     sbind (get_opt_str (dget d ''revocation_reason'')) (\<lambda>reason.
     sbind (decode_marker E (dget d ''unrevoke_audit_marker'')) (\<lambda>marker.
     sbind (env_if (\<lambda>e. e = RegisteredByCapabilityErr)
             (mk_policy (dget d ''registered_by'') kids triples nb na dis nt rv reason)) (\<lambda>p.
     env_if (\<lambda>e. e = PolicyValidationErr)
       (mk_record p (dget d ''policy_id'') at (dget d ''registered_by_publisher'') marker)))))))))))))))"

definition envelope_to_record :: "pyenv \<Rightarrow> octets \<Rightarrow> policy_record res" where
  "envelope_to_record E blob =
     sbind (env_if (\<lambda>e. e = UnicodeDecodeErr) (utf8_decode blob)) (\<lambda>text.
     sbind (env_if (\<lambda>e. e = JsonDecodeErr) (json_loads E text)) (\<lambda>payload.
     case payload of PDict d \<Rightarrow> payload_to_record E d | _ \<Rightarrow> Inl PolicyEnvelopeErr))"

section \<open>Keys and pairs\<close>

text \<open>
  the keys of the bucket and the identity pairs correspond: the pair read from a key that was
  derived from a pair is that pair, and any key a pair can be read from is that pair's text.
\<close>

lemma pair_key_roundtrip:
  "(key_for_policy_pair rb pid = Inr k \<longrightarrow> pair_for_key k = Inr (rb, pid))
   \<and> (pair_for_key k = Inr (rb, pid) \<longrightarrow> k = key_prefix @ rb @ [47] @ pid \<and> rb \<noteq> [] \<and> pid \<noteq> [])"
proof (intro conjI impI)
  assume "key_for_policy_pair rb pid = Inr k"
  then have k: "k = key_prefix @ rb @ [47] @ pid" "rb \<noteq> []" "pid \<noteq> []" "47 \<notin> set rb" "47 \<notin> set pid"
    by (auto simp: key_for_policy_pair_def check_component_def)
  then show "pair_for_key k = Inr (rb, pid)"
    by (simp add: pair_for_key_def split_on_app split_on_free)
next
  assume r: "pair_for_key k = Inr (rb, pid)"
  then obtain rest where k: "k = key_prefix @ rest"
    by (auto simp: pair_for_key_def starts_with_iff split: if_splits)
  with r have "split_on 47 rest = [rb, pid]" "rb \<noteq> []" "pid \<noteq> []"
    by (auto simp: pair_for_key_def split: list.splits if_splits)
  then show "k = key_prefix @ rb @ [47] @ pid" "rb \<noteq> []" "pid \<noteq> []"
    using k join_split [of 47 rest] by auto
qed

section \<open>The codec's round trip\<close>

text \<open>The same instants in UTC.\<close>

definition utc_of :: "dt \<Rightarrow> dt" where
  "utc_of d = Dt (instant d) (Some 0)"

definition policy_utc :: "capability_policy \<Rightarrow> capability_policy" where
  "policy_utc p = p\<lparr>not_before := map_option utc_of (not_before p),
     not_after := map_option utc_of (not_after p), revoked_at := map_option utc_of (revoked_at p)\<rparr>"

definition marker_utc :: "unrevoke_marker \<Rightarrow> unrevoke_marker" where
  "marker_utc m = m\<lparr>previous_revoked_at := utc_of (previous_revoked_at m)\<rparr>"

definition record_utc :: "policy_record \<Rightarrow> policy_record" where
  "record_utc r = r\<lparr>rec_policy := policy_utc (rec_policy r), registered_at := utc_of (registered_at r),
     unrevoke_audit_marker := map_option marker_utc (unrevoke_audit_marker r)\<rparr>"

lemma aware_utc_of [simp]: "aware (utc_of d)"
  by (simp add: utc_of_def aware_def)

lemma instant_utc_of [simp]: "instant (utc_of d) = instant d"
  by (simp add: utc_of_def instant_def)

lemma utc_of_idem [simp]: "utc_of (utc_of d) = utc_of d"
  by (simp add: utc_of_def instant_def)

lemma astimezone_utc_of:
  "aware d \<Longrightarrow> astimezone_utc E d = (if 0 \<le> instant d \<and> instant d < max_us
     then Inr (utc_of d) else Inl OverflowErr)"
  by (auto simp: astimezone_utc_def utc_of_def instant_def aware_def)

lemma dt_to_rfc3339_read:
  assumes "dt_to_rfc3339 E d = Inr s"
  shows "aware d" "rfc3339_to_dt E (PStr s) = Inr (utc_of d)" "dt_to_rfc3339 E (utc_of d) = Inr s"
proof -
  from rfc3339_roundtrip [OF assms] show a: "aware d" by simp
  from assms a have ok: "astimezone_utc E d = Inr (utc_of d)" "0 \<le> instant d" "instant d < max_us"
    by (auto simp: dt_to_rfc3339_def astimezone_utc_of split: if_splits)
  with rfc3339_roundtrip [OF assms] show "rfc3339_to_dt E (PStr s) = Inr (utc_of d)" by simp
  from ok assms a show "dt_to_rfc3339 E (utc_of d) = Inr s"
    by (simp add: dt_to_rfc3339_def astimezone_utc_of)
qed

lemma opt_dt_read:
  assumes "opt_dt E x = Inr v"
  shows "case x of None \<Rightarrow> True | Some d \<Rightarrow> aware d" "get_opt_dt E v = Inr (map_option utc_of x)"
    "json_canon ord v = v" "opt_dt E (map_option utc_of x) = Inr v" "json_plain v"
  using assms
  by (auto simp: opt_dt_def get_opt_dt_def opt_str_def dt_to_rfc3339_read split: option.splits)

lemma get_opt_str_read [simp]: "get_opt_str (opt_str x) = Inr x" "json_canon ord (opt_str x) = opt_str x"
    "json_plain (opt_str x)"
  by (simp_all add: opt_str_def split: option.splits)

lemma dget_canon:
  assumes "distinct (map fst d)" "json_canon ord (PDict d) = PDict d'"
  shows "dget d' k = json_canon ord (dget d k)"
    "require_keys ks d' = require_keys ks d"
proof -
  let ?s = "sort_key (\<lambda>kv. ord (fst kv)) d"
  have d': "d' = map (\<lambda>(k, v). (k, json_canon ord v)) ?s"
    using assms(2) by (auto simp: case_prod_beta)
  have m: "map_of d' (u k) = map_option (json_canon ord) (map_of d (u k))" for k
    unfolding d' map_of_map by (simp add: map_of_sort_key [OF assms(1)])
  then show "require_keys ks d' = require_keys ks d"
    by (simp add: require_keys_def del: not_None_eq)
  show "dget d' k = json_canon ord (dget d k)"
    using m by (simp add: dget_def split: option.splits)
qed

lemma marker_read:
  assumes "marker_payload E m = Inr v"
  shows "decode_marker E (json_canon ord v) = Inr (Some (marker_utc m))"
    "marker_payload E (marker_utc m) = Inr v" "json_plain v"
proof -
  from assms obtain s where s: "dt_to_rfc3339 E (previous_revoked_at m) = Inr s"
    and v: "v = PDict
       [(u ''unrevoke_reason'', opt_str (unrevoke_reason m)),
        (u ''previous_revoked_at'', PStr s),
        (u ''previous_revocation_reason'', opt_str (previous_revocation_reason m))]" (is "v = PDict ?d")
    by (auto simp: marker_payload_def)
  note r = dt_to_rfc3339_read [OF s]
  have dist: "distinct (map fst ?d)" by simp
  obtain d' where d': "json_canon ord v = PDict d'"
    by (simp add: v)
  note g = dget_canon [OF dist d' [unfolded v]]
  have "require_keys marker_fields d' = Inr ()"
    by (simp add: g(2)) (simp add: require_keys_def marker_fields_def)
  moreover have "dget d' ''unrevoke_reason'' = opt_str (unrevoke_reason m)"
    "dget d' ''previous_revoked_at'' = PStr s"
    "dget d' ''previous_revocation_reason'' = opt_str (previous_revocation_reason m)"
    unfolding g(1) by (simp_all add: dget_def)
  ultimately show "decode_marker E (json_canon ord v) = Inr (Some (marker_utc m))"
    unfolding d' decode_marker_def
    by (simp add: r mk_marker_def marker_utc_def)
  show "marker_payload E (marker_utc m) = Inr v"
    by (simp add: marker_payload_def marker_utc_def r v)
  show "json_plain v"
    by (simp add: v)
qed

lemma policy_wf_utc:
  assumes "policy_wf p" "case not_before p of None \<Rightarrow> True | Some d \<Rightarrow> aware d"
    "case not_after p of None \<Rightarrow> True | Some d \<Rightarrow> aware d"
  shows "policy_wf (policy_utc p)"
  using assms unfolding policy_wf_def policy_utc_def
  by (simp add: dt_ge_def split: option.splits)

lemma mk_record_Inr:
  "mk_record p pid at pb mk = Inr r \<longleftrightarrow>
     p = rec_policy r \<and> pid = PStr (policy_id r) \<and> at = registered_at r
     \<and> pb = PStr (registered_by_publisher r) \<and> mk = unrevoke_audit_marker r
     \<and> policy_id r \<noteq> [] \<and> policy_id_match (policy_id r) \<and> aware (registered_at r)
     \<and> registered_by_publisher r \<noteq> []
     \<and> (mk = None \<or> revoked_at p = None)"
  by (cases r) (auto simp: mk_record_def)

lemma envelope_reads:
  assumes "record_wf r" "record_to_envelope E r = Inr b"
  shows "envelope_to_record E b = Inr (record_utc r) \<and> record_to_envelope E (record_utc r) = Inr b"
proof -
  let ?p = "rec_policy r"
  from assms(2) obtain v t where v: "record_payload E r = Inr v" and t: "json_emit (\<lambda>k. k) v = Inr t"
    and b: "utf8_encode t = Inr b"
    by (auto simp: record_to_envelope_def json_dumps_def)
  from v obtain nb na rv at mk where nb: "opt_dt E (not_before ?p) = Inr nb"
    and na: "opt_dt E (not_after ?p) = Inr na" and rv: "opt_dt E (revoked_at ?p) = Inr rv"
    and at: "dt_to_rfc3339 E (registered_at r) = Inr at"
    and mk: "(case unrevoke_audit_marker r of None \<Rightarrow> Inr []
      | Some m \<Rightarrow> sbind (marker_payload E m) (\<lambda>v. Inr [(u ''unrevoke_audit_marker'', v)])) = Inr mk"
    and v_eq: "v = PDict
        ([(u ''schema'', PStr value_schema),
          (u ''registered_by'', PStr (registered_by ?p)),
          (u ''policy_id'', PStr (policy_id r)),
          (u ''allowed_kids'', PList (map PStr (allowed_kids ?p))),
          (u ''allowed_triples'', PList (map (\<lambda>t. PList [PStr (fst t), PStr (snd t)]) (allowed_triples ?p))),
          (u ''not_before'', nb), (u ''not_after'', na),
          (u ''disabled'', PBool (disabled ?p)),
          (u ''note'', opt_str (policy_note ?p)),
          (u ''revoked_at'', rv),
          (u ''revocation_reason'', opt_str (revocation_reason ?p)),
          (u ''registered_at'', PStr at),
          (u ''registered_by_publisher'', PStr (registered_by_publisher r))] @ mk)" (is "v = PDict ?d")
    by (auto simp: record_payload_def Let_def)
  note reads = opt_dt_read [OF nb] opt_dt_read [OF na] opt_dt_read [OF rv]
  note at' = dt_to_rfc3339_read [OF at]
  have mk_plain: "distinct (map fst mk) \<and> fst ` set mk \<subseteq> {u ''unrevoke_audit_marker''}
      \<and> (\<forall>x \<in> set mk. json_plain (snd x))"
    using mk marker_read(3) by (auto split: option.splits)
  then have dist: "distinct (map fst ?d)" by auto
  have plain: "json_plain v"
    unfolding v_eq using dist mk_plain reads by auto
  obtain d' where d': "json_canon (\<lambda>k. k) v = PDict d'"
    unfolding v_eq by simp
  note g = dget_canon [OF dist d' [unfolded v_eq]]
  have mk_dec: "decode_marker E (dget d' ''unrevoke_audit_marker'')
      = Inr (map_option marker_utc (unrevoke_audit_marker r))"
  proof (cases "unrevoke_audit_marker r")
    case None
    with mk show ?thesis unfolding g(1) by (simp add: dget_def decode_marker_def)
  next
    case (Some m)
    with mk obtain w where w: "marker_payload E m = Inr w" "mk = [(u ''unrevoke_audit_marker'', w)]"
      by auto
    then have "dget d' ''unrevoke_audit_marker'' = json_canon (\<lambda>k. k) w"
      unfolding g(1) by (simp add: dget_def)
    with marker_read(1) [OF w(1)] Some show ?thesis by simp
  qed
  have req: "require_keys record_fields d' = Inr ()"
    unfolding g(2) by (simp add: require_keys_def record_fields_def)
  have fields: "dget d' ''schema'' = PStr value_schema" "dget d' ''registered_by'' = PStr (registered_by ?p)"
    "dget d' ''policy_id'' = PStr (policy_id r)"
    "dget d' ''allowed_kids'' = PList (map PStr (allowed_kids ?p))"
    "dget d' ''allowed_triples'' = PList (map (\<lambda>t. PList [PStr (fst t), PStr (snd t)]) (allowed_triples ?p))"
    "dget d' ''not_before'' = nb" "dget d' ''not_after'' = na" "dget d' ''disabled'' = PBool (disabled ?p)"
    "dget d' ''note'' = opt_str (policy_note ?p)" "dget d' ''revoked_at'' = rv"
    "dget d' ''revocation_reason'' = opt_str (revocation_reason ?p)"
    "dget d' ''registered_at'' = PStr at"
    "dget d' ''registered_by_publisher'' = PStr (registered_by_publisher r)"
    unfolding g(1) by (simp_all add: dget_def reads comp_def)
  have triples: "mapM_sum get_triple (map (\<lambda>t. PList [PStr (fst t), PStr (snd t)]) ts) = Inr ts" for ts
    by (induction ts) auto
  have pol: "mk_policy (PStr (registered_by ?p)) (map PStr (allowed_kids ?p)) (allowed_triples ?p)
      (map_option utc_of (not_before ?p)) (map_option utc_of (not_after ?p)) (disabled ?p)
      (policy_note ?p) (map_option utc_of (revoked_at ?p)) (revocation_reason ?p) = Inr (policy_utc ?p)"
    using policy_wf_utc [of ?p] assms(1) reads unfolding mk_policy_Inr
    by (simp add: policy_utc_def record_wf_def)
  have rec: "mk_record (policy_utc ?p) (PStr (policy_id r)) (utc_of (registered_at r))
      (PStr (registered_by_publisher r)) (map_option marker_utc (unrevoke_audit_marker r))
      = Inr (record_utc r)"
    unfolding mk_record_Inr using assms(1)
    by (auto simp: record_utc_def policy_utc_def record_wf_def policy_id_match_def re_ident_def
        split: option.splits list.splits)
  have "payload_to_record E d' = Inr (record_utc r)"
    unfolding payload_to_record_def fields
    by (simp add: req triples reads at' mk_dec pol rec)
  then have "envelope_to_record E b = Inr (record_utc r)"
    using utf8_decode_encode [OF b] loads_emit [OF plain t, of E] d'
    by (simp add: envelope_to_record_def)
  moreover have "record_payload E (record_utc r) = Inr v"
  proof -
    have "(case unrevoke_audit_marker (record_utc r) of None \<Rightarrow> Inr []
      | Some m \<Rightarrow> sbind (marker_payload E m) (\<lambda>v. Inr [(u ''unrevoke_audit_marker'', v)])) = Inr mk"
      using mk marker_read(2) by (auto simp: record_utc_def split: option.splits)
    then show ?thesis
      unfolding record_payload_def v_eq
      by (simp add: Let_def record_utc_def policy_utc_def reads at')
  qed
  then have "record_to_envelope E (record_utc r) = Inr b"
    using t b by (simp add: record_to_envelope_def json_dumps_def)
  ultimately show ?thesis ..
qed

text \<open>
  C4: decoding the bytes a record was encoded to gives that record with its datetimes in UTC, and
  encoding that record again gives the same bytes.
\<close>

theorem envelope_roundtrip:
  assumes "record_wf r" "record_to_envelope E r = Inr b"
  shows "envelope_to_record E b = Inr (record_utc r) \<and> record_to_envelope E (record_utc r) = Inr b"
  using assms by (rule envelope_reads)

section \<open>What the decoder lets through\<close>

lemma rfc3339_to_dt_utc: "rfc3339_to_dt E v = Inr d \<Longrightarrow> aware d \<and> utc_of d = d"
  by (cases v; cases d)
    (auto simp: rfc3339_to_dt_def Let_def utc_of_def instant_def aware_def dest: astimezone_utc_InrD)

lemma get_opt_dt_utc:
  "get_opt_dt E v = Inr x \<Longrightarrow> (case x of None \<Rightarrow> True | Some d \<Rightarrow> aware d) \<and> map_option utc_of x = x"
  by (auto simp: get_opt_dt_def dest: rfc3339_to_dt_utc split: if_splits)

lemma decode_marker_utc:
  "decode_marker E v = Inr (Some m) \<Longrightarrow> aware (previous_revoked_at m) \<and> marker_utc m = m"
  by (auto simp: decode_marker_def mk_marker_def marker_utc_def dest: rfc3339_to_dt_utc
      split: pyval.splits)

lemma decode_marker_map: "decode_marker E v = Inr x \<Longrightarrow> map_option marker_utc x = x"
  by (cases x) (auto dest: decode_marker_utc)

lemma decoded_wf:
  assumes "envelope_to_record E b = Inr r"
  shows "record_wf r \<and> record_utc r = r"
proof -
  from assms obtain v where "(case v of PDict d \<Rightarrow> payload_to_record E d | _ \<Rightarrow> Inl PolicyEnvelopeErr) = Inr r"
    by (auto simp: envelope_to_record_def)
  then obtain d where "payload_to_record E d = Inr r"
    by (cases v) auto
  then obtain kids triples nb na at dis nt rv reason mk p where
    nb: "get_opt_dt E (dget d ''not_before'') = Inr nb"
    and na: "get_opt_dt E (dget d ''not_after'') = Inr na"
    and at: "rfc3339_to_dt E (dget d ''registered_at'') = Inr at"
    and rv: "get_opt_dt E (dget d ''revoked_at'') = Inr rv"
    and mk: "decode_marker E (dget d ''unrevoke_audit_marker'') = Inr mk"
    and p: "mk_policy (dget d ''registered_by'') kids triples nb na dis nt rv reason = Inr p"
    and r: "mk_record p (dget d ''policy_id'') at (dget d ''registered_by_publisher'') mk = Inr r"
    by (auto simp: payload_to_record_def)
  note facts = p [unfolded mk_policy_Inr] r [unfolded mk_record_Inr]
  from facts decode_marker_utc mk have "record_wf r"
    by (auto simp: record_wf_def split: option.splits)
  moreover have "policy_utc p = p"
    using facts get_opt_dt_utc [OF nb] get_opt_dt_utc [OF na] get_opt_dt_utc [OF rv]
    by (cases p) (auto simp: policy_utc_def)
  then have "record_utc r = r"
    using facts rfc3339_to_dt_utc [OF at] decode_marker_map [OF mk]
    by (cases r) (auto simp: record_utc_def)
  ultimately show ?thesis ..
qed

text \<open>
  C40: every record the decoder accepts satisfies the invariants of the constructors (non-empty
  identity, keys and triples, an ordered window, an audit marker only on an unrevoked policy), and
  all its datetimes are in UTC.
\<close>

theorem decoded_record_wf:
  assumes "envelope_to_record E b = Inr r"
  shows "record_wf r \<and> record_utc r = r"
  using assms by (rule decoded_wf)

lemma mk_policy_Inl:
  "mk_policy rb kids triples nb na dis nt rv reason = Inl e \<Longrightarrow>
     e = RegisteredByCapabilityErr \<or> (e = TypeErr \<and> (\<exists>b a. nb = Some b \<and> na = Some a \<and> aware b \<noteq> aware a))"
proof -
  have str: "as_str x v = Inl e \<Longrightarrow> e = x" for x v e
    by (cases v) (auto split: if_splits)
  show "?thesis" if "mk_policy rb kids triples nb na dis nt rv reason = Inl e"
    using that unfolding mk_policy_def sbind_Inl ensure_Inl
    by (elim disjE exE conjE) (auto simp: window_ordered_def dt_ge_def sbind_Inl dest: str mapM_sum_Inl
        split: option.splits if_splits)
qed

lemma rfc3339_to_dt_errs: "rfc3339_to_dt E v = Inl e \<Longrightarrow> e = ValueErr \<or> e = OverflowErr"
  by (cases v) (auto simp: rfc3339_to_dt_def fromisoformat_def astimezone_utc_def Let_def
      sbind_Inl split: if_splits option.splits)

lemma rfc3339_to_dt_Inl:
  "env_if is_value_error (rfc3339_to_dt E v) = Inl e \<Longrightarrow>
     e = PolicyEnvelopeErr \<or> (e = OverflowErr \<and> rfc3339_to_dt E v = Inl OverflowErr)"
  using rfc3339_to_dt_errs [of E v] by (auto simp: rethrow_Inl split: if_splits)

lemma get_opt_dt_Inl:
  "get_opt_dt E v = Inl e \<Longrightarrow> e = PolicyEnvelopeErr \<or> (e = OverflowErr \<and> rfc3339_to_dt E v = Inl OverflowErr)"
  by (auto simp: get_opt_dt_def sbind_Inl dest: rfc3339_to_dt_Inl split: if_splits)

lemma shape_errors:
  "get_list v = Inl e \<Longrightarrow> e = PolicyEnvelopeErr" "get_triple v = Inl e \<Longrightarrow> e = PolicyEnvelopeErr"
  "get_bool v = Inl e \<Longrightarrow> e = PolicyEnvelopeErr" "get_opt_str v = Inl e \<Longrightarrow> e = PolicyEnvelopeErr"
  "require_keys ks d = Inl e \<Longrightarrow> e = PolicyEnvelopeErr"
  by (cases v rule: get_list.cases, simp_all)
    (cases v rule: get_triple.cases, simp_all, cases v rule: get_bool.cases, simp_all,
      cases v rule: get_opt_str.cases, simp_all add: require_keys_def)

text \<open>The datetime texts of an envelope that the decoder converts.\<close>

definition time_texts :: "(ustr \<times> pyval) list \<Rightarrow> pyval set" where
  "time_texts d = {dget d ''not_before'', dget d ''not_after'', dget d ''registered_at'',
     dget d ''revoked_at''}
     \<union> (case dget d ''unrevoke_audit_marker'' of PDict m \<Rightarrow> {dget m ''previous_revoked_at''} | _ \<Rightarrow> {})"

lemma decode_marker_Inl:
  assumes "decode_marker E (dget d ''unrevoke_audit_marker'') = Inl e"
  shows "e = PolicyEnvelopeErr \<or> (e = OverflowErr \<and> (\<exists>v \<in> time_texts d. rfc3339_to_dt E v = Inl OverflowErr))"
proof (cases "dget d ''unrevoke_audit_marker''")
  case (PDict m)
  with assms rfc3339_to_dt_errs [of E "dget m ''previous_revoked_at''"] show ?thesis
    by (auto simp: decode_marker_def sbind_Inl time_texts_def rethrow_Inl mk_marker_def
        dest: shape_errors split: if_splits)
qed (use assms in \<open>auto simp: decode_marker_def\<close>)

lemma payload_to_record_Inl:
  assumes "payload_to_record E d = Inl e"
  shows "e = PolicyEnvelopeErr \<or> (e = OverflowErr \<and> (\<exists>v \<in> time_texts d. rfc3339_to_dt E v = Inl OverflowErr))"
proof -
  have mk: "env_if (\<lambda>e. e = RegisteredByCapabilityErr)
      (mk_policy rb kids triples nb na dis nt rv reason) = Inl e \<Longrightarrow> e = PolicyEnvelopeErr"
    if "get_opt_dt E v = Inr nb" "get_opt_dt E w = Inr na"
    for rb kids triples nb na dis nt rv reason e v w
    using get_opt_dt_utc [OF that(1)] get_opt_dt_utc [OF that(2)]
    by (auto simp: rethrow_Inl dest!: mk_policy_Inl split: if_splits)
  have str: "as_str x v = Inl e \<Longrightarrow> e = x" for x v e
    by (cases v) (auto split: if_splits)
  have rc: "env_if (\<lambda>e. e = PolicyValidationErr) (mk_record p pid at pb m) = Inl e \<Longrightarrow> e = PolicyEnvelopeErr"
    for p pid at pb m e
    by (auto simp: rethrow_Inl mk_record_def sbind_Inl dest!: str split: if_splits)
  note at = rfc3339_to_dt_Inl [of E "dget d ''registered_at''" e]
  note opt = get_opt_dt_Inl [of E "dget d ''not_before''" e] get_opt_dt_Inl [of E "dget d ''not_after''" e]
    get_opt_dt_Inl [of E "dget d ''revoked_at''" e]
  have mem: "dget d ''registered_at'' \<in> time_texts d" "dget d ''not_before'' \<in> time_texts d"
    "dget d ''not_after'' \<in> time_texts d" "dget d ''revoked_at'' \<in> time_texts d"
    by (auto simp: time_texts_def)
  from assms show ?thesis
    unfolding payload_to_record_def sbind_Inl ensure_Inl
    apply (elim disjE exE conjE)
    subgoal by simp
    subgoal by (simp add: shape_errors)
    subgoal by (simp add: shape_errors)
    subgoal by (simp add: shape_errors)
    subgoal by (auto dest: mapM_sum_Inl shape_errors)
    subgoal using opt mem by blast
    subgoal using opt mem by blast
    subgoal using at mem by blast
    subgoal by (simp add: shape_errors)
    subgoal by (simp add: shape_errors)
    subgoal using opt mem by blast
    subgoal by (simp add: shape_errors)
    subgoal by (rule decode_marker_Inl)
    subgoal using mk by blast
    subgoal using rc by blast
    done
qed

text \<open>
  C8: an envelope that cannot be decoded raises the envelope error, with two exceptions the code
  lets through: the \<open>ValueError\<close> of \<open>json.loads\<close> on an integer of more than 4300 digits, and the
  \<open>OverflowError\<close> of a datetime text whose UTC instant lies outside the years 1 to 9999.
\<close>

theorem envelope_errors_confined:
  assumes "envelope_to_record E b = Inl e"
  shows "e = PolicyEnvelopeErr
    \<or> (e = ValueErr \<and> (\<exists>t. utf8_decode b = Inr t \<and> json_loads E t = Inl ValueErr))
    \<or> (e = OverflowErr \<and> (\<exists>t d. utf8_decode b = Inr t \<and> json_loads E t = Inr (PDict d)
         \<and> (\<exists>v \<in> time_texts d. rfc3339_to_dt E v = Inl OverflowErr)))"
proof (cases "utf8_decode b")
  case (Inl e')
  with assms utf8_decode_err [OF Inl] show ?thesis by (simp add: envelope_to_record_def)
next
  case t: (Inr t)
  show ?thesis
  proof (cases "json_loads E t")
    case (Inl e')
    with assms t json_loads_errs [OF Inl] show ?thesis by (auto simp: envelope_to_record_def)
  next
    case (Inr v)
    with assms t have v: "(case v of PDict d \<Rightarrow> payload_to_record E d | _ \<Rightarrow> Inl PolicyEnvelopeErr) = Inl e"
      by (simp add: envelope_to_record_def)
    show ?thesis
    proof (cases v)
      case (PDict d)
      with v have "payload_to_record E d = Inl e" by simp
      from payload_to_record_Inl [OF this] t Inr PDict show ?thesis by auto
    qed (use v in auto)
  qed
qed

section \<open>Which records can be encoded\<close>

definition dt_ok :: "dt \<Rightarrow> bool" where
  "dt_ok d \<longleftrightarrow> aware d \<and> 0 \<le> instant d \<and> instant d < max_us"

abbreviation opt_dt_ok :: "dt option \<Rightarrow> bool" where
  "opt_dt_ok x \<equiv> (case x of None \<Rightarrow> True | Some d \<Rightarrow> dt_ok d)"

abbreviation opt_str_ok :: "ustr option \<Rightarrow> bool" where
  "opt_str_ok x \<equiv> (case x of None \<Rightarrow> True | Some s \<Rightarrow> str_ok s)"

definition policy_encodable :: "capability_policy \<Rightarrow> bool" where
  "policy_encodable p \<longleftrightarrow> str_ok (registered_by p) \<and> (\<forall>k \<in> set (allowed_kids p). str_ok k)
     \<and> (\<forall>t \<in> set (allowed_triples p). str_ok (fst t) \<and> str_ok (snd t))
     \<and> opt_dt_ok (not_before p) \<and> opt_dt_ok (not_after p) \<and> opt_str_ok (policy_note p)
     \<and> opt_dt_ok (revoked_at p) \<and> opt_str_ok (revocation_reason p)"

definition record_encodable :: "policy_record \<Rightarrow> bool" where
  "record_encodable r \<longleftrightarrow> policy_encodable (rec_policy r) \<and> str_ok (policy_id r)
     \<and> dt_ok (registered_at r) \<and> str_ok (registered_by_publisher r)
     \<and> (case unrevoke_audit_marker r of None \<Rightarrow> True | Some m \<Rightarrow>
          opt_str_ok (unrevoke_reason m) \<and> dt_ok (previous_revoked_at m)
          \<and> opt_str_ok (previous_revocation_reason m))"

lemma dt_to_rfc3339_ok: "dt_ok d \<Longrightarrow> \<exists>s. dt_to_rfc3339 E d = Inr s \<and> str_ok s"
proof -
  assume "dt_ok d"
  then have "dt_to_rfc3339 E d = Inr (iso_base (instant d) @ u ''Z'')"
    by (simp add: dt_ok_def dt_to_rfc3339_def astimezone_utc_of Let_def isoformat_utc_def utc_of_def)
  then show ?thesis
    using isoformat_ok [of "instant d"] by (auto simp: isoformat_utc_def u_def)
qed

lemma opt_dt_total: "opt_dt_ok x \<Longrightarrow> \<exists>v. opt_dt E x = Inr v \<and> json_encodable v"
  using dt_to_rfc3339_ok [of "the x" E] by (cases x) (auto simp: opt_dt_def opt_str_def)

lemma opt_str_encodable: "opt_str_ok x \<Longrightarrow> json_encodable (opt_str x)"
  by (cases x) (auto simp: opt_str_def)

text \<open>
  Every record whose strings are encodable text and whose datetimes are aware and within the
  years 1 to 9999 in UTC has an envelope.
\<close>

lemma record_to_envelope_total:
  assumes "record_encodable r"
  shows "\<exists>b. record_to_envelope E r = Inr b"
proof -
  let ?p = "rec_policy r"
  have ok: "policy_encodable ?p" "str_ok (policy_id r)" "dt_ok (registered_at r)"
    "str_ok (registered_by_publisher r)"
    using assms by (auto simp: record_encodable_def)
  note pe = ok(1) [unfolded policy_encodable_def]
  from pe obtain nb na rv where dts: "opt_dt E (not_before ?p) = Inr nb" "json_encodable nb"
    "opt_dt E (not_after ?p) = Inr na" "json_encodable na" "opt_dt E (revoked_at ?p) = Inr rv"
    "json_encodable rv"
    using opt_dt_total by meson
  from dt_to_rfc3339_ok [OF ok(3)] obtain at where at: "dt_to_rfc3339 E (registered_at r) = Inr at" "str_ok at"
    by blast
  have "\<exists>mk. (case unrevoke_audit_marker r of None \<Rightarrow> Inr []
      | Some m \<Rightarrow> sbind (marker_payload E m) (\<lambda>v. Inr [(u ''unrevoke_audit_marker'', v)])) = Inr mk
      \<and> (\<forall>kv \<in> set mk. str_ok (fst kv) \<and> json_encodable (snd kv))"
  proof (cases "unrevoke_audit_marker r")
    case (Some m)
    with assms have m: "opt_str_ok (unrevoke_reason m)" "dt_ok (previous_revoked_at m)"
      "opt_str_ok (previous_revocation_reason m)"
      by (auto simp: record_encodable_def)
    from dt_to_rfc3339_ok [OF m(2)] obtain s where "dt_to_rfc3339 E (previous_revoked_at m) = Inr s" "str_ok s"
      by blast
    with Some m show ?thesis
      by (simp add: marker_payload_def opt_str_encodable u_def)
  qed simp
  then obtain mk where mk: "(case unrevoke_audit_marker r of None \<Rightarrow> Inr []
      | Some m \<Rightarrow> sbind (marker_payload E m) (\<lambda>v. Inr [(u ''unrevoke_audit_marker'', v)])) = Inr mk"
      "\<forall>kv \<in> set mk. str_ok (fst kv) \<and> json_encodable (snd kv)" by blast
  have "\<exists>v. record_payload E r = Inr v \<and> json_encodable v"
    unfolding record_payload_def using dts at mk pe ok(2,4)
    by (simp add: Let_def opt_str_encodable value_schema_def ball_Un u_def)
  with json_bytes_ok show ?thesis
    by (auto simp: record_to_envelope_def)
qed

section \<open>Concrete records\<close>

definition sample_env :: pyenv where
  "sample_env = \<lparr>iso_other = (\<lambda>s. if s = u ''0001-01-01T00:00:00+01:00'' then Some (Dt 0 (Some 3600000000))
       else None), local_off = (\<lambda>_. 0), float_of = (\<lambda>_. FNan)\<rparr>"

definition sample_record :: policy_record where
  "sample_record = \<lparr>rec_policy = sample_policy, policy_id = u ''p1'', registered_at = Dt 9 (Some 2),
     registered_by_publisher = u ''ops'', unrevoke_audit_marker = None\<rparr>"

definition sample_key :: ustr where
  "sample_key = u ''capability-policies/ops/p1''"

lemma sample_key_ne [simp]: "sample_key \<noteq> []" "[] \<noteq> sample_key"
  by (simp_all add: sample_key_def)

lemma sample_record_ok [simp]: "record_wf sample_record" "record_encodable sample_record"
  "record_key sample_record = Inr sample_key"
  by (simp_all add: sample_record_def sample_policy_def record_wf_def policy_wf_def policy_id_match_def
      re_ident_def is_alnum_def aware_def record_encodable_def policy_encodable_def dt_ok_def
      instant_def max_us_def us_day_def u_def record_key_def key_for_policy_pair_def
      check_component_def registered_by_match_def key_prefix_def sample_key_def)

lemma envelope_roundtrip_witness:
  "\<exists>b. record_to_envelope sample_env sample_record = Inr b
     \<and> envelope_to_record sample_env b = Inr (record_utc sample_record)"
  using record_to_envelope_total [of sample_record sample_env]
    envelope_roundtrip [of sample_record sample_env] by auto

lemma decoded_record_wf_witness:
  "\<exists>b r. envelope_to_record sample_env b = Inr r \<and> record_wf r \<and> record_utc r = r"
proof -
  obtain b where b: "record_to_envelope sample_env sample_record = Inr b"
    using record_to_envelope_total [of sample_record sample_env] by auto
  obtain r where r: "envelope_to_record sample_env b = Inr r"
    using envelope_reads [OF _ b] by auto
  from r decoded_record_wf [OF r] show ?thesis by blast
qed

lemma pair_key_witness:
  "pair_for_key sample_key = Inr (u ''ops'', u ''p1'')"
  using pair_key_roundtrip [of "u ''ops''" "u ''p1''" sample_key]
    sample_record_ok(3)
  by (simp add: record_key_def sample_record_def sample_policy_def)

text \<open>An envelope whose registration time is before the year 1 in UTC.\<close>

definition overflow_payload :: "(ustr \<times> pyval) list" where
  "overflow_payload =
     [(u ''schema'', PStr value_schema), (u ''registered_by'', PStr (u ''ops'')),
      (u ''policy_id'', PStr (u ''p1'')), (u ''allowed_kids'', PList []), (u ''allowed_triples'', PList []),
      (u ''disabled'', PBool False),
      (u ''registered_at'', PStr (u ''0001-01-01T00:00:00+01:00'')),
      (u ''registered_by_publisher'', PStr (u ''ops''))]"

lemma overflow_date: "rfc3339_to_dt sample_env (PStr (u ''0001-01-01T00:00:00+01:00'')) = Inl OverflowErr"
  by (simp add: rfc3339_to_dt_def fromisoformat_def parse_iso_utc_def sample_env_def Let_def
      astimezone_utc_def max_us_def us_day_def u_def ends_with_def)

lemma envelope_errors_witness:
  "\<exists>b. envelope_to_record sample_env b = Inl OverflowErr
     \<and> (\<exists>t d. utf8_decode b = Inr t \<and> json_loads sample_env t = Inr (PDict d)
         \<and> (\<exists>v \<in> time_texts d. rfc3339_to_dt sample_env v = Inl OverflowErr))"
proof -
  have enc: "json_encodable (PDict overflow_payload)" and plain: "json_plain (PDict overflow_payload)"
    by (simp_all add: overflow_payload_def value_schema_def u_def)
  obtain t where t: "json_emit (\<lambda>k. k) (PDict overflow_payload) = Inr t" and "str_ok t"
    using json_emit_ok [OF enc] by blast
  then obtain b where b: "utf8_encode t = Inr b"
    using utf8_encode_scalars by blast
  obtain d where d: "json_canon (\<lambda>k. k) (PDict overflow_payload) = PDict d"
    by simp
  have dist: "distinct (map fst overflow_payload)"
    by (simp add: overflow_payload_def)
  note g = dget_canon [OF dist d]
  have "payload_to_record sample_env d = Inl OverflowErr"
    unfolding payload_to_record_def g
    by (simp add: overflow_payload_def dget_def require_keys_def record_fields_def get_opt_dt_def
        overflow_date)
  then have "envelope_to_record sample_env b = Inl OverflowErr"
    using utf8_decode_encode [OF b] loads_emit [OF plain t, of sample_env] d
    by (simp add: envelope_to_record_def)
  with envelope_errors_confined [OF this] show ?thesis by blast
qed

end
