(* ===== verification/KvStore.thy ===== *)
theory KvStore
  imports Utf8
begin

text \<open>
  The key-value bucket the registries of the repository write to. The handle is third-party code
  (the \<open>KeyValue\<close> object of nats-py), so its operations are a record that every backend operation
  takes as an argument, over a store type of its own; an operation may raise and may change the
  store.

  The locale \<open>kv_bucket\<close> states what NATS documents of such a handle: reading returns the last
  value written with its revision, each write gets a revision above every earlier one, and an
  \<open>update\<close> writes only if the revision it names is the live one. The interpretation at the end
  discharges these laws for the in-memory bucket of the repository's tests
  (\<open>tests/test_capability_policy_cas_pin.py\<close>), which is modelled here.
\<close>

section \<open>Entries and results\<close>

text \<open>
  What \<open>kv.get\<close> may hand back: \<open>None\<close>, plain bytes, an object with \<open>value\<close> and \<open>revision\<close>
  attributes (each possibly \<open>None\<close> or absent), or a mapping with those keys.
\<close>

datatype kv_field = VNone | VStr ustr | VBytes octets

datatype kv_entry =
    KNone | KBytes octets
  | KObj kv_field "int option"
  | KMap kv_field "int option"

text \<open>What \<open>put\<close> and \<open>update\<close> may return: a revision, or something that carries one.\<close>

datatype kv_ret = RInt int | RObj "int option" | RMap "int option"

fun coerce_field :: "kv_field \<Rightarrow> octets res" where
  "coerce_field VNone = Inl PolicyEnvelopeErr"
| "coerce_field (VStr s) = utf8_encode s"
| "coerce_field (VBytes b) = Inr b"

fun coerce_value_bytes :: "kv_entry \<Rightarrow> octets res" where
  "coerce_value_bytes KNone = Inl PolicyEnvelopeErr"
| "coerce_value_bytes (KBytes b) = Inr b"
| "coerce_value_bytes (KObj v r) = coerce_field v"
| "coerce_value_bytes (KMap v r) = coerce_field v"

fun coerce_revision :: "kv_ret \<Rightarrow> int" where
  "coerce_revision (RInt n) = n"
| "coerce_revision (RObj None) = 0"
| "coerce_revision (RObj (Some n)) = n"
| "coerce_revision (RMap None) = 0"
| "coerce_revision (RMap (Some n)) = n"

fun coerce_revision_from_entry :: "kv_entry \<Rightarrow> int" where
  "coerce_revision_from_entry KNone = 0"
| "coerce_revision_from_entry (KBytes b) = 0"
| "coerce_revision_from_entry (KObj v None) = 0"
| "coerce_revision_from_entry (KObj v (Some n)) = n"
| "coerce_revision_from_entry (KMap v None) = 0"
| "coerce_revision_from_entry (KMap v (Some n)) = n"

section \<open>Exceptions by class name\<close>

text \<open>
  The backend recognises exceptions by the name of their class, so that it depends on no version
  of the client library.
\<close>

fun cls_name :: "exc \<Rightarrow> string" where
  "cls_name ValueErr = ''ValueError''"
| "cls_name JsonDecodeErr = ''JSONDecodeError''"
| "cls_name UnicodeDecodeErr = ''UnicodeDecodeError''"
| "cls_name UnicodeEncodeErr = ''UnicodeEncodeError''"
| "cls_name TypeErr = ''TypeError''"
| "cls_name OverflowErr = ''OverflowError''"
| "cls_name KeyErr = ''KeyError''"
| "cls_name AttributeErr = ''AttributeError''"
| "cls_name IndexErr = ''IndexError''"
| "cls_name NotImplementedErr = ''NotImplementedError''"
| "cls_name KidResolverErr = ''KidResolverError''"
| "cls_name SchemaValidationErr = ''ValidationError''"
| "cls_name OutOfFuel = ''OutOfFuel''"
| "cls_name (SubjectFormatErr r) = ''SubjectFormatError''"
| "cls_name RegisteredByCapabilityErr = ''RegisteredByCapabilityError''"
| "cls_name PolicyEnvelopeErr = ''CapabilityPolicyEnvelopeError''"
| "cls_name PolicyValidationErr = ''CapabilityPolicyValidationError''"
| "cls_name PolicyBackendErr = ''CapabilityPolicyBackendError''"
| "cls_name (PolicyConflictErr k n a) = ''CapabilityPolicyConflictError''"
| "cls_name (RevocationConflictErr k a b) = ''CapabilityPolicyRevocationConflict''"
| "cls_name (SchemaConflictErr k n a) = ''SchemaRegistryConflictError''"
| "cls_name (ClassErr n) = n"
| "cls_name (ExtErr x) = xn_name x"

fun is_key_error :: "exc \<Rightarrow> bool" where
  "is_key_error KeyErr = True"
| "is_key_error (ExtErr x) = xn_key_error x"
| "is_key_error e = False"

fun is_type_error :: "exc \<Rightarrow> bool" where
  "is_type_error TypeErr = True"
| "is_type_error (ExtErr x) = xn_type_error x"
| "is_type_error e = False"

definition is_missing :: "exc \<Rightarrow> bool" where
  "is_missing e \<longleftrightarrow> is_infix_of ''NotFound'' (cls_name e) \<or> is_infix_of ''DoesNotExist'' (cls_name e)
     \<or> is_key_error e"

definition conflict_markers :: "string list" where
  "conflict_markers = [''WrongLastSequence'', ''Conflict'', ''RevisionMismatch'']"

definition is_conflict_exception :: "exc \<Rightarrow> bool" where
  "is_conflict_exception e \<longleftrightarrow> (\<exists>m \<in> set conflict_markers. is_infix_of m (cls_name e))"

fun int_attr :: "exc \<Rightarrow> string \<Rightarrow> int option" where
  "int_attr (ExtErr x) a = map_of (xn_int_attrs x) a"
| "int_attr (PolicyConflictErr k n r) a = (if a = ''actual_revision'' then r else None)"
| "int_attr (SchemaConflictErr k n r) a = (if a = ''actual_revision'' then r else None)"
| "int_attr e a = None"

definition extract_actual_revision :: "exc \<Rightarrow> int option" where
  "extract_actual_revision e =
     (case List.find (\<lambda>a. int_attr e a \<noteq> None) [''actual_revision'', ''actual'', ''revision'', ''last''] of
        None \<Rightarrow> None
      | Some a \<Rightarrow> int_attr e a)"

section \<open>The handle\<close>

text \<open>
  The operations of a handle. \<open>kv_update\<close> is absent when the object has no such attribute; its
  two functions are the call with the keyword \<open>last\<close> and the positional call.
  \<open>kv_put_expected\<close> is \<open>put\<close> with the keyword \<open>expected_revision\<close>, which most handles reject
  with a \<open>TypeError\<close>.
\<close>

record 's kv_ops =
  kv_get :: "ustr \<Rightarrow> ('s, kv_entry) io"
  kv_put :: "ustr \<Rightarrow> octets \<Rightarrow> ('s, kv_ret) io"
  kv_update :: "((ustr \<Rightarrow> octets \<Rightarrow> int \<Rightarrow> ('s, kv_ret) io) \<times> (ustr \<Rightarrow> octets \<Rightarrow> int \<Rightarrow> ('s, kv_ret) io)) option"
  kv_put_expected :: "ustr \<Rightarrow> octets \<Rightarrow> int \<Rightarrow> ('s, kv_ret) io"
  kv_delete :: "ustr \<Rightarrow> ('s, unit) io"
  kv_keys :: "('s, ustr list) io option"

text \<open>\<open>except Exception as exc\<close>: the handler runs on the store the failed call left.\<close>

definition io_catch :: "('s, 'a) io \<Rightarrow> (exc \<Rightarrow> ('s, 'a) io) \<Rightarrow> ('s, 'a) io" where
  "io_catch m h s = (case m s of (Inl e, s') \<Rightarrow> h e s' | (Inr a, s') \<Rightarrow> (Inr a, s'))"

text \<open>The revision of a live entry, 0 for an absent one.\<close>

definition live_rev :: "(octets \<times> int) option \<Rightarrow> int" where
  "live_rev x = (case x of None \<Rightarrow> 0 | Some (b, n) \<Rightarrow> n)"

text \<open>
  \<open>view s k\<close> is the live value of a key with its revision, \<open>seq s\<close> the revision of the last
  operation on the bucket.
\<close>

locale kv_bucket =
  fixes kv :: "'s kv_ops"
    and view :: "'s \<Rightarrow> ustr \<Rightarrow> (octets \<times> int) option"
    and seq :: "'s \<Rightarrow> int"
    and inv :: "'s \<Rightarrow> bool"
  assumes view_seq: "inv s \<Longrightarrow> view s k = Some (b, n) \<Longrightarrow> 0 < n \<and> n \<le> seq s"
    and get_live: "inv s \<Longrightarrow> view s k = Some (b, n) \<Longrightarrow>
      \<exists>e. kv_get kv k s = (Inr e, s) \<and> e \<noteq> KNone \<and> coerce_value_bytes e = Inr b
        \<and> coerce_revision_from_entry e = n"
    and get_absent: "inv s \<Longrightarrow> view s k = None \<Longrightarrow>
      kv_get kv k s = (Inr KNone, s) \<or> (\<exists>e. kv_get kv k s = (Inl e, s) \<and> is_missing e)"
    and put_writes: "inv s \<Longrightarrow>
      \<exists>r s'. kv_put kv k b s = (Inr r, s') \<and> inv s' \<and> seq s < coerce_revision r
        \<and> seq s' = coerce_revision r \<and> view s' = (view s)(k \<mapsto> (b, coerce_revision r))"
    and update_ops: "\<exists>upd pos. kv_update kv = Some (upd, pos)"
    and update_writes: "inv s \<Longrightarrow> kv_update kv = Some (upd, pos) \<Longrightarrow> upd k b n s = (Inr r, s') \<Longrightarrow>
      live_rev (view s k) = n \<and> inv s' \<and> seq s < coerce_revision r
        \<and> seq s' = coerce_revision r \<and> view s' = (view s)(k \<mapsto> (b, coerce_revision r))"
    and update_refuses: "inv s \<Longrightarrow> kv_update kv = Some (upd, pos) \<Longrightarrow> upd k b n s = (Inl e, s') \<Longrightarrow>
      s' = s \<and> is_conflict_exception e \<and> \<not> is_type_error e
        \<and> (view s k = None \<or> live_rev (view s k) \<noteq> n)"
    and delete_removes: "inv s \<Longrightarrow> view s k \<noteq> None \<Longrightarrow>
      \<exists>s'. kv_delete kv k s = (Inr (), s') \<and> inv s' \<and> seq s \<le> seq s' \<and> view s' = (view s)(k := None)"
    and delete_absent: "inv s \<Longrightarrow> view s k = None \<Longrightarrow>
      \<exists>x s'. kv_delete kv k s = (x, s') \<and> inv s' \<and> seq s \<le> seq s' \<and> view s' = view s
        \<and> (case x of Inl e \<Rightarrow> is_missing e | Inr _ \<Rightarrow> True)"
    and keys_live: "inv s \<Longrightarrow>
      \<exists>op ks. kv_keys kv = Some op \<and> op s = (Inr ks, s) \<and> distinct ks \<and> set ks = {k. view s k \<noteq> None}"

section \<open>The bucket of the tests\<close>

record mock_kv =
  store :: "(ustr \<times> octets \<times> int) list"
  revision :: int

definition mock_not_found :: exc where
  "mock_not_found = ExtErr (ExtExn ''_MockBucketNotFoundError'' False False [])"

definition mock_wrong_last :: "int \<Rightarrow> exc" where
  "mock_wrong_last n =
     ExtErr (ExtExn ''_MockKeyWrongLastSequenceError'' False False [(''actual_revision'', n)])"

definition mock_get :: "ustr \<Rightarrow> (mock_kv, kv_entry) io" where
  "mock_get k s =
     (case map_of (store s) k of
        None \<Rightarrow> (Inl mock_not_found, s)
      | Some (b, n) \<Rightarrow> (Inr (KObj (VBytes b) (Some n)), s))"

definition mock_write :: "ustr \<Rightarrow> octets \<Rightarrow> (mock_kv, kv_ret) io" where
  "mock_write k b s =
     (let n = revision s + 1 in
      (Inr (RInt n), \<lparr>store = dict_set (store s) k (b, n), revision = n\<rparr>))"

definition mock_update :: "ustr \<Rightarrow> octets \<Rightarrow> int \<Rightarrow> (mock_kv, kv_ret) io" where
  "mock_update k b expected s =
     (let live_revision = (case map_of (store s) k of Some (_, n) \<Rightarrow> n | None \<Rightarrow> 0) in
      if live_revision \<noteq> expected then (Inl (mock_wrong_last live_revision), s)
      else mock_write k b s)"

definition mock_delete :: "ustr \<Rightarrow> (mock_kv, unit) io" where
  "mock_delete k s =
     (case map_of (store s) k of
        None \<Rightarrow> (Inl mock_not_found, s)
      | Some _ \<Rightarrow> (Inr (), \<lparr>store = dict_pop (store s) k, revision = revision s + 1\<rparr>))"

definition mock_keys :: "(mock_kv, ustr list) io" where
  "mock_keys s = (Inr (map fst (store s)), s)"

definition mock_ops :: "mock_kv kv_ops" where
  "mock_ops = \<lparr>kv_get = mock_get, kv_put = mock_write, kv_update = Some (mock_update, mock_update),
     kv_put_expected = (\<lambda>k b n. io_raise TypeErr), kv_delete = mock_delete, kv_keys = Some mock_keys\<rparr>"

definition mock_empty :: mock_kv where
  "mock_empty = \<lparr>store = [], revision = 0\<rparr>"

definition mock_view :: "mock_kv \<Rightarrow> ustr \<Rightarrow> (octets \<times> int) option" where
  "mock_view s = map_of (store s)"

text \<open>The keys of the dict are distinct, and every revision is positive and not in the future.\<close>

definition mock_inv :: "mock_kv \<Rightarrow> bool" where
  "mock_inv s \<longleftrightarrow> distinct (map fst (store s)) \<and> 0 \<le> revision s
     \<and> (\<forall>k b n. map_of (store s) k = Some (b, n) \<longrightarrow> 0 < n \<and> n \<le> revision s)"

lemma mock_inv_empty [simp]: "mock_inv mock_empty"
  by (simp add: mock_inv_def mock_empty_def)

lemma mock_not_found_missing [simp]: "is_missing mock_not_found"
  by (simp add: is_missing_def mock_not_found_def)

lemma mock_wrong_last_conflict [simp]:
  "is_conflict_exception (mock_wrong_last n)" "\<not> is_type_error (mock_wrong_last n)"
  "extract_actual_revision (mock_wrong_last n) = Some n"
  by (simp_all add: is_conflict_exception_def mock_wrong_last_def conflict_markers_def
      extract_actual_revision_def)

lemma mock_write_inv: "mock_inv s \<Longrightarrow> mock_write k b s = (r, s') \<Longrightarrow> mock_inv s'"
  by (auto simp: mock_inv_def mock_write_def Let_def distinct_dict_set split: if_splits)
    (force simp: order.trans)+

lemma mock_delete_inv: "mock_inv s \<Longrightarrow> mock_delete k s = (r, s') \<Longrightarrow> mock_inv s'"
  by (auto simp: mock_inv_def mock_delete_def distinct_dict_pop split: option.splits if_splits)
    (force)+

interpretation mock: kv_bucket mock_ops mock_view revision mock_inv
proof
  fix s k b n
  assume inv: "mock_inv s"
  show "0 < n \<and> n \<le> revision s" if "mock_view s k = Some (b, n)"
    using inv that by (auto simp: mock_inv_def mock_view_def)
  show "\<exists>e. kv_get mock_ops k s = (Inr e, s) \<and> e \<noteq> KNone \<and> coerce_value_bytes e = Inr b
      \<and> coerce_revision_from_entry e = n" if "mock_view s k = Some (b, n)"
    using that by (simp add: mock_ops_def mock_get_def mock_view_def)
  show "kv_get mock_ops k s = (Inr KNone, s) \<or> (\<exists>e. kv_get mock_ops k s = (Inl e, s) \<and> is_missing e)"
    if "mock_view s k = None"
    using that by (simp add: mock_ops_def mock_get_def mock_view_def)
  show "\<exists>r s'. kv_put mock_ops k b s = (Inr r, s') \<and> mock_inv s' \<and> revision s < coerce_revision r
      \<and> revision s' = coerce_revision r \<and> mock_view s' = (mock_view s)(k \<mapsto> (b, coerce_revision r))"
    using mock_write_inv [OF inv, of k b]
    by (simp add: mock_ops_def mock_view_def mock_write_def Let_def)
  show "\<exists>s'. kv_delete mock_ops k s = (Inr (), s') \<and> mock_inv s' \<and> revision s \<le> revision s'
      \<and> mock_view s' = (mock_view s)(k := None)" if "mock_view s k \<noteq> None"
    using that mock_delete_inv [OF inv, of k]
    by (auto simp: mock_ops_def mock_view_def mock_delete_def)
  show "\<exists>x s'. kv_delete mock_ops k s = (x, s') \<and> mock_inv s' \<and> revision s \<le> revision s'
      \<and> mock_view s' = mock_view s \<and> (case x of Inl e \<Rightarrow> is_missing e | Inr _ \<Rightarrow> True)"
    if "mock_view s k = None"
    using that inv by (simp add: mock_ops_def mock_view_def mock_delete_def)
  show "\<exists>op ks. kv_keys mock_ops = Some op \<and> op s = (Inr ks, s) \<and> distinct ks
      \<and> set ks = {k. mock_view s k \<noteq> None}"
    using inv by (auto simp: mock_ops_def mock_view_def mock_keys_def mock_inv_def map_of_eq_None_iff)
next
  show "\<exists>upd pos. kv_update mock_ops = Some (upd, pos)"
    by (simp add: mock_ops_def)
next
  fix s k b n r s' and upd pos :: "ustr \<Rightarrow> octets \<Rightarrow> int \<Rightarrow> (mock_kv, kv_ret) io"
  assume inv: "mock_inv s" and u: "kv_update mock_ops = Some (upd, pos)"
    and w: "upd k b n s = (Inr r, s')"
  have "live_rev (mock_view s k) = n" and mw: "mock_write k b s = (Inr r, s')"
    using u w by (auto simp: mock_ops_def mock_update_def live_rev_def mock_view_def Let_def
        split: if_splits option.splits)
  with mock_write_inv [OF inv mw] show "live_rev (mock_view s k) = n \<and> mock_inv s'
      \<and> revision s < coerce_revision r \<and> revision s' = coerce_revision r
      \<and> mock_view s' = (mock_view s)(k \<mapsto> (b, coerce_revision r))"
    by (auto simp: mock_write_def mock_view_def Let_def)
next
  fix s k b n e s' and upd pos :: "ustr \<Rightarrow> octets \<Rightarrow> int \<Rightarrow> (mock_kv, kv_ret) io"
  assume "mock_inv s" "kv_update mock_ops = Some (upd, pos)" "upd k b n s = (Inl e, s')"
  then show "s' = s \<and> is_conflict_exception e \<and> \<not> is_type_error e
      \<and> (mock_view s k = None \<or> live_rev (mock_view s k) \<noteq> n)"
    by (auto simp: mock_ops_def mock_update_def mock_write_def live_rev_def mock_view_def Let_def
        split: if_splits option.splits)
qed

end
