(* ===== verification/PolicyBackend.thy ===== *)
theory PolicyBackend
  imports PolicyEnvelope KvStore
begin

text \<open>
  \<open>NatsKvCapabilityPolicyBackend\<close>
  (\<open>wakir_protocol/schemas/capability_policy_nats_kv_backend.py\<close>): reading, writing, deleting and
  listing capability-policy records over a key-value handle, with the last-write-wins \<open>put\<close>, the
  revision-pinned \<open>put_with_revision\<close>, and the snapshots the verifiers work on.

  Every coroutine is a state transformer over the handle's store. \<open>put_with_revision\<close> awaits twice,
  so it is the composition of a checking phase (which reads the live record) and a committing phase
  (which writes at the pinned revision), and the theorem on revocations lets arbitrary other
  operations on the bucket run between the two.
\<close>

section \<open>Reading\<close>

text \<open>The entry of a key; absence is either an exception that says so or \<open>None\<close>.\<close>

definition fetch_entry :: "'s kv_ops \<Rightarrow> ustr \<Rightarrow> ('s, kv_entry) io" where
  "fetch_entry kv key =
     (if key = [] then io_ret KNone
      else io_catch (kv_get kv key) (\<lambda>e. if is_missing e then io_ret KNone else io_raise e))"

definition decode_entry :: "pyenv \<Rightarrow> kv_entry \<Rightarrow> policy_record option res" where
  "decode_entry E kve =
     (if kve = KNone then Inr None
      else sbind (coerce_value_bytes kve) (\<lambda>b. sbind (envelope_to_record E b) (\<lambda>r. Inr (Some r))))"

definition policy_get :: "pyenv \<Rightarrow> 's kv_ops \<Rightarrow> ustr \<Rightarrow> ('s, policy_record option) io" where
  "policy_get E kv key = io_bind (fetch_entry kv key) (\<lambda>kve. io_res (decode_entry E kve))"

definition get_by_pair :: "pyenv \<Rightarrow> 's kv_ops \<Rightarrow> ustr \<Rightarrow> ustr \<Rightarrow> ('s, policy_record option) io" where
  "get_by_pair E kv rb pid =
     (case key_for_policy_pair rb pid of
        Inr key \<Rightarrow> policy_get E kv key
      | Inl e \<Rightarrow> if is_value_error e then io_ret None else io_raise e)"

definition get_with_revision ::
  "pyenv \<Rightarrow> 's kv_ops \<Rightarrow> ustr \<Rightarrow> ('s, (policy_record \<times> int) option) io" where
  "get_with_revision E kv key =
     io_bind (fetch_entry kv key) (\<lambda>kve.
     io_res (sbind (decode_entry E kve) (\<lambda>r.
       Inr (map_option (\<lambda>r. (r, coerce_revision_from_entry kve)) r))))"

definition get_with_revision_by_pair ::
  "pyenv \<Rightarrow> 's kv_ops \<Rightarrow> ustr \<Rightarrow> ustr \<Rightarrow> ('s, (policy_record \<times> int) option) io" where
  "get_with_revision_by_pair E kv rb pid =
     (case key_for_policy_pair rb pid of
        Inr key \<Rightarrow> get_with_revision E kv key
      | Inl e \<Rightarrow> if is_value_error e then io_ret None else io_raise e)"

section \<open>Writing\<close>

definition policy_put :: "pyenv \<Rightarrow> 's kv_ops \<Rightarrow> policy_record \<Rightarrow> ('s, int) io" where
  "policy_put E kv r =
     io_bind (io_res (record_key r)) (\<lambda>key.
     io_bind (io_res (record_to_envelope E r)) (\<lambda>blob.
     io_bind (kv_put kv key blob) (\<lambda>rv. io_ret (coerce_revision rv))))"

definition conflict_or_raise :: "ustr \<Rightarrow> int \<Rightarrow> exc \<Rightarrow> exc" where
  "conflict_or_raise key n e =
     (if is_conflict_exception e then PolicyConflictErr key n (extract_actual_revision e) else e)"

definition kv_update_with_revision ::
  "'s kv_ops \<Rightarrow> ustr \<Rightarrow> octets \<Rightarrow> int \<Rightarrow> ('s, kv_ret) io" where
  "kv_update_with_revision kv key blob n =
     (case kv_update kv of
        Some (upd, pos) \<Rightarrow>
          io_catch
            (io_catch (upd key blob n) (\<lambda>e. if is_type_error e then pos key blob n else io_raise e))
            (\<lambda>e. io_raise (conflict_or_raise key n e))
      | None \<Rightarrow>
          io_catch (kv_put_expected kv key blob n)
            (\<lambda>e. io_raise (if is_type_error e then PolicyBackendErr else conflict_or_raise key n e)))"

text \<open>Gate 3: the live record may be revoked already.\<close>

definition revocation_gate :: "ustr \<Rightarrow> policy_record option \<Rightarrow> policy_record \<Rightarrow> unit res" where
  "revocation_gate key existing r =
     (case existing of
        None \<Rightarrow> Inr ()
      | Some live \<Rightarrow>
          (case revoked_at (rec_policy live) of
             None \<Rightarrow> Inr ()
           | Some live_at \<Rightarrow>
               (case revoked_at (rec_policy r) of
                  None \<Rightarrow> Inl (RevocationConflictErr key live_at None)
                | Some new_at \<Rightarrow>
                    ensure (dt_eq new_at live_at)
                      (RevocationConflictErr key live_at (Some new_at)))))"

definition put_check :: "pyenv \<Rightarrow> 's kv_ops \<Rightarrow> policy_record \<Rightarrow> int \<Rightarrow> ('s, ustr) io" where
  "put_check E kv r n =
     (if n < 0 then io_raise ValueErr
      else io_bind (io_res (record_key r)) (\<lambda>key.
           io_bind (policy_get E kv key) (\<lambda>existing.
           io_bind (io_res (revocation_gate key existing r)) (\<lambda>_. io_ret key))))"

definition put_commit :: "pyenv \<Rightarrow> 's kv_ops \<Rightarrow> policy_record \<Rightarrow> int \<Rightarrow> ustr \<Rightarrow> ('s, int) io" where
  "put_commit E kv r n key =
     io_bind (io_res (record_to_envelope E r)) (\<lambda>blob.
     io_bind (kv_update_with_revision kv key blob n) (\<lambda>rv. io_ret (coerce_revision rv)))"

definition put_with_revision :: "pyenv \<Rightarrow> 's kv_ops \<Rightarrow> policy_record \<Rightarrow> int \<Rightarrow> ('s, int) io" where
  "put_with_revision E kv r n = io_bind (put_check E kv r n) (\<lambda>key. put_commit E kv r n key)"

definition policy_delete :: "'s kv_ops \<Rightarrow> ustr \<Rightarrow> ('s, unit) io" where
  "policy_delete kv key =
     (if key = [] then io_raise ValueErr
      else io_catch (kv_delete kv key) (\<lambda>e. if is_missing e then io_ret () else io_raise e))"

section \<open>Snapshots\<close>

definition list_keys :: "'s kv_ops \<Rightarrow> ('s, ustr list) io" where
  "list_keys kv = (case kv_keys kv of Some op \<Rightarrow> op | None \<Rightarrow> io_raise PolicyBackendErr)"

fun collect_records :: "pyenv \<Rightarrow> 's kv_ops \<Rightarrow> ustr list \<Rightarrow> ('s, policy_record list) io" where
  "collect_records E kv [] = io_ret []"
| "collect_records E kv (k # ks) =
     io_bind (policy_get E kv k) (\<lambda>r.
     io_bind (collect_records E kv ks) (\<lambda>rs.
     io_ret (case r of None \<Rightarrow> rs | Some r \<Rightarrow> r # rs)))"

definition snapshot :: "pyenv \<Rightarrow> 's kv_ops \<Rightarrow> ('s, policy_record list) io" where
  "snapshot E kv = io_bind (list_keys kv) (\<lambda>ks. collect_records E kv (sort ks))"

definition registry_of :: "policy_record list \<Rightarrow> registry" where
  "registry_of rs = foldl (\<lambda>reg r. add_policy (rec_policy r) reg) [] rs"

definition snapshot_registry :: "pyenv \<Rightarrow> 's kv_ops \<Rightarrow> ('s, registry) io" where
  "snapshot_registry E kv = io_bind (snapshot E kv) (\<lambda>rs. io_ret (registry_of rs))"

section \<open>Any run of other writers\<close>

text \<open>The bucket under arbitrary puts, updates and deletes through the same handle.\<close>

inductive kv_run :: "'s kv_ops \<Rightarrow> 's \<Rightarrow> 's \<Rightarrow> bool" for kv where
  run_refl: "kv_run kv s s"
| run_put: "kv_run kv s s1 \<Longrightarrow> kv_put kv k b s1 = (x, s2) \<Longrightarrow> kv_run kv s s2"
| run_update: "kv_run kv s s1 \<Longrightarrow> kv_update kv = Some (upd, pos) \<Longrightarrow> upd k b n s1 = (y, s2) \<Longrightarrow>
    kv_run kv s s2"
| run_delete: "kv_run kv s s1 \<Longrightarrow> kv_delete kv k s1 = (z, s2) \<Longrightarrow> kv_run kv s s2"

section \<open>The backend over a lawful bucket\<close>

lemma io_res_bind [simp]: "io_bind (io_res x) f s = (case x of Inl e \<Rightarrow> (Inl e, s) | Inr a \<Rightarrow> f a s)"
  by (simp add: io_bind_def split: sum.split)

lemma record_key_ne: "record_key r = Inr k \<Longrightarrow> k \<noteq> []"
  by (auto simp: record_key_def key_for_policy_pair_def key_prefix_def)

text \<open>The decoded live record of a key.\<close>

definition live_record :: "pyenv \<Rightarrow> (octets \<times> int) option \<Rightarrow> policy_record option res" where
  "live_record E x = (case x of None \<Rightarrow> Inr None
     | Some (b, n) \<Rightarrow> sbind (envelope_to_record E b) (\<lambda>r. Inr (Some r)))"

context kv_bucket
begin

lemma fetch_live:
  assumes "inv s" "k \<noteq> []"
  shows "\<exists>e. fetch_entry kv k s = (Inr e, s)
    \<and> (case view s k of None \<Rightarrow> e = KNone
       | Some (b, n) \<Rightarrow> e \<noteq> KNone \<and> coerce_value_bytes e = Inr b \<and> coerce_revision_from_entry e = n)"
proof (cases "view s k")
  case None
  from get_absent [OF assms(1) None] None assms(2) show ?thesis
    by (auto simp: fetch_entry_def io_catch_def)
next
  case (Some bn)
  obtain b n where bn: "bn = (b, n)" by (cases bn)
  from get_live [OF assms(1) Some [unfolded bn]] Some bn assms(2) show ?thesis
    by (auto simp: fetch_entry_def io_catch_def)
qed

lemma policy_get_live:
  assumes "inv s" "k \<noteq> []"
  shows "policy_get E kv k s = (live_record E (view s k), s)"
  using fetch_live [OF assms]
  by (auto simp: policy_get_def io_bind_def decode_entry_def live_record_def split: option.splits)

lemma get_with_revision_live:
  assumes "inv s" "k \<noteq> []"
  shows "get_with_revision E kv k s =
    (sbind (live_record E (view s k)) (\<lambda>r. Inr (map_option (\<lambda>r. (r, live_rev (view s k))) r)), s)"
  using fetch_live [OF assms]
  by (auto simp: get_with_revision_def io_bind_def decode_entry_def live_record_def live_rev_def
      split: option.splits)

lemma put_result:
  assumes "inv s" "policy_put E kv r s = (Inr m, s')"
  shows "\<exists>k b. record_key r = Inr k \<and> record_to_envelope E r = Inr b \<and> inv s' \<and> seq s < m
    \<and> seq s' = m \<and> view s' = (view s)(k \<mapsto> (b, m))"
proof -
  from assms(2) obtain k b where kb: "record_key r = Inr k" "record_to_envelope E r = Inr b"
    by (auto simp: policy_put_def split: sum.splits)
  from put_writes [OF assms(1), of k b] kb assms(2) show ?thesis
    by (auto simp: policy_put_def io_bind_def)
qed

lemma put_error: "inv s \<Longrightarrow> policy_put E kv r s = (Inl e, s') \<Longrightarrow>
    s' = s \<and> (record_key r = Inl e \<or> (\<exists>k. record_key r = Inr k \<and> record_to_envelope E r = Inl e))"
proof -
  assume inv: "inv s" and e: "policy_put E kv r s = (Inl e, s')"
  show ?thesis
  proof (cases "record_key r")
    case k: (Inr k)
    show ?thesis
    proof (cases "record_to_envelope E r")
      case (Inr b)
      from put_writes [OF inv, of k b] k Inr e show ?thesis
        by (auto simp: policy_put_def io_bind_def)
    qed (use k e in \<open>auto simp: policy_put_def\<close>)
  qed (use e in \<open>auto simp: policy_put_def\<close>)
qed

text \<open>The pinned write either writes at the live revision or reports a conflict.\<close>

lemma update_result:
  assumes "inv s"
  shows "(\<exists>r s'. kv_update_with_revision kv k b n s = (Inr r, s') \<and> live_rev (view s k) = n \<and> inv s'
           \<and> seq s < coerce_revision r \<and> seq s' = coerce_revision r
           \<and> view s' = (view s)(k \<mapsto> (b, coerce_revision r)))
       \<or> (\<exists>e. kv_update_with_revision kv k b n s = (Inl (PolicyConflictErr k n (extract_actual_revision e)), s)
           \<and> (view s k = None \<or> live_rev (view s k) \<noteq> n))"
proof -
  obtain upd pos where u: "kv_update kv = Some (upd, pos)"
    using update_ops by blast
  obtain x s' where x: "upd k b n s = (x, s')"
    by (cases "upd k b n s")
  show ?thesis
  proof (cases x)
    case (Inr r)
    with update_writes [OF assms u] x u show ?thesis
      by (auto simp: kv_update_with_revision_def io_catch_def)
  next
    case (Inl e)
    with update_refuses [OF assms u] x have "s' = s" "is_conflict_exception e" "\<not> is_type_error e"
      "view s k = None \<or> live_rev (view s k) \<noteq> n" by blast+
    with x u Inl show ?thesis
      by (auto simp: kv_update_with_revision_def io_catch_def conflict_or_raise_def)
  qed
qed

lemma put_commit_result:
  assumes "inv s" "put_commit E kv r n k s = (Inr m, s')"
  shows "\<exists>b. record_to_envelope E r = Inr b \<and> live_rev (view s k) = n \<and> inv s' \<and> seq s < m
    \<and> seq s' = m \<and> view s' = (view s)(k \<mapsto> (b, m))"
proof -
  from assms(2) obtain b where b: "record_to_envelope E r = Inr b"
    by (auto simp: put_commit_def split: sum.splits)
  from update_result [OF assms(1), of k b n] b assms(2) show ?thesis
    by (auto simp: put_commit_def io_bind_def)
qed

lemma put_commit_state:
  assumes "inv s" "put_commit E kv r n k s = (Inl e, s')"
  shows "s' = s"
proof (cases "record_to_envelope E r")
  case (Inr b)
  with update_result [OF assms(1), of k b n] assms(2) show ?thesis
    by (auto simp: put_commit_def io_bind_def)
qed (use assms(2) in \<open>simp add: put_commit_def\<close>)

lemma put_check_result:
  assumes "inv s" "put_check E kv r n s = (Inr k, s')"
  shows "s' = s \<and> 0 \<le> n \<and> record_key r = Inr k
    \<and> (\<exists>x. live_record E (view s k) = Inr x \<and> revocation_gate k x r = Inr ())"
proof -
  from assms(2) obtain k' where n: "0 \<le> n" and k': "record_key r = Inr k'"
    by (auto simp: put_check_def split: sum.splits if_splits)
  with assms(2) policy_get_live [OF assms(1) record_key_ne [OF k'], of E] show ?thesis
    by (auto simp: put_check_def io_bind_def split: sum.splits)
qed

lemma put_check_state: "inv s \<Longrightarrow> put_check E kv r n s = (x, s') \<Longrightarrow> s' = s"
  using policy_get_live [OF _ record_key_ne]
  by (fastforce simp: put_check_def io_bind_def split: sum.splits if_splits)

text \<open>
  Under any run of writers the revisions only grow, and a key that still has the revision it had
  still has the value it had.
\<close>

lemma run_stable:
  assumes "kv_run kv s s'" "inv s"
  shows "inv s' \<and> seq s \<le> seq s'
    \<and> (view s' k = view s k \<or> (case view s' k of None \<Rightarrow> True | Some (b, n) \<Rightarrow> seq s < n))"
  using assms
proof induction
  case (run_put s s1 k' b x s2)
  then have ih: "inv s1" "seq s \<le> seq s1"
    "view s1 k = view s k \<or> (case view s1 k of None \<Rightarrow> True | Some (b, n) \<Rightarrow> seq s < n)" by auto
  from put_writes [OF ih(1), of k' b] run_put(2) obtain r where "inv s2" "seq s1 < coerce_revision r"
    "seq s2 = coerce_revision r" "view s2 = (view s1)(k' \<mapsto> (b, coerce_revision r))" by auto
  with ih show ?case by auto
next
  case (run_update s s1 upd pos k' b n y s2)
  then have ih: "inv s1" "seq s \<le> seq s1"
    "view s1 k = view s k \<or> (case view s1 k of None \<Rightarrow> True | Some (b, n) \<Rightarrow> seq s < n)" by auto
  show ?case
  proof (cases y)
    case (Inl e)
    with update_refuses [OF ih(1) run_update(2)] run_update(3) ih show ?thesis by blast
  next
    case (Inr r)
    with update_writes [OF ih(1) run_update(2)] run_update(3) have "inv s2"
      "seq s1 < coerce_revision r" "seq s2 = coerce_revision r"
      "view s2 = (view s1)(k' \<mapsto> (b, coerce_revision r))" by blast+
    with ih show ?thesis by auto
  qed
next
  case (run_delete s s1 k' z s2)
  then have ih: "inv s1" "seq s \<le> seq s1"
    "view s1 k = view s k \<or> (case view s1 k of None \<Rightarrow> True | Some (b, n) \<Rightarrow> seq s < n)" by auto
  show ?case
  proof (cases "view s1 k' = None")
    case True
    from delete_absent [OF ih(1) True] run_delete(2) have "inv s2" "seq s1 \<le> seq s2" "view s2 = view s1"
      by auto
    with ih show ?thesis by auto
  next
    case False
    from delete_removes [OF ih(1) False] run_delete(2) have "inv s2" "seq s1 \<le> seq s2"
      "view s2 = (view s1)(k' := None)" by auto
    with ih show ?thesis by auto
  qed
qed auto

lemma run_same_revision:
  assumes "kv_run kv s s'" "inv s" "n \<le> seq s" "view s' k = Some (b, n)"
  shows "view s k = Some (b, n)"
  using run_stable [OF assms(1,2), of k] assms(3,4) by auto

lemma delete_result:
  assumes "inv s" "policy_delete kv k s = (Inr (), s')"
  shows "inv s' \<and> view s' = (view s)(k := None)"
proof (cases "view s k = None")
  case True
  from delete_absent [OF assms(1) True] assms(2) True show ?thesis
    by (auto simp: policy_delete_def io_catch_def fun_upd_idem split: if_splits sum.splits)
next
  case False
  from delete_removes [OF assms(1) False] assms(2) show ?thesis
    by (auto simp: policy_delete_def io_catch_def split: if_splits)
qed

lemma collect_live:
  assumes "inv s" "[] \<notin> set ks"
  shows "collect_records E kv ks s =
    (sbind (mapM_sum (\<lambda>k. live_record E (view s k)) ks) (\<lambda>rs. Inr (List.map_filter (\<lambda>r. r) rs)), s)"
  using assms(2)
proof (induction ks)
  case (Cons k ks)
  then have "k \<noteq> []" by auto
  then have "policy_get E kv k s = (live_record E (view s k), s)"
    by (rule policy_get_live [OF assms(1)])
  with Cons show ?case
    by (cases "live_record E (view s k)"; cases "mapM_sum (\<lambda>k. live_record E (view s k)) ks")
      (auto simp: io_bind_def map_filter_simps split: option.splits)
qed (simp add: map_filter_simps)

end

section \<open>The backend's contract\<close>

text \<open>
  a record that \<open>put\<close> stored is what reading its key returns (its datetimes in UTC), with the
  revision that \<open>put\<close> returned, and every other key reads as before.
\<close>

lemma put_then_get:
  assumes "kv_bucket kv view seq I" "I s" "record_wf r" "policy_put E kv r s = (Inr m, s')"
  shows "\<exists>k. record_key r = Inr k
    \<and> policy_get E kv k s' = (Inr (Some (record_utc r)), s')
    \<and> get_with_revision E kv k s' = (Inr (Some (record_utc r, m)), s')
    \<and> (\<forall>k'. k' \<noteq> k \<longrightarrow> fst (policy_get E kv k' s') = fst (policy_get E kv k' s))"
proof -
  note laws = kv_bucket.policy_get_live [OF assms(1)] kv_bucket.get_with_revision_live [OF assms(1)]
  from kv_bucket.put_result [OF assms(1,2,4)] obtain k b where k: "record_key r = Inr k"
    and b: "record_to_envelope E r = Inr b" and s': "I s'" "view s' = (view s)(k \<mapsto> (b, m))"
    by blast
  have live: "live_record E (view s' k) = Inr (Some (record_utc r))"
    using envelope_reads [OF assms(3) b] by (simp add: s' live_record_def)
  have other: "fst (policy_get E kv k' s') = fst (policy_get E kv k' s)" if "k' \<noteq> k" for k'
  proof (cases "k' = []")
    case True
    then show ?thesis by (simp add: policy_get_def fetch_entry_def io_bind_def)
  next
    case False
    with laws(1) [OF s'(1) False] laws(1) [OF assms(2) False] that s'(2) show ?thesis by simp
  qed
  show ?thesis
    using k live other laws(1) [OF s'(1) record_key_ne [OF k]] laws(2) [OF s'(1) record_key_ne [OF k]]
    by (simp add: s'(2) live_rev_def)
qed

text \<open>
  C5: no update is lost. A pinned write that fails leaves the bucket as it was; one that succeeds
  was pinned to the live revision and gets a higher one; and once it has succeeded, a second write
  pinned to the same (positive) revision of the same key fails, whatever other writers did to the
  bucket in between.
\<close>

theorem pinned_write_no_lost_update:
  assumes "kv_bucket kv view seq I" "I s" "put_with_revision E kv r n s = (Inr m, s1)"
    and "0 < n" "kv_run kv s1 s2" "record_key r2 = record_key r"
  shows "(\<exists>k b b'. record_key r = Inr k \<and> view s k = Some (b, n) \<and> view s1 k = Some (b', m) \<and> n < m)
    \<and> (\<exists>e. put_with_revision E kv r2 n s2 = (Inl e, s2))"
proof -
  note laws = kv_bucket.put_check_result [OF assms(1)] kv_bucket.put_commit_result [OF assms(1)]
    kv_bucket.put_check_state [OF assms(1)]
  from assms(3) obtain k s' where c: "put_check E kv r n s = (Inr k, s')"
    and w: "put_commit E kv r n k s' = (Inr m, s1)"
    by (auto simp: put_with_revision_def io_bind_Inr)
  from laws(1) [OF assms(2) c] have [simp]: "s' = s" and k: "record_key r = Inr k" by auto
  from laws(2) [OF assms(2) w [simplified]] obtain b' where lr: "live_rev (view s k) = n"
    and s1: "I s1" "seq s < m" "seq s1 = m" "view s1 = (view s)(k \<mapsto> (b', m))"
    by blast
  from lr assms(4) obtain b where b: "view s k = Some (b, n)"
    by (auto simp: live_rev_def split: option.splits)
  from kv_bucket.view_seq [OF assms(1,2) b] have n: "n \<le> seq s" by simp
  from kv_bucket.run_stable [OF assms(1,5) s1(1)] have s2: "I s2" by blast
  have "\<nexists>y s3. put_commit E kv r2 n k s2 = (Inr y, s3)"
  proof
    assume "\<exists>y s3. put_commit E kv r2 n k s2 = (Inr y, s3)"
    then obtain y s3 where "put_commit E kv r2 n k s2 = (Inr y, s3)" by blast
    from laws(2) [OF s2 this] have "live_rev (view s2 k) = n" by blast
    with assms(4) obtain c where "view s2 k = Some (c, n)"
      by (auto simp: live_rev_def split: option.splits)
    from kv_bucket.run_same_revision [OF assms(1,5) s1(1) _ this] n s1 show False by simp
  qed
  moreover have "put_commit E kv r2 n k s2 = (Inl e, s3) \<Longrightarrow> s3 = s2" for e s3
    by (rule kv_bucket.put_commit_state [OF assms(1) s2])
  ultimately have commit: "\<exists>e. put_commit E kv r2 n k s2 = (Inl e, s2)"
    by (cases "put_commit E kv r2 n k s2"; cases "fst (put_commit E kv r2 n k s2)") auto
  have "\<exists>e. put_with_revision E kv r2 n s2 = (Inl e, s2)"
  proof (cases "put_check E kv r2 n s2")
    case (Pair x s3)
    with laws(3) [OF s2] have "s3 = s2" by blast
    with Pair commit laws(1) [OF s2] k assms(6) show ?thesis
      by (cases x) (fastforce simp: put_with_revision_def io_bind_def)+
  qed
  with k b s1 n show ?thesis by auto
qed

text \<open>
  C2: revocation is one-way on the pinned path even under interleaving. The check of a pinned write
  runs on one state of the bucket, other writers then change it arbitrarily, and the write commits;
  if the pinned revision was one the caller could have read before the check, then a revoked record
  is only ever replaced by one revoked at the same instant.
\<close>

theorem pinned_write_never_unrevokes:
  assumes "kv_bucket kv view seq I" "I s1" "n \<le> seq s1" "0 < n"
    and "put_check E kv r n s1 = (Inr k, s1')" "kv_run kv s1' s2"
    and "put_commit E kv r n k s2 = (Inr m, s3)"
    and "policy_get E kv k s2 = (Inr (Some live), s2)" "revoked_at (rec_policy live) = Some t"
  shows "\<exists>t'. revoked_at (rec_policy r) = Some t' \<and> dt_eq t' t"
proof -
  from kv_bucket.put_check_result [OF assms(1,2,5)] obtain x where [simp]: "s1' = s1"
    and k: "record_key r = Inr k" and x: "live_record E (view s1 k) = Inr x" "revocation_gate k x r = Inr ()"
    by blast
  from kv_bucket.run_stable [OF assms(1,6)] assms(2) have s2: "I s2" by simp
  from kv_bucket.put_commit_result [OF assms(1) s2 assms(7)] have "live_rev (view s2 k) = n" by blast
  with assms(4) obtain b where b: "view s2 k = Some (b, n)"
    by (auto simp: live_rev_def split: option.splits)
  with kv_bucket.run_same_revision [OF assms(1,6) _ _ b] assms(2,3) have "view s1 k = Some (b, n)" by simp
  with b x kv_bucket.policy_get_live [OF assms(1) s2 record_key_ne [OF k], of E] assms(8)
  have "revocation_gate k (Some live) r = Inr ()" by auto
  with assms(9) show ?thesis
    by (auto simp: revocation_gate_def split: option.splits)
qed

lemma policies_for_registry: "policies_for (registry_of rs) rb
    = map rec_policy (filter (\<lambda>r. registered_by (rec_policy r) = rb) rs)"
proof -
  have "policies_for (foldl (\<lambda>reg r. add_policy (rec_policy r) reg) reg rs) rb
      = policies_for reg rb @ map rec_policy (filter (\<lambda>r. registered_by (rec_policy r) = rb) rs)" for reg
    by (induction rs arbitrary: reg) (auto simp: policies_for_add)
  from this [of "[]"] show ?thesis by (simp add: registry_of_def policies_for_def)
qed

lemma all2_in_set: "list_all2 P xs ys \<Longrightarrow> y \<in> set ys \<Longrightarrow> \<exists>x \<in> set xs. P x y"
  by (induction rule: list_all2_induct) auto

lemma map_filter_all:
  "list_all2 (\<lambda>k x. f k = Inr x) ks xs \<Longrightarrow> \<forall>x \<in> set xs. x \<noteq> None \<Longrightarrow>
     list_all2 (\<lambda>k r. f k = Inr (Some r)) ks (List.map_filter (\<lambda>r. r) xs)"
  by (induction rule: list_all2_induct) (auto simp: map_filter_simps)

text \<open>
  a snapshot is complete and ordered: it holds exactly one record per live key, in the order of
  the keys, each the decoded live value; an undecodable value fails the snapshot. The registry made
  from it lists each issuer's policies in that order.
\<close>

lemma snapshot_complete:
  assumes "kv_bucket kv view seq I" "I s" "view s [] = None"
    and "snapshot_registry E kv s = (Inr reg, s')"
  shows "s' = s \<and> (\<exists>ks rs. sorted ks \<and> distinct ks \<and> set ks = {k. view s k \<noteq> None}
    \<and> list_all2 (\<lambda>k r. live_record E (view s k) = Inr (Some r)) ks rs
    \<and> (\<forall>rb. policies_for reg rb = map rec_policy (filter (\<lambda>r. registered_by (rec_policy r) = rb) rs)))"
proof -
  from kv_bucket.keys_live [OF assms(1,2)] obtain op ks where ks: "kv_keys kv = Some op"
    "op s = (Inr ks, s)" "distinct ks" "set ks = {k. view s k \<noteq> None}" by blast
  with assms(3) have "[] \<notin> set (sort ks)" by simp
  note c = kv_bucket.collect_live [OF assms(1,2) this, of E]
  from assms(4) ks c obtain xs where xs: "mapM_sum (\<lambda>k. live_record E (view s k)) (sort ks) = Inr xs"
    and reg: "reg = registry_of (List.map_filter (\<lambda>r. r) xs)" and "s' = s"
    by (cases "mapM_sum (\<lambda>k. live_record E (view s k)) (sort ks)")
      (auto simp: snapshot_registry_def snapshot_def list_keys_def io_bind_def)
  have some: "x \<noteq> None" if "live_record E (view s k) = Inr x" "k \<in> set ks" for x k
    using that ks(4) by (auto simp: live_record_def split: option.splits)
  note all = xs [unfolded mapM_sum_Inr_iff]
  have "\<forall>x \<in> set xs. x \<noteq> None"
    using all2_in_set [OF all] some by fastforce
  from map_filter_all [OF all this] show ?thesis
    using ks reg \<open>s' = s\<close>
    by (intro conjI exI [of _ "sort ks"] exI [of _ "List.map_filter (\<lambda>r. r) xs"])
      (auto simp: policies_for_registry)
qed

section \<open>Concrete runs\<close>

definition revoked_record :: policy_record where
  "revoked_record = sample_record\<lparr>rec_policy := sample_policy\<lparr>revoked_at := Some (Dt 7 (Some 0))\<rparr>\<rparr>"

lemma revoked_record_ok [simp]: "record_wf revoked_record" "record_encodable revoked_record"
  "record_key revoked_record = Inr sample_key"
  using sample_record_ok
  by (auto simp: revoked_record_def sample_record_def sample_policy_def record_wf_def policy_wf_def
      aware_def record_encodable_def policy_encodable_def dt_ok_def instant_def max_us_def us_day_def
      record_key_def)

text \<open>The in-memory bucket holding one record under the sample key, at revision 1.\<close>

lemma stored:
  assumes "record_wf r" "record_encodable r" "record_key r = Inr sample_key"
  obtains s where "policy_put sample_env mock_ops r mock_empty = (Inr 1, s)" "mock_inv s"
    "revision s = 1" "policy_get sample_env mock_ops sample_key s = (Inr (Some (record_utc r)), s)"
    "\<And>q. record_encodable q \<Longrightarrow> record_key q = Inr sample_key \<Longrightarrow>
       \<exists>s'. put_commit sample_env mock_ops q 1 sample_key s = (Inr 2, s')"
    "mock_view s [] = None" "snapshot_registry sample_env mock_ops s
      = (Inr (registry_of [record_utc r]), s)"
proof -
  obtain b where b: "record_to_envelope sample_env r = Inr b"
    using record_to_envelope_total [OF assms(2)] by blast
  define s where "s = \<lparr>store = [(sample_key, b, 1)], revision = (1::int)\<rparr>"
  have put: "policy_put sample_env mock_ops r mock_empty = (Inr 1, s)"
    using b assms(3)
    by (simp add: policy_put_def mock_ops_def mock_write_def mock_empty_def Let_def io_bind_def s_def)
  have inv: "mock_inv s"
    by (simp add: s_def mock_inv_def)
  have live: "live_record sample_env (mock_view s sample_key) = Inr (Some (record_utc r))"
    using envelope_reads [OF assms(1) b] by (simp add: s_def mock_view_def live_record_def)
  have get: "policy_get sample_env mock_ops sample_key s = (Inr (Some (record_utc r)), s)"
    using mock.policy_get_live [OF inv, of sample_key sample_env] live by simp
  have commit: "\<exists>s'. put_commit sample_env mock_ops q 1 sample_key s = (Inr 2, s')"
    if "record_encodable q" "record_key q = Inr sample_key" for q
    using record_to_envelope_total [OF that(1), of sample_env]
    by (auto simp: put_commit_def s_def io_bind_def kv_update_with_revision_def mock_ops_def
        io_catch_def mock_update_def mock_write_def Let_def)
  have snap: "snapshot_registry sample_env mock_ops s = (Inr (registry_of [record_utc r]), s)"
    using get by (simp add: snapshot_registry_def snapshot_def list_keys_def mock_ops_def mock_keys_def
        io_bind_def s_def)
  show thesis
    by (rule that [OF put inv _ get commit _ snap]) (simp_all add: s_def mock_view_def)
qed

lemma put_then_get_witness:
  "\<exists>s'. policy_get sample_env mock_ops sample_key s' = (Inr (Some (record_utc sample_record)), s')"
proof (rule stored [of sample_record])
  fix s
  assume "policy_put sample_env mock_ops sample_record mock_empty = (Inr 1, s)"
  from put_then_get [OF mock.kv_bucket_axioms mock_inv_empty sample_record_ok(1) this]
  show ?thesis by auto
qed simp_all

lemma pinned_write_witness:
  "\<exists>s e. put_with_revision sample_env mock_ops sample_record 1 s = (Inl e, s)"
proof (rule stored [of sample_record])
  fix s
  assume s: "mock_inv s"
    and get: "policy_get sample_env mock_ops sample_key s = (Inr (Some (record_utc sample_record)), s)"
    and commit: "\<And>q. record_encodable q \<Longrightarrow> record_key q = Inr sample_key \<Longrightarrow>
       \<exists>s'. put_commit sample_env mock_ops q 1 sample_key s = (Inr 2, s')"
  have "revoked_at (rec_policy (record_utc sample_record)) = None"
    by (simp add: record_utc_def policy_utc_def sample_record_def sample_policy_def)
  with get have "put_check sample_env mock_ops sample_record 1 s = (Inr sample_key, s)"
    by (simp add: put_check_def io_bind_def revocation_gate_def)
  with commit [of sample_record] obtain s1 where
    "put_with_revision sample_env mock_ops sample_record 1 s = (Inr 2, s1)"
    by (auto simp: put_with_revision_def io_bind_def)
  from pinned_write_no_lost_update [OF mock.kv_bucket_axioms s this _ run_refl refl] show ?thesis
    by auto
qed simp_all

lemma pinned_write_never_unrevokes_witness:
  "\<exists>t. revoked_at (rec_policy (record_utc revoked_record)) = Some t
     \<and> (\<exists>t'. revoked_at (rec_policy revoked_record) = Some t' \<and> dt_eq t' t)"
proof (rule stored [of revoked_record])
  fix s
  assume s: "mock_inv s" "revision s = 1"
    and get: "policy_get sample_env mock_ops sample_key s = (Inr (Some (record_utc revoked_record)), s)"
    and commit: "\<And>q. record_encodable q \<Longrightarrow> record_key q = Inr sample_key \<Longrightarrow>
       \<exists>s'. put_commit sample_env mock_ops q 1 sample_key s = (Inr 2, s')"
  have rv: "revoked_at (rec_policy (record_utc revoked_record)) = Some (utc_of (Dt 7 (Some 0)))"
    "revoked_at (rec_policy revoked_record) = Some (Dt 7 (Some 0))"
    by (simp_all add: record_utc_def policy_utc_def revoked_record_def)
  with get have check: "put_check sample_env mock_ops revoked_record 1 s = (Inr sample_key, s)"
    by (simp add: put_check_def io_bind_def revocation_gate_def dt_eq_def utc_of_def aware_def instant_def)
  from commit [of revoked_record] obtain s1 where
    "put_commit sample_env mock_ops revoked_record 1 sample_key s = (Inr 2, s1)" by auto
  from pinned_write_never_unrevokes [OF mock.kv_bucket_axioms s(1) _ _ check run_refl this get rv(1)]
    s(2) rv show ?thesis by auto
qed simp_all

lemma snapshot_complete_witness:
  "\<exists>s (rs :: policy_record list). policies_for (registry_of [record_utc sample_record]) (u ''ops'')
     = map rec_policy (filter (\<lambda>r. registered_by (rec_policy r) = u ''ops'') rs)
     \<and> mock_view s sample_key \<noteq> None"
proof (rule stored [of sample_record])
  fix s
  assume s: "mock_inv s" "mock_view s [] = None"
    "snapshot_registry sample_env mock_ops s = (Inr (registry_of [record_utc sample_record]), s)"
    and get: "policy_get sample_env mock_ops sample_key s = (Inr (Some (record_utc sample_record)), s)"
  have "mock_view s sample_key \<noteq> None"
    using get mock.policy_get_live [OF s(1), of sample_key sample_env]
    by (auto simp: live_record_def split: option.splits)
  moreover obtain rs :: "policy_record list" where "\<forall>rb. policies_for (registry_of [record_utc sample_record]) rb
      = map rec_policy (filter (\<lambda>r. registered_by (rec_policy r) = rb) rs)"
    using snapshot_complete [OF mock.kv_bucket_axioms s] by blast
  ultimately show ?thesis by blast
qed simp_all

end
