(* ===== verification/PolicyWatch.thy ===== *)
theory PolicyWatch
  imports PolicyBackend
begin

text \<open>
  The observers of the capability-policy bucket
  (\<open>wakir_protocol/schemas/capability_policy_nats_kv_backend.py\<close>, from the watch-stream layer on):
  the decoding of watch updates into events, the stream handle, the live snapshot that applies
  events to an in-memory copy, and the classifier that says what each event means for the
  revocation of its key. The theorems relate the observers to the bucket they watch and to each
  other.
\<close>

section \<open>Events\<close>

datatype watch_op = PUT | DELETE | PURGE

record watch_event =
  event_op :: watch_op
  event_key :: ustr
  event_record :: "policy_record option"
  event_revision :: int

text \<open>
  An update as the client library hands it out, its fields read as attributes or, for a mapping, as
  items: the operation (its \<open>name\<close> attribute, if any, and its text), the key, the revision, and the
  entry \<open>_coerce_value_bytes\<close> reads.
\<close>

record watch_update =
  upd_operation :: "(ustr option \<times> ustr) option"
  upd_key :: pyval
  upd_revision :: "int option"
  upd_entry :: kv_entry

text \<open>\<open>str.upper()\<close>; no character outside ASCII has a letter of the three names as its upper case.\<close>

definition upper :: "ustr \<Rightarrow> ustr" where
  "upper s = map (\<lambda>c. if 97 \<le> c \<and> c \<le> 122 then c - 32 else c) s"

definition op_name :: "ustr option \<times> ustr \<Rightarrow> ustr" where
  "op_name raw = (case fst raw of Some n \<Rightarrow> if n \<noteq> [] then n else snd raw | None \<Rightarrow> snd raw)"

definition parse_op :: "ustr \<Rightarrow> watch_op res" where
  "parse_op n =
     (if n = u ''PUT'' then Inr PUT
      else if n = u ''DELETE'' then Inr DELETE
      else if n = u ''PURGE'' then Inr PURGE
      else Inl PolicyEnvelopeErr)"

definition decode_watch_update :: "pyenv \<Rightarrow> watch_update \<Rightarrow> watch_event res" where
  "decode_watch_update E upd =
     (case upd_operation upd of
        None \<Rightarrow> Inl PolicyEnvelopeErr
      | Some raw \<Rightarrow>
          sbind (parse_op (upper (op_name raw))) (\<lambda>op.
          sbind (as_str PolicyEnvelopeErr (upd_key upd)) (\<lambda>key.
          let revision = (case upd_revision upd of None \<Rightarrow> 0 | Some n \<Rightarrow> n) in
          if op = PUT then
            sbind (coerce_value_bytes (upd_entry upd)) (\<lambda>blob.
            sbind (envelope_to_record E blob) (\<lambda>r.
            Inr \<lparr>event_op = op, event_key = key, event_record = Some r, event_revision = revision\<rparr>))
          else Inr \<lparr>event_op = op, event_key = key, event_record = None, event_revision = revision\<rparr>)))"

section \<open>The stream\<close>

text \<open>
  The watcher of the client library is the list of what it will hand out; \<open>None\<close> is the marker
  between the replay of the initial state and the live tail for an asynchronous iterator, and the
  end of the stream for a watcher with an \<open>updates()\<close> method.
\<close>

datatype watcher = AsyncIterator | UpdatesMethod | NoInterface

fun stream_next ::
  "pyenv \<Rightarrow> watcher \<Rightarrow> watch_update option list \<Rightarrow> watch_event option res \<times> watch_update option list" where
  "stream_next E NoInterface us = (Inl PolicyBackendErr, us)"
| "stream_next E AsyncIterator [] = (Inr None, [])"
| "stream_next E AsyncIterator (None # us) = stream_next E AsyncIterator us"
| "stream_next E AsyncIterator (Some upd # us) =
     (sbind (decode_watch_update E upd) (\<lambda>ev. Inr (Some ev)), us)"
| "stream_next E UpdatesMethod [] = (Inr None, [])"
| "stream_next E UpdatesMethod (None # us) = (Inr None, us)"
| "stream_next E UpdatesMethod (Some upd # us) =
     (sbind (decode_watch_update E upd) (\<lambda>ev. Inr (Some ev)), us)"

lemma stream_next_shorter: "stream_next E w us = (Inr (Some ev), us') \<Longrightarrow> length us' < length us"
  by (induction E w us rule: stream_next.induct) auto

text \<open>\<open>async for event in stream\<close>: the events up to the end, or up to the error that ends it.\<close>

function stream_events :: "pyenv \<Rightarrow> watcher \<Rightarrow> watch_update option list \<Rightarrow> watch_event list \<times> exc option" where
  "stream_events E w us =
     (case stream_next E w us of
        (Inl e, _) \<Rightarrow> ([], Some e)
      | (Inr None, _) \<Rightarrow> ([], None)
      | (Inr (Some ev), us') \<Rightarrow> (let (evs, e) = stream_events E w us' in (ev # evs, e)))"
  by pat_completeness auto
termination
  by (relation "measure (\<lambda>(E, w, us). length us)") (auto dest!: sym [THEN stream_next_shorter])

declare stream_events.simps [simp del]

section \<open>The live snapshot\<close>

record live_snapshot =
  live :: "(ustr \<times> policy_record) list"
  last_revision :: int

definition live_init :: "policy_record list \<Rightarrow> int \<Rightarrow> live_snapshot res" where
  "live_init initial n =
     sbind (mapM_sum (\<lambda>r. sbind (record_key r) (\<lambda>k. Inr (k, r))) initial) (\<lambda>kvs.
     Inr \<lparr>live = foldl (\<lambda>d kv. dict_set d (fst kv) (snd kv)) [] kvs, last_revision = n\<rparr>)"

definition live_apply :: "watch_event \<Rightarrow> live_snapshot \<Rightarrow> live_snapshot res" where
  "live_apply ev L =
     sbind (if event_op ev = PUT then
              (case event_record ev of
                 None \<Rightarrow> Inl PolicyEnvelopeErr
               | Some r \<Rightarrow> Inr (dict_set (live L) (event_key ev) r))
            else Inr (dict_pop (live L) (event_key ev))) (\<lambda>d.
     Inr \<lparr>live = d, last_revision = max (last_revision L) (event_revision ev)\<rparr>)"

definition live_records :: "live_snapshot \<Rightarrow> policy_record list" where
  "live_records L = map (\<lambda>k. the (map_of (live L) k)) (sort (map fst (live L)))"

definition as_registry :: "live_snapshot \<Rightarrow> registry" where
  "as_registry L = foldl (\<lambda>reg k. add_policy (rec_policy (the (map_of (live L) k))) reg) []
     (sort (map fst (live L)))"

definition live_from_backend :: "pyenv \<Rightarrow> 's kv_ops \<Rightarrow> ('s, live_snapshot) io" where
  "live_from_backend E kv = io_bind (snapshot E kv) (\<lambda>rs. io_res (live_init rs 0))"

section \<open>The revocation classifier\<close>

datatype revocation_kind =
    NOT_REVOCATION_RELATED | REVOCATION_TRANSITION | REVOCATION_REFRESH
  | REVOCATION_MONOTONIC_BREACH | KEY_REMOVED | EXPLICIT_UNREVOKE

record classified_event =
  classified :: watch_event
  kind :: revocation_kind
  prior_revoked_at :: "dt option"
  current_revoked_at :: "dt option"
  current_revocation_reason :: "ustr option"

text \<open>The last seen revocation instant per key; an absent key has no prior state.\<close>

type_synonym classifier = "(ustr \<times> dt option) list"

definition last_revoked_at :: "classifier \<Rightarrow> ustr \<Rightarrow> dt option" where
  "last_revoked_at c k = (case map_of c k of None \<Rightarrow> None | Some x \<Rightarrow> x)"

definition known_keys :: "classifier \<Rightarrow> ustr list" where
  "known_keys c = sort (map fst c)"

fun seed_from_records :: "policy_record list \<Rightarrow> (classifier, unit) io" where
  "seed_from_records [] c = (Inr (), c)"
| "seed_from_records (r # rs) c =
     (case record_key r of
        Inl e \<Rightarrow> (Inl e, c)
      | Inr k \<Rightarrow> seed_from_records rs (dict_set c k (revoked_at (rec_policy r))))"

definition put_kind :: "dt option \<Rightarrow> policy_record \<Rightarrow> revocation_kind" where
  "put_kind prior r =
     (case prior of
        None \<Rightarrow>
          (if revoked_at (rec_policy r) = None then NOT_REVOCATION_RELATED else REVOCATION_TRANSITION)
      | Some x \<Rightarrow>
          (case revoked_at (rec_policy r) of
             None \<Rightarrow>
               (case unrevoke_audit_marker r of
                  None \<Rightarrow> REVOCATION_MONOTONIC_BREACH
                | Some m \<Rightarrow> if dt_eq (previous_revoked_at m) x then EXPLICIT_UNREVOKE
                            else REVOCATION_MONOTONIC_BREACH)
           | Some y \<Rightarrow> if dt_eq y x then REVOCATION_REFRESH else REVOCATION_MONOTONIC_BREACH))"

definition classify :: "classifier \<Rightarrow> watch_event \<Rightarrow> (classified_event \<times> classifier) res" where
  "classify c ev =
     (let prior = last_revoked_at c (event_key ev) in
      if event_op ev = DELETE \<or> event_op ev = PURGE then
        Inr (\<lparr>classified = ev, kind = KEY_REMOVED, prior_revoked_at = prior,
              current_revoked_at = None, current_revocation_reason = None\<rparr>,
             dict_pop c (event_key ev))
      else
        (case event_record ev of
           None \<Rightarrow> Inl PolicyEnvelopeErr
         | Some r \<Rightarrow>
             Inr (\<lparr>classified = ev, kind = put_kind prior r, prior_revoked_at = prior,
                   current_revoked_at = revoked_at (rec_policy r),
                   current_revocation_reason = revocation_reason (rec_policy r)\<rparr>,
                  dict_set c (event_key ev) (revoked_at (rec_policy r)))))"

definition default_kinds :: "revocation_kind set" where
  "default_kinds =
     {REVOCATION_TRANSITION, REVOCATION_REFRESH, REVOCATION_MONOTONIC_BREACH, EXPLICIT_UNREVOKE}"

text \<open>
  \<open>filter_revocation_events\<close> over the events of a stream: what it yields, the error that ended it
  if any, and the classifier it leaves.
\<close>

fun filter_events ::
  "revocation_kind set \<Rightarrow> classifier \<Rightarrow> watch_event list \<Rightarrow>
     classified_event list \<times> exc option \<times> classifier" where
  "filter_events kinds c [] = ([], None, c)"
| "filter_events kinds c (ev # evs) =
     (case classify c ev of
        Inl e \<Rightarrow> ([], Some e, c)
      | Inr (ce, c') \<Rightarrow>
          (let (out, e, c'') = filter_events kinds c' evs
           in (if kind ce \<in> kinds then ce # out else out, e, c'')))"

definition filter_revocation_events ::
  "classifier option \<Rightarrow> revocation_kind set option \<Rightarrow> watch_event list \<Rightarrow>
     classified_event list \<times> exc option \<times> classifier" where
  "filter_revocation_events c kinds evs =
     filter_events (case kinds of None \<Rightarrow> default_kinds | Some ks \<Rightarrow> ks)
       (case c of None \<Rightarrow> [] | Some c \<Rightarrow> c) evs"

section \<open>What the bucket emits\<close>

text \<open>
  The update a watcher hands out for a write of \<open>b\<close> at revision \<open>m\<close> and for a removal, and the
  histories of the bucket under the backend's operations with the updates they emit. A write is
  the last-write-wins \<open>put\<close> or the revision-pinned one.
\<close>

definition put_update :: "ustr \<Rightarrow> octets \<Rightarrow> int \<Rightarrow> watch_update" where
  "put_update k b m = \<lparr>upd_operation = Some (Some (u ''PUT''), []), upd_key = PStr k,
     upd_revision = Some m, upd_entry = KObj (VBytes b) (Some m)\<rparr>"

definition removal_update :: "ustr \<Rightarrow> ustr \<Rightarrow> int \<Rightarrow> watch_update" where
  "removal_update op k m = \<lparr>upd_operation = Some (Some op, []), upd_key = PStr k,
     upd_revision = Some m, upd_entry = KObj (VBytes []) (Some m)\<rparr>"

definition writes :: "pyenv \<Rightarrow> 's kv_ops \<Rightarrow> policy_record \<Rightarrow> 's \<Rightarrow> int \<Rightarrow> 's \<Rightarrow> bool" where
  "writes E kv r s m s' \<longleftrightarrow> policy_put E kv r s = (Inr m, s')
     \<or> (\<exists>n. put_with_revision E kv r n s = (Inr m, s'))"

inductive bucket_history :: "pyenv \<Rightarrow> 's kv_ops \<Rightarrow> 's \<Rightarrow> watch_update list \<Rightarrow> 's \<Rightarrow> bool" for E kv where
  history_start: "bucket_history E kv s [] s"
| history_write: "bucket_history E kv s us s1 \<Longrightarrow> record_wf r \<Longrightarrow> writes E kv r s1 m s2 \<Longrightarrow>
    record_key r = Inr k \<Longrightarrow> record_to_envelope E r = Inr b \<Longrightarrow>
    bucket_history E kv s (us @ [put_update k b m]) s2"
| history_remove: "bucket_history E kv s us s1 \<Longrightarrow> policy_delete kv k s1 = (Inr (), s2) \<Longrightarrow>
    op = u ''DELETE'' \<or> op = u ''PURGE'' \<Longrightarrow>
    bucket_history E kv s (us @ [removal_update op k m]) s2"

fun follow :: "pyenv \<Rightarrow> watch_update list \<Rightarrow> live_snapshot \<Rightarrow> live_snapshot res" where
  "follow E [] L = Inr L"
| "follow E (upd # us) L =
     sbind (decode_watch_update E upd) (\<lambda>ev. sbind (live_apply ev L) (follow E us))"

lemma follow_append: "follow E (us @ vs) L = sbind (follow E us L) (follow E vs)"
proof (induction E us L rule: follow.induct)
  case (2 E upd us L)
  then show ?case
    by (cases "decode_watch_update E upd"; cases "live_apply (projr (decode_watch_update E upd)) L") auto
qed simp

lemma decode_put_update:
  assumes "record_wf r" "record_key r = Inr k" "record_to_envelope E r = Inr b"
  shows "decode_watch_update E (put_update k b m)
    = Inr \<lparr>event_op = PUT, event_key = k, event_record = Some (record_utc r), event_revision = m\<rparr>"
  using envelope_reads [OF assms(1,3)] record_key_ne [OF assms(2)]
  by (simp add: decode_watch_update_def put_update_def op_name_def parse_op_def upper_def u_def)

lemma decode_removal_update:
  assumes "op = u ''DELETE'' \<or> op = u ''PURGE''" "k \<noteq> []"
  shows "\<exists>w. w \<noteq> PUT \<and> decode_watch_update E (removal_update op k m)
    = Inr \<lparr>event_op = w, event_key = k, event_record = None, event_revision = m\<rparr>"
  using assms
  by (auto simp: decode_watch_update_def removal_update_def op_name_def parse_op_def upper_def u_def)

section \<open>The live snapshot follows the bucket\<close>

definition synced :: "pyenv \<Rightarrow> ('s \<Rightarrow> ustr \<Rightarrow> (octets \<times> int) option) \<Rightarrow> 's \<Rightarrow> live_snapshot \<Rightarrow> bool" where
  "synced E view s L \<longleftrightarrow> distinct (map fst (live L))
     \<and> (\<forall>k. live_record E (view s k) = Inr (map_of (live L) k))"

lemma registry_of_records:
  "registry_of (map (\<lambda>k. the (map_of (live L) k)) (sort (map fst (live L)))) = as_registry L"
  by (simp add: registry_of_def as_registry_def foldl_map)

lemma map_filter_some: "\<forall>k \<in> set ks. f k \<noteq> None \<Longrightarrow> List.map_filter f ks = map (\<lambda>k. the (f k)) ks"
  by (induction ks) (auto simp: map_filter_simps)

context kv_bucket
begin

lemma write_result:
  assumes "inv s" "writes E kv r s m s'"
  shows "\<exists>k b. record_key r = Inr k \<and> record_to_envelope E r = Inr b \<and> inv s'
    \<and> view s' = (view s)(k \<mapsto> (b, m))"
proof -
  from assms(2) consider "policy_put E kv r s = (Inr m, s')"
    | n where "put_with_revision E kv r n s = (Inr m, s')"
    by (auto simp: writes_def)
  then show ?thesis
  proof cases
    case 1
    from put_result [OF assms(1) this] show ?thesis by blast
  next
    case 2
    then obtain k s1 where "put_check E kv r n s = (Inr k, s1)" "put_commit E kv r n k s1 = (Inr m, s')"
      by (auto simp: put_with_revision_def io_bind_Inr)
    with put_check_result [OF assms(1)] put_commit_result [OF assms(1)] show ?thesis by blast
  qed
qed

lemma history_synced:
  assumes "bucket_history E kv s us s'" "inv s" "synced E view s L" "view s [] = None"
  shows "inv s' \<and> view s' [] = None \<and> (\<exists>L'. follow E us L = Inr L' \<and> synced E view s' L')"
  using assms
proof induction
  case (history_write s us s1 r m s2 k b)
  then obtain L1 where L1: "follow E us L = Inr L1" "synced E view s1 L1" "inv s1" "view s1 [] = None"
    by blast
  from write_result [OF L1(3) history_write(3)] history_write(4,5)
  have s2: "inv s2" "view s2 = (view s1)(k \<mapsto> (b, m))" by auto
  have k: "k \<noteq> []"
    using history_write(4) by (rule record_key_ne)
  let ?L2 = "\<lparr>live = dict_set (live L1) k (record_utc r), last_revision = max (last_revision L1) m\<rparr>"
  have "follow E (us @ [put_update k b m]) L = Inr ?L2"
    by (simp add: follow_append L1(1) decode_put_update [OF history_write(2,4,5)] live_apply_def)
  moreover have "synced E view s2 ?L2"
    using L1(2) envelope_reads [OF history_write(2,5)]
    by (auto simp: synced_def s2 live_record_def)
  ultimately show ?case
    using s2 k L1(4) by auto
next
  case (history_remove s us s1 k s2 op m)
  then obtain L1 where L1: "follow E us L = Inr L1" "synced E view s1 L1" "inv s1" "view s1 [] = None"
    by blast
  from delete_result [OF L1(3) history_remove(2)] have s2: "inv s2" "view s2 = (view s1)(k := None)"
    by auto
  have k: "k \<noteq> []"
    using history_remove(2) by (auto simp: policy_delete_def)
  from decode_removal_update [OF history_remove(3) k, of E m] obtain w where
    "w \<noteq> PUT" "decode_watch_update E (removal_update op k m)
      = Inr \<lparr>event_op = w, event_key = k, event_record = None, event_revision = m\<rparr>" by blast
  then have "follow E (us @ [removal_update op k m]) L
      = Inr \<lparr>live = dict_pop (live L1) k, last_revision = max (last_revision L1) m\<rparr>" (is "_ = Inr ?L2")
    by (simp add: follow_append L1(1) live_apply_def)
  moreover have "synced E view s2 ?L2"
    using L1(2) by (auto simp: synced_def s2 live_record_def)
  ultimately show ?case
    using s2 L1(4) by auto
qed auto

lemma synced_snapshot:
  assumes "inv s" "synced E view s L" "view s [] = None"
  shows "snapshot E kv s = (Inr (live_records L), s)"
proof -
  from keys_live [OF assms(1)] obtain op ks where ks: "kv_keys kv = Some op" "op s = (Inr ks, s)"
    "distinct ks" "set ks = {k. view s k \<noteq> None}" by blast
  have dom: "(map_of (live L) k \<noteq> None) = (view s k \<noteq> None)" for k
    using assms(2) by (force simp: synced_def live_record_def split: option.splits)
  have set_eq: "set ks = set (map fst (live L))"
  proof -
    have "set ks = dom (map_of (live L))"
      unfolding ks(4) dom_def using dom by simp
    then show ?thesis by (simp add: dom_map_of_conv_image_fst)
  qed
  have sorted_eq: "sort ks = sort (map fst (live L))"
    using ks(3) assms(2) set_eq
    by (intro sorted_key_list_unique) (auto simp: synced_def)
  have "mapM_sum (\<lambda>k. live_record E (view s k)) (sort ks) = Inr (map (map_of (live L)) (sort ks))"
    using assms(2) by (intro mapM_sum_Inr_map) (simp add: synced_def)
  moreover have "List.map_filter (\<lambda>r. r) (map (map_of (live L)) (sort ks))
      = map (\<lambda>k. the (map_of (live L) k)) (sort ks)"
    using map_filter_some [of "sort ks" "map_of (live L)"] dom ks(4)
    by (simp add: List.map_filter_def comp_def)
  moreover have "[] \<notin> set (sort ks)"
    using ks(4) assms(3) by simp
  note collect_live [OF assms(1) this, of E]
  ultimately show ?thesis
    using ks sorted_eq
    by (simp add: snapshot_def list_keys_def io_bind_def live_records_def)
qed

end

text \<open>
  C3: the live snapshot is a faithful copy of the bucket. From any synchronised start, after any
  history of puts, pinned puts, deletes and purges, applying the emitted updates succeeds and yields
  the very registry (same policies per issuer, in the same order) that a full snapshot of the bucket
  would produce.
\<close>

theorem live_snapshot_follows_bucket:
  assumes "kv_bucket kv view seq I" "I s" "synced E view s L" "view s [] = None"
    and "bucket_history E kv s us s'"
  shows "\<exists>L'. follow E us L = Inr L' \<and> synced E view s' L'
    \<and> snapshot_registry E kv s' = (Inr (as_registry L'), s')"
proof -
  from kv_bucket.history_synced [OF assms(1,5,2,3,4)] obtain L' where
    "I s'" "view s' [] = None" "follow E us L = Inr L'" "synced E view s' L'" by blast
  with kv_bucket.synced_snapshot [OF assms(1)] show ?thesis
    by (simp add: snapshot_registry_def io_bind_def live_records_def registry_of_records)
qed

section \<open>The classifier agrees with the live snapshot\<close>

fun apply_events :: "watch_event list \<Rightarrow> live_snapshot \<Rightarrow> live_snapshot res" where
  "apply_events [] L = Inr L"
| "apply_events (ev # evs) L = sbind (live_apply ev L) (apply_events evs)"

text \<open>The classifier's memory is the revocation instant of the snapshot's record.\<close>

definition agrees :: "classifier \<Rightarrow> live_snapshot \<Rightarrow> bool" where
  "agrees c L \<longleftrightarrow> (\<forall>k. map_of c k = map_option (\<lambda>r. revoked_at (rec_policy r)) (map_of (live L) k))"

lemma classify_agrees:
  assumes "agrees c L"
  shows "(case classify c ev of
      Inl e \<Rightarrow> live_apply ev L = Inl e
    | Inr (ce, c') \<Rightarrow> \<exists>L'. live_apply ev L = Inr L' \<and> agrees c' L' \<and> classified ce = ev)"
proof (cases "event_op ev = PUT")
  case True
  with assms show ?thesis
    by (auto simp: classify_def live_apply_def agrees_def Let_def split: option.splits)
next
  case False
  then have "event_op ev = DELETE \<or> event_op ev = PURGE"
    by (cases "event_op ev") auto
  with False assms show ?thesis
    by (auto simp: classify_def live_apply_def agrees_def Let_def)
qed

lemma filter_events_UNIV:
  "filter_events UNIV c evs = (out, e, c') \<Longrightarrow>
     filter_events ks c evs = (filter (\<lambda>ce. kind ce \<in> ks) out, e, c')"
  by (induction ks c evs arbitrary: out e c' rule: filter_events.induct)
    (auto split: sum.splits prod.splits)

lemma filter_events_follow:
  "agrees c L \<Longrightarrow> filter_events UNIV c evs = (out, e, c') \<Longrightarrow>
     (case e of Some x \<Rightarrow> apply_events evs L = Inl x
      | None \<Rightarrow> map classified out = evs \<and> (\<exists>L'. apply_events evs L = Inr L' \<and> agrees c' L'))"
proof (induction evs arbitrary: c L out e c')
  case (Cons ev evs)
  note one = classify_agrees [OF Cons.prems(1), of ev]
  show ?case
  proof (cases "classify c ev")
    case (Inl x)
    with one Cons.prems(2) show ?thesis by auto
  next
    case (Inr p)
    obtain ce c1 where p: "p = (ce, c1)" by (cases p)
    with one Inr obtain L1 where L1: "live_apply ev L = Inr L1" "agrees c1 L1" "classified ce = ev"
      by auto
    obtain out1 e1 c2 where r: "filter_events UNIV c1 evs = (out1, e1, c2)"
      by (cases "filter_events UNIV c1 evs")
    with Cons.prems(2) Inr p have "out = ce # out1" "e = e1" "c' = c2" by auto
    with Cons.IH [OF L1(2) r] L1 show ?thesis
      by (auto split: option.splits)
  qed
qed auto

text \<open>
  a filtered stream is the full classification of the stream restricted to the requested kinds,
  whatever the kinds: nothing is reordered or classified differently, and the classifier it leaves is
  the same. Started in agreement with a live snapshot, it fails exactly when the snapshot fails on
  the same events and otherwise still agrees with it at the end.
\<close>

lemma filter_is_restricted_classification:
  assumes "filter_revocation_events (Some c) (Some UNIV) evs = (out, e, c')" "agrees c L"
  shows "filter_revocation_events (Some c) (Some ks) evs = (filter (\<lambda>ce. kind ce \<in> ks) out, e, c')
    \<and> (case e of Some x \<Rightarrow> apply_events evs L = Inl x
       | None \<Rightarrow> map classified out = evs \<and> (\<exists>L'. apply_events evs L = Inr L' \<and> agrees c' L'))"
  using assms filter_events_UNIV [of c evs out e c' ks] filter_events_follow [of c L evs out e c']
  by (simp add: filter_revocation_events_def)

text \<open>The kinds that leave a revocation of the key in place.\<close>

definition keeps_revocation :: "classified_event \<Rightarrow> ustr \<Rightarrow> bool" where
  "keeps_revocation ce k \<longleftrightarrow> event_key (classified ce) = k \<longrightarrow>
     kind ce \<in> {NOT_REVOCATION_RELATED, REVOCATION_TRANSITION, REVOCATION_REFRESH}"

lemma last_revoked_at_set:
  "last_revoked_at (dict_set c k x) k' = (if k' = k then x else last_revoked_at c k')"
  "last_revoked_at (dict_pop c k) k' = (if k' = k then None else last_revoked_at c k')"
  by (simp_all add: last_revoked_at_def)

lemma classify_keeps:
  assumes "classify c ev = Inr (ce, c')" "keeps_revocation ce k" "last_revoked_at c k = Some t"
  shows "\<exists>t'. last_revoked_at c' k = Some t' \<and> dt_eq t' t"
proof (cases "event_key ev = k")
  case False
  with assms show ?thesis
    by (auto simp: classify_def Let_def last_revoked_at_set split: if_splits option.splits)
next
  case True
  have ce: "classified ce = ev"
    using assms(1) by (auto simp: classify_def Let_def split: if_splits option.splits)
  show ?thesis
  proof (cases "event_op ev = DELETE \<or> event_op ev = PURGE")
    case True
    then have "kind ce = KEY_REMOVED"
      using assms(1) by (auto simp: classify_def Let_def)
    with assms(2) ce \<open>event_key ev = k\<close> show ?thesis
      by (simp add: keeps_revocation_def)
  next
    case put: False
    with assms(1) obtain r where r: "event_record ev = Some r" "kind ce = put_kind (Some t) r"
      "c' = dict_set c k (revoked_at (rec_policy r))"
      using True assms(3) by (auto simp: classify_def Let_def split: option.splits)
    with assms(2) ce True have "put_kind (Some t) r \<in>
        {NOT_REVOCATION_RELATED, REVOCATION_TRANSITION, REVOCATION_REFRESH}"
      by (auto simp: keeps_revocation_def)
    with r(3) show ?thesis
      by (auto simp: put_kind_def last_revoked_at_set split: option.splits if_splits)
  qed
qed

text \<open>
  C7: no silent un-revocation. If, over a whole stream of events, no event of a key is reported as a
  monotonicity breach, an explicit un-revoke or a removal, then a key revoked at the start is revoked
  at the very same instant at the end.
\<close>

theorem unreported_revocation_persists:
  assumes "filter_revocation_events (Some c) (Some UNIV) evs = (out, None, c')"
    and "\<forall>ce \<in> set out. keeps_revocation ce k" "last_revoked_at c k = Some t"
  shows "\<exists>t'. last_revoked_at c' k = Some t' \<and> dt_eq t' t"
  using assms unfolding filter_revocation_events_def option.case
proof (induction evs arbitrary: c t out)
  case (Cons ev evs)
  then obtain ce c1 where ce: "classify c ev = Inr (ce, c1)"
    by (cases "classify c ev") auto
  obtain out1 e1 c2 where r: "filter_events UNIV c1 evs = (out1, e1, c2)"
    by (cases "filter_events UNIV c1 evs")
  with Cons.prems(1) ce have o: "out = ce # out1" "e1 = None" "c2 = c'" by auto
  with Cons.prems(2) classify_keeps [OF ce _ Cons.prems(3)] obtain t1 where
    t1: "last_revoked_at c1 k = Some t1" "dt_eq t1 t" by auto
  from Cons.IH [of c1 out1 t1] r o Cons.prems(2) t1(1) obtain t' where
    "last_revoked_at c' k = Some t'" "dt_eq t' t1" by auto
  with t1(2) dt_eq_trans show ?case by blast
qed auto

lemma dt_eq_utc_of: "aware d \<Longrightarrow> dt_eq (utc_of d) t = dt_eq d t"
  by (simp add: dt_eq_def)

text \<open>
  writers that use the pinned path never raise an alarm. The event of a successful pinned write,
  seen by a classifier that agrees with a synchronised snapshot, is neither a monotonicity breach nor
  an explicit un-revoke.
\<close>

lemma pinned_write_never_breaches:
  assumes "kv_bucket kv view seq I" "I s" "synced E view s L" "agrees c L" "record_wf r"
    and "put_with_revision E kv r n s = (Inr m, s')" "record_key r = Inr k"
    and "record_to_envelope E r = Inr b" "decode_watch_update E (put_update k b m) = Inr ev"
    and "classify c ev = Inr (ce, c')"
  shows "kind ce \<notin> {REVOCATION_MONOTONIC_BREACH, EXPLICIT_UNREVOKE}"
proof -
  from assms(6) obtain k1 s1 where "put_check E kv r n s = (Inr k1, s1)"
    by (auto simp: put_with_revision_def io_bind_Inr)
  from kv_bucket.put_check_result [OF assms(1,2) this] assms(7) obtain x where
    x: "live_record E (view s k) = Inr x" "revocation_gate k x r = Inr ()" by auto
  with assms(3) have gate: "revocation_gate k (map_of (live L) k) r = Inr ()"
    by (simp add: synced_def)
  have prior: "last_revoked_at c k = Option.bind (map_of (live L) k) (\<lambda>r. revoked_at (rec_policy r))"
    using assms(4) by (auto simp: last_revoked_at_def agrees_def split: option.splits)
  have aw: "aware t" if "revoked_at (rec_policy r) = Some t" for t
    using assms(5) that by (simp add: record_wf_def policy_wf_def)
  have "kind ce = put_kind (last_revoked_at c k) (record_utc r)"
    using assms(9,10) decode_put_update [OF assms(5,7,8)]
    by (auto simp: classify_def Let_def)
  with gate prior aw show ?thesis
    by (auto simp: put_kind_def revocation_gate_def record_utc_def policy_utc_def dt_eq_utc_of
        split: option.splits bind_splits if_splits)
qed

section \<open>Concrete streams\<close>

definition empty_live :: live_snapshot where
  "empty_live = \<lparr>live = [], last_revision = 0\<rparr>"

lemma empty_synced [simp]: "synced E mock_view mock_empty empty_live" "agrees [] empty_live"
  "mock_view mock_empty k = None"
  by (simp_all add: synced_def agrees_def empty_live_def mock_view_def mock_empty_def live_record_def)

lemma sample_history:
  "\<exists>us s. us \<noteq> [] \<and> bucket_history sample_env mock_ops mock_empty us s"
proof (rule stored [of sample_record])
  fix s
  assume put: "policy_put sample_env mock_ops sample_record mock_empty = (Inr 1, s)"
  obtain b where b: "record_to_envelope sample_env sample_record = Inr b"
    using record_to_envelope_total [of sample_record sample_env] by auto
  have "writes sample_env mock_ops sample_record mock_empty 1 s"
    using put by (simp add: writes_def)
  from history_write [OF history_start sample_record_ok(1) this sample_record_ok(3) b]
  show ?thesis by blast
qed simp_all

lemma live_snapshot_follows_bucket_witness:
  "\<exists>us s L. us \<noteq> [] \<and> follow sample_env us empty_live = Inr L
     \<and> snapshot_registry sample_env mock_ops s = (Inr (as_registry L), s)"
proof -
  obtain us s where "us \<noteq> []" and h: "bucket_history sample_env mock_ops mock_empty us s"
    using sample_history by blast
  with live_snapshot_follows_bucket [OF mock.kv_bucket_axioms mock_inv_empty empty_synced(1) _ h]
  show ?thesis by auto
qed

definition sample_event :: "dt option \<Rightarrow> watch_event" where
  "sample_event rv = \<lparr>event_op = PUT, event_key = sample_key,
     event_record = Some (sample_record\<lparr>rec_policy := sample_policy\<lparr>revoked_at := rv\<rparr>\<rparr>), event_revision = 1\<rparr>"

lemma filter_witness:
  "fst (filter_revocation_events (Some []) (Some {REVOCATION_MONOTONIC_BREACH})
     [sample_event (Some (Dt 7 (Some 0))), sample_event None]) \<noteq> []"
proof -
  obtain out e c' where f: "filter_revocation_events (Some []) (Some UNIV)
      [sample_event (Some (Dt 7 (Some 0))), sample_event None] = (out, e, c')"
    by (cases "filter_revocation_events (Some []) (Some UNIV)
      [sample_event (Some (Dt 7 (Some 0))), sample_event None]")
  then have "\<exists>ce \<in> set out. kind ce = REVOCATION_MONOTONIC_BREACH"
    by (auto simp: filter_revocation_events_def sample_event_def classify_def put_kind_def
        last_revoked_at_def Let_def sample_record_def)
  with filter_is_restricted_classification [OF f empty_synced(2), of "{REVOCATION_MONOTONIC_BREACH}"]
  show ?thesis by (auto simp: filter_empty_conv)
qed

lemma unreported_revocation_witness:
  "\<exists>c' t'. last_revoked_at c' sample_key = Some t' \<and> dt_eq t' (Dt 7 (Some 0))"
proof -
  let ?c = "[(sample_key, Some (Dt 7 (Some 0)))]" and ?evs = "[sample_event (Some (Dt 8 (Some 1)))]"
  obtain out e c' where f: "filter_revocation_events (Some ?c) (Some UNIV) ?evs = (out, e, c')"
    by (cases "filter_revocation_events (Some ?c) (Some UNIV) ?evs")
  then have "e = None" "\<forall>ce \<in> set out. keeps_revocation ce sample_key"
    by (auto simp: filter_revocation_events_def sample_event_def classify_def put_kind_def
        last_revoked_at_def Let_def keeps_revocation_def dt_eq_def aware_def instant_def)
  with unreported_revocation_persists [of ?c ?evs out c' sample_key "Dt 7 (Some 0)"] f show ?thesis
    by (auto simp: last_revoked_at_def)
qed

lemma pinned_write_never_breaches_witness:
  "\<exists>ev ce c'. classify [] ev = Inr (ce, c') \<and> kind ce \<notin> {REVOCATION_MONOTONIC_BREACH, EXPLICIT_UNREVOKE}"
proof -
  obtain b where b: "record_to_envelope sample_env sample_record = Inr b"
    using record_to_envelope_total [of sample_record sample_env] by auto
  have "\<exists>s. put_with_revision sample_env mock_ops sample_record 0 mock_empty = (Inr 1, s)"
    using b by (simp add: put_with_revision_def put_check_def put_commit_def policy_get_def
        fetch_entry_def io_catch_def mock_ops_def mock_get_def mock_empty_def decode_entry_def
        revocation_gate_def io_bind_def kv_update_with_revision_def mock_update_def mock_write_def Let_def)
  then obtain s where w: "put_with_revision sample_env mock_ops sample_record 0 mock_empty = (Inr 1, s)" ..
  note d = decode_put_update [OF sample_record_ok(1,3) b, of 1]
  have "\<exists>ce c'. classify [] \<lparr>event_op = PUT, event_key = sample_key,
      event_record = Some (record_utc sample_record), event_revision = 1\<rparr> = Inr (ce, c')"
    by (simp add: classify_def Let_def)
  with pinned_write_never_breaches [OF mock.kv_bucket_axioms mock_inv_empty empty_synced(1,2)
      sample_record_ok(1) w sample_record_ok(3) b d] show ?thesis by blast
qed

end
