(* ===== verification/PolicyReplication.thy ===== *)
theory PolicyReplication
  imports PolicyWatch
begin

text \<open>
  One-way replication of capability policies between two buckets
  (\<open>wakir_protocol/schemas/capability_policy_replication.py\<close>): the bootstrap pass that copies a
  source snapshot onto the target, the handling of one live event under either conflict policy, and
  the run loop with its counters and halt flags.

  The state of a coroutine is the target bucket with the metrics object the replicator mutates; the
  source is the list of records of its snapshot and the list of updates its watcher hands out. The
  filter is a pure function, as its contract demands; \<open>None\<close> is an answer that is not a decision.
  The buckets change only through the replicator, so what a concurrent writer on the target could
  do between two awaits of the replicator is outside these theorems.
\<close>

section \<open>Configuration and metrics\<close>

datatype conflict_policy = SOURCE_WINS | CAS_PIN

datatype replication_decision = APPLY | SKIP

type_synonym replication_filter = "watch_event \<Rightarrow> replication_decision option"

definition accept_all :: replication_filter where
  "accept_all ev = Some APPLY"

record metrics =
  bootstrap_applied :: nat
  bootstrap_skipped_by_filter :: nat
  bootstrap_skipped_idempotent :: nat
  bootstrap_revocation_breaches :: nat
  events_applied_put :: nat
  events_applied_delete :: nat
  events_skipped_by_filter :: nat
  cas_conflicts :: nat
  revocation_breaches :: nat
  envelope_errors :: nat

definition no_metrics :: metrics where
  "no_metrics = \<lparr>bootstrap_applied = 0, bootstrap_skipped_by_filter = 0,
     bootstrap_skipped_idempotent = 0, bootstrap_revocation_breaches = 0, events_applied_put = 0,
     events_applied_delete = 0, events_skipped_by_filter = 0, cas_conflicts = 0,
     revocation_breaches = 0, envelope_errors = 0\<rparr>"

record replicator =
  policy_mode :: conflict_policy
  filter_fn :: replication_filter
  halt_on_envelope_error :: bool
  halt_on_conflict :: bool
  halt_on_revocation_breach :: bool

section \<open>Comparing records\<close>

definition records_byte_equal :: "pyenv \<Rightarrow> policy_record option \<Rightarrow> policy_record option \<Rightarrow> bool" where
  "records_byte_equal E a b =
     (case (a, b) of
        (Some x, Some y) \<Rightarrow>
          (case (record_to_envelope E x, record_to_envelope E y) of
             (Inr p, Inr q) \<Rightarrow> p = q
           | _ \<Rightarrow> False)
      | _ \<Rightarrow> False)"

definition is_revocation_breach :: "policy_record option \<Rightarrow> policy_record \<Rightarrow> bool" where
  "is_revocation_breach existing incoming =
     (case existing of
        None \<Rightarrow> False
      | Some l \<Rightarrow>
          if revoked_at (rec_policy l) = None then False
          else \<not> opt_dt_eq (revoked_at (rec_policy incoming)) (revoked_at (rec_policy l)))"

section \<open>Computations on the target and the metrics\<close>

type_synonym ('t, 'a) repl = "('t \<times> metrics, 'a) io"

definition on_target :: "('t, 'a) io \<Rightarrow> ('t, 'a) repl" where
  "on_target m = (\<lambda>(s, me). case m s of (x, s') \<Rightarrow> (x, (s', me)))"

definition bump :: "(metrics \<Rightarrow> metrics) \<Rightarrow> ('t, unit) repl" where
  "bump f = (\<lambda>(s, me). (Inr (), (s, f me)))"

abbreviation bump_then_raise :: "(metrics \<Rightarrow> metrics) \<Rightarrow> bool \<Rightarrow> exc \<Rightarrow> ('t, unit) repl" where
  "bump_then_raise f halt e \<equiv>
     io_bind (bump f) (\<lambda>_. if halt then io_raise e else io_ret ())"

section \<open>Bootstrap\<close>

definition bootstrap_event :: "ustr \<Rightarrow> policy_record \<Rightarrow> watch_event" where
  "bootstrap_event k r = \<lparr>event_op = PUT, event_key = k, event_record = Some r, event_revision = 0\<rparr>"

definition bootstrap_record ::
  "pyenv \<Rightarrow> 't kv_ops \<Rightarrow> replication_filter \<Rightarrow> ustr \<times> policy_record \<Rightarrow> ('t, unit) repl" where
  "bootstrap_record E tgt flt kr =
     (case flt (bootstrap_event (fst kr) (snd kr)) of
        None \<Rightarrow> io_raise TypeErr
      | Some SKIP \<Rightarrow>
          bump (\<lambda>m. m\<lparr>bootstrap_skipped_by_filter := Suc (bootstrap_skipped_by_filter m)\<rparr>)
      | Some APPLY \<Rightarrow>
          io_bind (on_target (policy_get E tgt (fst kr))) (\<lambda>tr.
          if records_byte_equal E (Some (snd kr)) tr then
            bump (\<lambda>m. m\<lparr>bootstrap_skipped_idempotent := Suc (bootstrap_skipped_idempotent m)\<rparr>)
          else if is_revocation_breach tr (snd kr) then
            bump (\<lambda>m. m\<lparr>bootstrap_revocation_breaches := Suc (bootstrap_revocation_breaches m)\<rparr>)
          else
            io_bind (on_target (policy_put E tgt (snd kr))) (\<lambda>_.
            bump (\<lambda>m. m\<lparr>bootstrap_applied := Suc (bootstrap_applied m)\<rparr>))))"

fun bootstrap_records ::
  "pyenv \<Rightarrow> 't kv_ops \<Rightarrow> replication_filter \<Rightarrow> (ustr \<times> policy_record) list \<Rightarrow> ('t, unit) repl" where
  "bootstrap_records E tgt flt [] = io_ret ()"
| "bootstrap_records E tgt flt (kr # krs) =
     io_bind (bootstrap_record E tgt flt kr) (\<lambda>_. bootstrap_records E tgt flt krs)"

text \<open>\<open>sorted(records, key=lambda r: r.key)\<close>: computing a key may raise.\<close>

definition keyed :: "policy_record list \<Rightarrow> (ustr \<times> policy_record) list res" where
  "keyed rs = mapM_sum (\<lambda>r. sbind (record_key r) (\<lambda>k. Inr (k, r))) rs"

definition bootstrap_target ::
  "pyenv \<Rightarrow> 't kv_ops \<Rightarrow> replication_filter \<Rightarrow> policy_record list res \<Rightarrow> ('t, unit) repl" where
  "bootstrap_target E tgt flt source_snapshot =
     io_bind (io_res (sbind source_snapshot keyed)) (\<lambda>krs.
     bootstrap_records E tgt flt (sort_key fst krs))"

section \<open>Live events\<close>

definition apply_put_source_wins ::
  "pyenv \<Rightarrow> 't kv_ops \<Rightarrow> replicator \<Rightarrow> ustr \<Rightarrow> policy_record \<Rightarrow> ('t, unit) repl" where
  "apply_put_source_wins E tgt R key r =
     io_bind (on_target (policy_get E tgt key)) (\<lambda>tr.
     if is_revocation_breach tr r then
       bump_then_raise (\<lambda>m. m\<lparr>revocation_breaches := Suc (revocation_breaches m)\<rparr>)
         (halt_on_revocation_breach R)
         (RevocationConflictErr key (the (revoked_at (rec_policy (the tr)))) (revoked_at (rec_policy r)))
     else
       io_bind (on_target (policy_put E tgt r)) (\<lambda>_.
       bump (\<lambda>m. m\<lparr>events_applied_put := Suc (events_applied_put m)\<rparr>)))"

fun is_revocation_conflict :: "exc \<Rightarrow> bool" where
  "is_revocation_conflict (RevocationConflictErr k a b) = True"
| "is_revocation_conflict e = False"

fun is_policy_conflict :: "exc \<Rightarrow> bool" where
  "is_policy_conflict (PolicyConflictErr k n a) = True"
| "is_policy_conflict e = False"

definition apply_put_pinned ::
  "pyenv \<Rightarrow> 't kv_ops \<Rightarrow> replicator \<Rightarrow> ustr \<Rightarrow> policy_record \<Rightarrow> ('t, unit) repl" where
  "apply_put_pinned E tgt R key r =
     io_bind (on_target (get_with_revision E tgt key)) (\<lambda>existing.
     case existing of
       None \<Rightarrow>
         io_bind (on_target (policy_put E tgt r)) (\<lambda>_.
         bump (\<lambda>m. m\<lparr>events_applied_put := Suc (events_applied_put m)\<rparr>))
     | Some (_, observed) \<Rightarrow>
         io_catch
           (io_bind (on_target (put_with_revision E tgt r observed)) (\<lambda>_.
            bump (\<lambda>m. m\<lparr>events_applied_put := Suc (events_applied_put m)\<rparr>)))
           (\<lambda>e. if is_revocation_conflict e then
                  bump_then_raise (\<lambda>m. m\<lparr>revocation_breaches := Suc (revocation_breaches m)\<rparr>)
                    (halt_on_revocation_breach R) e
                else if is_policy_conflict e then
                  bump_then_raise (\<lambda>m. m\<lparr>cas_conflicts := Suc (cas_conflicts m)\<rparr>)
                    (halt_on_conflict R) e
                else io_raise e))"

definition apply_put :: "pyenv \<Rightarrow> 't kv_ops \<Rightarrow> replicator \<Rightarrow> watch_event \<Rightarrow> ('t, unit) repl" where
  "apply_put E tgt R ev =
     (case event_record ev of
        None \<Rightarrow> io_raise PolicyEnvelopeErr
      | Some r \<Rightarrow>
          if policy_mode R = SOURCE_WINS then apply_put_source_wins E tgt R (event_key ev) r
          else apply_put_pinned E tgt R (event_key ev) r)"

definition apply_delete :: "'t kv_ops \<Rightarrow> watch_event \<Rightarrow> ('t, unit) repl" where
  "apply_delete tgt ev =
     io_bind (on_target (policy_delete tgt (event_key ev))) (\<lambda>_.
     bump (\<lambda>m. m\<lparr>events_applied_delete := Suc (events_applied_delete m)\<rparr>))"

definition consume_event :: "pyenv \<Rightarrow> 't kv_ops \<Rightarrow> replicator \<Rightarrow> watch_event \<Rightarrow> ('t, unit) repl" where
  "consume_event E tgt R ev =
     (case filter_fn R ev of
        None \<Rightarrow> io_raise TypeErr
      | Some SKIP \<Rightarrow> bump (\<lambda>m. m\<lparr>events_skipped_by_filter := Suc (events_skipped_by_filter m)\<rparr>)
      | Some APPLY \<Rightarrow>
          if event_op ev = PUT then apply_put E tgt R ev else apply_delete tgt ev)"

section \<open>The run loop\<close>

text \<open>
  The events of the stream and the error that ends it are those of \<open>stream_events\<close>. The inner
  \<open>except\<close> clause re-raises into the outer one, which counts the error again.
\<close>

abbreviation count_envelope_error :: "metrics \<Rightarrow> metrics" where
  "count_envelope_error \<equiv> \<lambda>m. m\<lparr>envelope_errors := Suc (envelope_errors m)\<rparr>"

fun consume_all ::
  "pyenv \<Rightarrow> 't kv_ops \<Rightarrow> replicator \<Rightarrow> watch_event list \<Rightarrow> exc option \<Rightarrow> ('t, unit) repl" where
  "consume_all E tgt R [] None = io_ret ()"
| "consume_all E tgt R [] (Some e) = io_raise e"
| "consume_all E tgt R (ev # evs) end =
     io_bind
       (io_catch (consume_event E tgt R ev)
         (\<lambda>e. if e = PolicyEnvelopeErr then
                bump_then_raise count_envelope_error (halt_on_envelope_error R) e
              else io_raise e))
       (\<lambda>_. consume_all E tgt R evs end)"

definition run_stream ::
  "pyenv \<Rightarrow> 't kv_ops \<Rightarrow> replicator \<Rightarrow> watch_event list \<times> exc option \<Rightarrow> ('t, unit) repl" where
  "run_stream E tgt R stream =
     io_catch (consume_all E tgt R (fst stream) (snd stream))
       (\<lambda>e. if e = PolicyEnvelopeErr then
              bump_then_raise count_envelope_error (halt_on_envelope_error R) e
            else io_raise e)"

definition replicator_run ::
  "pyenv \<Rightarrow> 't kv_ops \<Rightarrow> replicator \<Rightarrow> bool \<Rightarrow> policy_record list res \<Rightarrow> watcher \<Rightarrow>
     watch_update option list \<Rightarrow> ('t, unit) repl" where
  "replicator_run E tgt R bootstrap source_snapshot w us =
     io_bind (if bootstrap then bootstrap_target E tgt (filter_fn R) source_snapshot else io_ret ()) (\<lambda>_.
     run_stream E tgt R (stream_events E w us))"

section \<open>What replication preserves\<close>

definition preserves :: "('st \<Rightarrow> bool) \<Rightarrow> ('st, 'a) io \<Rightarrow> bool" where
  "preserves P m \<longleftrightarrow> (\<forall>st x st'. P st \<longrightarrow> m st = (x, st') \<longrightarrow> P st')"

lemma preserves_res [intro, simp]: "preserves P (io_res x)"
  by (simp add: preserves_def)

lemma preserves_Pair [simp]: "preserves P (Pair x)"
  by (simp add: preserves_def)

lemma preserves_bind [intro]:
  assumes "preserves P m" "\<And>a. preserves P (f a)"
  shows "preserves P (io_bind m f)"
  unfolding preserves_def io_bind_def
proof (intro allI impI)
  fix st x st'
  assume st: "P st" and r: "(case m st of (Inl e, s') \<Rightarrow> (Inl e, s') | (Inr a, s') \<Rightarrow> f a s') = (x, st')"
  obtain y s1 where m: "m st = (y, s1)" by (cases "m st")
  with assms(1) st have "P s1" by (auto simp: preserves_def)
  with assms(2) r m show "P st'" by (cases y) (auto simp: preserves_def)
qed

lemma preserves_catch [intro]:
  assumes "preserves P m" "\<And>e. preserves P (h e)"
  shows "preserves P (io_catch m h)"
  unfolding preserves_def io_catch_def
proof (intro allI impI)
  fix st x st'
  assume st: "P st" and r: "(case m st of (Inl e, s') \<Rightarrow> h e s' | (Inr a, s') \<Rightarrow> (Inr a, s')) = (x, st')"
  obtain y s1 where m: "m st = (y, s1)" by (cases "m st")
  with assms(1) st have "P s1" by (auto simp: preserves_def)
  with assms(2) r m show "P st'" by (cases y) (auto simp: preserves_def)
qed

lemma preserves_if [intro]: "preserves P a \<Longrightarrow> preserves P b \<Longrightarrow> preserves P (if c then a else b)"
  by simp

text \<open>The live record of a key is revoked at an instant.\<close>

definition revoked_live :: "pyenv \<Rightarrow> ('s \<Rightarrow> ustr \<Rightarrow> (octets \<times> int) option) \<Rightarrow> 's \<Rightarrow> ustr \<Rightarrow> dt \<Rightarrow> bool" where
  "revoked_live E view s k t \<longleftrightarrow> (\<exists>r t'. live_record E (view s k) = Inr (Some r)
     \<and> revoked_at (rec_policy r) = Some t' \<and> dt_eq t' t)"

definition stays_revoked ::
  "pyenv \<Rightarrow> ('t \<Rightarrow> ustr \<Rightarrow> (octets \<times> int) option) \<Rightarrow> ('t \<Rightarrow> bool) \<Rightarrow> ustr \<Rightarrow> dt \<Rightarrow> 't \<times> metrics \<Rightarrow> bool" where
  "stays_revoked E view I k t st \<longleftrightarrow> I (fst st) \<and> revoked_live E view (fst st) k t"

lemma preserves_bump [intro, simp]: "preserves (stays_revoked E view I k t) (bump f)"
  by (auto simp: preserves_def bump_def stays_revoked_def)

text \<open>An event that carries a record of its own key and does not remove \<open>k\<close>.\<close>

definition event_ok :: "ustr \<Rightarrow> watch_event \<Rightarrow> bool" where
  "event_ok k ev \<longleftrightarrow>
     (case event_record ev of None \<Rightarrow> True
      | Some r \<Rightarrow> record_wf r \<and> record_key r = Inr (event_key ev))
     \<and> (event_key ev = k \<longrightarrow> event_op ev = PUT)"

lemma revoked_utc:
  assumes "record_wf r" "opt_dt_eq (revoked_at (rec_policy r)) (Some t)"
  shows "\<exists>t'. revoked_at (rec_policy (record_utc r)) = Some t' \<and> dt_eq t' t"
proof -
  from assms(2) obtain t2 where t2: "revoked_at (rec_policy r) = Some t2" "dt_eq t2 t"
    by (cases "revoked_at (rec_policy r)") auto
  with assms(1) have "aware t2"
    by (simp add: record_wf_def policy_wf_def)
  with t2 show ?thesis
    by (auto simp: record_utc_def policy_utc_def dt_eq_utc_of)
qed

context kv_bucket
begin

lemma view_write_revoked:
  assumes "revoked_live E view s k t" "view s' = (view s)(k0 \<mapsto> (b, m))" "record_wf r"
    and "record_to_envelope E r = Inr b" "live_record E (view s k0) = Inr x" "\<not> is_revocation_breach x r"
  shows "revoked_live E view s' k t"
proof (cases "k = k0")
  case False
  with assms(1,2) show ?thesis by (simp add: revoked_live_def)
next
  case True
  with assms(1,5) obtain l t' where l: "x = Some l" "revoked_at (rec_policy l) = Some t'" "dt_eq t' t"
    by (auto simp: revoked_live_def)
  with assms(6) have "opt_dt_eq (revoked_at (rec_policy r)) (Some t')"
    by (simp add: is_revocation_breach_def)
  from revoked_utc [OF assms(3) this] l(3) True assms(2) envelope_reads [OF assms(3,4)] show ?thesis
    by (auto simp: revoked_live_def live_record_def intro: dt_eq_trans)
qed

lemma put_keeps_revoked:
  assumes "inv s" "revoked_live E view s k t" "record_wf r" "record_key r = Inr k0"
    and "live_record E (view s k0) = Inr x" "\<not> is_revocation_breach x r"
    and "policy_put E kv r s = (y, s')"
  shows "inv s' \<and> revoked_live E view s' k t"
proof (cases y)
  case (Inl e)
  with put_error [OF assms(1)] assms(7,1,2) show ?thesis by auto
next
  case (Inr m)
  with put_result [OF assms(1)] assms(7,4) obtain b where "record_to_envelope E r = Inr b" "inv s'"
    "view s' = (view s)(k0 \<mapsto> (b, m))" by fastforce
  with view_write_revoked [OF assms(2) _ assms(3) _ assms(5,6)] show ?thesis by blast
qed

lemma gate_not_breach:
  "revocation_gate key x r = Inr () \<Longrightarrow> \<not> is_revocation_breach x r"
  by (auto simp: revocation_gate_def is_revocation_breach_def split: option.splits if_splits)

lemma pinned_keeps_revoked:
  assumes "inv s" "revoked_live E view s k t" "record_wf r"
    and "put_with_revision E kv r n s = (y, s')"
  shows "inv s' \<and> revoked_live E view s' k t"
proof -
  obtain c s1 where c: "put_check E kv r n s = (c, s1)"
    by (cases "put_check E kv r n s")
  with put_check_state [OF assms(1)] have [simp]: "s1 = s" by blast
  show ?thesis
  proof (cases c)
    case (Inl e)
    with assms c show ?thesis by (simp add: put_with_revision_def io_bind_def)
  next
    case (Inr k0)
    with put_check_result [OF assms(1)] c obtain x where k0: "record_key r = Inr k0"
      and x: "live_record E (view s k0) = Inr x" "revocation_gate k0 x r = Inr ()" by fastforce
    from c Inr assms(4) have w: "put_commit E kv r n k0 s = (y, s')"
      by (simp add: put_with_revision_def io_bind_def)
    show ?thesis
    proof (cases y)
      case (Inl e)
      with put_commit_state [OF assms(1)] w assms(1,2) show ?thesis by blast
    next
      case (Inr m)
      with put_commit_result [OF assms(1)] w obtain b where "record_to_envelope E r = Inr b" "inv s'"
        "view s' = (view s)(k0 \<mapsto> (b, m))" by blast
      with view_write_revoked [OF assms(2) _ assms(3) _ x(1) gate_not_breach [OF x(2)]]
      show ?thesis by blast
    qed
  qed
qed

text \<open>Reading the target first, then writing unless it is a breach.\<close>

lemma checked_put_preserves:
  assumes "record_wf r" "record_key r = Inr k0"
    and "\<And>x. preserves (stays_revoked E view inv k t) (other x)" "\<And>x y. preserves (stays_revoked E view inv k t) (next y)"
    and "\<And>x. \<not> test x \<Longrightarrow> \<not> is_revocation_breach x r"
  shows "preserves (stays_revoked E view inv k t)
    (io_bind (on_target (policy_get E kv k0)) (\<lambda>x.
       if test x then other x else io_bind (on_target (policy_put E kv r)) next))"
  unfolding preserves_def
proof (intro allI impI)
  fix st y st'
  assume p: "stays_revoked E view inv k t st"
    and run: "io_bind (on_target (policy_get E kv k0)) (\<lambda>x.
       if test x then other x else io_bind (on_target (policy_put E kv r)) next) st = (y, st')"
  obtain s me where st: "st = (s, me)" by (cases st)
  with p have s: "inv s" "revoked_live E view s k t" by (auto simp: stays_revoked_def)
  note get = policy_get_live [OF s(1) record_key_ne [OF assms(2)], of E]
  show "stays_revoked E view inv k t st'"
  proof (cases "live_record E (view s k0)")
    case (Inl e)
    with get run st p show ?thesis by (auto simp: io_bind_def on_target_def)
  next
    case (Inr x)
    show ?thesis
    proof (cases "test x")
      case True
      with get Inr run st have "other x (s, me) = (y, st')" by (simp add: io_bind_def on_target_def)
      with assms(3) p st show ?thesis unfolding preserves_def by blast
    next
      case False
      obtain z s' where z: "policy_put E kv r s = (z, s')" by (cases "policy_put E kv r s")
      from put_keeps_revoked [OF s assms(1,2) Inr assms(5) [OF False] z]
      have k': "stays_revoked E view inv k t (s', me)" by (simp add: stays_revoked_def)
      from get Inr False run st z have
        "(case z of Inl e \<Rightarrow> (Inl e, (s', me)) | Inr a \<Rightarrow> next a (s', me)) = (y, st')"
        by (simp add: io_bind_def on_target_def split: sum.splits)
      note step = this
      show ?thesis
      proof (cases z)
        case (Inl e)
        with k' step show ?thesis by simp
      next
        case (Inr a)
        with step have "next a (s', me) = (y, st')" by simp
        with k' assms(4) [of a, unfolded preserves_def] show ?thesis by blast
      qed
    qed
  qed
qed

lemma bootstrap_record_preserves:
  assumes "record_wf (snd kr)" "record_key (snd kr) = Inr (fst kr)"
  shows "preserves (stays_revoked E view inv k t) (bootstrap_record E kv flt kr)"
proof -
  have "preserves (stays_revoked E view inv k t)
    (io_bind (on_target (policy_get E kv (fst kr))) (\<lambda>tr.
       if records_byte_equal E (Some (snd kr)) tr \<or> is_revocation_breach tr (snd kr) then
         (if records_byte_equal E (Some (snd kr)) tr then
            bump (\<lambda>m. m\<lparr>bootstrap_skipped_idempotent := Suc (bootstrap_skipped_idempotent m)\<rparr>)
          else bump (\<lambda>m. m\<lparr>bootstrap_revocation_breaches := Suc (bootstrap_revocation_breaches m)\<rparr>))
       else io_bind (on_target (policy_put E kv (snd kr))) (\<lambda>_.
            bump (\<lambda>m. m\<lparr>bootstrap_applied := Suc (bootstrap_applied m)\<rparr>))))"
    by (rule checked_put_preserves [OF assms]) auto
  moreover have "(\<lambda>tr.
       if records_byte_equal E (Some (snd kr)) tr \<or> is_revocation_breach tr (snd kr) then
         (if records_byte_equal E (Some (snd kr)) tr then
            bump (\<lambda>m. m\<lparr>bootstrap_skipped_idempotent := Suc (bootstrap_skipped_idempotent m)\<rparr>)
          else bump (\<lambda>m. m\<lparr>bootstrap_revocation_breaches := Suc (bootstrap_revocation_breaches m)\<rparr>))
       else io_bind (on_target (policy_put E kv (snd kr))) (\<lambda>_.
            bump (\<lambda>m. m\<lparr>bootstrap_applied := Suc (bootstrap_applied m)\<rparr>)))
    = (\<lambda>tr. if records_byte_equal E (Some (snd kr)) tr then
            bump (\<lambda>m. m\<lparr>bootstrap_skipped_idempotent := Suc (bootstrap_skipped_idempotent m)\<rparr>)
          else if is_revocation_breach tr (snd kr) then
            bump (\<lambda>m. m\<lparr>bootstrap_revocation_breaches := Suc (bootstrap_revocation_breaches m)\<rparr>)
          else
            io_bind (on_target (policy_put E kv (snd kr))) (\<lambda>_.
            bump (\<lambda>m. m\<lparr>bootstrap_applied := Suc (bootstrap_applied m)\<rparr>)))"
    by auto
  ultimately show ?thesis
    by (auto simp: bootstrap_record_def split: option.split replication_decision.split)
qed

lemma bootstrap_records_preserves:
  assumes "\<forall>kr \<in> set krs. record_wf (snd kr) \<and> record_key (snd kr) = Inr (fst kr)"
  shows "preserves (stays_revoked E view inv k t) (bootstrap_records E kv flt krs)"
  using assms by (induction krs) (auto intro!: bootstrap_record_preserves)

lemma source_wins_preserves:
  assumes "record_wf r" "record_key r = Inr key"
  shows "preserves (stays_revoked E view inv k t) (apply_put_source_wins E kv R key r)"
  unfolding apply_put_source_wins_def
  by (rule checked_put_preserves [OF assms]) auto

lemma pinned_preserves:
  assumes "record_wf r" "record_key r = Inr key"
  shows "preserves (stays_revoked E view inv k t) (apply_put_pinned E kv R key r)"
  unfolding preserves_def
proof (intro allI impI)
  fix st y st'
  assume p: "stays_revoked E view inv k t st" and run: "apply_put_pinned E kv R key r st = (y, st')"
  obtain s me where st: "st = (s, me)" by (cases st)
  with p have s: "inv s" "revoked_live E view s k t" by (auto simp: stays_revoked_def)
  note get = get_with_revision_live [OF s(1) record_key_ne [OF assms(2)], of E]
  show "stays_revoked E view inv k t st'"
  proof (cases "live_record E (view s key)")
    case (Inl e)
    with get run st p show ?thesis by (auto simp: apply_put_pinned_def io_bind_def on_target_def)
  next
    case (Inr x)
    show ?thesis
    proof (cases x)
      case None
      obtain z s' where z: "policy_put E kv r s = (z, s')" by (cases "policy_put E kv r s")
      have "\<not> is_revocation_breach x r"
        by (simp add: None is_revocation_breach_def)
      from put_keeps_revoked [OF s assms Inr this z] get Inr None run st z show ?thesis
        by (cases z) (auto simp: apply_put_pinned_def io_bind_def on_target_def bump_def stays_revoked_def)
    next
      case (Some l)
      have pp: "preserves (stays_revoked E view inv k t) (on_target (put_with_revision E kv r n))" for n
        unfolding preserves_def
      proof (intro allI impI)
        fix st z st'
        assume "stays_revoked E view inv k t st" and r: "on_target (put_with_revision E kv r n) st = (z, st')"
        then have s': "inv (fst st)" "revoked_live E view (fst st) k t" by (auto simp: stays_revoked_def)
        obtain q s2 where q: "put_with_revision E kv r n (fst st) = (q, s2)"
          by (cases "put_with_revision E kv r n (fst st)")
        from pinned_keeps_revoked [OF s' assms(1) q] q r show "stays_revoked E view inv k t st'"
          by (cases st) (auto simp: on_target_def stays_revoked_def)
      qed
      define body where "body = io_catch
           (io_bind (on_target (put_with_revision E kv r (live_rev (view s key)))) (\<lambda>_.
            bump (\<lambda>m. m\<lparr>events_applied_put := Suc (events_applied_put m)\<rparr>)))
           (\<lambda>e. if is_revocation_conflict e then
                  bump_then_raise (\<lambda>m. m\<lparr>revocation_breaches := Suc (revocation_breaches m)\<rparr>)
                    (halt_on_revocation_breach R) e
                else if is_policy_conflict e then
                  bump_then_raise (\<lambda>m. m\<lparr>cas_conflicts := Suc (cas_conflicts m)\<rparr>)
                    (halt_on_conflict R) e
                else io_raise e)"
      have "preserves (stays_revoked E view inv k t) body"
        unfolding body_def
        by (intro preserves_catch preserves_bind preserves_if pp) simp_all
      moreover have "apply_put_pinned E kv R key r (s, me) = body (s, me)"
        using get Inr Some by (simp add: apply_put_pinned_def io_bind_def on_target_def body_def)
      with run st have "body st = (y, st')" by simp
      ultimately show ?thesis
        using p unfolding preserves_def by blast
    qed
  qed
qed

lemma delete_preserves:
  assumes "event_key ev \<noteq> k"
  shows "preserves (stays_revoked E view inv k t) (apply_delete kv ev)"
proof -
  have "preserves (stays_revoked E view inv k t) (on_target (policy_delete kv (event_key ev)))"
    unfolding preserves_def
  proof (intro allI impI)
    fix st x st'
    assume p: "stays_revoked E view inv k t st" and run: "on_target (policy_delete kv (event_key ev)) st = (x, st')"
    obtain s me where st: "st = (s, me)" by (cases st)
    with p have s: "inv s" "revoked_live E view s k t" by (auto simp: stays_revoked_def)
    have "\<exists>s'. policy_delete kv (event_key ev) s = (Inr (), s') \<or> s' = s \<and> (\<exists>e. policy_delete kv (event_key ev) s = (Inl e, s'))"
    proof (cases "event_key ev = []")
      case False
      show ?thesis
      proof (cases "view s (event_key ev) = None")
        case True
        from delete_absent [OF s(1) True] obtain x s' where
          "kv_delete kv (event_key ev) s = (x, s')" "case x of Inl e \<Rightarrow> is_missing e | Inr _ \<Rightarrow> True"
          by blast
        with False show ?thesis
          by (cases x) (simp_all add: policy_delete_def io_catch_def)
      next
        case present: False
        from delete_removes [OF s(1) present] False show ?thesis
          by (auto simp: policy_delete_def io_catch_def)
      qed
    qed (simp add: policy_delete_def)
    then show "stays_revoked E view inv k t st'"
    proof (elim exE disjE conjE)
      fix s' assume "policy_delete kv (event_key ev) s = (Inr (), s')"
      with delete_result [OF s(1) this] s(2) assms run st show ?thesis
        by (auto simp: on_target_def stays_revoked_def revoked_live_def)
    next
      fix s' e assume "s' = s" "policy_delete kv (event_key ev) s = (Inl e, s')"
      with p run st show ?thesis by (auto simp: on_target_def)
    qed
  qed
  then show ?thesis
    unfolding apply_delete_def by (rule preserves_bind) simp
qed

lemma consume_preserves:
  assumes "event_ok k ev"
  shows "preserves (stays_revoked E view inv k t) (consume_event E kv R ev)"
  using assms
  by (auto simp: consume_event_def apply_put_def event_ok_def split: option.split replication_decision.split
      intro!: source_wins_preserves pinned_preserves delete_preserves)

lemma consume_all_preserves:
  assumes "\<forall>ev \<in> set evs. event_ok k ev"
  shows "preserves (stays_revoked E view inv k t) (consume_all E kv R evs end)"
  using assms
proof (induction evs)
  case Nil
  then show ?case by (cases "end") simp_all
next
  case (Cons ev evs)
  then show ?case
    by (simp only: consume_all.simps, intro preserves_bind preserves_catch preserves_if consume_preserves)
      simp_all
qed

end

lemma keyed_set: "keyed rs = Inr krs \<Longrightarrow> kr \<in> set krs \<Longrightarrow> record_key (snd kr) = Inr (fst kr) \<and> snd kr \<in> set rs"
  unfolding keyed_def mapM_sum_Inr_iff
  by (induction rule: list_all2_induct) auto

text \<open>
  C9: replication never un-revokes the target. Once the target's record of a key is revoked at an
  instant, then after a whole run of the replicator (bootstrap and stream, under either conflict
  policy, with any filter and any halt flags, whether it returns or raises) it is still revoked at
  that instant, provided that every event of the source carries a record under that record's own key
  and none removes the key.
\<close>

theorem replication_never_unrevokes:
  assumes "kv_bucket kv view seq I" "I s" "revoked_live E view s k t"
    and "\<forall>rs. source_snapshot = Inr rs \<longrightarrow> (\<forall>r \<in> set rs. record_wf r)"
    and "\<forall>ev \<in> set (fst (stream_events E w us)). event_ok k ev"
    and "replicator_run E kv R boot source_snapshot w us (s, m) = (x, (s', m'))"
  shows "revoked_live E view s' k t"
proof -
  have "preserves (stays_revoked E view I k t) (bootstrap_target E kv (filter_fn R) source_snapshot)"
  proof (cases "sbind source_snapshot keyed")
    case (Inl e)
    then show ?thesis by (auto simp: bootstrap_target_def preserves_def)
  next
    case (Inr krs)
    then obtain rs where rs: "source_snapshot = Inr rs" "keyed rs = Inr krs" by auto
    have "\<forall>kr \<in> set (sort_key fst krs). record_wf (snd kr) \<and> record_key (snd kr) = Inr (fst kr)"
      using assms(4) rs keyed_set [OF rs(2)] by auto
    note kv_bucket.bootstrap_records_preserves [OF assms(1) this]
    moreover have "bootstrap_target E kv (filter_fn R) source_snapshot
        = bootstrap_records E kv (filter_fn R) (sort_key fst krs)"
      by (rule ext) (simp add: bootstrap_target_def Inr)
    ultimately show ?thesis by simp
  qed
  moreover have "preserves (stays_revoked E view I k t) (run_stream E kv R (stream_events E w us))"
    unfolding run_stream_def
    using kv_bucket.consume_all_preserves [OF assms(1,5)]
    by (intro preserves_catch preserves_if preserves_bind) simp_all
  ultimately have "preserves (stays_revoked E view I k t) (replicator_run E kv R boot source_snapshot w us)"
    unfolding replicator_run_def by (intro preserves_bind preserves_if) simp_all
  note run = this
  have "stays_revoked E view I k t (s, m)"
    using assms(2,3) by (simp add: stays_revoked_def)
  with run assms(6) have "stays_revoked E view I k t (s', m')"
    unfolding preserves_def by blast
  then show ?thesis
    by (simp add: stays_revoked_def)
qed

section \<open>Bootstrap converges\<close>

text \<open>The target holds the source's record, or its own revocation forbids it.\<close>

definition converged ::
  "pyenv \<Rightarrow> ('t \<Rightarrow> ustr \<Rightarrow> (octets \<times> int) option) \<Rightarrow> 't \<Rightarrow> ustr \<times> policy_record \<Rightarrow> bool" where
  "converged E view s kr \<longleftrightarrow> (\<exists>x. live_record E (view s (fst kr)) = Inr x
     \<and> (records_byte_equal E (Some (snd kr)) x \<or> is_revocation_breach x (snd kr)))"

definition bootstrap_total :: "metrics \<Rightarrow> nat" where
  "bootstrap_total m = bootstrap_applied m + bootstrap_skipped_by_filter m
     + bootstrap_skipped_idempotent m + bootstrap_revocation_breaches m"

lemma byte_equal_utc:
  "record_wf r \<Longrightarrow> record_to_envelope E r = Inr b \<Longrightarrow> records_byte_equal E (Some r) (Some (record_utc r))"
  using envelope_reads [of r E b] by (simp add: records_byte_equal_def)

context kv_bucket
begin

lemma bootstrap_record_result:
  assumes "inv s" "record_wf (snd kr)" "record_key (snd kr) = Inr (fst kr)"
    and "bootstrap_record E kv flt kr (s, m) = (Inr (), (s', m'))"
  shows "inv s' \<and> bootstrap_total m' = Suc (bootstrap_total m)
    \<and> (\<forall>k. k \<noteq> fst kr \<longrightarrow> view s' k = view s k)
    \<and> (flt (bootstrap_event (fst kr) (snd kr)) = Some APPLY \<longrightarrow> converged E view s' kr)"
proof -
  let ?k = "fst kr" and ?r = "snd kr"
  note get = policy_get_live [OF assms(1) record_key_ne [OF assms(3)], of E]
  consider (skip) "flt (bootstrap_event ?k ?r) = Some SKIP" | (app) "flt (bootstrap_event ?k ?r) = Some APPLY"
    using assms(4) by (auto simp: bootstrap_record_def split: option.splits replication_decision.splits)
  then show ?thesis
  proof cases
    case skip
    with assms(1,4) show ?thesis by (auto simp: bootstrap_record_def bump_def bootstrap_total_def)
  next
    case app
    from assms(4) app get obtain x where x: "live_record E (view s ?k) = Inr x"
      by (auto simp: bootstrap_record_def io_bind_def on_target_def split: sum.splits)
    show ?thesis
    proof (cases "records_byte_equal E (Some ?r) x \<or> is_revocation_breach x ?r")
      case True
      with assms(4) app get x have "s' = s" "bootstrap_total m' = Suc (bootstrap_total m)"
        by (auto simp: bootstrap_record_def io_bind_def on_target_def bump_def bootstrap_total_def
            split: if_splits)
      with True x assms(1) show ?thesis by (auto simp: converged_def)
    next
      case False
      obtain z s1 where z: "policy_put E kv ?r s = (z, s1)" by (cases "policy_put E kv ?r s")
      with assms(4) app get x False obtain n where n: "z = Inr n" and "s1 = s'"
        and total: "bootstrap_total m' = Suc (bootstrap_total m)"
        by (cases z) (auto simp: bootstrap_record_def io_bind_def on_target_def bump_def bootstrap_total_def)
      with put_result [OF assms(1)] z assms(3) obtain b where b: "record_to_envelope E ?r = Inr b"
        "inv s'" "view s' = (view s)(?k \<mapsto> (b, n))" by fastforce
      have "live_record E (view s' ?k) = Inr (Some (record_utc ?r))"
        using envelope_reads [OF assms(2) b(1)] b(3) by (simp add: live_record_def)
      with byte_equal_utc [OF assms(2) b(1)] b total show ?thesis by (auto simp: converged_def)
    qed
  qed
qed

lemma bootstrap_records_result:
  assumes "inv s" "\<forall>kr \<in> set krs. record_wf (snd kr) \<and> record_key (snd kr) = Inr (fst kr)"
    and "distinct (map fst krs)"
    and "bootstrap_records E kv flt krs (s, m) = (Inr (), (s', m'))"
  shows "inv s' \<and> bootstrap_total m' = bootstrap_total m + length krs
    \<and> (\<forall>k. k \<notin> fst ` set krs \<longrightarrow> view s' k = view s k)
    \<and> (\<forall>kr \<in> set krs. flt (bootstrap_event (fst kr) (snd kr)) = Some APPLY \<longrightarrow> converged E view s' kr)"
  using assms
proof (induction krs arbitrary: s m)
  case (Cons kr krs)
  from Cons.prems(4) obtain s1 m1 where one: "bootstrap_record E kv flt kr (s, m) = (Inr (), (s1, m1))"
    and rest: "bootstrap_records E kv flt krs (s1, m1) = (Inr (), (s', m'))"
    by (auto simp: io_bind_Inr)
  from bootstrap_record_result [OF Cons.prems(1) _ _ one] Cons.prems(2)
  have r1: "inv s1" "bootstrap_total m1 = Suc (bootstrap_total m)"
    "\<forall>k. k \<noteq> fst kr \<longrightarrow> view s1 k = view s k"
    "flt (bootstrap_event (fst kr) (snd kr)) = Some APPLY \<longrightarrow> converged E view s1 kr" by auto
  from Cons.IH [OF r1(1) _ _ rest] Cons.prems(2,3)
  have r2: "inv s'" "bootstrap_total m' = bootstrap_total m1 + length krs"
    "\<forall>k. k \<notin> fst ` set krs \<longrightarrow> view s' k = view s1 k"
    "\<forall>kr \<in> set krs. flt (bootstrap_event (fst kr) (snd kr)) = Some APPLY \<longrightarrow> converged E view s' kr"
    by auto
  have "view s' (fst kr) = view s1 (fst kr)"
    using r2(3) Cons.prems(3) by auto
  then have "converged E view s1 kr \<Longrightarrow> converged E view s' kr"
    by (simp add: converged_def)
  with r1 r2 show ?case by auto
qed auto

lemma bootstrap_again:
  assumes "inv s" "\<forall>kr \<in> set krs. record_key (snd kr) = Inr (fst kr) \<and> converged E view s kr"
  shows "\<exists>m'. bootstrap_records E kv accept_all krs (s, m) = (Inr (), (s, m'))"
  using assms(2)
proof (induction krs arbitrary: m)
  case (Cons kr krs)
  from Cons.prems have "record_key (snd kr) = Inr (fst kr)" by simp
  note get = policy_get_live [OF assms(1) record_key_ne [OF this], of E]
  with Cons.prems have "\<exists>m1. bootstrap_record E kv accept_all kr (s, m) = (Inr (), (s, m1))"
    by (auto simp: bootstrap_record_def accept_all_def io_bind_def on_target_def bump_def converged_def)
  then obtain m1 where "bootstrap_record E kv accept_all kr (s, m) = (Inr (), (s, m1))" ..
  with Cons show ?case by (simp add: io_bind_def)
qed simp

end

text \<open>
  C10: a bootstrap that returns has converged. Every source record that the filter admits is on the
  target byte for byte, or the target's own revocation forbids it; keys the source does not have are
  untouched; the four counters account for every source record exactly once; and when everything is
  admitted, bootstrapping again writes nothing.
\<close>

theorem bootstrap_converges:
  assumes "kv_bucket kv view seq I" "I s" "\<forall>r \<in> set rs. record_wf r" "keyed rs = Inr krs"
    and "distinct (map fst krs)"
    and "bootstrap_target E kv flt (Inr rs) (s, m) = (Inr (), (s', m'))"
  shows "(\<forall>kr \<in> set krs. flt (bootstrap_event (fst kr) (snd kr)) = Some APPLY \<longrightarrow> converged E view s' kr)
    \<and> (\<forall>k. k \<notin> fst ` set krs \<longrightarrow> view s' k = view s k)
    \<and> bootstrap_total m' = bootstrap_total m + length rs
    \<and> (flt = accept_all \<longrightarrow> (\<forall>m1. \<exists>m2. bootstrap_target E kv flt (Inr rs) (s', m1) = (Inr (), (s', m2))))"
proof -
  let ?krs = "sort_key fst krs"
  have ok: "\<forall>kr \<in> set ?krs. record_wf (snd kr) \<and> record_key (snd kr) = Inr (fst kr)"
    using assms(3) keyed_set [OF assms(4)] by auto
  have dist: "distinct (map fst ?krs)"
    using assms(5) by (rule distinct_sort_key_keys)
  have len: "length krs = length rs"
    using assms(4) by (auto simp: keyed_def mapM_sum_Inr_iff dest: list_all2_lengthD)
  have unfold: "bootstrap_target E kv f (Inr rs) st = bootstrap_records E kv f ?krs st" for f st
    by (simp add: bootstrap_target_def assms(4))
  from kv_bucket.bootstrap_records_result [OF assms(1,2) ok dist assms(6) [unfolded unfold]]
  have r: "I s'" "bootstrap_total m' = bootstrap_total m + length krs"
    "\<forall>k. k \<notin> fst ` set krs \<longrightarrow> view s' k = view s k"
    "\<forall>kr \<in> set krs. flt (bootstrap_event (fst kr) (snd kr)) = Some APPLY \<longrightarrow> converged E view s' kr"
    by simp_all
  have "\<exists>m2. bootstrap_target E kv flt (Inr rs) (s', m1) = (Inr (), (s', m2))" if "flt = accept_all" for m1
    unfolding unfold that
    using r(4) ok that
    by (intro kv_bucket.bootstrap_again [OF assms(1) r(1)]) (simp add: accept_all_def)
  with r len show ?thesis by simp
qed

text \<open>
  how envelope errors are counted when the replicator halts on them. A poisoned update of the
  source's stream counts once. An envelope error raised while an event is applied (a poisoned record
  on the target) counts twice: the clause around the event counts it and re-raises it into the clause
  around the loop.
\<close>

lemma envelope_error_counts:
  assumes "halt_on_envelope_error R" "consume_event E kv R ev (s, m) = (Inl PolicyEnvelopeErr, (s', m'))"
  shows "run_stream E kv R (ev # evs, end) (s, m)
      = (Inl PolicyEnvelopeErr, (s', m'\<lparr>envelope_errors := envelope_errors m' + 2\<rparr>))
    \<and> run_stream E kv R ([], Some PolicyEnvelopeErr) (s, m)
      = (Inl PolicyEnvelopeErr, (s, m\<lparr>envelope_errors := envelope_errors m + 1\<rparr>))"
  using assms by (simp add: run_stream_def io_catch_def io_bind_def bump_def)

section \<open>Concrete replications\<close>

definition sample_replicator :: replicator where
  "sample_replicator = \<lparr>policy_mode = SOURCE_WINS, filter_fn = accept_all, halt_on_envelope_error = True,
     halt_on_conflict = False, halt_on_revocation_breach = False\<rparr>"

lemma replication_never_unrevokes_witness:
  "\<exists>s x s' m'. replicator_run sample_env mock_ops sample_replicator True (Inr [sample_record])
       UpdatesMethod [None] (s, no_metrics) = (x, (s', m'))
     \<and> revoked_live sample_env mock_view s' sample_key (Dt 7 (Some 0))"
proof (rule stored [of revoked_record])
  fix s
  assume s: "mock_inv s"
    and get: "policy_get sample_env mock_ops sample_key s = (Inr (Some (record_utc revoked_record)), s)"
  have rv: "revoked_at (rec_policy (record_utc revoked_record)) = Some (utc_of (Dt 7 (Some 0)))"
    by (simp add: record_utc_def policy_utc_def revoked_record_def)
  have "live_record sample_env (mock_view s sample_key) = Inr (Some (record_utc revoked_record))"
    using get mock.policy_get_live [OF s, of sample_key sample_env] by simp
  with rv have rl: "revoked_live sample_env mock_view s sample_key (Dt 7 (Some 0))"
    by (auto simp: revoked_live_def dt_eq_def aware_def instant_def utc_of_def)
  obtain x s' m' where run: "replicator_run sample_env mock_ops sample_replicator True (Inr [sample_record])
       UpdatesMethod [None] (s, no_metrics) = (x, (s', m'))"
    by (metis prod_cases3)
  have "\<forall>rs. Inr [sample_record] = (Inr rs :: policy_record list res) \<longrightarrow> (\<forall>r \<in> set rs. record_wf r)"
    by simp
  moreover have "\<forall>ev \<in> set (fst (stream_events sample_env UpdatesMethod [None])). event_ok sample_key ev"
    by (simp add: stream_events.simps)
  ultimately show ?thesis
    using replication_never_unrevokes [OF mock.kv_bucket_axioms s rl _ _ run] run by blast
qed simp_all

lemma bootstrap_converges_witness:
  "\<exists>s. converged sample_env mock_view s (sample_key, sample_record)"
proof (rule stored [of sample_record])
  fix s
  assume put: "policy_put sample_env mock_ops sample_record mock_empty = (Inr 1, s)"
  have get: "policy_get sample_env mock_ops sample_key mock_empty = (Inr None, mock_empty)"
    using mock.policy_get_live [OF mock_inv_empty, of sample_key sample_env]
    by (simp add: live_record_def)
  have keys: "keyed [sample_record] = Inr [(sample_key, sample_record)]"
    by (simp add: keyed_def)
  have "\<exists>m'. bootstrap_target sample_env mock_ops accept_all (Inr [sample_record]) (mock_empty, no_metrics)
      = (Inr (), (s, m'))"
    using put get keys by (simp add: bootstrap_target_def bootstrap_record_def accept_all_def io_bind_def
        on_target_def bump_def records_byte_equal_def is_revocation_breach_def)
  then obtain m' where "bootstrap_target sample_env mock_ops accept_all (Inr [sample_record])
      (mock_empty, no_metrics) = (Inr (), (s, m'))" ..
  from bootstrap_converges [OF mock.kv_bucket_axioms mock_inv_empty _ keys _ this] show ?thesis
    by (auto simp: accept_all_def)
qed simp_all

lemma envelope_error_counts_witness:
  "\<exists>s m'. run_stream sample_env mock_ops sample_replicator ([sample_event None], None) (s, no_metrics)
     = (Inl PolicyEnvelopeErr, (s, m')) \<and> envelope_errors m' = 2"
proof -
  let ?s = "\<lparr>store = [(sample_key, [], 1)], revision = 1\<rparr>"
  have "envelope_to_record sample_env [] = Inl PolicyEnvelopeErr"
    by (simp add: envelope_to_record_def json_loads_def skip_ws_def numeral_2_eq_2)
  then have "consume_event sample_env mock_ops sample_replicator (sample_event None) (?s, no_metrics)
      = (Inl PolicyEnvelopeErr, (?s, no_metrics))"
    by (simp add: consume_event_def sample_replicator_def accept_all_def sample_event_def apply_put_def
        apply_put_source_wins_def on_target_def policy_get_def fetch_entry_def io_catch_def mock_ops_def
        mock_get_def decode_entry_def io_bind_def)
  note consumed = this
  have halts: "halt_on_envelope_error sample_replicator"
    by (simp add: sample_replicator_def)
  note run = conjunct1 [OF envelope_error_counts [OF halts consumed, of "[]" None]]
  show ?thesis
    by (intro exI conjI, rule run) (simp add: no_metrics_def)
qed

end
