(* ===== verification/Jcs.thy ===== *)
theory Jcs
  imports JsonRoundtrip "HOL-Library.Finite_Map" "HOL-Library.Multiset"
begin

text \<open>
  The RFC 8785 canonicaliser of \<open>identity_substrate/_jcs_pure.py\<close>: \<open>canonicalize\<close> prints a
  value with the members of every object in the order of their UTF-16 code units, and encodes
  the text as UTF-8.

  The abstract value of a document is \<open>json_denote\<close>, where an object is a finite map.
  \<open>canonical_bytes_iff\<close> is the contract signers and verifiers need: two documents without
  floats have the same canonical bytes exactly when they have the same abstract value.
\<close>

section \<open>The code\<close>

text \<open>\<open>_utf16_codeunits\<close>: the sort key of a member.\<close>

fun utf16_codeunits :: "ustr \<Rightarrow> nat list" where
  "utf16_codeunits [] = []"
| "utf16_codeunits (cp # s) =
     (if cp \<le> 65535 then cp # utf16_codeunits s
      else (55296 + (cp - 65536) div 1024) # (56320 + (cp - 65536) mod 1024) # utf16_codeunits s)"

text \<open>\<open>_serialize_integer\<close> is \<open>repr\<close>, which refuses more than 4300 digits.\<close>

definition serialize_integer :: "int \<Rightarrow> ustr res" where
  "serialize_integer i = int_repr i"

definition serialize_float :: "pyfloat \<Rightarrow> ustr res" where
  "serialize_float f = (case f of
       FNan \<Rightarrow> Inl ValueErr
     | FInf \<Rightarrow> Inl ValueErr
     | FNegInf \<Rightarrow> Inl ValueErr
     | FZero neg \<Rightarrow> Inr (u ''0'')
     | FFin r \<Rightarrow> Inr r)"

text \<open>One step of the loop of \<open>_serialize_string\<close>.\<close>

definition jcs_escape :: "nat \<Rightarrow> ustr" where
  "jcs_escape cp =
     (if cp = 34 then [92, 34]
      else if cp = 92 then [92, 92]
      else if cp = 8 then [92, 98]
      else if cp = 12 then [92, 102]
      else if cp = 10 then [92, 110]
      else if cp = 13 then [92, 114]
      else if cp = 9 then [92, 116]
      else if cp < 32 then [92, 117, 48, 48, hex_digit (cp div 16), hex_digit (cp mod 16)]
      else [cp])"

definition serialize_string :: "ustr \<Rightarrow> ustr" where
  "serialize_string s = 34 # concat (map jcs_escape s) @ [34]"

text \<open>
  \<open>_serialize\<close> with \<open>_serialize_object\<close> in its place. The keys of a dict are checked before any
  member is printed.
\<close>

function serialize :: "pyval \<Rightarrow> ustr res" where
  "serialize PNone = Inr (u ''null'')"
| "serialize (PBool b) = Inr (if b then u ''true'' else u ''false'')"
| "serialize (PStr s) = Inr (serialize_string s)"
| "serialize (PInt i) = serialize_integer i"
| "serialize (PFloat f) = serialize_float f"
| "serialize (PList vs) =
     sbind (mapM_sum serialize vs) (\<lambda>ts. Inr (91 # join_with [44] ts @ [93]))"
| "serialize (PDict kvs) =
     sbind (mapM_sum (\<lambda>kv. sbind (serialize (snd kv))
                           (\<lambda>t. Inr (serialize_string (fst kv) @ 58 # t)))
             (sort_key (\<lambda>kv. utf16_codeunits (fst kv)) kvs))
       (\<lambda>ts. Inr (123 # join_with [44] ts @ [125]))"
| "serialize PBadKeyDict = Inl TypeErr"
| "serialize POther = Inl TypeErr"
  by pat_completeness auto
termination
  by (relation "measure size") (auto dest: size_pyval_member size_pyval_elem)

definition canonicalize :: "pyval \<Rightarrow> octets res" where
  "canonicalize v = sbind (serialize v) utf8_encode"

section \<open>The printer is the JSON printer with another order\<close>

lemma serialize_string_eq [simp]: "serialize_string s = json_string s"
  by (simp add: serialize_string_def json_string_def jcs_escape_def [abs_def] escape_char_def [abs_def])

lemma serialize_emit: "json_plain v \<Longrightarrow> serialize v = json_emit utf16_codeunits v"
proof (induction v rule: serialize.induct)
  case (6 vs)
  then have "mapM_sum serialize vs = mapM_sum (json_emit utf16_codeunits) vs"
    by (intro mapM_sum_cong) auto
  then show ?case by simp
next
  case (7 kvs)
  let ?kvs = "sort_key (\<lambda>kv. utf16_codeunits (fst kv)) kvs"
  have "serialize (snd kv) = json_emit utf16_codeunits (snd kv)" if "kv \<in> set ?kvs" for kv
    using 7 that by (cases kv) fastforce
  then have "mapM_sum (\<lambda>kv. sbind (serialize (snd kv)) (\<lambda>t. Inr (json_string (fst kv) @ 58 # t))) ?kvs
    = mapM_sum (\<lambda>kv. sbind (json_emit utf16_codeunits (snd kv))
        (\<lambda>t. Inr (json_string (fst kv) @ 58 # t))) ?kvs"
    by (intro mapM_sum_cong) auto
  then show ?case by simp
qed (simp_all add: serialize_integer_def)

lemma canonicalize_emit:
  "json_plain v \<Longrightarrow> canonicalize v = sbind (json_emit utf16_codeunits v) utf8_encode"
  by (simp add: canonicalize_def serialize_emit)

section \<open>UTF-16 order\<close>

text \<open>On Unicode scalar values the code units determine the string.\<close>

lemma utf16_inj:
  "str_ok s \<Longrightarrow> str_ok t \<Longrightarrow> utf16_codeunits s = utf16_codeunits t \<Longrightarrow> s = t"
proof (induction s arbitrary: t)
  case Nil
  then show ?case by (cases t) (auto split: if_splits)
next
  case (Cons c s)
  then obtain d t' where t: "t = d # t'"
    by (cases t) (auto split: if_splits)
  have sc: "is_scalar c" "is_scalar d"
    using Cons.prems t by auto
  have hi: "\<not> is_surrogate x \<Longrightarrow> y - 65536 < 1048576 \<Longrightarrow> x \<noteq> 55296 + (y - 65536) div 1024" for x y :: nat
  proof -
    assume a: "\<not> is_surrogate x" "y - 65536 < 1048576"
    then have "(y - 65536) div 1024 < 1024" by simp
    with a(1) show ?thesis by (auto simp: is_surrogate_def)
  qed
  have range: "c - 65536 < 1048576" "d - 65536 < 1048576" "\<not> is_surrogate c" "\<not> is_surrogate d"
    using sc by (auto simp: is_scalar_def)
  have "c = d \<and> utf16_codeunits s = utf16_codeunits t'"
  proof (cases "c \<le> 65535"; cases "d \<le> 65535")
    assume "\<not> c \<le> 65535" "\<not> d \<le> 65535"
    then have eqs: "(c - 65536) div 1024 = (d - 65536) div 1024"
        "(c - 65536) mod 1024 = (d - 65536) mod 1024"
        "utf16_codeunits s = utf16_codeunits t'"
      using Cons.prems(3) t by auto
    from eqs(1,2) have "c - 65536 = d - 65536"
      by (metis div_mult_mod_eq)
    with \<open>\<not> c \<le> 65535\<close> \<open>\<not> d \<le> 65535\<close> eqs(3) show ?thesis by simp
  qed (use Cons.prems(3) t range hi [of c d] hi [of d c] in \<open>auto split: if_splits\<close>)
  with Cons.IH [of t'] Cons.prems t show ?case by auto
qed

lemma utf16_bmp: "\<forall>c \<in> set s. c \<le> 65535 \<Longrightarrow> utf16_codeunits s = s"
  by (induction s) auto

section \<open>The abstract value of a document\<close>

text \<open>An object is a finite map: the order in which its members were stored is not part of it.\<close>

datatype json_value =
    JNull | JBool bool | JInt int | JFloat pyfloat | JStr ustr
  | JArr "json_value list" | JObj "(ustr, json_value) fmap" | JOther

function json_denote :: "pyval \<Rightarrow> json_value" where
  "json_denote PNone = JNull"
| "json_denote (PBool b) = JBool b"
| "json_denote (PInt i) = JInt i"
| "json_denote (PFloat f) = JFloat f"
| "json_denote (PStr s) = JStr s"
| "json_denote (PList vs) = JArr (map json_denote vs)"
| "json_denote (PDict kvs) =
     JObj (fmap_of_list (map (\<lambda>kv. (fst kv, json_denote (snd kv))) kvs))"
| "json_denote PBadKeyDict = JOther"
| "json_denote POther = JOther"
  by pat_completeness auto
termination
  by (relation "measure size") (auto dest: size_pyval_member size_pyval_elem)

text \<open>A property of the keys of every object in a value.\<close>

function all_keys :: "(ustr \<Rightarrow> bool) \<Rightarrow> pyval \<Rightarrow> bool" where
  "all_keys P (PList vs) = (\<forall>v \<in> set vs. all_keys P v)"
| "all_keys P (PDict kvs) = (\<forall>kv \<in> set kvs. P (fst kv) \<and> all_keys P (snd kv))"
| "all_keys P PNone = True"
| "all_keys P (PBool b) = True"
| "all_keys P (PInt i) = True"
| "all_keys P (PFloat f) = True"
| "all_keys P (PStr s) = True"
| "all_keys P PBadKeyDict = True"
| "all_keys P POther = True"
  by pat_completeness auto
termination
  by (relation "measure (\<lambda>(P, v). size v)") (auto dest: size_pyval_member size_pyval_elem)

abbreviation keys_ok :: "pyval \<Rightarrow> bool" where
  "keys_ok v \<equiv> all_keys (\<lambda>k. str_ok k) v"

lemma fmlookup_denote:
  "fmlookup (fmap_of_list (map (\<lambda>kv. (fst kv, f (snd kv))) kvs)) k = map_option f (map_of kvs k)"
  by (induction kvs) (auto simp: fmlookup_of_list)

lemma map_of_map_snd: "map_of (map (\<lambda>kv. (fst kv, f (snd kv))) kvs) k = map_option f (map_of kvs k)"
  by (induction kvs) auto

text \<open>Sorting the members by an injective key forgets the order they came in.\<close>

lemma sort_members_cong:
  assumes "distinct (map fst xs)" "distinct (map fst ys)" "map_of xs = map_of ys"
    and "inj_on f (fst ` set xs)"
  shows "sort_key (\<lambda>kv. f (fst kv)) xs = sort_key (\<lambda>kv. f (fst kv)) ys"
proof -
  have "set xs = set ys"
    using assms(1-3) by (metis map_of_eq_Some_iff subrelI subset_antisym)
  then have "mset xs = mset ys"
    using assms(1,2) set_eq_iff_mset_eq_distinct [of xs ys] by (simp add: distinct_map)
  moreover have "inj_on (\<lambda>kv. f (fst kv)) (set xs)"
    using assms(1,4) by (auto simp: inj_on_def distinct_map)
  ultimately show ?thesis
    by (metis mset_sort set_mset_mset sort_key_inj_key_eq sorted_sort_key)
qed

lemma denote_dict_iff:
  assumes "distinct (map fst xs)" "distinct (map fst ys)"
  shows "json_denote (PDict xs) = json_denote (PDict ys) \<longleftrightarrow>
     (\<forall>k. map_option json_denote (map_of xs k) = map_option json_denote (map_of ys k))"
proof -
  let ?d = "\<lambda>zs. fmap_of_list (map (\<lambda>kv. (fst kv, json_denote (snd kv))) zs)"
  have "?d xs = ?d ys \<longleftrightarrow> (\<forall>k. fmlookup (?d xs) k = fmlookup (?d ys) k)"
    by (rule iffI, simp) (rule fmap_ext, blast)
  then show ?thesis by (simp only: fmlookup_denote json_denote.simps json_value.inject)
qed

text \<open>The members of an object in the order of a key that is injective on its names.\<close>

lemma canon_dict:
  "json_canon f (PDict kvs) =
     PDict (sort_key (\<lambda>kv. f (fst kv)) (map (\<lambda>kv. (fst kv, json_canon f (snd kv))) kvs))"
proof -
  let ?g = "\<lambda>kv. (fst kv, json_canon f (snd kv))"
  have "map ?g (insort_key (\<lambda>kv. f (fst kv)) x xs) = insort_key (\<lambda>kv. f (fst kv)) (?g x) (map ?g xs)" for x xs
    by (induction xs) auto
  then have "map ?g (sort_key (\<lambda>kv. f (fst kv)) kvs) = sort_key (\<lambda>kv. f (fst kv)) (map ?g kvs)"
    by (induction kvs) (simp_all add: sort_key_simps)
  then show ?thesis by simp
qed

lemma map_eq_map_iff: "map f xs = map g ys \<longleftrightarrow> list_all2 (\<lambda>x y. f x = g y) xs ys"
  by (induction xs arbitrary: ys) (auto simp: list_all2_Cons1 Cons_eq_map_conv)

lemma canon_denote:
  "json_plain v \<Longrightarrow> json_plain w \<Longrightarrow> keys_ok v \<Longrightarrow> json_denote v = json_denote w \<Longrightarrow>
     json_canon utf16_codeunits v = json_canon utf16_codeunits w"
proof (induction v arbitrary: w)
  case (PList vs)
  then obtain ws where w: "w = PList ws" "map json_denote vs = map json_denote ws"
    by (cases w) auto
  then have "list_all2 (\<lambda>a b. json_denote a = json_denote b) vs ws"
    by (simp add: map_eq_map_iff)
  then have "list_all2 (\<lambda>a b. json_canon utf16_codeunits a = json_canon utf16_codeunits b) vs ws"
  proof (rule list.rel_mono_strong)
    fix a b
    assume "a \<in> set vs" "b \<in> set ws" "json_denote a = json_denote b"
    with PList w show "json_canon utf16_codeunits a = json_canon utf16_codeunits b"
      by simp
  qed
  then have "map (json_canon utf16_codeunits) vs = map (json_canon utf16_codeunits) ws"
    by (simp add: map_eq_map_iff)
  with w show ?case by simp
next
  case (PDict kvs)
  let ?c = "json_canon utf16_codeunits"
  let ?m = "map (\<lambda>kv. (fst kv, ?c (snd kv)))"
  from PDict.prems(4) obtain ws where w: "w = PDict ws"
    by (cases w) simp_all
  with PDict.prems have dist: "distinct (map fst kvs)" "distinct (map fst ws)"
    by simp_all
  have eq: "map_option ?c (map_of kvs k) = map_option ?c (map_of ws k)" for k
  proof -
    have *: "map_option json_denote (map_of kvs k) = map_option json_denote (map_of ws k)"
      using PDict.prems(4) w denote_dict_iff [OF dist] by blast
    show ?thesis
    proof (cases "map_of kvs k")
      case None
      with * show ?thesis by simp
    next
      case (Some a)
      with * obtain b where b: "map_of ws k = Some b" "json_denote a = json_denote b"
        by (cases "map_of ws k") auto
      from Some b(1) have mem: "(k, a) \<in> set kvs" "(k, b) \<in> set ws"
        by (auto dest: map_of_SomeD)
      have "json_plain a" using PDict.prems(1) mem(1) by auto
      moreover have "json_plain b" using PDict.prems(2) w mem(2) by auto
      moreover have "keys_ok a" using PDict.prems(3) mem(1) by auto
      ultimately have "?c a = ?c b"
        using b(2) PDict.IH [OF mem(1), of a b] by simp
      with Some b(1) show ?thesis by simp
    qed
  qed
  have "sort_key (\<lambda>kv. utf16_codeunits (fst kv)) (?m kvs)
      = sort_key (\<lambda>kv. utf16_codeunits (fst kv)) (?m ws)"
  proof (rule sort_members_cong)
    show "map_of (?m kvs) = map_of (?m ws)"
      using eq by (simp add: fun_eq_iff map_of_map_snd)
    show "inj_on utf16_codeunits (fst ` set (?m kvs))"
      using PDict.prems(3) by (auto intro!: inj_onI utf16_inj)
  qed (use dist in \<open>simp_all add: comp_def\<close>)
  then show ?case by (simp only: w canon_dict)
next
  case PNone
  then show ?case by (cases w) simp_all
next
  case (PBool b)
  then show ?case by (cases w) simp_all
next
  case (PInt i)
  then show ?case by (cases w) simp_all
next
  case (PFloat f)
  then show ?case by (cases w) simp_all
next
  case (PStr s)
  then show ?case by (cases w) simp_all
next
  case PBadKeyDict
  then show ?case by (cases w) simp_all
next
  case POther
  then show ?case by (cases w) simp_all
qed

lemma denote_canon: "json_plain v \<Longrightarrow> json_denote (json_canon f v) = json_denote v"
proof (induction v)
  case (PDict kvs)
  let ?s = "sort_key (\<lambda>kv. f (fst kv)) kvs"
  let ?m = "map (\<lambda>kv. (fst kv, json_canon f (snd kv))) ?s"
  have dist: "distinct (map fst kvs)" "distinct (map fst ?s)"
    using PDict.prems distinct_sort_key_keys by auto
  have "map_option json_denote (map_of ?m k) = map_option json_denote (map_of kvs k)" for k
  proof (cases "map_of kvs k")
    case (Some a)
    then have "(k, a) \<in> set kvs" by (rule map_of_SomeD)
    with PDict Some show ?thesis
      by (fastforce simp: map_of_map_snd map_of_sort_key [OF dist(1)])
  qed (simp add: map_of_map_snd map_of_sort_key [OF dist(1)])
  moreover have "distinct (map fst ?m)"
    using dist(2) by (simp add: comp_def)
  ultimately show ?case
    using denote_dict_iff dist(1) by (simp only: json_canon.simps) blast
qed (auto simp: comp_def)

lemma emit_canon: "json_emit f (json_canon f v) = json_emit f v"
proof (induction v)
  case (PList vs)
  then have "mapM_sum (json_emit f) (map (json_canon f) vs) = mapM_sum (json_emit f) vs"
    by (induction vs) auto
  then show ?case by simp
next
  case (PDict kvs)
  let ?s = "sort_key (\<lambda>kv. f (fst kv)) kvs"
  let ?m = "map (\<lambda>kv. (fst kv, json_canon f (snd kv)))"
  have "sorted (map (\<lambda>kv. f (fst kv)) (?m ?s))"
    by (simp add: comp_def)
  then have sorted: "sort_key (\<lambda>kv. f (fst kv)) (?m ?s) = ?m ?s"
    by (rule sort_key_id_if_sorted)
  have "mapM_sum (member_text f) (?m xs) = mapM_sum (member_text f) xs"
    if "set xs \<subseteq> set kvs" for xs
    using that
  proof (induction xs)
    case (Cons kv xs)
    with PDict [of kv "snd kv"] show ?case
      by (cases kv) (auto simp: member_text_def)
  qed simp
  from this [of ?s] sorted show ?case
    by (simp only: json_canon.simps emit_obj_unfold) simp
qed auto

section \<open>Which values the canonicaliser accepts\<close>

fun jcs_ok :: "pyval \<Rightarrow> bool" where
  "jcs_ok (PStr s) = str_ok s"
| "jcs_ok (PInt i) = (length (nat_digits (nat \<bar>i\<bar>)) \<le> int_max_str_digits)"
| "jcs_ok (PFloat f) = (case f of FZero neg \<Rightarrow> True | FFin r \<Rightarrow> str_ok r | _ \<Rightarrow> False)"
| "jcs_ok (PList vs) = (\<forall>v \<in> set vs. jcs_ok v)"
| "jcs_ok (PDict kvs) = (\<forall>kv \<in> set kvs. str_ok (fst kv) \<and> jcs_ok (snd kv))"
| "jcs_ok PBadKeyDict = False"
| "jcs_ok POther = False"
| "jcs_ok v = True"

lemma mapM_sum_all_iff:
  "(\<exists>ys. mapM_sum f xs = Inr ys \<and> (\<forall>y \<in> set ys. P y)) \<longleftrightarrow> (\<forall>x \<in> set xs. \<exists>y. f x = Inr y \<and> P y)"
  by (induction xs) auto

lemma join_with_scalars: "str_ok (join_with [44] ts) \<longleftrightarrow> (\<forall>t \<in> set ts. str_ok t)"
  by (induction "[44::nat]" ts rule: join_with.induct) auto

lemma escape_char_scalars: "str_ok (escape_char c) \<longleftrightarrow> is_scalar c"
proof
  assume "str_ok (escape_char c)"
  then show "is_scalar c"
    by (cases "c < 128") (auto simp: escape_char_def)
qed (rule escape_char_ok)

lemma json_string_scalars: "str_ok (json_string s) \<longleftrightarrow> str_ok s"
proof -
  have "str_ok (concat (map escape_char s)) \<longleftrightarrow> str_ok s"
    using escape_char_scalars by (induction s) (simp_all add: ball_Un)
  then show ?thesis by (auto simp: json_string_def)
qed

lemma nat_digits_ok: "c \<in> set (nat_digits n) \<Longrightarrow> is_scalar c"
  using nat_digits_digits [of c n] by (simp add: is_digit_def)

lemma int_repr_scalars: "int_repr i = Inr t \<Longrightarrow> str_ok t"
  by (auto simp: int_repr_def Let_def nat_digits_ok split: if_splits)

lemma int_repr_total:
  "(\<exists>t. int_repr i = Inr t \<and> str_ok t) \<longleftrightarrow> length (nat_digits (nat \<bar>i\<bar>)) \<le> int_max_str_digits"
  using int_repr_scalars [of i] by (auto simp: int_repr_def Let_def split: if_splits)

lemma serialize_accepts: "(\<exists>t. serialize v = Inr t \<and> str_ok t) \<longleftrightarrow> jcs_ok v"
proof (induction v rule: serialize.induct)
  case (6 vs)
  have "(\<exists>t. serialize (PList vs) = Inr t \<and> str_ok t)
      \<longleftrightarrow> (\<exists>ts. mapM_sum serialize vs = Inr ts \<and> (\<forall>t \<in> set ts. str_ok t))"
    by (auto simp: join_with_scalars)
  also have "\<dots> \<longleftrightarrow> (\<forall>v \<in> set vs. \<exists>t. serialize v = Inr t \<and> str_ok t)"
    by (rule mapM_sum_all_iff)
  finally show ?case using 6 by simp
next
  case (7 kvs)
  let ?s = "sort_key (\<lambda>kv. utf16_codeunits (fst kv)) kvs"
  let ?f = "\<lambda>kv. sbind (serialize (snd kv)) (\<lambda>t. Inr (serialize_string (fst kv) @ 58 # t))"
  have "(\<exists>t. serialize (PDict kvs) = Inr t \<and> str_ok t)
      \<longleftrightarrow> (\<exists>ts. mapM_sum ?f ?s = Inr ts \<and> (\<forall>t \<in> set ts. str_ok t))"
    by (auto simp: join_with_scalars)
  also have "\<dots> \<longleftrightarrow> (\<forall>kv \<in> set ?s. \<exists>t. ?f kv = Inr t \<and> str_ok t)"
    by (rule mapM_sum_all_iff)
  also have "\<dots> \<longleftrightarrow> (\<forall>kv \<in> set ?s. str_ok (fst kv) \<and> (\<exists>t. serialize (snd kv) = Inr t \<and> str_ok t))"
    by (auto simp: ball_Un json_string_scalars)
  also have "\<dots> \<longleftrightarrow> (\<forall>kv \<in> set ?s. str_ok (fst kv) \<and> jcs_ok (snd kv))"
    using 7 by (intro ball_cong) auto
  finally show ?case by simp
qed (auto simp: serialize_integer_def int_repr_total json_string_scalars serialize_float_def u_def
    split: pyfloat.splits)

lemma jcs_accepts: "(\<exists>b. canonicalize v = Inr b) \<longleftrightarrow> jcs_ok v"
proof -
  have "(\<exists>b. canonicalize v = Inr b) \<longleftrightarrow> (\<exists>t. serialize v = Inr t \<and> (\<exists>b. utf8_encode t = Inr b))"
    by (auto simp: canonicalize_def)
  then show ?thesis
    by (simp only: utf8_encode_scalars serialize_accepts)
qed

text \<open>
  \<open>canonicalize\<close> returns bytes for a value exactly when every string and object key in it is
  encodable text, every integer has at most 4300 digits, every float is finite, and nothing in it
  is of a type JSON has no form for; on every other value it raises.
\<close>

lemma canonicalize_accepts: "(\<exists>b. canonicalize v = Inr b) \<longleftrightarrow> jcs_ok v"
  by (rule jcs_accepts)

lemma jcs_ok_keys: "jcs_ok v \<Longrightarrow> keys_ok v"
  by (induction v rule: jcs_ok.induct) auto

section \<open>The contract\<close>

lemma json_plain_canon: "json_plain v \<Longrightarrow> json_plain (json_canon f v)"
proof (induction v)
  case (PDict kvs)
  have "distinct (map fst (sort_key (\<lambda>kv. f (fst kv)) kvs))"
    using PDict.prems distinct_sort_key_keys by auto
  moreover have "json_plain (json_canon f (snd kv))" if "kv \<in> set kvs" for kv
    using PDict.IH [of kv "snd kv"] PDict.prems that by (cases kv) auto
  ultimately show ?case by (simp add: comp_def)
qed auto

lemma canonicalize_text:
  assumes "json_plain v" "canonicalize v = Inr b"
  obtains t where "json_emit utf16_codeunits v = Inr t" "utf8_encode t = Inr b" "keys_ok v"
  using assms jcs_accepts [of v] jcs_ok_keys [of v] by (auto simp: canonicalize_emit)

lemma canonicalize_denote:
  assumes "json_plain v" "json_plain w" "canonicalize v = Inr b" "json_denote v = json_denote w"
  shows "canonicalize w = Inr b"
proof -
  from assms(1,3) obtain s where s: "json_emit utf16_codeunits v = Inr s" "utf8_encode s = Inr b" "keys_ok v"
    by (rule canonicalize_text)
  with canon_denote [OF assms(1,2) s(3) assms(4)] emit_canon [of utf16_codeunits v]
    emit_canon [of utf16_codeunits w] have "json_emit utf16_codeunits w = Inr s"
    by simp
  with s(2) assms(2) show ?thesis by (simp add: canonicalize_emit)
qed

lemma canonical_bytes_eq:
  assumes "json_plain v" "json_plain w" "canonicalize v = Inr b" "canonicalize w = Inr c"
  shows "b = c \<longleftrightarrow> json_denote v = json_denote w"
proof
  from assms(1,3) obtain s where s: "json_emit utf16_codeunits v = Inr s" "utf8_encode s = Inr b" "keys_ok v"
    by (rule canonicalize_text)
  from assms(2,4) obtain t where t: "json_emit utf16_codeunits w = Inr t" "utf8_encode t = Inr c" "keys_ok w"
    by (rule canonicalize_text)
  show "json_denote v = json_denote w" if "b = c"
  proof -
    from that s t have "s = t" using utf8_encode_inj by blast
    with s t assms(1,2) have "json_canon utf16_codeunits v = json_canon utf16_codeunits w"
      using emit_canon_inj by blast
    with assms(1,2) show ?thesis by (metis denote_canon)
  qed
  show "b = c" if "json_denote v = json_denote w"
  proof -
    from canon_denote [OF assms(1,2) s(3) that] have "s = t"
      using s(1) t(1) emit_canon [of utf16_codeunits v] emit_canon [of utf16_codeunits w] by simp
    with s t show ?thesis by simp
  qed
qed

text \<open>
  C11: The canonical bytes are a complete invariant. Two documents without floats that the
  canonicaliser accepts have the same bytes if and only if they have the same abstract value:
  neither the order in which members were stored nor the process that built the document matters,
  and no two different documents share their bytes (and so their signature).
\<close>

theorem canonical_bytes_iff:
  assumes "json_plain v" "json_plain w" "canonicalize v = Inr b" "canonicalize w = Inr c"
  shows "b = c \<longleftrightarrow> json_denote v = json_denote w"
  using assms by (rule canonical_bytes_eq)

text \<open>
  The canonical bytes are JSON: decoded and parsed by \<open>json.loads\<close> they give a document with
  the same abstract value, and canonicalising that document gives the same bytes again.
\<close>

lemma canonical_roundtrip:
  assumes "json_plain v" "canonicalize v = Inr b"
  shows "\<exists>t w. utf8_decode b = Inr t \<and> json_loads E t = Inr w
           \<and> json_denote w = json_denote v \<and> canonicalize w = Inr b"
proof -
  from assms obtain t where t: "json_emit utf16_codeunits v = Inr t" "utf8_encode t = Inr b" "keys_ok v"
    by (rule canonicalize_text)
  let ?w = "json_canon utf16_codeunits v"
  have "json_loads E t = Inr ?w"
    using loads_emit [OF assms(1) t(1)] .
  moreover have "canonicalize ?w = Inr b"
    using t canonicalize_emit [OF json_plain_canon [OF assms(1)]] by (simp add: emit_canon)
  ultimately show ?thesis
    using utf8_decode_encode [OF t(2)] denote_canon [OF assms(1)] by blast
qed

lemma sort_key_cong_on:
  "(\<And>x. x \<in> set xs \<Longrightarrow> f x = g x) \<Longrightarrow> sort_key f xs = sort_key g xs"
proof (induction xs)
  case (Cons x xs)
  have "insort_key f x ys = insort_key g x ys" if "set ys \<subseteq> set xs" for ys
    using that Cons.prems by (induction ys) auto
  with Cons show ?case by simp
qed simp

lemma emit_bmp:
  "all_keys (\<lambda>k. \<forall>c \<in> set k. c \<le> 65535) v \<Longrightarrow> json_emit utf16_codeunits v = json_emit (\<lambda>k. k) v"
proof (induction v)
  case (PList vs)
  then have "mapM_sum (json_emit utf16_codeunits) vs = mapM_sum (json_emit (\<lambda>k. k)) vs"
    by (intro mapM_sum_cong) auto
  then show ?case by simp
next
  case (PDict kvs)
  have "sort_key (\<lambda>kv. utf16_codeunits (fst kv)) kvs = sort_key (\<lambda>kv. fst kv) kvs"
    using PDict.prems by (intro sort_key_cong_on utf16_bmp) auto
  moreover have "mapM_sum (member_text utf16_codeunits) xs = mapM_sum (member_text (\<lambda>k. k)) xs"
    if "set xs \<subseteq> set kvs" for xs
    using that
  proof (induction xs)
    case (Cons kv xs)
    then have "kv \<in> set kvs" by simp
    moreover from this have "all_keys (\<lambda>k. \<forall>c \<in> set k. c \<le> 65535) (snd kv)"
      using PDict.prems by simp
    ultimately have "json_emit utf16_codeunits (snd kv) = json_emit (\<lambda>k. k) (snd kv)"
      using PDict.IH [of kv "snd kv"] by (simp add: prod_set_defs)
    then have "member_text utf16_codeunits kv = member_text (\<lambda>k. k) kv"
      by (simp add: member_text_def)
    with Cons show ?case by simp
  qed simp
  ultimately show ?case by (simp only: emit_obj_unfold set_sort order_refl)
qed auto

text \<open>
  On documents without floats whose object keys lie in the Basic Multilingual Plane, the
  repository's canonicaliser agrees with \<open>json.dumps(..., sort_keys=True, separators=(",", ":"),
  ensure_ascii=False)\<close> encoded as UTF-8, the form the key-value backends store.
\<close>

lemma jcs_equals_dumps:
  assumes "json_plain v" "all_keys (\<lambda>k. \<forall>c \<in> set k. c \<le> 65535) v"
  shows "canonicalize v = sbind (json_dumps v) utf8_encode"
  using assms by (simp add: canonicalize_emit emit_bmp json_dumps_def)

text \<open>Above the Basic Multilingual Plane the two orders differ.\<close>

definition astral_doc :: pyval where
  "astral_doc = PDict [([65535], PNone), ([65536], PBool True)]"

lemma astral_differs: "canonicalize astral_doc \<noteq> sbind (json_dumps astral_doc) utf8_encode"
  by (simp add: astral_doc_def canonicalize_def json_dumps_def json_string_def escape_char_def
      jcs_escape_def u_def encode_cp_def is_surrogate_def)

section \<open>Concrete documents\<close>

definition doc_ab :: pyval where
  "doc_ab = PDict [(u ''a'', PInt 1), (u ''b'', PList [PStr (u ''x''), PNone])]"

definition doc_ba :: pyval where
  "doc_ba = PDict [(u ''b'', PList [PStr (u ''x''), PNone]), (u ''a'', PInt 1)]"

lemma doc_ok: "json_plain doc_ab" "json_plain doc_ba" "jcs_ok doc_ab" "jcs_ok doc_ba"
  by (simp_all add: doc_ab_def doc_ba_def u_def nat_digits.simps int_max_str_digits_def)

lemma doc_denote: "json_denote doc_ab = json_denote doc_ba"
  unfolding doc_ab_def doc_ba_def by (subst denote_dict_iff) auto

lemma canonical_bytes_iff_witness:
  "\<exists>b. canonicalize doc_ab = Inr b \<and> canonicalize doc_ba = Inr b"
  using doc_ok doc_denote by (metis canonical_bytes_iff jcs_accepts)

lemma canonical_roundtrip_witness:
  "\<exists>b t w. canonicalize doc_ba = Inr b \<and> utf8_decode b = Inr t
     \<and> json_loads \<lparr>iso_other = (\<lambda>_. None), local_off = (\<lambda>_. 0), float_of = (\<lambda>_. FNan)\<rparr> t = Inr w
     \<and> canonicalize w = Inr b"
  using doc_ok by (metis canonical_roundtrip jcs_accepts)

lemma jcs_equals_dumps_witness: "canonicalize doc_ab = sbind (json_dumps doc_ab) utf8_encode"
  by (rule jcs_equals_dumps) (simp_all add: doc_ab_def u_def)

end
