(* ===== verification/Pytext.thy ===== *)
theory Pytext
  imports Json
begin

text \<open>
  Methods of Python's \<open>str\<close> that several components use: \<open>lower\<close>, \<open>strip\<close>, \<open>find\<close>, the value of a
  decimal digit, and \<open>int\<close> of a text. What comes from the interpreter's Unicode tables is a field of the record
  \<open>unicode\<close>: lower-casing of text that is not ASCII, and the value of decimal digits outside
  ASCII.
\<close>

record unicode =
  lower_other :: "ustr \<Rightarrow> ustr"
  digit_other :: "nat \<Rightarrow> nat option"

definition ascii_lower :: "nat \<Rightarrow> nat" where
  "ascii_lower c = (if 65 \<le> c \<and> c \<le> 90 then c + 32 else c)"

definition py_lower :: "unicode \<Rightarrow> ustr \<Rightarrow> ustr" where
  "py_lower U s = (if list_all (\<lambda>c. c < 128) s then map ascii_lower s else lower_other U s)"

definition py_digit :: "unicode \<Rightarrow> nat \<Rightarrow> nat option" where
  "py_digit U c =
     (if 48 \<le> c \<and> c \<le> 57 then Some (c - 48) else if c < 128 then None else digit_other U c)"

text \<open>\<open>str.strip\<close> removes the characters of which \<open>str.isspace\<close> holds.\<close>

definition py_space :: "nat \<Rightarrow> bool" where
  "py_space c \<longleftrightarrow> (9 \<le> c \<and> c \<le> 13) \<or> (28 \<le> c \<and> c \<le> 32) \<or> c = 133 \<or> c = 160 \<or> c = 5760
     \<or> (8192 \<le> c \<and> c \<le> 8202) \<or> c = 8232 \<or> c = 8233 \<or> c = 8239 \<or> c = 8287 \<or> c = 12288"

definition py_strip :: "ustr \<Rightarrow> ustr" where
  "py_strip s = rev (dropWhile py_space (rev (dropWhile py_space s)))"

text \<open>\<open>s.find(p)\<close>, \<open>None\<close> for -1.\<close>

fun find_sub :: "ustr \<Rightarrow> ustr \<Rightarrow> nat option" where
  "find_sub p [] = (if p = [] then Some 0 else None)"
| "find_sub p (c # s) = (if starts_with p (c # s) then Some 0 else map_option Suc (find_sub p s))"

text \<open>
  \<open>int(s)\<close>: white space around the number, a sign, digits, single underscores between digits, and
  the interpreter's limit on the number of digits. The first argument counts the digits read.
\<close>

fun int_digits :: "unicode \<Rightarrow> nat \<Rightarrow> int \<Rightarrow> ustr \<Rightarrow> (nat \<times> int) option" where
  "int_digits U n a [] = Some (n, a)"
| "int_digits U n a (c # s) =
     (case py_digit U c of
        Some d \<Rightarrow> int_digits U (Suc n) (a * 10 + int d) s
      | None \<Rightarrow>
          if c = 95 then
            (case s of
               [] \<Rightarrow> None
             | d # s' \<Rightarrow>
                 (case py_digit U d of
                    Some v \<Rightarrow> int_digits U (Suc n) (a * 10 + int v) s'
                  | None \<Rightarrow> None))
          else None)"

definition py_int_body :: "unicode \<Rightarrow> ustr \<Rightarrow> int res" where
  "py_int_body U s = (case s of
       [] \<Rightarrow> Inl ValueErr
     | c # r \<Rightarrow>
         (case py_digit U c of
            None \<Rightarrow> Inl ValueErr
          | Some d \<Rightarrow>
              (case int_digits U 1 (int d) r of
                 None \<Rightarrow> Inl ValueErr
               | Some (n, v) \<Rightarrow> if int_max_str_digits < n then Inl ValueErr else Inr v)))"

definition py_int :: "unicode \<Rightarrow> ustr \<Rightarrow> int res" where
  "py_int U s = (case py_strip s of
       [] \<Rightarrow> Inl ValueErr
     | c # r \<Rightarrow>
         if c = 43 then py_int_body U r
         else if c = 45 then sbind (py_int_body U r) (\<lambda>v. Inr (- v))
         else py_int_body U (c # r))"

lemma py_digit_ascii [simp]: "is_digit c \<Longrightarrow> py_digit U c = Some (c - 48)"
  by (auto simp: py_digit_def is_digit_def)

lemma int_digits_ascii:
  "list_all is_digit ds \<Longrightarrow>
     int_digits U n a ds = Some (n + length ds, foldl (\<lambda>v d. v * 10 + int (d - 48)) a ds)"
  by (induction ds arbitrary: n a) auto

lemma digit_not_space: "is_digit c \<Longrightarrow> \<not> py_space c"
  by (auto simp: is_digit_def py_space_def)

lemma py_strip_id: "s \<noteq> [] \<Longrightarrow> \<not> py_space (hd s) \<Longrightarrow> \<not> py_space (last s) \<Longrightarrow> py_strip s = s"
proof -
  have id: "dropWhile py_space t = t" if "t \<noteq> []" "\<not> py_space (hd t)" for t
    using that by (cases t) auto
  show "s \<noteq> [] \<Longrightarrow> \<not> py_space (hd s) \<Longrightarrow> \<not> py_space (last s) \<Longrightarrow> py_strip s = s"
    by (simp add: py_strip_def id hd_rev)
qed

lemma py_int_ascii:
  assumes "list_all is_digit ds" "ds \<noteq> []" "length ds \<le> int_max_str_digits"
  shows "py_int U ds = Inr (digits_val ds)"
proof -
  have fold: "foldl (\<lambda>v d. v * 10 + int (d - 48)) a ds = foldl (\<lambda>v d. v * 10 + (int d - 48)) a ds" for a
    using assms(1) by (induction ds arbitrary: a) (auto simp: is_digit_def of_nat_diff)
  obtain c r where cr: "ds = c # r" using assms(2) by (cases ds) auto
  then have "is_digit c" "list_all is_digit r" using assms(1) by auto
  moreover from this have "c \<noteq> 43" "c \<noteq> 45" by (auto simp: is_digit_def)
  moreover have "py_strip ds = ds"
    using assms(1,2) digit_not_space by (intro py_strip_id) (auto simp: list_all_iff)
  ultimately show ?thesis
    using assms(3) fold [of 0] cr
    by (simp add: py_int_def py_int_body_def int_digits_ascii digits_val_def)
qed

lemma find_sub_bound: "find_sub p s = Some i \<Longrightarrow> i + length p \<le> length s"
proof (induction s arbitrary: i)
  case (Cons c s)
  then show ?case by (auto simp: starts_with_iff split: if_splits dest: arg_cong [where f = length])
qed (auto split: if_splits)

lemma find_sub_prefix: "find_sub p s = Some i \<Longrightarrow> s = take i s @ p @ drop (i + length p) s"
proof (induction s arbitrary: i)
  case (Cons c s)
  then show ?case by (auto simp: starts_with_iff split: if_splits)
qed (auto split: if_splits)

end
