(* ===== verification/Caveats.thy ===== *)
theory Caveats
  imports Jcs Pytext
begin

text \<open>
  The canonical form of a caveat set, \<open>canonical/caveat_set.py\<close>: white space within each caveat is
  normalised, duplicates are dropped, the rest is sorted by its UTF-8 bytes and printed as a JSON
  array; the SHA-256 of the bytes names the set.

  \<open>rfc8785.dumps\<close>, which the module prefers when the package is installed, and SHA-256 are
  parameters. The main result, \<open>caveat_bytes_iff\<close>, is that the bytes determine the set of
  normalised caveats and are determined by it.
\<close>

section \<open>White space\<close>

text \<open>The characters of the pattern \<open>[ \t\r\n]+\<close>.\<close>

definition ws4 :: "nat \<Rightarrow> bool" where
  "ws4 c \<longleftrightarrow> c = 32 \<or> c = 9 \<or> c = 13 \<or> c = 10"

text \<open>\<open>_WS_RE.sub(" ", s)\<close>: every maximal run becomes one space.\<close>

function collapse_ws :: "ustr \<Rightarrow> ustr" where
  "collapse_ws [] = []"
| "collapse_ws (c # s) =
     (if ws4 c then 32 # collapse_ws (dropWhile ws4 s) else c # collapse_ws s)"
  by pat_completeness auto
termination
  by (relation "measure length") (auto simp: le_imp_less_Suc length_dropWhile_le)

definition norm_ws :: "ustr \<Rightarrow> ustr" where
  "norm_ws s = py_strip (collapse_ws s)"

text \<open>\<open>_normalize_whitespace\<close>.\<close>

definition normalize_whitespace :: "pyval \<Rightarrow> ustr res" where
  "normalize_whitespace caveat =
     (case caveat of PStr s \<Rightarrow> Inr (norm_ws s) | _ \<Rightarrow> Inl TypeErr)"

section \<open>The canonical list and its bytes\<close>

text \<open>
  The loop of \<open>_dedup_then_sort\<close>. Its key function encodes every element before the sort, so an
  element that does not encode raises.
\<close>

fun dedup :: "ustr list \<Rightarrow> ustr list \<Rightarrow> ustr list" where
  "dedup seen [] = []"
| "dedup seen (c # cs) = (if c \<in> set seen then dedup seen cs else c # dedup (c # seen) cs)"

definition dedup_then_sort :: "ustr list \<Rightarrow> ustr list res" where
  "dedup_then_sort cs =
     sbind (mapM_sum (\<lambda>c. sbind (utf8_encode c) (\<lambda>b. Inr (b, c))) (dedup [] cs))
       (\<lambda>bcs. Inr (map snd (sort_key fst bcs)))"

definition canonicalize_caveat_set :: "pyval list \<Rightarrow> ustr list res" where
  "canonicalize_caveat_set caveats = sbind (mapM_sum normalize_whitespace caveats) dedup_then_sort"

text \<open>\<open>_jcs_dumps\<close>: the installed \<open>rfc8785.dumps\<close>, if any, or the local canonicaliser.\<close>

definition jcs_dumps :: "(pyval \<Rightarrow> octets res) option \<Rightarrow> pyval \<Rightarrow> octets res" where
  "jcs_dumps rfc v = (case rfc of None \<Rightarrow> canonicalize v | Some dumps \<Rightarrow> dumps v)"

definition canonical_caveat_set_bytes ::
    "(pyval \<Rightarrow> octets res) option \<Rightarrow> pyval list \<Rightarrow> octets res" where
  "canonical_caveat_set_bytes rfc caveats =
     sbind (canonicalize_caveat_set caveats) (\<lambda>cs. jcs_dumps rfc (PList (map PStr cs)))"

definition canonical_caveat_set_hash ::
    "(octets \<Rightarrow> octets) \<Rightarrow> (pyval \<Rightarrow> octets res) option \<Rightarrow> pyval list \<Rightarrow> octets res" where
  "canonical_caveat_set_hash sha256 rfc caveats =
     sbind (canonical_caveat_set_bytes rfc caveats) (\<lambda>b. Inr (sha256 b))"

definition canonical_caveat_set_bytes_pure :: "pyval list \<Rightarrow> octets res" where
  "canonical_caveat_set_bytes_pure caveats =
     sbind (canonicalize_caveat_set caveats) (\<lambda>cs. canonicalize (PList (map PStr cs)))"

definition canonical_caveat_set_hash_pure :: "(octets \<Rightarrow> octets) \<Rightarrow> pyval list \<Rightarrow> octets res" where
  "canonical_caveat_set_hash_pure sha256 caveats =
     sbind (canonical_caveat_set_bytes_pure caveats) (\<lambda>b. Inr (sha256 b))"

section \<open>White space is normalised\<close>

text \<open>No two adjacent white-space characters, and a space is the only one of the four.\<close>

fun single_spaced :: "ustr \<Rightarrow> bool" where
  "single_spaced [] = True"
| "single_spaced [c] = (ws4 c \<longrightarrow> c = 32)"
| "single_spaced (c # d # s) = ((ws4 c \<longrightarrow> c = 32 \<and> \<not> ws4 d) \<and> single_spaced (d # s))"

definition trimmed :: "ustr \<Rightarrow> bool" where
  "trimmed s \<longleftrightarrow> s = [] \<or> (\<not> py_space (hd s) \<and> \<not> py_space (last s))"

lemma ws4_space: "ws4 c \<Longrightarrow> py_space c"
  by (auto simp: ws4_def py_space_def)

lemma collapse_hd: "s \<noteq> [] \<Longrightarrow> \<not> ws4 (hd s) \<Longrightarrow> hd (collapse_ws s) = hd s \<and> collapse_ws s \<noteq> []"
  by (cases s) auto

lemma single_spaced_Cons:
  "single_spaced (c # s) \<longleftrightarrow>
     single_spaced s \<and> (ws4 c \<longrightarrow> c = 32 \<and> (s = [] \<or> \<not> ws4 (hd s)))"
  by (cases s) auto

lemma collapse_single_spaced: "single_spaced (collapse_ws s)"
proof (induction s rule: collapse_ws.induct)
  case (2 c s)
  have "collapse_ws (dropWhile ws4 s) = [] \<or> \<not> ws4 (hd (collapse_ws (dropWhile ws4 s)))"
  proof (cases "dropWhile ws4 s = []")
    case True
    then show ?thesis by (simp only: collapse_ws.simps simp_thms)
  next
    case False
    from hd_dropWhile [OF this] collapse_hd [OF False] show ?thesis by simp
  qed
  with 2 show ?case by (auto simp: single_spaced_Cons ws4_def)
qed simp

lemma collapse_fixed: "single_spaced s \<Longrightarrow> collapse_ws s = s"
proof (induction s)
  case (Cons c s)
  then have "dropWhile ws4 s = s" if "ws4 c"
    using that by (cases s) (auto simp: single_spaced_Cons)
  with Cons show ?case by (auto simp: single_spaced_Cons)
qed simp

lemma single_spaced_append: "single_spaced (s @ t) \<Longrightarrow> single_spaced s \<and> single_spaced t"
proof (induction s)
  case (Cons c s)
  then show ?case
    by (cases s) (auto simp: single_spaced_Cons)
qed simp

lemma strip_infix: "\<exists>a b. s = a @ py_strip s @ b"
proof -
  let ?t = "dropWhile py_space s"
  have "s = takeWhile py_space s @ ?t" by simp
  moreover have "?t = py_strip s @ rev (takeWhile py_space (rev ?t))"
    unfolding py_strip_def by (metis rev_append rev_rev_ident takeWhile_dropWhile_id)
  ultimately show ?thesis by metis
qed

lemma strip_single_spaced: "single_spaced s \<Longrightarrow> single_spaced (py_strip s)"
  using strip_infix [of s] single_spaced_append by metis

lemma strip_trimmed: "trimmed (py_strip s)"
proof (cases "py_strip s = []")
  case False
  let ?t = "dropWhile py_space s"
  have t: "?t \<noteq> []"
  proof
    assume "?t = []"
    then have "py_strip s = []" unfolding py_strip_def by (simp only: rev.simps dropWhile.simps)
    with False show False ..
  qed
  have "last (py_strip s) = hd (dropWhile py_space (rev ?t))"
    using False by (simp add: py_strip_def last_rev)
  then have 1: "\<not> py_space (last (py_strip s))"
    using False hd_dropWhile [of py_space "rev ?t"] by (auto simp: py_strip_def)
  obtain b where "?t = py_strip s @ b"
    unfolding py_strip_def by (metis rev_append rev_rev_ident takeWhile_dropWhile_id)
  then have "hd (py_strip s) = hd ?t"
    using False by (metis hd_append2)
  with t have 2: "\<not> py_space (hd (py_strip s))"
    using hd_dropWhile [of py_space s] by simp
  from 1 2 show ?thesis by (simp add: trimmed_def)
qed (simp add: trimmed_def)

lemma strip_fixed: "trimmed s \<Longrightarrow> py_strip s = s"
proof (cases s rule: rev_cases)
  case (snoc t c)
  assume "trimmed s"
  with snoc have "\<not> py_space c" "\<not> py_space (hd s)" "s \<noteq> []"
    by (auto simp: trimmed_def)
  then have "dropWhile py_space s = s"
    by (cases s) auto
  with snoc \<open>\<not> py_space c\<close> show ?thesis by (simp add: py_strip_def)
qed (simp add: py_strip_def)

lemma norm_ws_form: "single_spaced (norm_ws s)" "trimmed (norm_ws s)"
  by (simp_all add: norm_ws_def strip_single_spaced collapse_single_spaced strip_trimmed)

lemma norm_ws_fixed: "single_spaced s \<Longrightarrow> trimmed s \<Longrightarrow> norm_ws s = s"
  by (simp add: norm_ws_def collapse_fixed strip_fixed)

lemma norm_ws_idem [simp]: "norm_ws (norm_ws s) = norm_ws s"
  by (rule norm_ws_fixed) (rule norm_ws_form)+

section \<open>The list is canonical\<close>

lemma dedup_set: "set (dedup seen cs) = set cs - set seen"
  by (induction seen cs rule: dedup.induct) auto

lemma dedup_distinct: "distinct (dedup seen cs)"
  by (induction seen cs rule: dedup.induct) (auto simp: dedup_set)

lemma mapM_encode:
  "mapM_sum (\<lambda>c. sbind (utf8_encode c) (\<lambda>b. Inr (b, c))) cs = Inr bcs \<longleftrightarrow>
     map snd bcs = cs \<and> (\<forall>bc \<in> set bcs. utf8_encode (snd bc) = Inr (fst bc))"
proof (induction cs arbitrary: bcs)
  case (Cons c cs)
  then show ?case
    by (cases bcs) (auto simp: Cons_eq_map_conv)
qed auto

definition utf8_sorted :: "ustr list \<Rightarrow> bool" where
  "utf8_sorted cs \<longleftrightarrow> (\<exists>bs. mapM_sum utf8_encode cs = Inr bs \<and> sorted bs)"

lemma mapM_pairs:
  "\<forall>bc \<in> set bcs. utf8_encode (snd bc) = Inr (fst bc) \<Longrightarrow>
     mapM_sum utf8_encode (map snd bcs) = Inr (map fst bcs)"
  by (induction bcs) auto

lemma dedup_then_sort_Inr:
  assumes "dedup_then_sort cs = Inr ds"
  shows "set ds = set cs" "distinct ds" "utf8_sorted ds" "\<forall>c \<in> set cs. str_ok c"
proof -
  obtain bcs where b: "map snd bcs = dedup [] cs"
    "\<forall>bc \<in> set bcs. utf8_encode (snd bc) = Inr (fst bc)" "ds = map snd (sort_key fst bcs)"
    using assms by (auto simp: dedup_then_sort_def mapM_encode)
  have "set ds = snd ` set bcs" using b(3) by simp
  also have "\<dots> = set (dedup [] cs)" using b(1) by (metis list.set_map)
  finally show s: "set ds = set cs" by (simp add: dedup_set)
  have "distinct (map snd bcs)" using b(1) dedup_distinct by simp
  then show "distinct ds" using b(3) by (metis distinct_map distinct_sort set_sort)
  show "utf8_sorted ds"
    using b(2,3) mapM_pairs [of "sort_key fst bcs"] by (auto simp: utf8_sorted_def)
  show "\<forall>c \<in> set cs. str_ok c"
  proof
    fix c
    assume "c \<in> set cs"
    then have "c \<in> snd ` set bcs" using s \<open>set ds = snd ` set bcs\<close> by simp
    then obtain bc where "bc \<in> set bcs" "c = snd bc" by blast
    with b(2) have "utf8_encode c = Inr (fst bc)" by simp
    then show "str_ok c" using utf8_encode_scalars by blast
  qed
qed

lemma dedup_then_sort_total: "\<forall>c \<in> set cs. str_ok c \<Longrightarrow> \<exists>ds. dedup_then_sort cs = Inr ds"
proof -
  assume *: "\<forall>c \<in> set cs. str_ok c"
  have "\<exists>b. utf8_encode c = Inr b" if "c \<in> set (dedup [] cs)" for c
    using that * utf8_encode_scalars [of c] by (simp add: dedup_set)
  then have "\<exists>ys. mapM_sum (\<lambda>c. sbind (utf8_encode c) (\<lambda>b. Inr (b, c))) (dedup [] cs) = Inr ys
      \<and> (\<forall>y \<in> set ys. True)"
    by (subst mapM_sum_all_iff) auto
  then show ?thesis by (auto simp: dedup_then_sort_def)
qed

text \<open>A canonical list is determined by its elements.\<close>

lemma utf8_sorted_unique:
  assumes "utf8_sorted cs" "utf8_sorted ds" "distinct cs" "distinct ds" "set cs = set ds"
  shows "cs = ds"
proof -
  obtain bs where b: "mapM_sum utf8_encode cs = Inr bs" "sorted bs"
    using assms(1) by (auto simp: utf8_sorted_def)
  obtain es where e: "mapM_sum utf8_encode ds = Inr es" "sorted es"
    using assms(2) by (auto simp: utf8_sorted_def)
  let ?e = "\<lambda>c. case utf8_encode c of Inr b \<Rightarrow> b | Inl _ \<Rightarrow> []"
  have map: "bs = map ?e cs" if "mapM_sum utf8_encode cs = Inr bs" for cs bs
    using that by (induction cs arbitrary: bs) auto
  have ok: "\<forall>c \<in> set cs. \<exists>b. utf8_encode c = Inr b"
    using b(1) by (auto simp: mapM_sum_Inr_iff in_set_conv_nth list_all2_conv_all_nth)
  then have inj: "inj_on ?e (set cs)"
  proof (intro inj_onI)
    fix c d
    assume "c \<in> set cs" "d \<in> set cs" "?e c = ?e d"
    moreover from this ok obtain b b' where "utf8_encode c = Inr b" "utf8_encode d = Inr b'"
      by blast
    ultimately show "c = d" using utf8_encode_inj [of c b d] by simp
  qed
  have "bs = es"
    using b e assms(3-5) inj map [OF b(1)] map [OF e(1)]
    by (intro sorted_key_list_unique) (simp_all add: distinct_map)
  then show ?thesis
    using map [OF b(1)] map [OF e(1)] inj assms(5) by (metis Un_absorb inj_on_map_eq_map)
qed

section \<open>The contract\<close>

text \<open>What a caveat set means: the set of its normalised caveats.\<close>

definition caveat_denote :: "pyval list \<Rightarrow> ustr set" where
  "caveat_denote cs = {norm_ws s |s. PStr s \<in> set cs}"

lemma normalize_Inr: "normalize_whitespace c = Inr t \<longleftrightarrow> (\<exists>s. c = PStr s \<and> t = norm_ws s)"
  by (auto simp: normalize_whitespace_def split: pyval.splits)

lemma mapM_normalize:
  "mapM_sum normalize_whitespace cs = Inr ts \<Longrightarrow> set ts = caveat_denote cs"
proof (induction cs arbitrary: ts)
  case (Cons c cs)
  then show ?case
    by (fastforce simp: normalize_Inr caveat_denote_def)
qed (simp add: caveat_denote_def)

text \<open>
  The canonical caveat list has exactly the normalised caveats of the input as its elements,
  each once, in ascending order of their UTF-8 bytes; and in each of them white space occurs only
  as single spaces between other characters.
\<close>

lemma caveat_list_canonical:
  assumes "canonicalize_caveat_set cs = Inr ds"
  shows "set ds = caveat_denote cs \<and> distinct ds \<and> utf8_sorted ds
    \<and> list_all single_spaced ds \<and> list_all trimmed ds"
proof -
  from assms obtain ts where ts: "mapM_sum normalize_whitespace cs = Inr ts" "dedup_then_sort ts = Inr ds"
    by (auto simp: canonicalize_caveat_set_def)
  have set: "set ds = caveat_denote cs"
    using dedup_then_sort_Inr(1) [OF ts(2)] mapM_normalize [OF ts(1)] by simp
  then have "\<forall>d \<in> set ds. \<exists>s. d = norm_ws s"
    by (auto simp: caveat_denote_def)
  then have "list_all single_spaced ds" "list_all trimmed ds"
    using norm_ws_form by (fastforce simp: list_all_iff)+
  with set dedup_then_sort_Inr [OF ts(2)] show ?thesis by blast
qed

lemma canonicalize_caveats_scalars:
  "canonicalize_caveat_set cs = Inr ds \<Longrightarrow> (\<forall>d \<in> set ds. str_ok d)"
  using dedup_then_sort_Inr by (fastforce simp: canonicalize_caveat_set_def)

lemma canonicalize_caveats_total:
  assumes "\<forall>c \<in> set cs. \<exists>s. c = PStr s \<and> str_ok (norm_ws s)"
  shows "\<exists>ds. canonicalize_caveat_set cs = Inr ds"
proof -
  have "(\<exists>ts. mapM_sum normalize_whitespace cs = Inr ts \<and> (\<forall>t \<in> set ts. str_ok t))"
    using assms by (subst mapM_sum_all_iff) (auto simp: normalize_Inr)
  then show ?thesis
    using dedup_then_sort_total by (auto simp: canonicalize_caveat_set_def)
qed

lemma list_denote:
  "json_plain (PList (map PStr ds))" "json_denote (PList (map PStr ds)) = JArr (map JStr ds)"
  by auto

lemma canonical_caveats_unique:
  assumes "canonicalize_caveat_set cs = Inr cs'" "canonicalize_caveat_set ds = Inr ds'"
  shows "cs' = ds' \<longleftrightarrow> caveat_denote cs = caveat_denote ds"
proof -
  from assms(1) obtain ts where "mapM_sum normalize_whitespace cs = Inr ts" "dedup_then_sort ts = Inr cs'"
    by (auto simp: canonicalize_caveat_set_def)
  note c = mapM_normalize [OF this(1)] dedup_then_sort_Inr [OF this(2)]
  from assms(2) obtain us where "mapM_sum normalize_whitespace ds = Inr us" "dedup_then_sort us = Inr ds'"
    by (auto simp: canonicalize_caveat_set_def)
  note d = mapM_normalize [OF this(1)] dedup_then_sort_Inr [OF this(2)]
  show ?thesis using c d utf8_sorted_unique [of cs' ds'] by auto
qed

text \<open>
  C12: With the local canonicaliser, the pre-images of two caveat-set hashes are equal exactly when
  the sets of normalised caveats are: order, repetition and spacing do not matter, and different
  sets never share their bytes.
\<close>

theorem caveat_bytes_iff:
  assumes "canonical_caveat_set_bytes None cs = Inr b" "canonical_caveat_set_bytes None ds = Inr c"
  shows "b = c \<longleftrightarrow> caveat_denote cs = caveat_denote ds"
proof -
  from assms(1) obtain cs' where c: "canonicalize_caveat_set cs = Inr cs'" "canonicalize (PList (map PStr cs')) = Inr b"
    by (auto simp: canonical_caveat_set_bytes_def jcs_dumps_def)
  from assms(2) obtain ds' where d: "canonicalize_caveat_set ds = Inr ds'" "canonicalize (PList (map PStr ds')) = Inr c"
    by (auto simp: canonical_caveat_set_bytes_def jcs_dumps_def)
  have "b = c \<longleftrightarrow> map JStr cs' = map JStr ds'"
    using canonical_bytes_eq [OF list_denote(1) list_denote(1) c(2) d(2)]
    by (simp only: list_denote(2) json_value.inject)
  also have "\<dots> \<longleftrightarrow> cs' = ds'"
    by (rule inj_map_eq_map) (simp add: inj_def)
  finally show ?thesis
    using canonical_caveats_unique [OF c(1) d(1)] by simp
qed

text \<open>
  Canonicalising a canonical list changes nothing.
\<close>

lemma caveat_set_idempotent:
  assumes "canonicalize_caveat_set cs = Inr ds"
  shows "canonicalize_caveat_set (map PStr ds) = Inr ds"
proof -
  from assms obtain ts where "mapM_sum normalize_whitespace cs = Inr ts" "dedup_then_sort ts = Inr ds"
    by (auto simp: canonicalize_caveat_set_def)
  note c = mapM_normalize [OF this(1)] dedup_then_sort_Inr [OF this(2)]
  have norm: "norm_ws d = d" if "d \<in> set ds" for d
    using that c by (auto simp: caveat_denote_def)
  have "caveat_denote (map PStr ds) = norm_ws ` set ds"
    by (auto simp: caveat_denote_def)
  also have "\<dots> = set ds"
    using norm by (simp cong: image_cong)
  finally have denote: "caveat_denote (map PStr ds) = caveat_denote cs"
    using c(1,2) by simp
  have "\<forall>c \<in> set (map PStr ds). \<exists>s. c = PStr s \<and> str_ok (norm_ws s)"
    using norm canonicalize_caveats_scalars [OF assms] by auto
  from canonicalize_caveats_total [OF this] obtain es where "canonicalize_caveat_set (map PStr ds) = Inr es"
    by blast
  with canonical_caveats_unique [OF this assms] denote show ?thesis by simp
qed

text \<open>
  The module returns the bytes of a caveat set exactly when every caveat is a string that is
  encodable text once normalised; it never returns bytes for anything else.
\<close>

lemma caveat_bytes_accepts:
  "(\<exists>b. canonical_caveat_set_bytes_pure cs = Inr b) \<longleftrightarrow>
     list_all (\<lambda>c. case c of PStr s \<Rightarrow> list_all is_scalar (norm_ws s) | _ \<Rightarrow> False) cs"
proof
  assume "\<exists>b. canonical_caveat_set_bytes_pure cs = Inr b"
  then obtain ds ts where *: "mapM_sum normalize_whitespace cs = Inr ts" "dedup_then_sort ts = Inr ds"
    by (auto simp: canonical_caveat_set_bytes_pure_def canonicalize_caveat_set_def)
  from dedup_then_sort_Inr(4) [OF *(2)] *(1)
  show "list_all (\<lambda>c. case c of PStr s \<Rightarrow> list_all is_scalar (norm_ws s) | _ \<Rightarrow> False) cs"
    by (induction cs arbitrary: ts) (auto simp: normalize_Inr list_all_iff)
next
  assume *: "list_all (\<lambda>c. case c of PStr s \<Rightarrow> list_all is_scalar (norm_ws s) | _ \<Rightarrow> False) cs"
  then have "\<forall>c \<in> set cs. \<exists>s. c = PStr s \<and> str_ok (norm_ws s)"
    by (auto simp: list_all_iff split: pyval.splits) (metis pyval.exhaust)+
  from canonicalize_caveats_total [OF this] obtain ds where ds: "canonicalize_caveat_set cs = Inr ds"
    by blast
  then have "jcs_ok (PList (map PStr ds))"
    using canonicalize_caveats_scalars by auto
  with ds show "\<exists>b. canonical_caveat_set_bytes_pure cs = Inr b"
    by (simp add: canonical_caveat_set_bytes_pure_def jcs_accepts del: jcs_ok.simps)
qed

text \<open>The two paths agree wherever the installed package agrees with the local canonicaliser.\<close>

lemma caveat_path_parity:
  "(\<And>ds. dumps (PList (map PStr ds)) = canonicalize (PList (map PStr ds))) \<Longrightarrow>
     canonical_caveat_set_hash sha256 (Some dumps) cs = canonical_caveat_set_hash_pure sha256 cs"
  by (simp add: canonical_caveat_set_hash_def canonical_caveat_set_hash_pure_def
      canonical_caveat_set_bytes_def canonical_caveat_set_bytes_pure_def jcs_dumps_def)

section \<open>Concrete sets\<close>

definition caveats_messy :: "pyval list" where
  "caveats_messy = [PStr [32, 98, 9, 10, 98], PStr [97], PStr [98, 32, 98, 160]]"

definition caveats_clean :: "pyval list" where
  "caveats_clean = [PStr [97], PStr [98, 32, 98]]"

lemma norm_examples:
  "norm_ws [32, 98, 9, 10, 98] = [98, 32, 98]" "norm_ws [97] = [97]"
  "norm_ws [98, 32, 98, 160] = [98, 32, 98]" "norm_ws [98, 32, 98] = [98, 32, 98]"
  by (simp_all add: norm_ws_def py_strip_def ws4_def py_space_def)

lemma caveat_denote_simps:
  "caveat_denote [] = {}" "caveat_denote (PStr s # cs) = insert (norm_ws s) (caveat_denote cs)"
  by (auto simp: caveat_denote_def)

lemma caveats_same: "caveat_denote caveats_messy = caveat_denote caveats_clean"
  by (simp add: caveats_messy_def caveats_clean_def caveat_denote_simps norm_examples insert_commute)

lemma caveats_example: "canonicalize_caveat_set caveats_messy = Inr [[97], [98, 32, 98]]"
  by (simp add: caveats_messy_def canonicalize_caveat_set_def normalize_whitespace_def
      norm_examples dedup_then_sort_def encode_cp_def)

lemma caveats_bytes_exist:
  "\<exists>b. canonical_caveat_set_bytes None caveats_messy = Inr b"
  "\<exists>b. canonical_caveat_set_bytes None caveats_clean = Inr b"
proof -
  have clean: "canonicalize_caveat_set caveats_clean = Inr [[97], [98, 32, 98]]"
    by (simp add: caveats_clean_def canonicalize_caveat_set_def normalize_whitespace_def
        norm_examples dedup_then_sort_def encode_cp_def)
  have "\<exists>b. canonicalize (PList (map PStr [[97], [98, 32, 98]])) = Inr b"
    by (simp only: jcs_accepts) simp
  with clean caveats_example show
    "\<exists>b. canonical_caveat_set_bytes None caveats_messy = Inr b"
    "\<exists>b. canonical_caveat_set_bytes None caveats_clean = Inr b"
    by (simp_all only: canonical_caveat_set_bytes_def jcs_dumps_def sbind.simps option.case)
qed

lemma caveat_list_canonical_witness:
  "set [[97], [98, 32, 98]] = caveat_denote caveats_messy"
  using caveat_list_canonical [OF caveats_example] by blast

lemma caveat_bytes_iff_witness:
  "\<exists>b. canonical_caveat_set_bytes None caveats_messy = Inr b
     \<and> canonical_caveat_set_bytes None caveats_clean = Inr b"
  using caveats_bytes_exist caveats_same caveat_bytes_iff by blast

lemma caveat_set_idempotent_witness:
  "canonicalize_caveat_set (map PStr [[97], [98, 32, 98]]) = Inr [[97], [98, 32, 98]]"
  by (rule caveat_set_idempotent [OF caveats_example])

end
