(* ===== verification/Pyre.thy ===== *)
theory Pyre
  imports Prelude
begin

text \<open>
  The regular expressions of Python's \<open>re\<close> module as far as the code uses them: patterns without
  back-references or look-around, matched from the start of the string and anchored with \<open>$\<close>, for
  their Boolean result. Matching is by derivatives, so it evaluates; the lemmas give each operator
  its language.

  Without the MULTILINE flag \<open>$\<close> matches at the end of the string and also before a newline that
  ends it, so \<open>re.match("^r$", s)\<close> is \<open>rx_match\<close>, not \<open>rx_full\<close>.
\<close>

datatype rx =
    RNone | REps | RCls "nat \<Rightarrow> bool" | RSeq rx rx | RAlt rx rx | RStar rx

fun nullable :: "rx \<Rightarrow> bool" where
  "nullable RNone = False"
| "nullable REps = True"
| "nullable (RCls P) = False"
| "nullable (RSeq r s) = (nullable r \<and> nullable s)"
| "nullable (RAlt r s) = (nullable r \<or> nullable s)"
| "nullable (RStar r) = True"

fun deriv :: "nat \<Rightarrow> rx \<Rightarrow> rx" where
  "deriv c RNone = RNone"
| "deriv c REps = RNone"
| "deriv c (RCls P) = (if P c then REps else RNone)"
| "deriv c (RSeq r s) =
     (if nullable r then RAlt (RSeq (deriv c r) s) (deriv c s) else RSeq (deriv c r) s)"
| "deriv c (RAlt r s) = RAlt (deriv c r) (deriv c s)"
| "deriv c (RStar r) = RSeq (deriv c r) (RStar r)"

fun rx_full :: "rx \<Rightarrow> ustr \<Rightarrow> bool" where
  "rx_full r [] = nullable r"
| "rx_full r (c # s) = rx_full (deriv c r) s"

definition dollar :: "(ustr \<Rightarrow> bool) \<Rightarrow> ustr \<Rightarrow> bool" where
  "dollar P s \<longleftrightarrow> P s \<or> (ends_with [10] s \<and> P (butlast s))"

definition rx_match :: "rx \<Rightarrow> ustr \<Rightarrow> bool" where
  "rx_match r = dollar (rx_full r)"

abbreviation RPlus :: "rx \<Rightarrow> rx" where
  "RPlus r \<equiv> RSeq r (RStar r)"

abbreviation ROpt :: "rx \<Rightarrow> rx" where
  "ROpt r \<equiv> RAlt REps r"

definition RLit :: "ustr \<Rightarrow> rx" where
  "RLit s = foldr (\<lambda>c. RSeq (RCls (\<lambda>d. d = c))) s REps"

fun RUpto :: "nat \<Rightarrow> rx \<Rightarrow> rx" where
  "RUpto 0 r = REps"
| "RUpto (Suc n) r = ROpt (RSeq r (RUpto n r))"

section \<open>The language of each operator\<close>

lemma full_None [simp]: "\<not> rx_full RNone s"
  by (induction s) auto

lemma full_Eps [simp]: "rx_full REps s \<longleftrightarrow> s = []"
  by (cases s) auto

lemma full_Cls [simp]: "rx_full (RCls P) s \<longleftrightarrow> (\<exists>c. s = [c] \<and> P c)"
  by (cases s) auto

lemma full_Alt [simp]: "rx_full (RAlt r s) x \<longleftrightarrow> rx_full r x \<or> rx_full s x"
  by (induction x arbitrary: r s) auto

lemma full_Seq: "rx_full (RSeq r s) x \<longleftrightarrow> (\<exists>p q. x = p @ q \<and> rx_full r p \<and> rx_full s q)"
proof (induction x arbitrary: r s)
  case (Cons c x)
  have "(\<exists>p q. c # x = p @ q \<and> rx_full r p \<and> rx_full s q) \<longleftrightarrow>
      (nullable r \<and> rx_full (deriv c s) x)
      \<or> (\<exists>p q. x = p @ q \<and> rx_full (deriv c r) p \<and> rx_full s q)"
    by (auto simp: Cons_eq_append_conv) (metis append_Nil rx_full.simps(1,2)) +
  with Cons show ?case by auto
qed auto

lemma full_Lit [simp]: "rx_full (RLit t) x \<longleftrightarrow> x = t"
proof (induction t arbitrary: x)
  case (Cons c t)
  then show ?case by (auto simp: RLit_def full_Seq)
qed (simp add: RLit_def)

lemma full_Star_Cls [simp]: "rx_full (RStar (RCls P)) x \<longleftrightarrow> list_all P x"
proof (induction x)
  case (Cons c x)
  have "rx_full (RSeq REps (RStar (RCls P))) x \<longleftrightarrow> rx_full (RStar (RCls P)) x"
    by (simp add: full_Seq)
  moreover have "\<not> rx_full (RSeq RNone (RStar (RCls P))) x"
    by (simp add: full_Seq)
  ultimately show ?case using Cons by simp
qed simp

lemma full_Upto_Cls [simp]:
  "rx_full (RUpto n (RCls P)) x \<longleftrightarrow> length x \<le> n \<and> list_all P x"
proof (induction n arbitrary: x)
  case (Suc n)
  then show ?case by (cases x) (auto simp: full_Seq)
qed auto

lemma full_Lit_Seq: "rx_full (RSeq (RLit t) r) x \<longleftrightarrow> (\<exists>q. x = t @ q \<and> rx_full r q)"
  by (simp add: full_Seq)

lemma full_Cls_Seq: "rx_full (RSeq (RCls P) r) x \<longleftrightarrow> (\<exists>c q. x = c # q \<and> P c \<and> rx_full r q)"
  by (simp add: full_Seq) (metis append_Cons append_Nil)

lemmas rx_lang = full_Lit_Seq full_Cls_Seq full_Seq

lemma rx_match_iff:
  "rx_match r s \<longleftrightarrow> rx_full r s \<or> (\<exists>t. s = t @ [10] \<and> rx_full r t)"
  by (auto simp: rx_match_def dollar_def ends_with_iff)

end
