(* ===== verification/Subjects.thy ===== *)
theory Subjects
  imports Pyre Json Pytext
begin

text \<open>
  NATS subjects of the wire language, \<open>wirelang/nats_subject_mapping.py\<close>: building a subject
  from its parts, parsing it back, the anchors a sub-id may be, and the checks of stream patterns
  and consumer filters.

  The interpreter's Unicode tables are a parameter (theory \<open>Pytext\<close>). The soft warning for a domain outside the reserved list is not modelled.
\<close>

section \<open>Characters\<close>

definition lo :: "nat \<Rightarrow> bool" where
  "lo c \<longleftrightarrow> 97 \<le> c \<and> c \<le> 122"

definition up :: "nat \<Rightarrow> bool" where
  "up c \<longleftrightarrow> 65 \<le> c \<and> c \<le> 90"

definition dig :: "nat \<Rightarrow> bool" where
  "dig c \<longleftrightarrow> 48 \<le> c \<and> c \<le> 57"

section \<open>Constants\<close>

definition reserved_envs :: "ustr list" where
  "reserved_envs = [u ''dev'', u ''staging'', u ''prod'']"

definition reserved_event_types :: "(ustr \<times> ustr list) list" where
  "reserved_event_types =
    [(u ''aip'', [u ''aip.document.published'', u ''aip.document.rotated'',
        u ''aip.document.revoked'', u ''aip.document.fetched'']),
     (u ''cap'', [u ''cap.token.issued'', u ''cap.token.appended'', u ''cap.token.sealed'',
        u ''cap.token.revoked'', u ''cap.token.verified'']),
     (u ''federation'', [u ''federation.ftd.published'', u ''federation.ftd.rotated'',
        u ''federation.peer.admitted'', u ''federation.route.added'',
        u ''federation.route.removed'']),
     (u ''wat'', [u ''wat.audit.anchor.created'', u ''wat.leaf.federated.attached'']),
     (u ''agent'', [u ''agent.task.assigned'', u ''agent.task.accepted'',
        u ''agent.task.completed'']),
     (u ''meta'', [u ''meta.schema.deprecation'', u ''meta.vocabulary.bumped'',
        u ''meta.capability.issued'']),
     (u ''treasury'', []),
     (u ''comms'', [])]"

definition schema_inventory :: "(ustr \<times> ustr option) list" where
  "schema_inventory =
    (let layer2 = Some (u ''https://wakir.dev/wirelang/schema/layer-2-semantic/0.1.0'');
         ftd = Some (u ''https://wakir.dev/wirelang/schema/federation-trust-document/0.1.0'')
     in [(u ''aip.document'', Some (u ''https://wakir.dev/wirelang/schema/aip-document/0.1.0'')),
         (u ''cap.token'', Some (u ''https://wakir.dev/wirelang/schema/layer-3-capability-token/0.1.0'')),
         (u ''federation.ftd'', ftd), (u ''federation.peer'', ftd), (u ''federation.route'', ftd),
         (u ''wat.audit'', None), (u ''wat.leaf'', None),
         (u ''agent.task'', layer2), (u ''meta.schema'', layer2), (u ''meta.vocabulary'', layer2),
         (u ''meta.capability'', layer2)])"

definition max_sub_id_octets :: nat where
  "max_sub_id_octets = 64"

section \<open>Patterns\<close>

definition ident_rest :: "nat \<Rightarrow> bool" where
  "ident_rest c \<longleftrightarrow> lo c \<or> dig c \<or> c = 95 \<or> c = 45"

definition event_rest :: "nat \<Rightarrow> bool" where
  "event_rest c \<longleftrightarrow> lo c \<or> dig c \<or> c = 95 \<or> c = 46 \<or> c = 45"

definition sub_id_char :: "nat \<Rightarrow> bool" where
  "sub_id_char c \<longleftrightarrow> lo c \<or> up c \<or> dig c \<or> c = 95 \<or> c = 46 \<or> c = 45"

definition slug_char :: "nat \<Rightarrow> bool" where
  "slug_char c \<longleftrightarrow> lo c \<or> dig c \<or> c = 45"

definition domain_re :: rx where
  "domain_re = RSeq (RCls lo) (RStar (RCls ident_rest))"

definition event_type_re :: rx where
  "event_type_re = RSeq (RCls lo) (RStar (RCls event_rest))"

definition sub_id_re :: rx where
  "sub_id_re = RPlus (RCls sub_id_char)"

definition persona_slug_re :: rx where
  "persona_slug_re = RSeq (RCls lo) (RUpto 30 (RCls ident_rest))"

definition federation_host_slug_re :: rx where
  "federation_host_slug_re =
     RSeq (RPlus (RCls slug_char)) (RStar (RSeq (RLit [46]) (RPlus (RCls slug_char))))"

definition host_slug_re :: rx where
  "host_slug_re = RPlus (RCls slug_char)"

definition schema_subject_re :: rx where
  "schema_subject_re =
     RSeq (RLit (u ''wakir.''))
    (RSeq (RAlt (RLit (u ''dev'')) (RAlt (RLit (u ''staging'')) (RLit (u ''prod''))))
    (RSeq (RLit [46])
    (RSeq domain_re
    (RSeq (RLit [46])
    (RSeq event_type_re
          (ROpt (RSeq (RLit [46]) sub_id_re)))))))"

section \<open>Anchors\<close>

definition persona_slug :: "ustr option \<Rightarrow> ustr option" where
  "persona_slug sid =
     (case sid of None \<Rightarrow> None | Some s \<Rightarrow> if rx_match persona_slug_re s then Some s else None)"

text \<open>
  \<open>^tv\.w\.(\d+)(?:\.([a-z0-9-]+))?$\<close>: the digits are a maximal run, the step excludes a final
  newline. \<open>int\<close> refuses more than 4300 digits.
\<close>

definition digits_value :: "unicode \<Rightarrow> ustr \<Rightarrow> int" where
  "digits_value U ds = foldl (\<lambda>a d. a * 10 + int (the (py_digit U d))) 0 ds"

definition tv_step :: "ustr \<Rightarrow> ustr option option" where
  "tv_step r =
     (if r = [] \<or> r = [10] then Some None
      else if starts_with [46] r then
        (let t = drop 1 r; t' = (if ends_with [10] t then butlast t else t) in
         if t' \<noteq> [] \<and> list_all slug_char t' then Some (Some t') else None)
      else None)"

definition tv_anchor :: "unicode \<Rightarrow> ustr option \<Rightarrow> (int \<times> ustr option) option res" where
  "tv_anchor U sid =
     (case sid of
        None \<Rightarrow> Inr None
      | Some s \<Rightarrow>
          if \<not> starts_with (u ''tv.w.'') s then Inr None
          else
            (let body = drop 5 s;
                 ds = takeWhile (\<lambda>c. py_digit U c \<noteq> None) body;
                 r = dropWhile (\<lambda>c. py_digit U c \<noteq> None) body
             in if ds = [] then Inr None
                else (case tv_step r of
                        None \<Rightarrow> Inr None
                      | Some step \<Rightarrow>
                          if 4300 < length ds then Inl ValueErr
                          else Inr (Some (digits_value U ds, step)))))"

definition looks_like_sub_id_anchor :: "unicode \<Rightarrow> ustr \<Rightarrow> bool res" where
  "looks_like_sub_id_anchor U sid =
     (if persona_slug (Some sid) \<noteq> None then Inr True
      else sbind (tv_anchor U (Some sid)) (\<lambda>a.
        if a \<noteq> None then Inr True
        else Inr (rx_match federation_host_slug_re sid \<and> 46 \<notin> set sid)))"

definition replace_dots :: "ustr \<Rightarrow> ustr" where
  "replace_dots s = map (\<lambda>c. if c = 46 then 45 else c) s"

definition federation_host_slug :: "unicode \<Rightarrow> pyval \<Rightarrow> ustr res" where
  "federation_host_slug U host =
     (case host of
        PStr s \<Rightarrow>
          if s = [] then Inl (SubjectFormatErr ''R6'')
          else
            (let slug = replace_dots (py_lower U s) in
             sbind (ensure (rx_match host_slug_re slug) (SubjectFormatErr ''R6'')) (\<lambda>_.
             sbind (utf8_encode slug) (\<lambda>b.
             sbind (ensure (length b \<le> max_sub_id_octets) (SubjectFormatErr ''R4/R6'')) (\<lambda>_.
             Inr slug))))
      | _ \<Rightarrow> Inl (SubjectFormatErr ''R6''))"

section \<open>Building and parsing\<close>

record subject =
  s_env :: ustr
  s_domain :: ustr
  s_event_type :: ustr
  s_sub_id :: "ustr option"

definition check_sub_id :: "ustr \<Rightarrow> unit res" where
  "check_sub_id sid =
     sbind (ensure (1 \<le> length sid) (SubjectFormatErr ''R4'')) (\<lambda>_.
     sbind (utf8_encode sid) (\<lambda>b.
     sbind (ensure (length b \<le> max_sub_id_octets) (SubjectFormatErr ''R4'')) (\<lambda>_.
     ensure (rx_match sub_id_re sid) (SubjectFormatErr ''R4''))))"

definition subject_parts :: "ustr \<Rightarrow> ustr \<Rightarrow> ustr \<Rightarrow> ustr option \<Rightarrow> ustr list" where
  "subject_parts env domain event_type sid =
     [u ''wakir'', env, domain, event_type] @ (case sid of None \<Rightarrow> [] | Some s \<Rightarrow> [s])"

definition build_subject ::
    "unicode \<Rightarrow> ustr \<Rightarrow> ustr \<Rightarrow> ustr \<Rightarrow> ustr option \<Rightarrow> ustr res" where
  "build_subject U env domain event_type sub_id =
     sbind (ensure (env = py_lower U env) (SubjectFormatErr ''R1'')) (\<lambda>_.
     sbind (ensure (env \<in> set reserved_envs) (SubjectFormatErr ''R1'')) (\<lambda>_.
     sbind (ensure (rx_match domain_re domain) (SubjectFormatErr ''R1/R2'')) (\<lambda>_.
     sbind (ensure (rx_match event_type_re event_type) (SubjectFormatErr ''R3'')) (\<lambda>_.
     sbind (case sub_id of None \<Rightarrow> Inr () | Some sid \<Rightarrow> check_sub_id sid) (\<lambda>_.
     (let subject = join_with [46] (subject_parts env domain event_type sub_id) in
      sbind (ensure (rx_match schema_subject_re subject) (SubjectFormatErr ''R0'')) (\<lambda>_.
      Inr subject)))))))"

definition to_string :: "unicode \<Rightarrow> subject \<Rightarrow> ustr res" where
  "to_string U s = build_subject U (s_env s) (s_domain s) (s_event_type s) (s_sub_id s)"

text \<open>The condition under which \<open>parse_subject\<close> splits a sub-id off at token \<open>k\<close> of the rest.\<close>

definition reserved_for :: "ustr \<Rightarrow> ustr list" where
  "reserved_for domain =
     (case map_of reserved_event_types domain of None \<Rightarrow> [] | Some ets \<Rightarrow> ets)"

definition splits_at :: "unicode \<Rightarrow> ustr \<Rightarrow> ustr list \<Rightarrow> nat \<Rightarrow> bool res" where
  "splits_at U domain rest k =
     (if join_with [46] (take k rest) \<in> set (reserved_for domain)
      then looks_like_sub_id_anchor U (join_with [46] (drop k rest))
      else Inr False)"

text \<open>The loop \<open>for split in range(k, 0, -1)\<close>.\<close>

fun find_split :: "unicode \<Rightarrow> ustr \<Rightarrow> ustr list \<Rightarrow> nat \<Rightarrow> nat option res" where
  "find_split U domain rest 0 = Inr None"
| "find_split U domain rest (Suc k) =
     sbind (splits_at U domain rest (Suc k)) (\<lambda>ok.
       if ok then Inr (Some (Suc k)) else find_split U domain rest k)"

definition peel_sub_id :: "unicode \<Rightarrow> ustr \<Rightarrow> ustr list \<Rightarrow> nat option res" where
  "peel_sub_id U domain rest =
     (if length rest < 2 then Inr None
      else
        sbind (splits_at U domain rest (length rest - 1)) (\<lambda>ok.
          if ok then Inr (Some (length rest - 1))
          else if 4 \<le> length rest then find_split U domain rest (length rest - 1)
          else Inr None))"

definition parse_subject :: "unicode \<Rightarrow> pyval \<Rightarrow> subject res" where
  "parse_subject U v =
     (case v of
        PStr s \<Rightarrow>
          sbind (ensure (s \<noteq> []) (SubjectFormatErr ''R0'')) (\<lambda>_.
          sbind (ensure (rx_match schema_subject_re s) (SubjectFormatErr ''R0'')) (\<lambda>_.
          (let tokens = split_on 46 s; env = tokens ! 1; domain = tokens ! 2; rest = drop 3 tokens in
           sbind (ensure (env \<in> set reserved_envs) (SubjectFormatErr ''R1'')) (\<lambda>_.
           sbind (ensure (rx_match domain_re domain) (SubjectFormatErr ''R1/R2'')) (\<lambda>_.
           sbind (ensure (rest \<noteq> []) (SubjectFormatErr ''R3'')) (\<lambda>_.
           sbind (peel_sub_id U domain rest) (\<lambda>k.
           (let event_type = (case k of None \<Rightarrow> join_with [46] rest | Some k \<Rightarrow> join_with [46] (take k rest));
                sub_id = map_option (\<lambda>k. join_with [46] (drop k rest)) k in
            sbind (ensure (rx_match event_type_re event_type) (SubjectFormatErr ''R3'')) (\<lambda>_.
            sbind (case sub_id of
                     None \<Rightarrow> Inr ()
                   | Some sid \<Rightarrow> sbind (utf8_encode sid) (\<lambda>b.
                       ensure (length b \<le> max_sub_id_octets) (SubjectFormatErr ''R4''))) (\<lambda>_.
            Inr \<lparr>s_env = env, s_domain = domain, s_event_type = event_type, s_sub_id = sub_id\<rparr>))))))))))
      | _ \<Rightarrow> Inl (SubjectFormatErr ''R0''))"

definition roundtrip :: "unicode \<Rightarrow> pyval \<Rightarrow> ustr res" where
  "roundtrip U v =
     sbind (parse_subject U v) (\<lambda>p.
       build_subject U (s_env p) (s_domain p) (s_event_type p) (s_sub_id p))"

section \<open>Patterns of streams and consumers\<close>

definition validate_stream_pattern :: "pyval \<Rightarrow> unit res" where
  "validate_stream_pattern v =
     (case v of
        PStr p \<Rightarrow>
          sbind (ensure (p \<noteq> []) (SubjectFormatErr ''W1'')) (\<lambda>_.
          (let tokens = split_on 46 p in
           sbind (ensure (tokens ! 0 = u ''wakir'') (SubjectFormatErr ''W1'')) (\<lambda>_.
           sbind (ensure (2 \<le> length tokens \<and> tokens ! 1 \<notin> {[42], [62]}) (SubjectFormatErr ''W2'')) (\<lambda>_.
           sbind (ensure (4 \<le> length tokens) (SubjectFormatErr ''W1'')) (\<lambda>_.
           sbind (ensure (tokens ! 1 \<in> set reserved_envs) (SubjectFormatErr ''W2'')) (\<lambda>_.
           ensure (tokens ! 2 \<notin> {[42], [62]}) (SubjectFormatErr ''W1'')))))))
      | _ \<Rightarrow> Inl (SubjectFormatErr ''W1''))"

definition validate_consumer_filter :: "pyval \<Rightarrow> unit res" where
  "validate_consumer_filter v =
     (case v of
        PStr p \<Rightarrow>
          sbind (ensure (p \<noteq> []) (SubjectFormatErr ''W4'')) (\<lambda>_.
          (let tokens = split_on 46 p in
           sbind (ensure (tokens ! 0 = u ''wakir'') (SubjectFormatErr ''W4'')) (\<lambda>_.
           sbind (ensure (3 \<le> length tokens) (SubjectFormatErr ''W4'')) (\<lambda>_.
           sbind (ensure (tokens ! 1 \<notin> {[42], [62]}) (SubjectFormatErr ''W2'')) (\<lambda>_.
           sbind (ensure (tokens ! 1 \<in> set reserved_envs) (SubjectFormatErr ''W4'')) (\<lambda>_.
           sbind (ensure (4 \<le> length tokens) (SubjectFormatErr ''W4'')) (\<lambda>_.
           sbind (ensure (\<not> (tokens ! 2 \<in> {[42], [62]} \<and> tokens ! 2 = [42])) (SubjectFormatErr ''W4'')) (\<lambda>_.
           ensure (\<not> (5 \<le> length tokens \<and> tokens ! 3 = [42])) (SubjectFormatErr ''W6'')))))))))
      | _ \<Rightarrow> Inl (SubjectFormatErr ''W4''))"

definition schema_for_subject :: "unicode \<Rightarrow> pyval \<Rightarrow> ustr option res" where
  "schema_for_subject U v =
     sbind (parse_subject U v) (\<lambda>p.
       (let ets = split_on 46 (s_event_type p) in
        if length ets < 2 then Inr None
        else Inr (case map_of schema_inventory (join_with [46] (take 2 ets)) of
                    None \<Rightarrow> None | Some hint \<Rightarrow> hint)))"

section \<open>Languages of the patterns\<close>

lemma domain_full: "rx_full domain_re s \<longleftrightarrow> (\<exists>c q. s = c # q \<and> lo c \<and> list_all ident_rest q)"
  by (simp add: domain_re_def full_Cls_Seq)

lemma event_type_full: "rx_full event_type_re s \<longleftrightarrow> (\<exists>c q. s = c # q \<and> lo c \<and> list_all event_rest q)"
  by (simp add: event_type_re_def full_Cls_Seq)

lemma sub_id_full: "rx_full sub_id_re s \<longleftrightarrow> s \<noteq> [] \<and> list_all sub_id_char s"
  unfolding sub_id_re_def full_Cls_Seq by (cases s) auto

lemma host_slug_full: "rx_full host_slug_re s \<longleftrightarrow> s \<noteq> [] \<and> list_all slug_char s"
  unfolding host_slug_re_def full_Cls_Seq by (cases s) auto

lemma schema_full:
  "rx_full schema_subject_re x \<longleftrightarrow>
     (\<exists>env d e. env \<in> set reserved_envs \<and> rx_full domain_re d \<and> rx_full event_type_re e
        \<and> (x = u ''wakir'' @ [46] @ env @ [46] @ d @ [46] @ e
           \<or> (\<exists>sid. rx_full sub_id_re sid \<and> x = u ''wakir'' @ [46] @ env @ [46] @ d @ [46] @ e @ [46] @ sid)))"
proof -
  have w: "u ''wakir.'' = u ''wakir'' @ [46]"
    by (simp add: u_def)
  have env: "rx_full (RSeq (RAlt (RLit (u ''dev'')) (RAlt (RLit (u ''staging'')) (RLit (u ''prod'')))) r) y
      \<longleftrightarrow> (\<exists>env q. y = env @ q \<and> env \<in> set reserved_envs \<and> rx_full r q)" for r y
    by (subst full_Seq) (auto simp: reserved_envs_def)
  have tail: "rx_full (RSeq event_type_re (ROpt (RSeq (RLit [46]) sub_id_re))) y \<longleftrightarrow>
      (\<exists>e. rx_full event_type_re e \<and> (y = e \<or> (\<exists>sid. rx_full sub_id_re sid \<and> y = e @ [46] @ sid)))" for y
    by (subst full_Seq) (auto simp: full_Lit_Seq)
  have mid: "rx_full (RSeq domain_re r) y \<longleftrightarrow> (\<exists>d q. y = d @ q \<and> rx_full domain_re d \<and> rx_full r q)" for r y
    by (rule full_Seq)
  show ?thesis
    unfolding schema_subject_re_def w full_Lit_Seq env mid tail
    by (intro iffI; elim exE conjE disjE; simp; blast)
qed

section \<open>The characters of a subject\<close>

lemma lo_ident: "lo c \<Longrightarrow> ident_rest c" and ident_event: "ident_rest c \<Longrightarrow> event_rest c"
  and event_sub: "event_rest c \<Longrightarrow> sub_id_char c"
  by (auto simp: ident_rest_def event_rest_def sub_id_char_def)

lemma sub_char_plain: "sub_id_char c \<Longrightarrow> c \<noteq> 10 \<and> c < 128"
  by (auto simp: sub_id_char_def lo_def up_def dig_def)

lemma ident_no_dot: "list_all ident_rest s \<Longrightarrow> 46 \<notin> set s"
  by (auto simp: ident_rest_def lo_def dig_def list_all_iff)

lemma domain_chars: "rx_full domain_re d \<Longrightarrow> list_all ident_rest d"
  by (auto simp: domain_full lo_ident)

lemma event_chars: "rx_full event_type_re e \<Longrightarrow> list_all sub_id_char e"
  by (auto simp: event_type_full list_all_iff event_rest_def sub_id_char_def)

lemma domain_sub_chars: "rx_full domain_re d \<Longrightarrow> list_all sub_id_char d"
  using domain_chars by (auto simp: list_all_iff intro: event_sub ident_event)

lemma env_cases: "env \<in> set reserved_envs \<longleftrightarrow> env = u ''dev'' \<or> env = u ''staging'' \<or> env = u ''prod''"
  by (auto simp: reserved_envs_def)

lemma env_chars: "env \<in> set reserved_envs \<Longrightarrow> list_all ident_rest env"
  by (auto simp: env_cases u_def ident_rest_def lo_def)

lemma env_lower: "env \<in> set reserved_envs \<Longrightarrow> py_lower U env = env"
  by (auto simp: env_cases u_def py_lower_def ascii_lower_def)

lemma env_sub_chars: "env \<in> set reserved_envs \<Longrightarrow> list_all sub_id_char env"
  using env_chars by (auto simp: list_all_iff intro: event_sub ident_event)

lemma wakir_chars: "list_all ident_rest (u ''wakir'')"
  by (simp add: u_def ident_rest_def lo_def)

lemma wakir_sub_chars: "list_all sub_id_char (u ''wakir'')"
  using wakir_chars by (auto simp: list_all_iff intro: event_sub ident_event)

lemma schema_chars: "rx_full schema_subject_re s \<Longrightarrow> list_all sub_id_char s"
  using wakir_sub_chars
  by (auto simp: schema_full sub_id_full dest!: domain_sub_chars event_chars env_sub_chars)
    (simp_all add: sub_id_char_def)

text \<open>A newline can only be the last character of a text that matches.\<close>

lemma schema_newline: "rx_match schema_subject_re (p @ 10 # q) \<Longrightarrow> q = []"
proof -
  assume "rx_match schema_subject_re (p @ 10 # q)"
  then obtain t where t: "p @ 10 # q = t \<or> p @ 10 # q = t @ [10]" "list_all sub_id_char t"
    by (auto simp: rx_match_iff dest: schema_chars)
  have "10 \<notin> set t" using t(2) sub_char_plain by (auto simp: list_all_iff)
  with t(1) have "p @ 10 # q = t @ [10]" by auto
  then show ?thesis using \<open>10 \<notin> set t\<close> by (cases q rule: rev_cases) auto
qed

lemma sub_id_ascii: "rx_match sub_id_re s \<Longrightarrow> utf8_encode s = Inr s"
proof (rule utf8_encode_ascii)
  assume "rx_match sub_id_re s"
  then show "\<forall>c \<in> set s. c < 128"
    using sub_char_plain by (fastforce simp: rx_match_iff sub_id_full list_all_iff)
qed

lemma join_subject:
  "join_with [46] (subject_parts env d e sid) =
     u ''wakir'' @ [46] @ env @ [46] @ d @ [46] @ e @ (case sid of None \<Rightarrow> [] | Some s \<Rightarrow> [46] @ s)"
  by (simp add: subject_parts_def split: option.split)

section \<open>What is built\<close>

text \<open>When a sub-id is accepted.\<close>

definition valid_sub_id :: "ustr \<Rightarrow> bool" where
  "valid_sub_id s \<longleftrightarrow> rx_match sub_id_re s \<and> length s \<le> max_sub_id_octets"

lemma check_sub_id_Inr: "check_sub_id s = Inr () \<longleftrightarrow> valid_sub_id s"
proof -
  have "s \<noteq> []" if "rx_match sub_id_re s"
    using that by (auto simp: rx_match_iff sub_id_full)
  then show ?thesis
    using sub_id_ascii [of s] by (auto simp: check_sub_id_def valid_sub_id_def Suc_le_eq)
qed

definition buildable :: "ustr \<Rightarrow> ustr \<Rightarrow> ustr \<Rightarrow> ustr option \<Rightarrow> bool" where
  "buildable env d e sid \<longleftrightarrow>
     env \<in> set reserved_envs \<and> rx_full domain_re d
     \<and> (case sid of
          None \<Rightarrow> rx_match event_type_re e
        | Some s \<Rightarrow> rx_full event_type_re e \<and> valid_sub_id s)"

lemma build_iff:
  "build_subject U env d e sid = Inr s \<longleftrightarrow>
     buildable env d e sid \<and> s = join_with [46] (subject_parts env d e sid)"
proof -
  let ?s = "join_with [46] (subject_parts env d e sid)"
  have unfolded: "build_subject U env d e sid = Inr s \<longleftrightarrow>
      env = py_lower U env \<and> env \<in> set reserved_envs \<and> rx_match domain_re d \<and> rx_match event_type_re e
      \<and> (\<forall>x. sid = Some x \<longrightarrow> valid_sub_id x) \<and> rx_match schema_subject_re ?s \<and> s = ?s"
    by (auto simp: build_subject_def Let_def check_sub_id_Inr split: option.splits)
  have "rx_full domain_re d" if "rx_match domain_re d" "rx_match schema_subject_re ?s"
  proof (rule ccontr)
    assume "\<not> rx_full domain_re d"
    with that(1) obtain t where "d = t @ [10]" by (auto simp: rx_match_iff)
    then have "?s = (u ''wakir'' @ [46] @ env @ [46] @ t) @ 10 # [46] @ e @ (case sid of None \<Rightarrow> [] | Some s \<Rightarrow> [46] @ s)"
      by (simp add: join_subject)
    with schema_newline that(2) show False by (metis append_Cons append_Nil list.distinct(1))
  qed
  moreover have "rx_full event_type_re e"
    if "rx_match event_type_re e" "rx_match schema_subject_re ?s" "sid = Some x" for x
  proof (rule ccontr)
    assume "\<not> rx_full event_type_re e"
    with that(1) obtain t where "e = t @ [10]" by (auto simp: rx_match_iff)
    then have "?s = (u ''wakir'' @ [46] @ env @ [46] @ d @ [46] @ t) @ 10 # [46] @ x"
      using that(3) by (simp add: join_subject)
    with schema_newline that(2) show False by (metis append_Cons append_Nil list.distinct(1))
  qed
  moreover have "rx_match schema_subject_re ?s" if "buildable env d e sid"
  proof -
    from that have parts: "env \<in> set reserved_envs" "rx_full domain_re d"
      by (auto simp: buildable_def)
    note full = schema_full [THEN iffD2]
    show ?thesis
    proof (cases sid)
      case None
      with that have "rx_match event_type_re e" by (simp add: buildable_def)
      then obtain t where t: "rx_full event_type_re t" "e = t \<or> e = t @ [10]"
        by (auto simp: rx_match_iff)
      have "rx_full schema_subject_re (u ''wakir'' @ [46] @ env @ [46] @ d @ [46] @ t)"
        using parts t(1) by (intro full) blast
      with t(2) None show ?thesis by (auto simp: rx_match_iff join_subject)
    next
      case (Some x)
      with that have e: "rx_full event_type_re e" and "rx_match sub_id_re x"
        by (simp_all add: buildable_def valid_sub_id_def)
      then obtain t where t: "rx_full sub_id_re t" "x = t \<or> x = t @ [10]"
        by (auto simp: rx_match_iff)
      have "rx_full schema_subject_re (u ''wakir'' @ [46] @ env @ [46] @ d @ [46] @ e @ [46] @ t)"
        using parts e t(1) by (intro full) blast
      with t(2) Some show ?thesis by (auto simp: rx_match_iff join_subject)
    qed
  qed
  moreover have "rx_match event_type_re e" if "rx_full event_type_re e"
    using that by (simp add: rx_match_iff)
  ultimately show ?thesis
    unfolding unfolded buildable_def using env_lower [of env U]
    by (auto simp: rx_match_iff [of domain_re] split: option.splits)
qed

text \<open>
  \<open>build_subject\<close> returns a subject exactly when the environment is reserved, the domain and the
  event type match their patterns and the sub-id, if any, matches its pattern in at most 64
  octets; it is then the dotted join of the parts. (A newline at the end of a part is accepted in the
  last part only: \<open>rx_match\<close> allows it and \<open>rx_full\<close> does not.)
\<close>

lemma build_subject_iff:
  "build_subject U env d e sid = Inr s \<longleftrightarrow>
     buildable env d e sid \<and> s = join_with [46] (subject_parts env d e sid)"
  by (rule build_iff)
section \<open>Parsing inverts building\<close>

lemma splits_True:
  "splits_at U d rest k = Inr True \<longleftrightarrow>
     join_with [46] (take k rest) \<in> set (reserved_for d)
     \<and> looks_like_sub_id_anchor U (join_with [46] (drop k rest)) = Inr True"
  by (simp add: splits_at_def)

lemma find_split_Some:
  "find_split U d rest n = Inr (Some k) \<Longrightarrow> 0 < k \<and> k \<le> n \<and> splits_at U d rest k = Inr True"
  by (induction n) (auto split: if_splits)

lemma peel_Some:
  "peel_sub_id U d rest = Inr (Some k) \<Longrightarrow>
     0 < k \<and> k < length rest \<and> splits_at U d rest k = Inr True"
  by (auto simp: peel_sub_id_def split: if_splits dest!: find_split_Some)

lemma looks_like_ne:
  "looks_like_sub_id_anchor U s = Inr True \<Longrightarrow> s \<noteq> [] \<and> s \<noteq> [10]"
proof -
  have "\<not> rx_match persona_slug_re []" "\<not> rx_match persona_slug_re [10]"
    "\<not> rx_match federation_host_slug_re []" "\<not> rx_match federation_host_slug_re [10]"
    by (simp_all add: rx_match_def dollar_def persona_slug_re_def federation_host_slug_re_def
        ends_with_def lo_def slug_char_def dig_def)
  moreover assume "looks_like_sub_id_anchor U s = Inr True"
  ultimately show ?thesis
    by (auto simp: looks_like_sub_id_anchor_def persona_slug_def tv_anchor_def u_def)
qed

lemma schema_text_chars:
  assumes "rx_match schema_subject_re s"
  obtains t where "s = t \<or> s = t @ [10]" "list_all sub_id_char t"
  using assms schema_chars by (auto simp: rx_match_iff)

text \<open>A suffix of a matching text that is neither empty nor a newline alone fits a sub-id.\<close>

lemma suffix_sub_id:
  assumes "rx_match schema_subject_re (p @ x)" "x \<noteq> []" "x \<noteq> [10]"
  shows "rx_match sub_id_re x"
proof -
  obtain t where t: "p @ x = t \<or> p @ x = t @ [10]" "list_all sub_id_char t"
    using assms(1) by (rule schema_text_chars)
  obtain y c where x: "x = y @ [c]" using assms(2) by (cases x rule: rev_cases) auto
  from t(1) show ?thesis
  proof
    assume "p @ x = t"
    with t(2) assms(2) have "rx_full sub_id_re x" by (auto simp: sub_id_full)
    then show ?thesis by (simp add: rx_match_iff)
  next
    assume "p @ x = t @ [10]"
    with x have "c = 10" "t = p @ y" by auto
    with t(2) x assms(3) have "rx_full sub_id_re y" by (auto simp: sub_id_full)
    with x \<open>c = 10\<close> show ?thesis by (simp add: rx_match_iff)
  qed
qed

lemma parse_Inr:
  assumes "parse_subject U (PStr s) = Inr p"
  obtains tokens k where
    "tokens = split_on 46 s" "rx_match schema_subject_re s"
    "s_env p = tokens ! 1" "s_env p \<in> set reserved_envs"
    "s_domain p = tokens ! 2" "rx_match domain_re (s_domain p)" "drop 3 tokens \<noteq> []"
    "peel_sub_id U (s_domain p) (drop 3 tokens) = Inr k"
    "s_event_type p = (case k of None \<Rightarrow> join_with [46] (drop 3 tokens)
       | Some k \<Rightarrow> join_with [46] (take k (drop 3 tokens)))"
    "s_sub_id p = map_option (\<lambda>k. join_with [46] (drop k (drop 3 tokens))) k"
    "rx_match event_type_re (s_event_type p)"
    "\<And>sid. s_sub_id p = Some sid \<Longrightarrow> \<exists>b. utf8_encode sid = Inr b \<and> length b \<le> max_sub_id_octets"
proof -
  let ?ts = "split_on 46 s"
  from assms obtain k where k: "peel_sub_id U (?ts ! 2) (drop 3 ?ts) = Inr k"
    by (auto simp: parse_subject_def Let_def simp del: drop_drop)
  show thesis
  proof (rule that [of ?ts k])
    show "peel_sub_id U (s_domain p) (drop 3 ?ts) = Inr k"
      using assms k by (auto simp: parse_subject_def Let_def)
    show "\<exists>b. utf8_encode sid = Inr b \<and> length b \<le> max_sub_id_octets" if "s_sub_id p = Some sid" for sid
      using assms k that by (cases k) (auto simp: parse_subject_def Let_def)
  qed (use assms k in \<open>auto simp: parse_subject_def Let_def simp del: drop_drop\<close>)
qed

lemma split_list_3: "3 < length xs \<Longrightarrow> xs = [xs ! 0, xs ! 1, xs ! 2] @ drop 3 xs"
  by (cases xs; cases "tl xs"; cases "tl (tl xs)") (auto simp: numeral_eq_Suc)

lemma schema_starts: "rx_match schema_subject_re s \<Longrightarrow> split_on 46 s ! 0 = u ''wakir''"
proof -
  assume "rx_match schema_subject_re s"
  then obtain r where "s = u ''wakir'' @ 46 # r"
    by (auto simp: rx_match_iff schema_full)
  moreover have "46 \<notin> set (u ''wakir'')"
    using ident_no_dot wakir_chars by blast
  ultimately show ?thesis by (simp add: split_on_app)
qed

lemma join_rest:
  "0 < k \<Longrightarrow> k < length rest \<Longrightarrow>
     join_with [46] rest = join_with [46] (take k rest) @ [46] @ join_with [46] (drop k rest)"
proof -
  assume k: "0 < k" "k < length rest"
  then have "take k rest \<noteq> []" "drop k rest \<noteq> []" by auto
  from join_with_append [OF this, of "[46]"] show ?thesis by simp
qed

lemma parse_parts:
  assumes "parse_subject U (PStr s) = Inr p"
  shows "s = join_with [46] (subject_parts (s_env p) (s_domain p) (s_event_type p) (s_sub_id p))"
  using assms
proof (rule parse_Inr)
  fix tokens k
  assume t: "tokens = split_on 46 s" and m: "rx_match schema_subject_re s"
    and env: "s_env p = tokens ! 1" and dom: "s_domain p = tokens ! 2" and ne: "drop 3 tokens \<noteq> []"
    and peel: "peel_sub_id U (s_domain p) (drop 3 tokens) = Inr k"
    and et: "s_event_type p = (case k of None \<Rightarrow> join_with [46] (drop 3 tokens)
       | Some k \<Rightarrow> join_with [46] (take k (drop 3 tokens)))"
    and sid: "s_sub_id p = map_option (\<lambda>k. join_with [46] (drop k (drop 3 tokens))) k"
  let ?rest = "drop 3 tokens"
  have "tokens = [u ''wakir'', s_env p, s_domain p] @ ?rest"
    using split_list_3 [of tokens] ne schema_starts [OF m] t env dom by auto
  then have "s = join_with [46] ([u ''wakir'', s_env p, s_domain p] @ ?rest)"
    using t join_split [of 46 s] by metis
  also have "\<dots> = u ''wakir'' @ [46] @ s_env p @ [46] @ s_domain p @ [46] @ join_with [46] ?rest"
    using ne by (subst join_with_append) auto
  also have "join_with [46] ?rest = s_event_type p @ (case s_sub_id p of None \<Rightarrow> [] | Some x \<Rightarrow> [46] @ x)"
  proof (cases k)
    case (Some j)
    with peel have "0 < j" "j < length ?rest" by (auto dest!: peel_Some)
    from join_rest [OF this] show ?thesis using Some et sid by simp
  qed (use et sid in simp)
  finally show ?thesis by (simp add: join_subject)
qed

lemma parse_build:
  assumes "parse_subject U (PStr s) = Inr p"
  shows "build_subject U (s_env p) (s_domain p) (s_event_type p) (s_sub_id p) = Inr s"
  using assms
proof (rule parse_Inr)
  fix tokens k
  assume m: "rx_match schema_subject_re s" and env: "s_env p \<in> set reserved_envs"
    and dom: "rx_match domain_re (s_domain p)" and et: "rx_match event_type_re (s_event_type p)"
    and peel: "peel_sub_id U (s_domain p) (drop 3 tokens) = Inr k"
    and sid: "s_sub_id p = map_option (\<lambda>k. join_with [46] (drop k (drop 3 tokens))) k"
    and len: "\<And>sid. s_sub_id p = Some sid \<Longrightarrow> \<exists>b. utf8_encode sid = Inr b \<and> length b \<le> max_sub_id_octets"
  note s = parse_parts [OF assms]
  have "valid_sub_id x" if x: "s_sub_id p = Some x" for x
  proof -
    from x sid obtain j where "k = Some j" "x = join_with [46] (drop j (drop 3 tokens))" by auto
    with peel have "looks_like_sub_id_anchor U x = Inr True"
      by (auto dest!: peel_Some simp: splits_True)
    then have ne: "x \<noteq> []" "x \<noteq> [10]" using looks_like_ne by auto
    have "rx_match schema_subject_re ((u ''wakir'' @ [46] @ s_env p @ [46] @ s_domain p @ [46] @ s_event_type p @ [46]) @ x)"
      using m s x by (simp add: join_subject)
    from suffix_sub_id [OF this ne] have "rx_match sub_id_re x" .
    with len [OF x] sub_id_ascii [of x] show ?thesis by (auto simp: valid_sub_id_def)
  qed
  then have "(case s_sub_id p of None \<Rightarrow> Inr () | Some x \<Rightarrow> check_sub_id x) = Inr ()"
    by (auto simp: check_sub_id_Inr split: option.split)
  with env dom et m show ?thesis
    by (simp add: build_subject_def Let_def flip: s) (simp add: env_lower)
qed

text \<open>
  C13: \<open>roundtrip\<close> is the identity wherever it is defined: every string \<open>parse_subject\<close> accepts is
  rebuilt to exactly that string, so \<open>roundtrip\<close> raises only when parsing does.
\<close>

theorem subject_roundtrip:
  "roundtrip U (PStr s) = sbind (parse_subject U (PStr s)) (\<lambda>_. Inr s)"
proof (cases "parse_subject U (PStr s)")
  case (Inr p)
  with parse_build [OF Inr] show ?thesis by (simp add: roundtrip_def)
qed (simp add: roundtrip_def)
lemma split_on_append: "split_on d (a @ d # b) = split_on d a @ split_on d b"
proof (induction a)
  case (Cons c a)
  then show ?case by (cases "split_on d a") auto
qed simp

lemma reserved_for_mem:
  "e \<in> set (reserved_for d) \<Longrightarrow> \<exists>ets. (d, ets) \<in> set reserved_event_types \<and> e \<in> set ets"
  by (auto simp: reserved_for_def split: option.splits) (metis map_of_SomeD)

lemma split_onI:
  "s = join_with [46] ps \<Longrightarrow> ps \<noteq> [] \<Longrightarrow> \<forall>p \<in> set ps. 46 \<notin> set p \<Longrightarrow> split_on 46 s = ps"
  by (simp add: split_join)

lemma split_reserved:
  "split_on 46 (u ''aip.document.published'') = [u ''aip'', u ''document'', u ''published'']"
  "split_on 46 (u ''aip.document.rotated'') = [u ''aip'', u ''document'', u ''rotated'']"
  "split_on 46 (u ''aip.document.revoked'') = [u ''aip'', u ''document'', u ''revoked'']"
  "split_on 46 (u ''aip.document.fetched'') = [u ''aip'', u ''document'', u ''fetched'']"
  "split_on 46 (u ''cap.token.issued'') = [u ''cap'', u ''token'', u ''issued'']"
  "split_on 46 (u ''cap.token.appended'') = [u ''cap'', u ''token'', u ''appended'']"
  "split_on 46 (u ''cap.token.sealed'') = [u ''cap'', u ''token'', u ''sealed'']"
  "split_on 46 (u ''cap.token.revoked'') = [u ''cap'', u ''token'', u ''revoked'']"
  "split_on 46 (u ''cap.token.verified'') = [u ''cap'', u ''token'', u ''verified'']"
  "split_on 46 (u ''federation.ftd.published'') = [u ''federation'', u ''ftd'', u ''published'']"
  "split_on 46 (u ''federation.ftd.rotated'') = [u ''federation'', u ''ftd'', u ''rotated'']"
  "split_on 46 (u ''federation.peer.admitted'') = [u ''federation'', u ''peer'', u ''admitted'']"
  "split_on 46 (u ''federation.route.added'') = [u ''federation'', u ''route'', u ''added'']"
  "split_on 46 (u ''federation.route.removed'') = [u ''federation'', u ''route'', u ''removed'']"
  "split_on 46 (u ''wat.audit.anchor.created'') = [u ''wat'', u ''audit'', u ''anchor'', u ''created'']"
  "split_on 46 (u ''wat.leaf.federated.attached'') = [u ''wat'', u ''leaf'', u ''federated'', u ''attached'']"
  "split_on 46 (u ''agent.task.assigned'') = [u ''agent'', u ''task'', u ''assigned'']"
  "split_on 46 (u ''agent.task.accepted'') = [u ''agent'', u ''task'', u ''accepted'']"
  "split_on 46 (u ''agent.task.completed'') = [u ''agent'', u ''task'', u ''completed'']"
  "split_on 46 (u ''meta.schema.deprecation'') = [u ''meta'', u ''schema'', u ''deprecation'']"
  "split_on 46 (u ''meta.vocabulary.bumped'') = [u ''meta'', u ''vocabulary'', u ''bumped'']"
  "split_on 46 (u ''meta.capability.issued'') = [u ''meta'', u ''capability'', u ''issued'']"
  by (rule split_onI; simp add: u_def)+

text \<open>No reserved event type is a proper dotted prefix of another one of its domain.\<close>

definition unrelated :: "ustr list \<Rightarrow> bool" where
  "unrelated es \<longleftrightarrow> (\<forall>e \<in> set es. \<forall>f \<in> set es. e \<noteq> f \<longrightarrow>
     \<not> starts_with (split_on 46 e) (split_on 46 f))"

lemma unrelated_Cons:
  "unrelated (e # es) \<longleftrightarrow> unrelated es \<and> (\<forall>f \<in> set es. e \<noteq> f \<longrightarrow>
     \<not> starts_with (split_on 46 e) (split_on 46 f) \<and> \<not> starts_with (split_on 46 f) (split_on 46 e))"
  by (auto simp: unrelated_def)

lemma reserved_tokens: "\<forall>dets \<in> set reserved_event_types. unrelated (snd dets)"
proof -
  have "unrelated []" by (simp add: unrelated_def)
  then show ?thesis
    by (simp add: reserved_event_types_def unrelated_Cons split_reserved)
qed

lemma reserved_length: "\<forall>dets \<in> set reserved_event_types. \<forall>e \<in> set (snd dets). 2 \<le> length (split_on 46 e)"
  by (simp add: reserved_event_types_def split_reserved)

lemma reserved_prefix_free:
  assumes "e \<in> set (reserved_for d)" "f \<in> set (reserved_for d)"
    and "split_on 46 e @ x = split_on 46 f @ y"
  shows "e = f"
proof (rule ccontr)
  assume "e \<noteq> f"
  obtain ets where "map_of reserved_event_types d = Some ets" "e \<in> set ets" "f \<in> set ets"
    using assms(1,2) by (cases "map_of reserved_event_types d") (auto simp: reserved_for_def)
  with \<open>e \<noteq> f\<close> have "\<not> starts_with (split_on 46 e) (split_on 46 f)"
    "\<not> starts_with (split_on 46 f) (split_on 46 e)"
    using reserved_tokens by (fastforce simp: unrelated_def dest: map_of_SomeD)+
  moreover have "starts_with xs ys \<or> starts_with ys xs" if "xs @ a = ys @ b" for xs ys a b :: "ustr list"
    using that by (auto simp: starts_with_iff append_eq_append_conv2)
  ultimately show False using assms(3) by blast
qed

lemma splits_only_there:
  assumes "e \<in> set (reserved_for d)" "rest = split_on 46 e @ xs" "\<forall>t \<in> set rest. 46 \<notin> set t"
    and "0 < k" "k \<noteq> length (split_on 46 e)" "k \<le> length rest"
  shows "splits_at U d rest k = Inr False"
proof -
  have "join_with [46] (take k rest) \<notin> set (reserved_for d)"
  proof
    let ?f = "join_with [46] (take k rest)"
    assume f: "?f \<in> set (reserved_for d)"
    have "split_on 46 ?f = take k rest"
      using assms(3,4,6) by (intro split_join) (auto dest: in_set_takeD)
    then have tk: "split_on 46 ?f @ drop k rest = split_on 46 e @ xs" using assms(2) by (metis append_take_drop_id)
    with assms(1) f have "?f = e" by (metis reserved_prefix_free)
    with \<open>split_on 46 ?f = take k rest\<close> have "length (take k rest) = length (split_on 46 e)" by simp
    with assms(5,6) show False by simp
  qed
  then show ?thesis by (simp add: splits_at_def)
qed

lemma find_split_at:
  "k0 \<le> n \<Longrightarrow> 0 < k0 \<Longrightarrow> splits_at U d rest k0 = Inr True \<Longrightarrow>
     (\<And>k. 0 < k \<Longrightarrow> k \<le> n \<Longrightarrow> k \<noteq> k0 \<Longrightarrow> splits_at U d rest k = Inr False) \<Longrightarrow>
     find_split U d rest n = Inr (Some k0)"
proof (induction n)
  case (Suc n)
  show ?case
  proof (cases "k0 = Suc n")
    case True
    with Suc.prems(3) show ?thesis by simp
  next
    case False
    with Suc.prems(4) [of "Suc n"] have "splits_at U d rest (Suc n) = Inr False" by simp
    with Suc False show ?thesis by simp
  qed
qed simp

lemma find_split_none:
  "(\<And>k. 0 < k \<Longrightarrow> k \<le> n \<Longrightarrow> splits_at U d rest k = Inr False) \<Longrightarrow> find_split U d rest n = Inr None"
  by (induction n) auto

lemma peel_reserved:
  assumes "e \<in> set (reserved_for d)"
    and "\<And>x. sid = Some x \<Longrightarrow> looks_like_sub_id_anchor U x = Inr True"
    and rest: "rest = split_on 46 e @ (case sid of None \<Rightarrow> [] | Some x \<Rightarrow> split_on 46 x)"
  shows "peel_sub_id U d rest = Inr (map_option (\<lambda>_. length (split_on 46 e)) sid)"
proof -
  let ?k = "length (split_on 46 e)"
  have free: "\<forall>t \<in> set rest. 46 \<notin> set t"
    using rest by (auto split: option.splits dest: split_on_parts_free)
  note only = splits_only_there [OF assms(1) rest free]
  have k: "0 < ?k" by simp
  show ?thesis
  proof (cases sid)
    case None
    then have "\<And>k. 0 < k \<Longrightarrow> k \<le> length rest - 1 \<Longrightarrow> splits_at U d rest k = Inr False"
      using only rest by force
    moreover from this have "find_split U d rest (length rest - 1) = Inr None"
      by (intro find_split_none) auto
    ultimately show ?thesis
      using None by (simp add: peel_sub_id_def)
  next
    case (Some x)
    then have drops: "drop ?k rest = split_on 46 x" "take ?k rest = split_on 46 e"
      "length rest = ?k + length (split_on 46 x)"
      using rest by simp_all
    have pos: "0 < length (split_on 46 x)" by simp
    have at: "splits_at U d rest ?k = Inr True"
      using assms(1) assms(2) [OF Some] by (simp add: splits_True drops)
    show ?thesis
    proof (cases "length (split_on 46 x) = 1")
      case True
      with drops k at Some show ?thesis by (simp add: peel_sub_id_def)
    next
      case False
      have "2 \<le> ?k"
        using reserved_for_mem [OF assms(1)] reserved_length by fastforce
      with False pos drops have len: "4 \<le> length rest" "?k \<le> length rest - 1" by linarith+
      have "splits_at U d rest (length rest - 1) = Inr False"
        using only [of "length rest - 1"] False pos drops len by simp
      moreover have "find_split U d rest (length rest - 1) = Inr (Some ?k)"
        using len k at only by (intro find_split_at) auto
      ultimately show ?thesis using len Some by (simp add: peel_sub_id_def)
    qed
  qed
qed

text \<open>
  Parsing recovers the parts a subject was built from, when the event type is one the vocabulary
  reserves for the domain and the sub-id, if there is one, is one of the recognised anchors: a
  persona, a host slug, or a TV anchor even though its dots look like further event-type tokens.
\<close>

lemma build_then_parse:
  assumes "build_subject U env d e sid = Inr s" "e \<in> set (reserved_for d)"
    and "sid = None \<or> looks_like_sub_id_anchor U (the sid) = Inr True"
  shows "parse_subject U (PStr s)
    = Inr \<lparr>s_env = env, s_domain = d, s_event_type = e, s_sub_id = sid\<rparr>"
proof -
  have b: "buildable env d e sid" "s = join_with [46] (subject_parts env d e sid)"
    using assms(1) build_iff by blast+
  have m: "rx_match schema_subject_re s"
    using assms(1) by (auto simp: build_subject_def Let_def)
  have parts: "env \<in> set reserved_envs" "rx_full domain_re d" "rx_match event_type_re e"
    using b(1) by (auto simp: buildable_def rx_match_iff split: option.splits)
  have free: "46 \<notin> set (u ''wakir'')" "46 \<notin> set env" "46 \<notin> set d"
    using parts wakir_chars env_chars domain_chars ident_no_dot by blast+
  let ?rest = "split_on 46 e @ (case sid of None \<Rightarrow> [] | Some x \<Rightarrow> split_on 46 x)"
  have tokens: "split_on 46 s = u ''wakir'' # env # d # ?rest"
    unfolding b(2) join_subject using free
    by (cases sid) (simp_all add: split_on_app split_on_append split_on_free)
  have peel: "peel_sub_id U d ?rest = Inr (map_option (\<lambda>_. length (split_on 46 e)) sid)"
    using assms(2,3) by (intro peel_reserved) auto
  have "s \<noteq> []" using m by (auto simp: rx_match_iff schema_full u_def)
  moreover have "rx_match domain_re d" using parts(2) by (simp add: rx_match_iff)
  moreover have "\<exists>y. utf8_encode x = Inr y \<and> length y \<le> max_sub_id_octets" if "sid = Some x" for x
    using b(1) that sub_id_ascii [of x] by (auto simp: buildable_def valid_sub_id_def)
  ultimately show ?thesis
    using m parts peel tokens
    by (cases sid) (auto simp: parse_subject_def Let_def simp del: drop_drop)
qed
section \<open>Host slugs\<close>

lemma slug_char_lower: "slug_char c \<Longrightarrow> c < 128 \<and> ascii_lower c = c \<and> c \<noteq> 46"
  by (auto simp: slug_char_def lo_def dig_def ascii_lower_def)

lemma host_slug_chars:
  "rx_match host_slug_re s \<Longrightarrow> c \<in> set s \<Longrightarrow> c = 10 \<or> slug_char c"
  by (auto simp: rx_match_iff host_slug_full list_all_iff)

lemma slug_fixed: "rx_match host_slug_re s \<Longrightarrow> replace_dots (py_lower U s) = s"
proof -
  assume m: "rx_match host_slug_re s"
  have c: "c < 128 \<and> ascii_lower c = c \<and> c \<noteq> 46" if "c \<in> set s" for c
    using host_slug_chars [OF m that]
  proof
    assume "c = 10"
    then show ?thesis by (simp add: ascii_lower_def)
  qed (rule slug_char_lower)
  then have "py_lower U s = s"
    by (auto simp: py_lower_def list_all_iff intro: map_idI)
  with c show ?thesis by (auto simp: replace_dots_def intro: map_idI)
qed

lemma host_slug_Inr:
  "federation_host_slug U (PStr h) = Inr t \<longleftrightarrow>
     h \<noteq> [] \<and> t = replace_dots (py_lower U h) \<and> rx_match host_slug_re t \<and> length t \<le> max_sub_id_octets"
proof -
  have "utf8_encode x = Inr x" if "rx_match host_slug_re x" for x
    using host_slug_chars [OF that] slug_char_lower by (intro utf8_encode_ascii) fastforce
  then show ?thesis
    by (auto simp: federation_host_slug_def Let_def)
qed

text \<open>
  A host slug is a fixed point of \<open>federation_host_slug\<close>, fits the 64 octets of a sub-id, and is
  a sub-id the parser recognises as an anchor.
\<close>

lemma host_slug_idempotent:
  assumes "federation_host_slug U (PStr h) = Inr t"
  shows "federation_host_slug U (PStr t) = Inr t \<and> valid_sub_id t
    \<and> looks_like_sub_id_anchor U t = Inr True"
proof -
  from assms have t: "rx_match host_slug_re t" "length t \<le> max_sub_id_octets"
    by (auto simp: host_slug_Inr)
  then have ne: "t \<noteq> []" by (auto simp: rx_match_iff host_slug_full)
  have sub: "rx_match sub_id_re t"
    using t(1) by (auto simp: rx_match_iff host_slug_full sub_id_full list_all_iff slug_char_def sub_id_char_def)
  have dots: "46 \<notin> set t"
    using host_slug_chars [OF t(1)] slug_char_lower by fastforce
  have "rx_full federation_host_slug_re x" if "rx_full host_slug_re x" for x
    using that unfolding federation_host_slug_re_def host_slug_re_def
    by (subst full_Seq) (metis append_Nil2 nullable.simps(6) rx_full.simps(1))
  then have fed: "rx_match federation_host_slug_re t"
    using t(1) by (auto simp: rx_match_iff)
  have "\<not> starts_with (u ''tv.w.'') t"
  proof
    assume "starts_with (u ''tv.w.'') t"
    then have "46 \<in> set t" by (auto simp: starts_with_iff u_def)
    with dots show False ..
  qed
  then have "looks_like_sub_id_anchor U t = Inr True"
    using fed dots by (simp add: looks_like_sub_id_anchor_def tv_anchor_def)
  with t ne sub show ?thesis
    by (simp add: host_slug_Inr slug_fixed valid_sub_id_def)
qed

section \<open>Streams and consumers\<close>

text \<open>
  What NATS promises of a subject filter, as far as it is needed here: if a filter matches a
  subject then every token of the filter that is neither \<open>*\<close> nor \<open>>\<close>, and has no \<open>>\<close> before it, is
  the token of the subject at its place.
\<close>

definition literal_tokens :: "(ustr list \<Rightarrow> ustr list \<Rightarrow> bool) \<Rightarrow> bool" where
  "literal_tokens matches \<longleftrightarrow>
     (\<forall>ps ss. matches ps ss \<longrightarrow>
        (\<forall>i < length ps. ps ! i \<notin> {[42], [62]} \<and> [62] \<notin> set (take i ps) \<longrightarrow>
           i < length ss \<and> ss ! i = ps ! i))"

lemma take3: "2 < length xs \<Longrightarrow> set (take 2 xs) = {xs ! 0, xs ! 1}"
  by (cases xs; cases "tl xs") (auto simp: numeral_2_eq_2)

lemma not_wild: "env \<in> set reserved_envs \<Longrightarrow> env \<notin> {[42], [62]}" "u ''wakir'' \<notin> {[42], [62]}"
  by (auto simp: env_cases u_def)

text \<open>
  A stream whose pattern passes \<open>validate_stream_pattern\<close> captures no subject of another
  organisation, environment or domain: whatever the matcher, if it honours literal tokens then
  every matching subject starts with \<open>wakir\<close>, the pattern's reserved environment and its domain.
\<close>

lemma stream_pattern_pinned:
  assumes "validate_stream_pattern (PStr p) = Inr ()" "literal_tokens matches"
    and "matches (split_on 46 p) (split_on 46 s)"
  shows "take 3 (split_on 46 s) = [u ''wakir'', split_on 46 p ! 1, split_on 46 p ! 2]
    \<and> split_on 46 p ! 1 \<in> set reserved_envs"
proof -
  let ?ps = "split_on 46 p" and ?ss = "split_on 46 s"
  from assms(1) have p: "?ps ! 0 = u ''wakir''" "4 \<le> length ?ps" "?ps ! 1 \<in> set reserved_envs"
    "?ps ! 2 \<notin> {[42], [62]}"
    by (auto simp: validate_stream_pattern_def Let_def)
  have *: "i < length ?ss \<and> ?ss ! i = ?ps ! i"
    if "i < length ?ps" "?ps ! i \<notin> {[42], [62]}" "[62] \<notin> set (take i ?ps)" for i
    using assms(2,3) that by (auto simp: literal_tokens_def)
  have t1: "set (take 1 ?ps) = {?ps ! 0}"
    by (cases ?ps) auto
  have 0: "0 < length ?ss \<and> ?ss ! 0 = u ''wakir''"
    using * [of 0] p not_wild(2) by fastforce
  have 1: "1 < length ?ss \<and> ?ss ! 1 = ?ps ! 1"
    using * [of 1] p not_wild t1 by force
  have 2: "2 < length ?ss \<and> ?ss ! 2 = ?ps ! 2"
  proof (rule *)
    show "[62] \<notin> set (take 2 ?ps)"
      using p not_wild(1) [OF p(3)] not_wild(2) take3 [of ?ps] by force
  qed (use p in auto)
  have "take 3 ?ss = [?ss ! 0, ?ss ! 1, ?ss ! 2]"
    using 2 by (cases ?ss; cases "tl ?ss"; cases "tl (tl ?ss)") (auto simp: numeral_eq_Suc)
  with 0 1 2 p show ?thesis by simp
qed

text \<open>
  The check of a consumer filter pins the environment too, but a \<open>>\<close> in the place of the domain
  passes it, and so does \<open>*\<close> as the whole event type.
\<close>

lemma consumer_filter_env:
  "validate_consumer_filter (PStr p) = Inr () \<Longrightarrow>
     split_on 46 p ! 0 = u ''wakir'' \<and> split_on 46 p ! 1 \<in> set reserved_envs \<and> split_on 46 p ! 2 \<noteq> [42]"
  by (auto simp: validate_consumer_filter_def Let_def)

lemma split_filters:
  "split_on 46 (u ''wakir.dev.>.x'') = [u ''wakir'', u ''dev'', u ''>'', u ''x'']"
  "split_on 46 (u ''wakir.dev.agent.*'') = [u ''wakir'', u ''dev'', u ''agent'', u ''*'']"
  by (rule split_onI; simp add: u_def)+

text \<open>
  \<open>validate_consumer_filter\<close> accepts filters its rules W4 and W6 describe as forbidden: one whose
  domain is the full wildcard, and one whose whole event type is \<open>*\<close>.
\<close>

lemma consumer_filter_gaps:
  "validate_consumer_filter (PStr (u ''wakir.dev.>.x'')) = Inr ()
   \<and> validate_consumer_filter (PStr (u ''wakir.dev.agent.*'')) = Inr ()"
  unfolding validate_consumer_filter_def
  by (simp add: Let_def split_filters reserved_envs_def) (simp add: u_def)

section \<open>Errors\<close>

text \<open>
  Every error of building and parsing is a \<open>ValueError\<close>; the subject errors carry the rule. A TV
  anchor of more than 4300 digits escapes as the plain \<open>ValueError\<close> of \<open>int\<close>.
\<close>

lemma tv_anchor_Inl: "tv_anchor U x = Inl e \<Longrightarrow> e = ValueErr"
  by (auto simp: tv_anchor_def Let_def split: option.splits if_splits)

lemma looks_like_Inl: "looks_like_sub_id_anchor U x = Inl e \<Longrightarrow> e = ValueErr"
  by (auto simp: looks_like_sub_id_anchor_def sbind_Inl split: if_splits dest: tv_anchor_Inl)

lemma find_split_Inl: "find_split U d rest n = Inl e \<Longrightarrow> e = ValueErr"
  by (induction n) (auto simp: sbind_Inl splits_at_def split: if_splits dest: looks_like_Inl)

lemma peel_Inl: "peel_sub_id U d rest = Inl e \<Longrightarrow> e = ValueErr"
  by (auto simp: peel_sub_id_def sbind_Inl splits_at_def split: if_splits
      dest: looks_like_Inl find_split_Inl)

lemma check_sub_id_Inl: "check_sub_id s = Inl e \<Longrightarrow> is_value_error e"
  by (auto simp: check_sub_id_def sbind_Inl dest: utf8_encode_err)

lemma build_Inl: "build_subject U env d e sid = Inl x \<Longrightarrow> is_value_error x"
  by (auto simp: build_subject_def sbind_Inl Let_def split: option.splits dest: check_sub_id_Inl)

lemma parse_Inl: "parse_subject U v = Inl x \<Longrightarrow> is_value_error x"
  by (cases v)
    (auto simp: parse_subject_def sbind_Inl Let_def split: option.splits
      dest!: peel_Inl utf8_encode_err)

text \<open>
  No call of \<open>build_subject\<close>, \<open>parse_subject\<close>, \<open>roundtrip\<close> or \<open>schema_for_subject\<close> raises
  anything but a \<open>ValueError\<close>, whatever its arguments.
\<close>

lemma subject_errors:
  "(case build_subject U env d e sid of Inr s \<Rightarrow> True | Inl x \<Rightarrow> is_value_error x)
   \<and> (case parse_subject U v of Inr p \<Rightarrow> True | Inl x \<Rightarrow> is_value_error x)
   \<and> (case roundtrip U v of Inr s \<Rightarrow> True | Inl x \<Rightarrow> is_value_error x)
   \<and> (case schema_for_subject U v of Inr h \<Rightarrow> True | Inl x \<Rightarrow> is_value_error x)"
  by (auto simp: roundtrip_def schema_for_subject_def sbind_Inl Let_def split: sum.split if_splits
      dest: build_Inl parse_Inl)

section \<open>Concrete subjects\<close>

definition ascii_only :: unicode where
  "ascii_only = \<lparr>lower_other = (\<lambda>s. s), digit_other = (\<lambda>_. None)\<rparr>"

text \<open>The trailing newline that \<open>$\<close> lets through.\<close>

lemma build_newline:
  "build_subject U (u ''dev'') (u ''agent'') (u ''a'' @ [10]) None = Inr (u ''wakir.dev.agent.a'' @ [10])"
  by (simp add: build_iff buildable_def env_cases domain_full rx_match_iff event_type_full
      subject_parts_def) (simp add: u_def lo_def ident_rest_def)

lemma split_tv: "split_on 46 (u ''tv.w.2.issued'') = [u ''tv'', u ''w'', u ''2'', u ''issued'']"
  by (rule split_onI; simp add: u_def)

lemma tv_example: "tv_anchor U (Some (u ''tv.w.2.issued'')) = Inr (Some (2, Some (u ''issued'')))"
  by (simp add: tv_anchor_def u_def py_digit_def Let_def tv_step_def ends_with_def slug_char_def
      lo_def digits_value_def)

lemma tv_looks_like: "looks_like_sub_id_anchor U (u ''tv.w.2.issued'') = Inr True"
  by (simp add: looks_like_sub_id_anchor_def tv_example)

lemma tv_build:
  "build_subject ascii_only (u ''dev'') (u ''agent'') (u ''agent.task.assigned'') (Some (u ''tv.w.2.issued''))
    = Inr (u ''wakir.dev.agent.agent.task.assigned.tv.w.2.issued'')"
  by (simp add: build_iff buildable_def env_cases domain_full rx_match_iff event_type_full
      subject_parts_def valid_sub_id_def sub_id_full max_sub_id_octets_def)
    (simp add: u_def lo_def ident_rest_def event_rest_def sub_id_char_def dig_def)

lemma build_then_parse_witness:
  "parse_subject ascii_only (PStr (u ''wakir.dev.agent.agent.task.assigned.tv.w.2.issued''))
    = Inr \<lparr>s_env = u ''dev'', s_domain = u ''agent'', s_event_type = u ''agent.task.assigned'',
        s_sub_id = Some (u ''tv.w.2.issued'')\<rparr>"
  by (rule build_then_parse [OF tv_build])
    (simp_all add: reserved_for_def reserved_event_types_def tv_looks_like)

lemma slug_example: "federation_host_slug ascii_only (PStr (u ''Hub.Example'')) = Inr (u ''hub-example'')"
  by (simp add: host_slug_Inr rx_match_iff host_slug_full max_sub_id_octets_def)
    (simp add: u_def replace_dots_def py_lower_def ascii_lower_def slug_char_def lo_def)

lemma host_slug_idempotent_witness:
  "federation_host_slug ascii_only (PStr (u ''hub-example'')) = Inr (u ''hub-example'')"
  using host_slug_idempotent [OF slug_example] by simp

text \<open>A matcher for the witness: equal tokens, up to a final full wildcard.\<close>

fun token_match :: "ustr list \<Rightarrow> ustr list \<Rightarrow> bool" where
  "token_match [] ss = (ss = [])"
| "token_match (p # ps) [] = False"
| "token_match (p # ps) (s # ss) = (p = [62] \<or> ((p = [42] \<or> p = s) \<and> token_match ps ss))"

lemma token_match_literal: "literal_tokens token_match"
  unfolding literal_tokens_def
proof (intro allI impI)
  fix ps ss i
  assume "token_match ps ss" "i < length ps" "ps ! i \<notin> {[42], [62]} \<and> [62] \<notin> set (take i ps)"
  then show "i < length ss \<and> ss ! i = ps ! i"
  proof (induction ps ss arbitrary: i rule: token_match.induct)
    case (3 p ps s ss)
    then show ?case by (cases i) auto
  qed auto
qed

lemma stream_pattern_pinned_witness:
  "take 3 (split_on 46 (u ''wakir.dev.agent.a'')) = [u ''wakir'', u ''dev'', u ''agent'']"
proof -
  have ps: "split_on 46 (u ''wakir.dev.agent.>'') = [u ''wakir'', u ''dev'', u ''agent'', u ''>'']"
    and ss: "split_on 46 (u ''wakir.dev.agent.a'') = [u ''wakir'', u ''dev'', u ''agent'', u ''a'']"
    by (rule split_onI; simp add: u_def)+
  have "validate_stream_pattern (PStr (u ''wakir.dev.agent.>'')) = Inr ()"
    by (simp add: validate_stream_pattern_def Let_def ps reserved_envs_def) (simp add: u_def)
  moreover have "token_match (split_on 46 (u ''wakir.dev.agent.>'')) (split_on 46 (u ''wakir.dev.agent.a''))"
    by (simp add: ps ss) (simp add: u_def)
  ultimately show ?thesis
    using stream_pattern_pinned [OF _ token_match_literal] ps by force
qed

end
