(* ===== verification/NatsAdapter.thy ===== *)
theory NatsAdapter
  imports Pytext
begin

text \<open>
  The NATS connection adapters of \<open>adapters/real_nats_adapter/adapter.py\<close>: the exceptions, the
  status, the in-process mock and the live adapter. The NATS client library, the TCP probe and the
  process environment are parameters (record \<open>nats_lib\<close>); texts that \<open>repr\<close> gives are a function
  of the environment.
\<close>

section \<open>Exceptions\<close>

text \<open>
  The classes the code tells apart: \<open>NatsAdapterAuthenticationError\<close>, \<open>NatsAdapterUnavailable\<close>,
  any other \<open>NatsAdapterError\<close>, and everything else. \<open>cx_exception\<close> is false for those
  \<open>BaseException\<close>s that \<open>except Exception\<close> lets through (cancellation, keyboard interrupt).
\<close>

datatype exn_kind = KAuth | KUnavailable | KAdapter | KOther

datatype conn_exn =
  ConnExn (cx_kind: exn_kind) (cx_cls: string) (cx_msg: ustr) (cx_exception: bool)

definition is_adapter_error :: "conn_exn \<Rightarrow> bool" where
  "is_adapter_error e \<longleftrightarrow> cx_kind e \<noteq> KOther"

definition unavailable :: "ustr \<Rightarrow> conn_exn" where
  "unavailable m = ConnExn KUnavailable ''NatsAdapterUnavailable'' m True"

definition auth_error :: "ustr \<Rightarrow> conn_exn" where
  "auth_error m = ConnExn KAuth ''NatsAdapterAuthenticationError'' m True"

definition adapter_error :: "ustr \<Rightarrow> conn_exn" where
  "adapter_error m = ConnExn KAdapter ''NatsAdapterError'' m True"

section \<open>Status\<close>

record adapter_status =
  adapter_kind :: ustr
  st_connected :: bool
  st_server_url :: "ustr option"
  st_auth_mode :: ustr
  live_mode_marker :: "ustr option"

text \<open>A dynamically typed argument: what \<open>publish\<close> can be handed.\<close>

datatype pub_arg = AStr ustr | ABytes octets | AOther

text \<open>The checks of the arguments that both adapters make, with their own names in the texts.\<close>

definition check_publish :: "string \<Rightarrow> pub_arg \<Rightarrow> pub_arg \<Rightarrow> conn_exn + ustr \<times> octets" where
  "check_publish who subject payload =
     (case subject of
        AStr s \<Rightarrow>
          if s = [] then Inl (adapter_error (u who @ u '': subject must be non-empty str''))
          else (case payload of
                  ABytes b \<Rightarrow> Inr (s, b)
                | _ \<Rightarrow> Inl (adapter_error (u who @ u '': payload must be bytes'')))
      | _ \<Rightarrow> Inl (adapter_error (u who @ u '': subject must be non-empty str'')))"

definition before_connect :: "string \<Rightarrow> ustr" where
  "before_connect who =
     u who @ u '': publish before connect '' @ [8212] @ u '' call .connect() first''"

section \<open>The mock\<close>

record mock_adapter =
  mk_server_url :: "ustr option"
  mk_auth_mode :: ustr
  mk_connected :: bool
  mk_published :: "(ustr \<times> octets) list"

definition new_mock :: mock_adapter where
  "new_mock = \<lparr>mk_server_url = None, mk_auth_mode = u ''mock-jwt'', mk_connected = False,
     mk_published = []\<rparr>"

definition mock_connect :: "mock_adapter \<Rightarrow> mock_adapter" where
  "mock_connect m = m\<lparr>mk_connected := True\<rparr>"

definition mock_close :: "mock_adapter \<Rightarrow> mock_adapter" where
  "mock_close m = m\<lparr>mk_connected := False\<rparr>"

definition mock_publish :: "pub_arg \<Rightarrow> pub_arg \<Rightarrow> mock_adapter \<Rightarrow> (conn_exn + unit) \<times> mock_adapter" where
  "mock_publish subject payload m =
     (if \<not> mk_connected m then (Inl (unavailable (before_connect ''MockNatsConnectionAdapter'')), m)
      else (case check_publish ''MockNatsConnectionAdapter'' subject payload of
              Inl e \<Rightarrow> (Inl e, m)
            | Inr sb \<Rightarrow> (Inr (), m\<lparr>mk_published := mk_published m @ [sb]\<rparr>)))"

definition mock_status :: "mock_adapter \<Rightarrow> adapter_status" where
  "mock_status m = \<lparr>adapter_kind = u ''mock'', st_connected = mk_connected m,
     st_server_url = mk_server_url m, st_auth_mode = mk_auth_mode m, live_mode_marker = None\<rparr>"

section \<open>The live adapter\<close>

text \<open>
  The outside world \<open>'w\<close>: the TCP probe of a URL, whether \<open>nats-py\<close> imports (\<open>Some\<close> text of the
  \<open>ImportError\<close> otherwise), and the operations of its client \<open>'c\<close>.
\<close>

record ('c, 'w) nats_lib =
  nl_probe :: "ustr \<Rightarrow> 'w \<Rightarrow> bool \<times> 'w"
  nl_import_error :: "ustr option"
  nl_connect :: "ustr \<Rightarrow> 'w \<Rightarrow> (conn_exn + 'c) \<times> 'w"
  nl_close :: "'c \<Rightarrow> 'w \<Rightarrow> (conn_exn + unit) \<times> 'w"
  nl_publish :: "'c \<Rightarrow> ustr \<Rightarrow> octets \<Rightarrow> 'w \<Rightarrow> (conn_exn + unit) \<times> 'w"
  nl_chars :: unicode
  nl_repr :: "ustr \<Rightarrow> ustr"

record 'c real_adapter =
  ra_server_url :: ustr
  ra_client :: "'c option"
  ra_connected :: bool
  ra_auth_mode :: ustr

text \<open>\<open>_resolve_auth_mode\<close>, of the value of \<open>SPIRE_AGENT_SOCKET\<close>.\<close>

definition resolve_auth_mode :: "unicode \<Rightarrow> ustr option \<Rightarrow> ustr" where
  "resolve_auth_mode U socket =
     (let normalised = py_lower U (py_strip (case socket of None \<Rightarrow> [] | Some s \<Rightarrow> s))
      in if normalised = [] \<or> normalised = u ''none'' then u ''mock-jwt'' else u ''live-spiffe'')"

definition new_real :: "unicode \<Rightarrow> ustr option \<Rightarrow> ustr option \<Rightarrow> ustr option \<Rightarrow> 'c real_adapter" where
  "new_real U nats_url_env socket_env url =
     \<lparr>ra_server_url = (case url of
          Some x \<Rightarrow> x
        | None \<Rightarrow> (case nats_url_env of Some x \<Rightarrow> x | None \<Rightarrow> u ''nats://localhost:4222'')),
      ra_client = None, ra_connected = False, ra_auth_mode = resolve_auth_mode U socket_env\<rparr>"

definition probe_failed :: "('c, 'w) nats_lib \<Rightarrow> ustr \<Rightarrow> ustr" where
  "probe_failed N url =
     u ''RealNatsConnectionAdapter: TCP probe of '' @ nl_repr N url @ u '' failed '' @ [8212]
     @ u '' NATS server not reachable. Sandbox: localhost:4222 ist Operator-Hand-Fedora-Host.''"

definition spiffe_blocked :: ustr where
  "spiffe_blocked =
     u ''RealNatsConnectionAdapter: auth_mode=live-spiffe is Operator-Hand-blocked (closeout marker M-2: ''
     @ u ''SPIRE-Live Phase-2.3+ pending DevOps track). ''
     @ u ''Set SPIRE_AGENT_SOCKET=none to fall back to mock-jwt.''"

text \<open>The mapping of upstream errors of a connect.\<close>

definition map_connect_error :: "unicode \<Rightarrow> conn_exn \<Rightarrow> conn_exn" where
  "map_connect_error U e =
     (if \<not> cx_exception e then e
      else
        (let err_msg = py_lower U (cx_msg e) in
         if is_infix_of (u ''auth'') err_msg \<or> is_infix_of (u ''permission'') err_msg
         then auth_error (u ''RealNatsConnectionAdapter: NATS auth rejected '' @ [8212] @ u '' '' @ cx_msg e)
         else unavailable (u ''RealNatsConnectionAdapter: NATS connect failed '' @ [8212] @ u '' '' @ cx_msg e)))"

definition real_connect ::
    "('c, 'w) nats_lib \<Rightarrow> 'c real_adapter \<Rightarrow> 'w \<Rightarrow> (conn_exn + unit) \<times> 'c real_adapter \<times> 'w" where
  "real_connect N a w =
     (case nl_probe N (ra_server_url a) w of
        (up, w1) \<Rightarrow>
          if \<not> up then (Inl (unavailable (probe_failed N (ra_server_url a))), a, w1)
          else if ra_auth_mode a = u ''live-spiffe'' then (Inl (auth_error spiffe_blocked), a, w1)
          else
            (case nl_import_error N of
               Some t \<Rightarrow>
                 (Inl (unavailable (u ''RealNatsConnectionAdapter: nats-py not installed ('' @ t
                    @ u ''). Install ``nats-py`` or use MockNatsConnectionAdapter.'')), a, w1)
             | None \<Rightarrow>
                 (case nl_connect N (ra_server_url a) w1 of
                    (Inl e, w2) \<Rightarrow> (Inl (map_connect_error (nl_chars N) e), a, w2)
                  | (Inr c, w2) \<Rightarrow> (Inr (), a\<lparr>ra_client := Some c, ra_connected := True\<rparr>, w2))))"

text \<open>Errors of the client's close are dropped; those \<open>except Exception\<close> lets through are not.\<close>

definition real_close ::
    "('c, 'w) nats_lib \<Rightarrow> 'c real_adapter \<Rightarrow> 'w \<Rightarrow> (conn_exn + unit) \<times> 'c real_adapter \<times> 'w" where
  "real_close N a w =
     (case ra_client a of
        None \<Rightarrow> (Inr (), a\<lparr>ra_client := None, ra_connected := False\<rparr>, w)
      | Some c \<Rightarrow>
          (case nl_close N c w of
             (Inl e, w1) \<Rightarrow>
               if cx_exception e then (Inr (), a\<lparr>ra_client := None, ra_connected := False\<rparr>, w1)
               else (Inl e, a, w1)
           | (Inr x, w1) \<Rightarrow> (Inr (), a\<lparr>ra_client := None, ra_connected := False\<rparr>, w1)))"

definition real_publish ::
    "('c, 'w) nats_lib \<Rightarrow> pub_arg \<Rightarrow> pub_arg \<Rightarrow> 'c real_adapter \<Rightarrow> 'w \<Rightarrow> (conn_exn + unit) \<times> 'w" where
  "real_publish N subject payload a w =
     (case (ra_connected a, ra_client a) of
        (True, Some c) \<Rightarrow>
          (case check_publish ''RealNatsConnectionAdapter'' subject payload of
             Inl e \<Rightarrow> (Inl e, w)
           | Inr (s, b) \<Rightarrow>
               (case nl_publish N c s b w of
                  (Inl e, w1) \<Rightarrow>
                    (if cx_exception e
                     then (Inl (adapter_error (u ''RealNatsConnectionAdapter: publish failed '' @ [8212]
                        @ u '' '' @ cx_msg e)), w1)
                     else (Inl e, w1))
                | (Inr x, w1) \<Rightarrow> (Inr (), w1)))
      | _ \<Rightarrow> (Inl (unavailable (before_connect ''RealNatsConnectionAdapter'')), w))"

definition real_status :: "'c real_adapter \<Rightarrow> adapter_status" where
  "real_status a = \<lparr>adapter_kind = u ''live'', st_connected = ra_connected a,
     st_server_url = Some (ra_server_url a), st_auth_mode = ra_auth_mode a,
     live_mode_marker = Some (u ''sprint-8-tag-1-real-adapter-mirror'')\<rparr>"

section \<open>The error contract\<close>

text \<open>
  An error of an adapter is in the adapter's hierarchy, or it is one that \<open>except Exception\<close> does not
  catch.
\<close>

definition in_contract :: "conn_exn \<Rightarrow> bool" where
  "in_contract e \<longleftrightarrow> is_adapter_error e \<or> \<not> cx_exception e"

lemma contract_made [simp]:
  "in_contract (unavailable m)" "in_contract (auth_error m)" "in_contract (adapter_error m)"
  by (simp_all add: in_contract_def is_adapter_error_def unavailable_def auth_error_def adapter_error_def)

lemma contract_mapped [simp]: "in_contract (map_connect_error U e)"
  by (simp add: map_connect_error_def Let_def) (simp add: in_contract_def)

lemma check_publish_contract: "check_publish who s p = Inl e \<Longrightarrow> in_contract e"
  by (auto simp: check_publish_def split: pub_arg.splits if_splits)

lemma real_connect_contract: "real_connect N a w = (Inl e, a', w') \<Longrightarrow> in_contract e \<and> a' = a"
  by (auto simp: real_connect_def split: prod.splits if_splits option.splits sum.splits)

lemma real_publish_contract: "real_publish N s p a w = (Inl e, w') \<Longrightarrow> in_contract e"
  by (auto simp: real_publish_def in_contract_def [of "ConnExn k c m x" for k c m x]
      split: prod.splits if_splits option.splits sum.splits bool.splits dest: check_publish_contract)
    (simp_all add: in_contract_def)

text \<open>The state of a live adapter: connected exactly when it holds a client.\<close>

definition real_inv :: "'c real_adapter \<Rightarrow> bool" where
  "real_inv a \<longleftrightarrow> (ra_connected a \<longleftrightarrow> ra_client a \<noteq> None)"

lemma real_inv_new: "real_inv (new_real U n s url)"
  by (simp add: real_inv_def new_real_def)

lemma real_inv_connect: "real_inv a \<Longrightarrow> real_connect N a w = (r, a', w') \<Longrightarrow> real_inv a'"
  by (auto simp: real_inv_def real_connect_def split: prod.splits if_splits option.splits sum.splits)

lemma real_inv_close: "real_inv a \<Longrightarrow> real_close N a w = (r, a', w') \<Longrightarrow> real_inv a'"
  by (auto simp: real_inv_def real_close_def split: prod.splits if_splits option.splits sum.splits)

end
