(* ===== verification/ConnectRetry.thy ===== *)
theory ConnectRetry
  imports NatsAdapter Complex_Main
begin

text \<open>
  The retry layer around the NATS connect, \<open>adapters/real_nats_adapter/connect_retry.py\<close>.

  The callables the layer is given (clock, sleep, jitter source, cache view and the connect
  itself) act on a world the layer does not own; the record \<open>retry_ops\<close> holds them, and the
  locale \<open>retry_env\<close> states what the standard library documents of them: the clock does not run
  backwards, a sleep takes at least its argument, and the jitter lies within its bounds.

  Seconds are rational numbers: the rounding of the double arithmetic is not modelled, nor are
  NaN and infinite schedules. Cancellation of the task while it sleeps is not modelled.
\<close>

section \<open>Reasons\<close>

datatype reason =
  TCP_UNREACHABLE | NATS_PY_CONNECT_FAIL | AUTH_REJECTED | JWT_CACHE_COLD | UNKNOWN_TRANSIENT
  | SUCCESS

definition classify_failure :: "unicode \<Rightarrow> conn_exn \<Rightarrow> reason" where
  "classify_failure U e =
     (if cx_kind e = KAuth then
        (if is_infix_of (u ''JwtSvidCache is empty'') (cx_msg e)
           \<or> is_infix_of (u ''cache-cold'') (py_lower U (cx_msg e))
         then JWT_CACHE_COLD else AUTH_REJECTED)
      else if cx_kind e = KUnavailable then
        (if is_infix_of (u ''TCP probe'') (cx_msg e) then TCP_UNREACHABLE else NATS_PY_CONNECT_FAIL)
      else if cx_cls e = ''NatsJwtCallbackCacheEmpty'' then JWT_CACHE_COLD
      else if cx_cls e = ''NatsJwtCallbackSvidExpired'' then AUTH_REJECTED
      else UNKNOWN_TRANSIENT)"

section \<open>The attempt log\<close>

record attempt_record =
  attempt_index :: nat
  attempt_reason :: reason
  error_repr :: ustr
  elapsed_seconds :: rat
  sleep_before_next_seconds :: rat

record attempt_log =
  attempts :: "attempt_record list"
  succeeded :: bool
  total_elapsed_seconds :: rat
  final_error_repr :: ustr

definition new_log :: attempt_log where
  "new_log = \<lparr>attempts = [], succeeded = False, total_elapsed_seconds = 0, final_error_repr = []\<rparr>"

definition log_record :: "attempt_record \<Rightarrow> attempt_log \<Rightarrow> attempt_log" where
  "log_record e l =
     l\<lparr>attempts := attempts l @ [e],
       total_elapsed_seconds :=
         total_elapsed_seconds l + (elapsed_seconds e + sleep_before_next_seconds e)\<rparr>"

definition attempt_count :: "attempt_log \<Rightarrow> nat" where
  "attempt_count l = length (attempts l)"

definition log_reasons :: "attempt_log \<Rightarrow> reason list" where
  "log_reasons l = map attempt_reason (attempts l)"

section \<open>The injected callables\<close>

record 'w retry_ops =
  op_clock :: "'w \<Rightarrow> rat \<times> 'w"
  op_sleep :: "rat \<Rightarrow> 'w \<Rightarrow> 'w"
  op_uniform :: "rat \<Rightarrow> rat \<Rightarrow> 'w \<Rightarrow> rat \<times> 'w"
  op_ready :: "'w \<Rightarrow> bool \<times> 'w"
  op_connect :: "'w \<Rightarrow> conn_exn option \<times> 'w"

text \<open>
  \<open>seconds_text\<close> is the text an f-string gives a number of seconds, \<open>exn_repr\<close> the \<open>repr\<close> of an
  exception.
\<close>

record retry_config =
  schedule :: "rat list"
  jitter_factor :: rat
  has_jwt_cache :: bool
  jwt_cache_wait_seconds :: rat
  jwt_cache_poll_interval_seconds :: rat
  chars :: unicode
  seconds_text :: "rat \<Rightarrow> ustr"
  exn_repr :: "conn_exn \<Rightarrow> ustr"

definition default_retry_schedule :: "rat list" where
  "default_retry_schedule = [1/4, 1/2, 1, 2, 4]"

definition default_jitter_factor :: rat where
  "default_jitter_factor = 1/5"

definition default_jwt_cache_wait_seconds :: rat where
  "default_jwt_cache_wait_seconds = 1"

section \<open>Delays and the cache wait\<close>

datatype retry_error = RetryValueError | Reraised conn_exn

definition jittered_delay :: "'w retry_ops \<Rightarrow> rat \<Rightarrow> rat \<Rightarrow> 'w \<Rightarrow> (retry_error + rat) \<times> 'w" where
  "jittered_delay ops base jitter w =
     (if \<not> (0 \<le> jitter \<and> jitter < 1) then (Inl RetryValueError, w)
      else if base < 0 then (Inl RetryValueError, w)
      else (case op_uniform ops (base * (1 - jitter)) (base * (1 + jitter)) w of
              (d, w') \<Rightarrow> (Inr (max 0 d), w')))"

text \<open>
  The polling loop of \<open>_wait_for_jwt_cache\<close>. Whether it ends depends on the clock it is given, so
  it is a partial function: \<open>None\<close> is a loop that does not end.
\<close>

partial_function (option) poll_cache ::
    "'w retry_ops \<Rightarrow> rat \<Rightarrow> rat \<Rightarrow> 'w \<Rightarrow> (bool \<times> 'w) option" where
  "poll_cache ops deadline interval w =
     (case op_clock ops w of
        (t, w1) \<Rightarrow>
          if t < deadline then
            (case op_ready ops (op_sleep ops interval w1) of
               (ready, w2) \<Rightarrow>
                 if ready then Some (True, w2) else poll_cache ops deadline interval w2)
          else Some (False, w1))"

definition wait_for_jwt_cache :: "'w retry_ops \<Rightarrow> rat \<Rightarrow> rat \<Rightarrow> 'w \<Rightarrow> (bool \<times> 'w) option" where
  "wait_for_jwt_cache ops budget interval w =
     (case op_clock ops w of
        (t, w1) \<Rightarrow>
          (case op_ready ops w1 of
             (ready, w2) \<Rightarrow>
               if ready then Some (True, w2) else poll_cache ops (t + budget) interval w2))"

section \<open>The orchestrator\<close>

text \<open>
  One iteration of the loop of \<open>connect_with_retry\<close>; \<open>sched\<close> is the schedule from this attempt on,
  empty at the last attempt. \<open>Done\<close> is a return or a raise, \<open>Again\<close> a \<open>continue\<close>. (When an exception is
  raised again, the log entry made for it goes with the log, which the caller never receives.)
\<close>

datatype step = Done "retry_error + attempt_log" | Again attempt_log

definition next_delay ::
    "'w retry_ops \<Rightarrow> retry_config \<Rightarrow> rat list \<Rightarrow> 'w \<Rightarrow> (retry_error + rat) \<times> 'w" where
  "next_delay ops cfg sched w =
     (case sched of [] \<Rightarrow> (Inr 0, w) | d # _ \<Rightarrow> jittered_delay ops d (jitter_factor cfg) w)"

definition sleep_positive :: "'w retry_ops \<Rightarrow> rat \<Rightarrow> 'w \<Rightarrow> 'w" where
  "sleep_positive ops s w = (if 0 < s then op_sleep ops s w else w)"

definition cold_message :: "retry_config \<Rightarrow> ustr" where
  "cold_message cfg = u ''JwtCacheReadyView remained cold after ''
     @ seconds_text cfg (jwt_cache_wait_seconds cfg) @ u ''s poll budget''"

definition cold_attempt ::
    "'w retry_ops \<Rightarrow> retry_config \<Rightarrow> nat \<Rightarrow> rat list \<Rightarrow> attempt_log \<Rightarrow> 'w \<Rightarrow> step \<times> 'w" where
  "cold_attempt ops cfg i sched l w =
     (case next_delay ops cfg sched w of
        (Inl e, w1) \<Rightarrow> (Done (Inl e), w1)
      | (Inr s, w1) \<Rightarrow>
          (let l1 = log_record \<lparr>attempt_index = i, attempt_reason = JWT_CACHE_COLD,
                 error_repr = cold_message cfg, elapsed_seconds = jwt_cache_wait_seconds cfg,
                 sleep_before_next_seconds = s\<rparr> l;
               w2 = sleep_positive ops s w1;
               l2 = (if sched = [] then l1\<lparr>final_error_repr := cold_message cfg\<rparr> else l1)
           in (Again l2, w2)))"

definition connect_attempt ::
    "'w retry_ops \<Rightarrow> retry_config \<Rightarrow> nat \<Rightarrow> rat list \<Rightarrow> attempt_log \<Rightarrow> 'w \<Rightarrow> step \<times> 'w" where
  "connect_attempt ops cfg i sched l w =
     (let (t0, w1) = op_clock ops w; (out, w2) = op_connect ops w1; (t1, w3) = op_clock ops w2;
          record_of = (\<lambda>r msg s. \<lparr>attempt_index = i, attempt_reason = r, error_repr = msg,
             elapsed_seconds = t1 - t0, sleep_before_next_seconds = s\<rparr>)
      in case out of
           None \<Rightarrow> (Done (Inr ((log_record (record_of SUCCESS [] 0) l)\<lparr>succeeded := True\<rparr>)), w3)
         | Some e \<Rightarrow>
             (let r = classify_failure (chars cfg) e in
              if r = UNKNOWN_TRANSIENT \<and> \<not> is_adapter_error e then (Done (Inl (Reraised e)), w3)
              else (case next_delay ops cfg sched w3 of
                      (Inl err, w4) \<Rightarrow> (Done (Inl err), w4)
                    | (Inr s, w4) \<Rightarrow>
                        (let l1 = log_record (record_of r (exn_repr cfg e) s) l in
                         if sched = [] then (Done (Inr (l1\<lparr>final_error_repr := exn_repr cfg e\<rparr>)), w4)
                         else (Again l1, sleep_positive ops s w4)))))"

definition attempt ::
    "'w retry_ops \<Rightarrow> retry_config \<Rightarrow> nat \<Rightarrow> rat list \<Rightarrow> attempt_log \<Rightarrow> 'w \<Rightarrow> (step \<times> 'w) option" where
  "attempt ops cfg i sched l w =
     (if has_jwt_cache cfg then
        (case wait_for_jwt_cache ops (jwt_cache_wait_seconds cfg) (jwt_cache_poll_interval_seconds cfg) w of
           None \<Rightarrow> None
         | Some (ready, w1) \<Rightarrow>
             Some (if ready then connect_attempt ops cfg i sched l w1 else cold_attempt ops cfg i sched l w1))
      else Some (connect_attempt ops cfg i sched l w))"

text \<open>
  The loop. After a \<open>continue\<close> of the last attempt the loop is exhausted and the statement after it
  returns the log.
\<close>

fun retry_loop ::
    "'w retry_ops \<Rightarrow> retry_config \<Rightarrow> nat \<Rightarrow> rat list \<Rightarrow> attempt_log \<Rightarrow> 'w
       \<Rightarrow> ((retry_error + attempt_log) \<times> 'w) option" where
  "retry_loop ops cfg i [] l w =
     (case attempt ops cfg i [] l w of
        None \<Rightarrow> None
      | Some (Done r, w') \<Rightarrow> Some (r, w')
      | Some (Again l', w') \<Rightarrow> Some (Inr l', w'))"
| "retry_loop ops cfg i (d # sched) l w =
     (case attempt ops cfg i (d # sched) l w of
        None \<Rightarrow> None
      | Some (Done r, w') \<Rightarrow> Some (r, w')
      | Some (Again l', w') \<Rightarrow> retry_loop ops cfg (Suc i) sched l' w')"

definition connect_with_retry ::
    "'w retry_ops \<Rightarrow> retry_config \<Rightarrow> 'w \<Rightarrow> ((retry_error + attempt_log) \<times> 'w) option" where
  "connect_with_retry ops cfg w =
     (if jitter_factor cfg < 0 \<or> 1 \<le> jitter_factor cfg then Some (Inl RetryValueError, w)
      else retry_loop ops cfg 0 (schedule cfg) new_log w)"

section \<open>The sleeps of a log\<close>

definition sleeps :: "attempt_log \<Rightarrow> rat list" where
  "sleeps l = map sleep_before_next_seconds (attempts l)"

definition jittered :: "rat \<Rightarrow> rat \<Rightarrow> rat \<Rightarrow> bool" where
  "jittered jitter d s \<longleftrightarrow> 0 \<le> d \<and> 0 \<le> s \<and> (1 - jitter) * d \<le> s \<and> s \<le> (1 + jitter) * d"

section \<open>The environment\<close>

text \<open>
  What the documentation of \<open>time.monotonic\<close>, \<open>asyncio.sleep\<close> and \<open>random.uniform\<close> promises, over
  the true time \<open>now\<close> of a world; reading the cache view and connecting take time but do not turn
  it back.
\<close>

locale retry_env =
  fixes ops :: "'w retry_ops" and now :: "'w \<Rightarrow> rat"
  assumes clock_reads: "op_clock ops w = (t, w') \<Longrightarrow> now w \<le> t \<and> t \<le> now w'"
    and sleep_lasts: "0 \<le> d \<Longrightarrow> now w + d \<le> now (op_sleep ops d w)"
    and uniform_within: "op_uniform ops a b w = (x, w') \<Longrightarrow> a \<le> b \<Longrightarrow> a \<le> x \<and> x \<le> b \<and> now w \<le> now w'"
    and ready_forward: "op_ready ops w = (r, w') \<Longrightarrow> now w \<le> now w'"
    and connect_forward: "op_connect ops w = (out, w') \<Longrightarrow> now w \<le> now w'"
begin

lemma poll_cache_ends:
  assumes "0 < interval"
  shows "\<exists>r w'. poll_cache ops deadline interval w = Some (r, w') \<and> now w \<le> now w'"
proof -
  have "\<exists>r w'. poll_cache ops deadline interval w = Some (r, w') \<and> now w \<le> now w'"
    if "deadline - now w \<le> of_nat n * interval" for n w
    using that
  proof (induction n arbitrary: w)
    case 0
    obtain t w1 where c: "op_clock ops w = (t, w1)" by fastforce
    from clock_reads [OF c] 0 have "\<not> t < deadline" by simp
    with c clock_reads [OF c] show ?case by (subst poll_cache.simps) auto
  next
    case (Suc n)
    obtain t w1 where c: "op_clock ops w = (t, w1)" by fastforce
    obtain r w2 where r: "op_ready ops (op_sleep ops interval w1) = (r, w2)" by fastforce
    have fwd: "now w + interval \<le> now w2"
      using clock_reads [OF c] sleep_lasts [of interval w1] ready_forward [OF r] assms by linarith
    with Suc.prems have "deadline - now w2 \<le> of_nat n * interval"
      by (simp add: algebra_simps)
    from Suc.IH [OF this] obtain r' w' where "poll_cache ops deadline interval w2 = Some (r', w')"
      "now w2 \<le> now w'" by blast
    with c r fwd assms clock_reads [OF c] show ?case
      by (subst poll_cache.simps) auto
  qed
  moreover obtain n :: nat where "(deadline - now w) / interval \<le> of_nat n"
    using real_arch_simple by blast
  then have "deadline - now w \<le> of_nat n * interval"
    using assms by (simp add: pos_divide_le_eq)
  ultimately show ?thesis by blast
qed

lemma wait_ends:
  assumes "0 < interval"
  shows "\<exists>r w'. wait_for_jwt_cache ops budget interval w = Some (r, w') \<and> now w \<le> now w'"
proof -
  obtain t w1 where c: "op_clock ops w = (t, w1)" by fastforce
  obtain r w2 where r: "op_ready ops w1 = (r, w2)" by fastforce
  have fwd: "now w \<le> now w2" using clock_reads [OF c] ready_forward [OF r] by linarith
  obtain r' w' where "poll_cache ops (t + budget) interval w2 = Some (r', w')" "now w2 \<le> now w'"
    using poll_cache_ends [OF assms] by blast
  with c r fwd show ?thesis by (auto simp: wait_for_jwt_cache_def)
qed

lemma attempt_returns:
  assumes "0 < jwt_cache_poll_interval_seconds cfg"
  shows "\<exists>st w'. attempt ops cfg i sched l w = Some (st, w')"
proof -
  obtain r w' where "wait_for_jwt_cache ops (jwt_cache_wait_seconds cfg)
      (jwt_cache_poll_interval_seconds cfg) w = Some (r, w')"
    using wait_ends [OF assms] by blast
  then show ?thesis by (auto simp: attempt_def intro: prod.exhaust)
qed

lemma loop_returns:
  assumes "0 < jwt_cache_poll_interval_seconds cfg"
  shows "\<exists>r w'. retry_loop ops cfg i sched l w = Some (r, w')"
proof (induction sched arbitrary: i l w)
  case Nil
  obtain st w' where "attempt ops cfg i [] l w = Some (st, w')"
    using attempt_returns [OF assms] by blast
  then show ?case by (cases st) simp_all
next
  case (Cons d sched)
  obtain st w' where "attempt ops cfg i (d # sched) l w = Some (st, w')"
    using attempt_returns [OF assms] by blast
  with Cons show ?case by (cases st) simp_all
qed

lemma next_delay_within:
  assumes "next_delay ops cfg sched w = (Inr s, w')"
  shows "now w \<le> now w' \<and> (case sched of [] \<Rightarrow> s = 0 | d # _ \<Rightarrow> jittered (jitter_factor cfg) d s)"
proof (cases sched)
  case (Cons d ds)
  with assms have ok: "0 \<le> jitter_factor cfg" "jitter_factor cfg < 1" "0 \<le> d"
    by (auto simp: next_delay_def jittered_delay_def split: if_splits prod.splits)
  let ?a = "d * (1 - jitter_factor cfg)" and ?b = "d * (1 + jitter_factor cfg)"
  obtain x where x: "op_uniform ops ?a ?b w = (x, w')" "s = max 0 x"
    using assms Cons ok by (auto simp: next_delay_def jittered_delay_def split: prod.splits)
  have "?a \<le> ?b" "0 \<le> ?a"
    using ok by (auto intro: mult_left_mono)
  with uniform_within [OF x(1)] have r: "?a \<le> x" "x \<le> ?b" "now w \<le> now w'" "0 \<le> x"
    by linarith+
  then have "s = x" using x(2) by simp
  with r ok Cons show ?thesis
    by (simp add: jittered_def mult.commute)
qed (use assms in \<open>simp add: next_delay_def\<close>)

lemma sleep_positive_forward: "0 \<le> s \<Longrightarrow> now w + s \<le> now (sleep_positive ops s w)"
  using sleep_lasts [of s w] by (auto simp: sleep_positive_def)

lemma connect_attempt_env:
  assumes "connect_attempt ops cfg i sched l w = (st, w')"
  shows "now w \<le> now w'
    \<and> (case st of
         Done (Inr l') \<Rightarrow> sleeps l' = sleeps l @ [0]
       | Done (Inl e) \<Rightarrow> True
       | Again l' \<Rightarrow> (\<exists>d ds s. sched = d # ds \<and> sleeps l' = sleeps l @ [s]
           \<and> jittered (jitter_factor cfg) d s \<and> now w + s \<le> now w'))"
proof -
  obtain t0 w1 where c0: "op_clock ops w = (t0, w1)" by fastforce
  obtain out w2 where k: "op_connect ops w1 = (out, w2)" by fastforce
  obtain t1 w3 where c1: "op_clock ops w2 = (t1, w3)" by fastforce
  note fwd = clock_reads [OF c0] connect_forward [OF k] clock_reads [OF c1]
  show ?thesis
  proof (cases out)
    case None
    with assms c0 k c1 fwd show ?thesis
      by (auto simp: connect_attempt_def log_record_def sleeps_def)
  next
    case (Some e)
    let ?r = "classify_failure (chars cfg) e"
    show ?thesis
    proof (cases "?r = UNKNOWN_TRANSIENT \<and> \<not> is_adapter_error e")
      case True
      with assms Some c0 k c1 fwd show ?thesis by (auto simp: connect_attempt_def)
    next
      case False
      obtain q w4 where q: "next_delay ops cfg sched w3 = (q, w4)" by fastforce
      show ?thesis
      proof (cases q)
        case (Inl err)
        with assms Some False c0 k c1 q have "st = Done (Inl err)" "w' = w4"
          by (auto simp: connect_attempt_def)
        moreover have "now w3 \<le> now w4"
          using q Inl uniform_within
          by (auto simp: next_delay_def jittered_delay_def split: list.splits if_splits prod.splits)
        ultimately show ?thesis using fwd by auto
      next
        case (Inr s)
        note d = next_delay_within [OF q [unfolded Inr]]
        have "0 \<le> s" using d by (auto simp: jittered_def split: list.splits)
        note f = sleep_positive_forward [OF this, of w4]
        show ?thesis
        proof (cases sched)
          case Nil
          with assms Some False c0 k c1 q Inr d fwd show ?thesis
            by (auto simp: connect_attempt_def log_record_def sleeps_def)
        next
          case (Cons a ds)
          with assms Some False c0 k c1 q Inr d fwd f \<open>0 \<le> s\<close> show ?thesis
            by (auto simp: connect_attempt_def log_record_def sleeps_def)
        qed
      qed
    qed
  qed
qed

end

section \<open>A fixed cache view\<close>

record static_ready_view =
  view_ready :: bool

definition is_ready :: "static_ready_view \<Rightarrow> bool" where
  "is_ready v = view_ready v"

definition set_ready :: "bool \<Rightarrow> static_ready_view \<Rightarrow> static_ready_view" where
  "set_ready b v = v\<lparr>view_ready := b\<rparr>"

section \<open>The shape of a log\<close>

definition total_ok :: "attempt_log \<Rightarrow> bool" where
  "total_ok l \<longleftrightarrow> total_elapsed_seconds l
     = sum_list (map (\<lambda>a. elapsed_seconds a + sleep_before_next_seconds a) (attempts l))"

text \<open>The log while the loop runs, at the start of attempt \<open>i\<close>, and the log that is returned.\<close>

definition running :: "nat \<Rightarrow> attempt_log \<Rightarrow> bool" where
  "running i l \<longleftrightarrow> map attempt_index (attempts l) = [0..<i] \<and> \<not> succeeded l
     \<and> SUCCESS \<notin> set (log_reasons l) \<and> total_ok l"

definition log_ok :: "nat \<Rightarrow> attempt_log \<Rightarrow> bool" where
  "log_ok n l \<longleftrightarrow>
     0 < attempt_count l \<and> attempt_count l \<le> n
     \<and> map attempt_index (attempts l) = [0..<attempt_count l]
     \<and> SUCCESS \<notin> set (butlast (log_reasons l))
     \<and> (succeeded l \<longleftrightarrow> last (log_reasons l) = SUCCESS)
     \<and> (\<not> succeeded l \<longrightarrow> attempt_count l = n)
     \<and> total_ok l"

lemma running_record:
  "running i l \<Longrightarrow> r \<noteq> SUCCESS \<Longrightarrow>
     running (Suc i) (log_record \<lparr>attempt_index = i, attempt_reason = r, error_repr = m,
       elapsed_seconds = t, sleep_before_next_seconds = s\<rparr> l)"
  by (auto simp: running_def log_record_def log_reasons_def total_ok_def)

lemma running_final [simp]: "running i (l\<lparr>final_error_repr := m\<rparr>) \<longleftrightarrow> running i l"
  by (simp add: running_def log_reasons_def total_ok_def)

lemma running_failed: "running (Suc i) l \<Longrightarrow> n = Suc i \<Longrightarrow> log_ok n l"
proof -
  assume r: "running (Suc i) l" and "n = Suc i"
  from r have "length (attempts l) = Suc i"
    unfolding running_def by (metis length_map length_upt diff_zero)
  moreover from this have "log_reasons l \<noteq> []"
    by (auto simp: log_reasons_def)
  then have "last (log_reasons l) \<noteq> SUCCESS"
    using r unfolding running_def by (metis last_in_set)
  ultimately show ?thesis
    using r \<open>n = Suc i\<close> unfolding log_ok_def running_def attempt_count_def
    by (auto dest: in_set_butlastD)
qed

lemma success_ok:
  "running i l \<Longrightarrow> i < n \<Longrightarrow>
     log_ok n ((log_record \<lparr>attempt_index = i, attempt_reason = SUCCESS, error_repr = m,
       elapsed_seconds = t, sleep_before_next_seconds = s\<rparr> l)\<lparr>succeeded := True\<rparr>)"
proof -
  assume r: "running i l" and "i < n"
  from r have "length (attempts l) = i"
    unfolding running_def by (metis length_map length_upt diff_zero)
  with r \<open>i < n\<close> show ?thesis
    by (simp add: log_ok_def running_def log_record_def log_reasons_def total_ok_def attempt_count_def)
qed

lemma classify_not_success: "classify_failure U e \<noteq> SUCCESS"
  by (simp add: classify_failure_def)

lemma attempt_log:
  assumes "running i l" "attempt ops cfg i sched l w = Some (st, w')"
  shows "case st of
      Done (Inr l') \<Rightarrow> log_ok (i + length sched + 1) l'
    | Done (Inl e) \<Rightarrow> True
    | Again l' \<Rightarrow> running (Suc i) l'"
proof -
  have connect: "case st of Done (Inr l') \<Rightarrow> log_ok (i + length sched + 1) l'
      | Done (Inl e) \<Rightarrow> True | Again l' \<Rightarrow> running (Suc i) l'"
    if "connect_attempt ops cfg i sched l v = (st, w')" for v
    using that
    by (auto simp: connect_attempt_def Let_def
        intro!: success_ok [OF assms(1)] running_failed running_record [OF assms(1) classify_not_success]
        split: prod.splits option.splits if_splits sum.splits)
  have cold: "case st of Done (Inr l') \<Rightarrow> log_ok (i + length sched + 1) l'
      | Done (Inl e) \<Rightarrow> True | Again l' \<Rightarrow> running (Suc i) l'"
    if "cold_attempt ops cfg i sched l v = (st, w')" for v
    using that assms(1)
    by (auto simp: cold_attempt_def Let_def intro: running_record split: prod.splits if_splits sum.splits)
  show ?thesis
    using assms(2) connect cold
    by (auto simp: attempt_def split: if_splits option.splits prod.splits)
qed

lemma loop_log:
  "running i l \<Longrightarrow> retry_loop ops cfg i sched l w = Some (Inr l', w') \<Longrightarrow> log_ok (i + length sched + 1) l'"
proof (induction sched arbitrary: i l w)
  case Nil
  then obtain st v where a: "attempt ops cfg i [] l w = Some (st, v)"
    by (auto split: option.splits)
  from attempt_log [OF Nil.prems(1) a] Nil.prems(2) a show ?case
    by (auto split: step.splits intro: running_failed)
next
  case (Cons d sched)
  then obtain st v where a: "attempt ops cfg i (d # sched) l w = Some (st, v)"
    by (auto split: option.splits)
  from attempt_log [OF Cons.prems(1) a] Cons.prems(2) a Cons.IH [of "Suc i"] show ?case
    by (auto split: step.splits)
qed

lemma new_log_running: "running 0 new_log"
  by (simp add: running_def new_log_def log_reasons_def total_ok_def)

text \<open>
  C18: Whatever the clock, the sleep, the cache and the server do, a log that \<open>connect_with_retry\<close>
  returns has between one and \<open>len(schedule) + 1\<close> attempts, numbered from zero; only the last can be
  a success; \<open>succeeded\<close> says whether it is; without success every attempt was used; and the total
  is the sum of the parts.
\<close>

theorem retry_log_ok:
  assumes "connect_with_retry ops cfg w = Some (Inr l, w')"
  shows "log_ok (length (schedule cfg) + 1) l"
  using assms loop_log [OF new_log_running, of ops cfg "schedule cfg" w l w']
  by (simp add: connect_with_retry_def split: if_splits)

section \<open>What is raised\<close>

text \<open>Only a configuration error, or an exception outside the adapters' hierarchy.\<close>

definition raise_ok :: "'w retry_ops \<Rightarrow> retry_config \<Rightarrow> retry_error \<Rightarrow> bool" where
  "raise_ok ops cfg e =
     (case e of
        RetryValueError \<Rightarrow> jitter_factor cfg < 0 \<or> 1 \<le> jitter_factor cfg \<or> (\<exists>d \<in> set (schedule cfg). d < 0)
      | Reraised x \<Rightarrow> cx_kind x = KOther \<and> (\<exists>w. fst (op_connect ops w) = Some x))"

lemma attempt_raises:
  assumes "attempt ops cfg i sched l w = Some (Done (Inl e), w')" "set sched \<subseteq> set (schedule cfg)"
  shows "raise_ok ops cfg e"
proof -
  have d: "raise_ok ops cfg e" if "next_delay ops cfg sched v = (Inl e, v')" for v v' e
    using that assms(2)
    by (auto simp: next_delay_def jittered_delay_def raise_ok_def split: list.splits if_splits prod.splits)
  show ?thesis
    using assms(1) d
    by (auto simp: attempt_def connect_attempt_def cold_attempt_def Let_def is_adapter_error_def
        split: if_splits option.splits prod.splits sum.splits)
      (simp_all add: raise_ok_def, (metis fst_conv)+)
qed

lemma loop_raises:
  "retry_loop ops cfg i sched l w = Some (Inl e, w') \<Longrightarrow> set sched \<subseteq> set (schedule cfg) \<Longrightarrow> raise_ok ops cfg e"
proof (induction sched arbitrary: i l w)
  case Nil
  then show ?case by (auto split: option.splits step.splits intro: attempt_raises)
next
  case (Cons d sched)
  then obtain st v where a: "attempt ops cfg i (d # sched) l w = Some (st, v)"
    by (auto split: option.splits)
  show ?case
  proof (cases st)
    case (Done r)
    with Cons.prems(1) a have "attempt ops cfg i (d # sched) l w = Some (Done (Inl e), v)" by simp
    with Cons.prems(2) show ?thesis by (rule attempt_raises [rotated])
  next
    case (Again l')
    with Cons.prems a Cons.IH show ?thesis by auto
  qed
qed

lemma connect_returns:
  assumes "retry_env ops now" "0 < jwt_cache_poll_interval_seconds cfg"
  shows "\<exists>r w'. connect_with_retry ops cfg w = Some (r, w')
    \<and> (case r of Inr l \<Rightarrow> True | Inl e \<Rightarrow> raise_ok ops cfg e)"
proof (cases "jitter_factor cfg < 0 \<or> 1 \<le> jitter_factor cfg")
  case True
  then show ?thesis by (auto simp: connect_with_retry_def raise_ok_def)
next
  case False
  obtain r w' where r: "retry_loop ops cfg 0 (schedule cfg) new_log w = Some (r, w')"
    using retry_env.loop_returns [OF assms] by blast
  with False loop_raises [of ops cfg 0 "schedule cfg" new_log w _ w'] show ?thesis
    by (auto simp: connect_with_retry_def split: sum.split)
qed

text \<open>
  C15: With a clock that does not run backwards, sleeps that last and a positive poll interval,
  \<open>connect_with_retry\<close> always comes back, also with a cache that never turns hot; and it comes back
  with a log, except that it raises \<open>ValueError\<close> for a jitter factor outside \<open>[0, 1)\<close> or a negative
  delay, and raises again what a connect raised outside the adapters' hierarchy.
\<close>

theorem retry_returns:
  assumes "retry_env ops now" "0 < jwt_cache_poll_interval_seconds cfg"
  shows "\<exists>r w'. connect_with_retry ops cfg w = Some (r, w')
    \<and> (case r of Inr l \<Rightarrow> True | Inl e \<Rightarrow> raise_ok ops cfg e)"
  using assms by (rule connect_returns)
section \<open>Delays and recovery\<close>

text \<open>
  A server that is up, with a hot cache, from time \<open>T\<close> on, and fails only in ways the layer retries.
\<close>

definition recovers :: "'w retry_ops \<Rightarrow> ('w \<Rightarrow> rat) \<Rightarrow> retry_config \<Rightarrow> rat \<Rightarrow> bool" where
  "recovers ops now cfg T \<longleftrightarrow>
     (\<forall>w. T \<le> now w \<longrightarrow> fst (op_connect ops w) = None \<and> fst (op_ready ops w))
     \<and> (\<forall>w e. fst (op_connect ops w) = Some e \<longrightarrow>
          classify_failure (chars cfg) e \<noteq> UNKNOWN_TRANSIENT \<or> is_adapter_error e)"

context retry_env
begin

lemma cold_attempt_env:
  assumes "cold_attempt ops cfg i sched l w = (st, w')"
  shows "now w \<le> now w'
    \<and> (case st of
         Done (Inr l') \<Rightarrow> False
       | Done (Inl e) \<Rightarrow> True
       | Again l' \<Rightarrow> (\<exists>s. sleeps l' = sleeps l @ [s] \<and> now w + s \<le> now w'
           \<and> (case sched of [] \<Rightarrow> s = 0 | d # _ \<Rightarrow> jittered (jitter_factor cfg) d s)))"
proof -
  obtain q w1 where q: "next_delay ops cfg sched w = (q, w1)" by fastforce
  show ?thesis
  proof (cases q)
    case (Inl err)
    moreover have "now w \<le> now w1"
      using q Inl uniform_within
      by (auto simp: next_delay_def jittered_delay_def split: list.splits if_splits prod.splits)
    ultimately show ?thesis using assms q by (auto simp: cold_attempt_def)
  next
    case (Inr s)
    note d = next_delay_within [OF q [unfolded Inr]]
    have "0 \<le> s" using d by (auto simp: jittered_def split: list.splits)
    note f = sleep_positive_forward [OF this, of w1]
    from assms q Inr have st: "w' = sleep_positive ops s w1" "\<exists>l'. st = Again l' \<and> sleeps l' = sleeps l @ [s]"
      by (auto simp: cold_attempt_def Let_def log_record_def sleeps_def)
    moreover have "now w + s \<le> now w'" using st(1) conjunct1 [OF d] f by simp
    ultimately show ?thesis using d \<open>0 \<le> s\<close> by auto
  qed
qed

lemma attempt_env:
  assumes "0 < jwt_cache_poll_interval_seconds cfg" "attempt ops cfg i sched l w = Some (st, w')"
  shows "case st of
      Done (Inr l') \<Rightarrow> sleeps l' = sleeps l @ [0]
    | Done (Inl e) \<Rightarrow> True
    | Again l' \<Rightarrow> (\<exists>s. sleeps l' = sleeps l @ [s] \<and> now w + s \<le> now w'
        \<and> (case sched of [] \<Rightarrow> s = 0 | d # _ \<Rightarrow> jittered (jitter_factor cfg) d s))"
proof -
  obtain v where v: "now w \<le> now v"
    "(st, w') = connect_attempt ops cfg i sched l v \<or> (st, w') = cold_attempt ops cfg i sched l v"
  proof (cases "has_jwt_cache cfg")
    case True
    obtain r v where "wait_for_jwt_cache ops (jwt_cache_wait_seconds cfg)
        (jwt_cache_poll_interval_seconds cfg) w = Some (r, v)" "now w \<le> now v"
      using wait_ends [OF assms(1)] by blast
    with True assms(2) that show ?thesis by (auto simp: attempt_def split: if_splits)
  next
    case False
    with assms(2) that [of w] show ?thesis by (auto simp: attempt_def)
  qed
  from v(2) show ?thesis
  proof
    assume "(st, w') = connect_attempt ops cfg i sched l v"
    from connect_attempt_env [OF this [symmetric]] v(1) show ?thesis
      by (cases st) (auto split: sum.splits)
  next
    assume "(st, w') = cold_attempt ops cfg i sched l v"
    from cold_attempt_env [OF this [symmetric]] v(1) show ?thesis
      by (cases st) (auto split: sum.splits)
  qed
qed

lemma loop_sleeps:
  assumes "0 < jwt_cache_poll_interval_seconds cfg"
  shows "retry_loop ops cfg i sched l w = Some (Inr l', w') \<Longrightarrow>
     \<exists>ss. sleeps l' = sleeps l @ ss @ [0] \<and> length ss \<le> length sched
       \<and> list_all2 (jittered (jitter_factor cfg)) (take (length ss) sched) ss"
proof (induction sched arbitrary: i l w)
  case Nil
  then obtain st v where a: "attempt ops cfg i [] l w = Some (st, v)"
    by (auto split: option.splits)
  from attempt_env [OF assms a] Nil a show ?case
    by (cases st) (auto split: sum.splits)
next
  case (Cons d sched)
  then obtain st v where a: "attempt ops cfg i (d # sched) l w = Some (st, v)"
    by (auto split: option.splits)
  note e = attempt_env [OF assms a]
  show ?case
  proof (cases st)
    case (Done r)
    with e Cons.prems a have "sleeps l' = sleeps l @ [] @ [0]" by (auto split: sum.splits)
    then show ?thesis by fastforce
  next
    case (Again l1)
    with e obtain s where s: "sleeps l1 = sleeps l @ [s]" "jittered (jitter_factor cfg) d s" by auto
    from Cons.prems a Again Cons.IH [of "Suc i" l1 v] obtain ss where ss:
      "sleeps l' = sleeps l1 @ ss @ [0]" "length ss \<le> length sched"
      "list_all2 (jittered (jitter_factor cfg)) (take (length ss) sched) ss" by auto
    with s show ?thesis by (intro exI [of _ "s # ss"]) simp
  qed
qed

lemma next_delay_succeeds:
  assumes "0 \<le> jitter_factor cfg" "jitter_factor cfg < 1" "\<forall>d \<in> set sched. 0 \<le> d"
  shows "\<exists>s w'. next_delay ops cfg sched w = (Inr s, w')"
proof (cases sched)
  case (Cons d ds)
  with assms show ?thesis
    by (auto simp: next_delay_def jittered_delay_def split: prod.splits)
qed (simp add: next_delay_def)

lemma attempt_no_raise:
  assumes "recovers ops now cfg T" "0 \<le> jitter_factor cfg" "jitter_factor cfg < 1" "\<forall>d \<in> set sched. 0 \<le> d"
    and "attempt ops cfg i sched l w = Some (st, w')"
  shows "(\<exists>l'. st = Done (Inr l') \<and> (succeeded l' \<or> sched = [])) \<or> (\<exists>l'. st = Again l')"
proof -
  have connect: "(\<exists>l'. st = Done (Inr l') \<and> (succeeded l' \<or> sched = [])) \<or> (\<exists>l'. st = Again l')"
    if c: "connect_attempt ops cfg i sched l v = (st, w')" for v
  proof -
    obtain t0 w1 where c0: "op_clock ops v = (t0, w1)" by fastforce
    obtain out w2 where k: "op_connect ops w1 = (out, w2)" by fastforce
    obtain t1 w3 where c1: "op_clock ops w2 = (t1, w3)" by fastforce
    obtain s w4 where q: "next_delay ops cfg sched w3 = (Inr s, w4)"
      using next_delay_succeeds [OF assms(2-4)] by blast
    show ?thesis
    proof (cases out)
      case None
      with c c0 k c1 show ?thesis by (auto simp: connect_attempt_def)
    next
      case (Some e)
      with assms(1) k have "\<not> (classify_failure (chars cfg) e = UNKNOWN_TRANSIENT \<and> \<not> is_adapter_error e)"
        unfolding recovers_def by (metis fst_conv)
      with c c0 k c1 Some q show ?thesis
        by (auto simp: connect_attempt_def Let_def split: if_splits)
    qed
  qed
  have cold: "\<exists>l'. st = Again l'" if "cold_attempt ops cfg i sched l v = (st, w')" for v
    using that next_delay_succeeds [OF assms(2-4), of v] by (auto simp: cold_attempt_def Let_def)
  show ?thesis
    using assms(5) connect cold by (auto simp: attempt_def split: if_splits option.splits prod.splits)
qed

lemma attempt_when_up:
  assumes "recovers ops now cfg T" "T \<le> now w"
  shows "\<exists>l' w'. attempt ops cfg i sched l w = Some (Done (Inr l'), w') \<and> succeeded l'"
proof -
  have connect: "\<exists>l' w'. connect_attempt ops cfg i sched l v = (Done (Inr l'), w') \<and> succeeded l'"
    if "T \<le> now v" for v
  proof -
    obtain t0 w1 where c0: "op_clock ops v = (t0, w1)" by fastforce
    obtain out w2 where k: "op_connect ops w1 = (out, w2)" by fastforce
    obtain t1 w3 where c1: "op_clock ops w2 = (t1, w3)" by fastforce
    have "T \<le> now w1" using that clock_reads [OF c0] by linarith
    with assms(1) k have "out = None" by (auto simp: recovers_def)
    with c0 k c1 show ?thesis by (auto simp: connect_attempt_def)
  qed
  show ?thesis
  proof (cases "has_jwt_cache cfg")
    case True
    obtain t w1 where c: "op_clock ops w = (t, w1)" by fastforce
    obtain r w2 where r: "op_ready ops w1 = (r, w2)" by fastforce
    have up: "T \<le> now w1" "T \<le> now w2"
      using assms(2) clock_reads [OF c] ready_forward [OF r] by linarith+
    with assms(1) r have "r" by (auto simp: recovers_def)
    with c r have "wait_for_jwt_cache ops (jwt_cache_wait_seconds cfg)
        (jwt_cache_poll_interval_seconds cfg) w = Some (True, w2)"
      by (simp add: wait_for_jwt_cache_def)
    with True connect [OF up(2)] show ?thesis by (auto simp: attempt_def)
  next
    case False
    with connect [OF assms(2)] show ?thesis by (auto simp: attempt_def)
  qed
qed

lemma loop_recovers:
  assumes "recovers ops now cfg T" "0 \<le> jitter_factor cfg" "jitter_factor cfg < 1"
    and "0 < jwt_cache_poll_interval_seconds cfg"
  shows "\<forall>d \<in> set sched. 0 \<le> d \<Longrightarrow> T \<le> now w + (1 - jitter_factor cfg) * sum_list sched \<Longrightarrow>
    \<exists>l' w'. retry_loop ops cfg i sched l w = Some (Inr l', w') \<and> succeeded l'"
proof (induction sched arbitrary: i l w)
  case Nil
  with attempt_when_up [OF assms(1), of w i "[]" l] show ?case by auto
next
  case (Cons d sched)
  obtain st v where a: "attempt ops cfg i (d # sched) l w = Some (st, v)"
    using attempt_returns [OF assms(4)] by blast
  from attempt_no_raise [OF assms(1-3) Cons.prems(1) a] show ?case
  proof
    assume "\<exists>l'. st = Done (Inr l') \<and> (succeeded l' \<or> d # sched = [])"
    with a show ?thesis by auto
  next
    assume "\<exists>l'. st = Again l'"
    then obtain l1 where l1: "st = Again l1" by blast
    with attempt_env [OF assms(4) a] obtain s where
      s: "now w + s \<le> now v" "jittered (jitter_factor cfg) d s" by auto
    then have "(1 - jitter_factor cfg) * d \<le> s" by (simp add: jittered_def)
    with s(1) Cons.prems(2) have "T \<le> now v + (1 - jitter_factor cfg) * sum_list sched"
      by (simp add: distrib_left)
    with Cons.IH [of v "Suc i" l1] Cons.prems(1) a l1 show ?thesis by auto
  qed
qed

end

lemma sum_jittered:
  "list_all2 (jittered j) ds ss \<Longrightarrow> sum_list ss \<le> (1 + j) * sum_list ds"
proof (induction rule: list_all2_induct)
  case (Cons d ds s ss)
  then have "s \<le> (1 + j) * d" by (simp add: jittered_def)
  with Cons show ?case by (simp add: distrib_left)
qed simp

section \<open>What is slept\<close>

text \<open>The same callables, whose world also keeps the arguments of the sleeps that were made.\<close>

definition traced :: "'w retry_ops \<Rightarrow> ('w \<times> rat list) retry_ops" where
  "traced ops =
     \<lparr>op_clock = (\<lambda>v. map_prod id (\<lambda>w. (w, snd v)) (op_clock ops (fst v))),
      op_sleep = (\<lambda>d v. (op_sleep ops d (fst v), snd v @ [d])),
      op_uniform = (\<lambda>a b v. map_prod id (\<lambda>w. (w, snd v)) (op_uniform ops a b (fst v))),
      op_ready = (\<lambda>v. map_prod id (\<lambda>w. (w, snd v)) (op_ready ops (fst v))),
      op_connect = (\<lambda>v. map_prod id (\<lambda>w. (w, snd v)) (op_connect ops (fst v)))\<rparr>"

lemma traced_simps [simp]:
  "op_clock (traced ops) (w, tr) = (case op_clock ops w of (t, w') \<Rightarrow> (t, (w', tr)))"
  "op_sleep (traced ops) d (w, tr) = (op_sleep ops d w, tr @ [d])"
  "op_uniform (traced ops) a b (w, tr) = (case op_uniform ops a b w of (x, w') \<Rightarrow> (x, (w', tr)))"
  "op_ready (traced ops) (w, tr) = (case op_ready ops w of (r, w') \<Rightarrow> (r, (w', tr)))"
  "op_connect (traced ops) (w, tr) = (case op_connect ops w of (out, w') \<Rightarrow> (out, (w', tr)))"
  by (simp_all add: traced_def split: prod.split)

text \<open>
  One attempt polls the cache some number of times, each poll sleeping the poll interval, and may
  then back off. Polling is bounded by the wait budget: only while it lasts is another poll begun.
\<close>

definition polls_ok :: "retry_config \<Rightarrow> nat \<Rightarrow> bool" where
  "polls_ok cfg n \<longleftrightarrow> n = 0
     \<or> has_jwt_cache cfg \<and> of_nat (n - 1) * jwt_cache_poll_interval_seconds cfg < jwt_cache_wait_seconds cfg"

definition attempt_sleeps :: "retry_config \<Rightarrow> nat \<Rightarrow> rat \<Rightarrow> rat list" where
  "attempt_sleeps cfg n s = replicate n (jwt_cache_poll_interval_seconds cfg) @ (if 0 < s then [s] else [])"

text \<open>The run with the trace is the run without it.\<close>

lemma next_delay_traced:
  "next_delay (traced ops) cfg sched (w, tr) = (case next_delay ops cfg sched w of (q, w') \<Rightarrow> (q, (w', tr)))"
  by (auto simp: next_delay_def jittered_delay_def split: list.split prod.split)

lemma sleep_positive_traced:
  "sleep_positive (traced ops) s (w, tr) = (sleep_positive ops s w, tr @ (if 0 < s then [s] else []))"
  by (simp add: sleep_positive_def)

lemma cold_attempt_traced:
  assumes "cold_attempt (traced ops) cfg i sched l (w, tr) = (st, (w', tr'))"
  shows "cold_attempt ops cfg i sched l w = (st, w')
    \<and> (\<forall>l'. st \<noteq> Done (Inr l'))
    \<and> (\<forall>l'. st = Again l' \<longrightarrow> (\<exists>s. sleeps l' = sleeps l @ [s] \<and> tr' = tr @ attempt_sleeps cfg 0 s))"
  using assms
  by (auto simp: cold_attempt_def next_delay_traced sleep_positive_traced Let_def attempt_sleeps_def sleeps_def
      log_record_def split: prod.splits sum.splits if_splits)

lemma connect_attempt_traced:
  assumes "connect_attempt (traced ops) cfg i sched l (w, tr) = (st, (w', tr'))"
  shows "connect_attempt ops cfg i sched l w = (st, w')
    \<and> (\<forall>l'. st = Done (Inr l') \<or> st = Again l' \<longrightarrow>
         (\<exists>s. sleeps l' = sleeps l @ [s] \<and> tr' = tr @ attempt_sleeps cfg 0 s))"
proof -
  obtain t0 w1 where c0: "op_clock ops w = (t0, w1)" by fastforce
  obtain out w2 where k: "op_connect ops w1 = (out, w2)" by fastforce
  obtain t1 w3 where c1: "op_clock ops w2 = (t1, w3)" by fastforce
  obtain q w4 where q: "next_delay ops cfg sched w3 = (q, w4)" by fastforce
  have last: "q = Inr s \<Longrightarrow> sched = [] \<Longrightarrow> s = 0" for s
    using q by (auto simp: next_delay_def)
  show ?thesis
  proof (cases out)
    case None
    with assms c0 k c1 show ?thesis
      by (auto simp: connect_attempt_def attempt_sleeps_def sleeps_def log_record_def)
  next
    case (Some e)
    show ?thesis
    proof (cases "classify_failure (chars cfg) e = UNKNOWN_TRANSIENT \<and> \<not> is_adapter_error e")
      case True
      with assms Some c0 k c1 show ?thesis by (auto simp: connect_attempt_def)
    next
      case retried: False
      show ?thesis
      proof (cases q)
        case (Inl err)
        with assms Some retried c0 k c1 q show ?thesis by (auto simp: connect_attempt_def next_delay_traced)
      next
        case (Inr s)
        with assms Some retried c0 k c1 q last show ?thesis
          by (cases "sched = []")
            (auto simp: connect_attempt_def next_delay_traced sleep_positive_traced attempt_sleeps_def
              sleeps_def log_record_def)
      qed
    qed
  qed
qed

context retry_env
begin

lemma traced_env: "retry_env (traced ops) (\<lambda>v. now (fst v))"
proof (rule retry_env.intro; clarify)
  fix w tr t w' tr' assume "op_clock (traced ops) (w, tr) = (t, (w', tr'))"
  then have "op_clock ops w = (t, w')" by (simp split: prod.splits)
  from clock_reads [OF this] show "now (fst (w, tr)) \<le> t \<and> t \<le> now (fst (w', tr'))" by simp
next
  fix d :: rat and w tr assume "0 \<le> d"
  then show "now (fst (w, tr)) + d \<le> now (fst (op_sleep (traced ops) d (w, tr)))"
    by (simp add: sleep_lasts)
next
  fix a b w tr x w' tr' assume "op_uniform (traced ops) a b (w, tr) = (x, (w', tr'))" "a \<le> b"
  then have "op_uniform ops a b w = (x, w')" by (simp split: prod.splits)
  from uniform_within [OF this \<open>a \<le> b\<close>]
  show "a \<le> x \<and> x \<le> b \<and> now (fst (w, tr)) \<le> now (fst (w', tr'))" by simp
next
  fix w tr r w' tr' assume "op_ready (traced ops) (w, tr) = (r, (w', tr'))"
  then have "op_ready ops w = (r, w')" by (simp split: prod.splits)
  from ready_forward [OF this] show "now (fst (w, tr)) \<le> now (fst (w', tr'))" by simp
next
  fix w tr out w' tr' assume "op_connect (traced ops) (w, tr) = (out, (w', tr'))"
  then have "op_connect ops w = (out, w')" by (simp split: prod.splits)
  from connect_forward [OF this] show "now (fst (w, tr)) \<le> now (fst (w', tr'))" by simp
qed

lemma poll_cache_traced:
  assumes "0 < interval"
  shows "\<exists>r w' n. poll_cache (traced ops) deadline interval (w, tr) = Some (r, (w', tr @ replicate n interval))
    \<and> poll_cache ops deadline interval w = Some (r, w') \<and> now w \<le> now w'
    \<and> (n = 0 \<or> now w + of_nat (n - 1) * interval < deadline)"
proof -
  have "\<exists>r w' n. poll_cache (traced ops) deadline interval (w, tr) = Some (r, (w', tr @ replicate n interval))
    \<and> poll_cache ops deadline interval w = Some (r, w') \<and> now w \<le> now w'
    \<and> (n = 0 \<or> now w + of_nat (n - 1) * interval < deadline)"
    if "deadline - now w \<le> of_nat k * interval" for k w tr
    using that
  proof (induction k arbitrary: w tr)
    case 0
    obtain t w1 where c: "op_clock ops w = (t, w1)" by fastforce
    from clock_reads [OF c] 0 have "\<not> t < deadline" by simp
    with c clock_reads [OF c] show ?case
      by (intro exI [of _ False] exI [of _ w1] exI [of _ 0]) (simp add: poll_cache.simps)
  next
    case (Suc k)
    obtain t w1 where c: "op_clock ops w = (t, w1)" by fastforce
    obtain r w2 where r: "op_ready ops (op_sleep ops interval w1) = (r, w2)" by fastforce
    have fwd: "now w + interval \<le> now w2"
      using clock_reads [OF c] sleep_lasts [of interval w1] ready_forward [OF r] assms by linarith
    note step = poll_cache.simps [of ops deadline interval w]
      poll_cache.simps [of "traced ops" deadline interval "(w, tr)"]
    consider "deadline \<le> t" | "t < deadline" r | "t < deadline" "\<not> r" by linarith
    then show ?case
    proof cases
      case 1
      with c clock_reads [OF c] show ?thesis
        by (intro exI [of _ False] exI [of _ w1] exI [of _ 0]) (simp add: step)
    next
      case 2
      with c r fwd clock_reads [OF c] assms show ?thesis
        by (intro exI [of _ True] exI [of _ w2] exI [of _ 1]) (simp add: step)
    next
      case 3
      from Suc.prems fwd have "deadline - now w2 \<le> of_nat k * interval"
        by (simp add: algebra_simps)
      from Suc.IH [OF this, of "tr @ [interval]"] obtain r' w' n where n:
        "poll_cache (traced ops) deadline interval (w2, tr @ [interval]) = Some (r', (w', (tr @ [interval]) @ replicate n interval))"
        "poll_cache ops deadline interval w2 = Some (r', w')" "now w2 \<le> now w'"
        "n = 0 \<or> now w2 + of_nat (n - 1) * interval < deadline" by blast
      have "now w + of_nat n * interval < deadline"
      proof (cases n)
        case 0
        with 3(1) clock_reads [OF c] show ?thesis by simp
      next
        case (Suc m)
        with n(4) fwd show ?thesis by (simp add: algebra_simps)
      qed
      with 3 c r n fwd assms show ?thesis
        by (intro exI [of _ r'] exI [of _ w'] exI [of _ "Suc n"]) (simp add: step)
    qed
  qed
  moreover obtain k :: nat where "(deadline - now w) / interval \<le> of_nat k"
    using real_arch_simple by blast
  then have "deadline - now w \<le> of_nat k * interval"
    using assms by (simp add: pos_divide_le_eq)
  ultimately show ?thesis by blast
qed

lemma wait_traced:
  assumes "0 < interval" "wait_for_jwt_cache (traced ops) budget interval (w, tr) = Some (r, (w', tr'))"
  obtains n where "wait_for_jwt_cache ops budget interval w = Some (r, w')" "tr' = tr @ replicate n interval"
    "n = 0 \<or> of_nat (n - 1) * interval < budget"
proof -
  obtain t w1 where c: "op_clock ops w = (t, w1)" by fastforce
  obtain b w2 where b: "op_ready ops w1 = (b, w2)" by fastforce
  show ?thesis
  proof (cases b)
    case True
    with assms(2) c b that [of 0] show ?thesis by (simp add: wait_for_jwt_cache_def)
  next
    case False
    obtain n where n: "poll_cache ops (t + budget) interval w2 = Some (r, w')" "tr' = tr @ replicate n interval"
      "n = 0 \<or> now w2 + of_nat (n - 1) * interval < t + budget"
      using poll_cache_traced [OF assms(1), of "t + budget" w2 tr] assms(2) c b False
      by (auto simp: wait_for_jwt_cache_def)
    have "t \<le> now w2" using clock_reads [OF c] ready_forward [OF b] by linarith
    with n(3) have "n = 0 \<or> of_nat (n - 1) * interval < budget" by linarith
    with n c b False that [of n] show ?thesis by (simp add: wait_for_jwt_cache_def)
  qed
qed

lemma attempt_traced:
  assumes "0 < jwt_cache_poll_interval_seconds cfg"
    and "attempt (traced ops) cfg i sched l (w, tr) = Some (st, (w', tr'))"
  shows "attempt ops cfg i sched l w = Some (st, w')
    \<and> (\<forall>l'. st = Done (Inr l') \<or> st = Again l' \<longrightarrow>
         (\<exists>n s. sleeps l' = sleeps l @ [s] \<and> polls_ok cfg n \<and> tr' = tr @ attempt_sleeps cfg n s))"
proof (cases "has_jwt_cache cfg")
  case True
  obtain r v tr1 where wait: "wait_for_jwt_cache (traced ops) (jwt_cache_wait_seconds cfg)
      (jwt_cache_poll_interval_seconds cfg) (w, tr) = Some (r, (v, tr1))"
    "(st, (w', tr')) = (if r then connect_attempt (traced ops) cfg i sched l (v, tr1)
       else cold_attempt (traced ops) cfg i sched l (v, tr1))"
    using assms(2) True by (auto simp: attempt_def split: option.splits)
  obtain n where n: "wait_for_jwt_cache ops (jwt_cache_wait_seconds cfg)
      (jwt_cache_poll_interval_seconds cfg) w = Some (r, v)"
    "tr1 = tr @ replicate n (jwt_cache_poll_interval_seconds cfg)" "polls_ok cfg n"
    using wait_traced [OF assms(1) wait(1)] True by (auto simp: polls_ok_def)
  have app: "tr1 @ attempt_sleeps cfg 0 s = tr @ attempt_sleeps cfg n s" for s
    using n(2) by (simp add: attempt_sleeps_def)
  have "st = Done (Inr l'') \<or> st = Again l'' \<longrightarrow>
      (\<exists>s. sleeps l'' = sleeps l @ [s] \<and> tr' = tr1 @ attempt_sleeps cfg 0 s)" for l''
    using wait(2) connect_attempt_traced [of ops cfg i sched l v tr1 st w' tr']
      cold_attempt_traced [of ops cfg i sched l v tr1 st w' tr'] by (cases r) auto
  then have tail: "\<forall>l'. st = Done (Inr l') \<or> st = Again l' \<longrightarrow>
      (\<exists>n s. sleeps l' = sleeps l @ [s] \<and> polls_ok cfg n \<and> tr' = tr @ attempt_sleeps cfg n s)"
    using n(3) unfolding app by blast
  have "(st, w') = (if r then connect_attempt ops cfg i sched l v else cold_attempt ops cfg i sched l v)"
    using wait(2) connect_attempt_traced [of ops cfg i sched l v tr1 st w' tr']
      cold_attempt_traced [of ops cfg i sched l v tr1 st w' tr'] by (cases r) auto
  then have "attempt ops cfg i sched l w = Some (st, w')"
    using n(1) True by (simp add: attempt_def)
  with tail show ?thesis by blast
next
  case False
  with assms(2) have "connect_attempt (traced ops) cfg i sched l (w, tr) = (st, (w', tr'))"
    by (simp add: attempt_def)
  from connect_attempt_traced [OF this] False show ?thesis
    by (auto simp: attempt_def polls_ok_def)
qed

lemma loop_traced:
  assumes "0 < jwt_cache_poll_interval_seconds cfg"
  shows "retry_loop (traced ops) cfg i sched l (w, tr) = Some (r, (w', tr')) \<Longrightarrow>
    retry_loop ops cfg i sched l w = Some (r, w')
    \<and> (\<forall>l'. r = Inr l' \<longrightarrow> (\<exists>ns ss. sleeps l' = sleeps l @ ss \<and> length ns = length ss \<and> list_all (polls_ok cfg) ns
         \<and> tr' = tr @ concat (map2 (attempt_sleeps cfg) ns ss)))"
proof (induction sched arbitrary: i l w tr)
  case Nil
  then obtain st v tr1 where a: "attempt (traced ops) cfg i [] l (w, tr) = Some (st, (v, tr1))"
    by (auto split: option.splits)
  note t = attempt_traced [OF assms a]
  have "\<exists>ns ss. sleeps l' = sleeps l @ ss \<and> length ns = length ss \<and> list_all (polls_ok cfg) ns
      \<and> tr' = tr @ concat (map2 (attempt_sleeps cfg) ns ss)" if r: "r = Inr l'" for l'
  proof -
    have "st = Done (Inr l') \<or> st = Again l'" "tr1 = tr'"
      using Nil a r by (auto split: step.splits)
    with t obtain n s where "sleeps l' = sleeps l @ [s]" "polls_ok cfg n" "tr' = tr @ attempt_sleeps cfg n s" by metis
    then show ?thesis by (intro exI [of _ "[n]"] exI [of _ "[s]"]) simp
  qed
  with t a Nil show ?case by (cases st) auto
next
  case (Cons d sched)
  then obtain st v tr1 where a: "attempt (traced ops) cfg i (d # sched) l (w, tr) = Some (st, (v, tr1))"
    by (auto split: option.splits)
  note t = attempt_traced [OF assms a]
  show ?case
  proof (cases st)
    case (Done q)
    with Cons.prems a have q: "q = r" "v = w'" "tr1 = tr'" by auto
    have "\<exists>ns ss. sleeps l' = sleeps l @ ss \<and> length ns = length ss \<and> list_all (polls_ok cfg) ns
      \<and> tr' = tr @ concat (map2 (attempt_sleeps cfg) ns ss)" if "r = Inr l'" for l'
    proof -
      from t Done q that obtain n s where "sleeps l' = sleeps l @ [s]" "polls_ok cfg n"
        "tr' = tr @ attempt_sleeps cfg n s" by metis
      then show ?thesis by (intro exI [of _ "[n]"] exI [of _ "[s]"]) simp
    qed
    with t Done q show ?thesis by auto
  next
    case (Again l1)
    with t obtain n s where n: "sleeps l1 = sleeps l @ [s]" "polls_ok cfg n" "tr1 = tr @ attempt_sleeps cfg n s" by metis
    from Cons.prems a Again have run: "retry_loop (traced ops) cfg (Suc i) sched l1 (v, tr1) = Some (r, (w', tr'))" by simp
    note ih = Cons.IH [OF this]
    have "\<exists>ns ss. sleeps l' = sleeps l @ ss \<and> length ns = length ss \<and> list_all (polls_ok cfg) ns
      \<and> tr' = tr @ concat (map2 (attempt_sleeps cfg) ns ss)" if "r = Inr l'" for l'
    proof -
      from ih that obtain ns ss where "sleeps l' = sleeps l1 @ ss" "length ns = length ss" "list_all (polls_ok cfg) ns"
        "tr' = tr1 @ concat (map2 (attempt_sleeps cfg) ns ss)" by blast
      with n show ?thesis by (intro exI [of _ "n # ns"] exI [of _ "s # ss"]) simp
    qed
    with t Again ih show ?thesis by auto
  qed
qed

end

text \<open>
  C17: Everything the layer sleeps is bounded. A run that returns a log has slept, attempt by attempt,
  the poll interval for each poll of a cold cache, of which there are only as many as begin within the
  wait budget (none without a cache), and then the delay the log records for the attempt, and nothing
  else; that delay lies between \<open>1 - jitter\<close> and \<open>1 + jitter\<close> times the scheduled one, there is none
  after the last attempt, and the delays add up to at most \<open>1 + jitter\<close> times the part of the schedule
  that was used.
\<close>

theorem retry_backoff_bounds:
  assumes "retry_env ops now" "0 < jwt_cache_poll_interval_seconds cfg"
    and "connect_with_retry ops cfg w = Some (Inr l, w')"
  shows "(\<exists>ns slept. connect_with_retry (traced ops) cfg (w, []) = Some (Inr l, (w', slept))
      \<and> slept = concat (map2 (attempt_sleeps cfg) ns (sleeps l))
      \<and> length ns = length (attempts l) \<and> list_all (polls_ok cfg) ns)
    \<and> (\<exists>ss. sleeps l = ss @ [0] \<and> length ss \<le> length (schedule cfg)
      \<and> list_all2 (jittered (jitter_factor cfg)) (take (length ss) (schedule cfg)) ss
      \<and> sum_list (sleeps l) \<le> (1 + jitter_factor cfg) * sum_list (take (length ss) (schedule cfg)))"
proof -
  from assms(3) have run: "retry_loop ops cfg 0 (schedule cfg) new_log w = Some (Inr l, w')"
    and ok: "0 \<le> jitter_factor cfg" "jitter_factor cfg < 1"
    by (auto simp: connect_with_retry_def split: if_splits)
  obtain r v slept where "retry_loop (traced ops) cfg 0 (schedule cfg) new_log (w, []) = Some (r, (v, slept))"
    using retry_env.loop_returns [OF retry_env.traced_env [OF assms(1)] assms(2)] by (metis surj_pair)
  moreover from retry_env.loop_traced [OF assms(1,2) this] run obtain ns where
    "r = Inr l" "v = w'" "length ns = length (sleeps l)" "list_all (polls_ok cfg) ns"
    "slept = concat (map2 (attempt_sleeps cfg) ns (sleeps l))"
    by (auto simp: sleeps_def new_log_def)
  ultimately have "\<exists>ns slept. connect_with_retry (traced ops) cfg (w, []) = Some (Inr l, (w', slept))
      \<and> slept = concat (map2 (attempt_sleeps cfg) ns (sleeps l))
      \<and> length ns = length (attempts l) \<and> list_all (polls_ok cfg) ns"
    using ok by (auto simp: connect_with_retry_def sleeps_def)
  moreover from retry_env.loop_sleeps [OF assms(1,2) run] obtain ss where ss:
    "sleeps l = ss @ [0]" "length ss \<le> length (schedule cfg)"
    "list_all2 (jittered (jitter_factor cfg)) (take (length ss) (schedule cfg)) ss"
    by (auto simp: sleeps_def new_log_def)
  ultimately show ?thesis using sum_jittered [OF ss(3)] by auto
qed

text \<open>
  C16: An outage shorter than the backoff is survived: if from time \<open>T\<close> on the server accepts
  connects and the cache is hot, earlier failures are of the retried kinds, and \<open>1 - jitter\<close> times
  the whole schedule reaches \<open>T\<close>, then \<open>connect_with_retry\<close> returns a log that succeeded.
\<close>

theorem retry_recovers:
  assumes "retry_env ops now" "recovers ops now cfg T"
    and "0 \<le> jitter_factor cfg" "jitter_factor cfg < 1" "list_all (\<lambda>d. 0 \<le> d) (schedule cfg)"
    and "0 < jwt_cache_poll_interval_seconds cfg"
    and "T \<le> now w + (1 - jitter_factor cfg) * sum_list (schedule cfg)"
  shows "\<exists>l w'. connect_with_retry ops cfg w = Some (Inr l, w') \<and> succeeded l"
  using retry_env.loop_recovers [OF assms(1,2,3,4,6) _ assms(7), of 0 new_log] assms(3-5)
  by (auto simp: connect_with_retry_def list_all_iff)
section \<open>The retry layer over the live adapter\<close>

text \<open>
  \<open>adapter.connect\<close> as the callable: the world is the adapter's state beside the rest.
\<close>

definition live_connect ::
    "('c, 'w) nats_lib \<Rightarrow> 'c real_adapter \<times> 'w \<Rightarrow> conn_exn option \<times> 'c real_adapter \<times> 'w" where
  "live_connect N aw =
     (case real_connect N (fst aw) (snd aw) of
        (Inl e, aw') \<Rightarrow> (Some e, aw')
      | (Inr x, aw') \<Rightarrow> (None, aw'))"

text \<open>
  Driving the live adapter, the retry layer always comes back with a log for a well-formed
  configuration, unless an exception that \<open>except Exception\<close> does not catch, such as a
  cancellation, stops it: every ordinary error of \<open>nats-py\<close> has been mapped into the adapters'
  hierarchy and is retried, never passed on.
\<close>

lemma retry_over_live_adapter:
  assumes "retry_env ops now" "op_connect ops = live_connect N"
    and "0 < jwt_cache_poll_interval_seconds cfg"
    and "0 \<le> jitter_factor cfg" "jitter_factor cfg < 1" "list_all (\<lambda>d. 0 \<le> d) (schedule cfg)"
  shows "\<exists>r aw'. connect_with_retry ops cfg aw = Some (r, aw')
    \<and> (case r of Inr l \<Rightarrow> True
       | Inl e \<Rightarrow> (\<exists>x. e = Reraised x \<and> \<not> cx_exception x))"
proof -
  obtain r aw' where r: "connect_with_retry ops cfg aw = Some (r, aw')"
    "case r of Inr l \<Rightarrow> True | Inl e \<Rightarrow> raise_ok ops cfg e"
    using connect_returns [OF assms(1,3)] by blast
  have "\<exists>x. e = Reraised x \<and> \<not> cx_exception x" if "raise_ok ops cfg e" for e
  proof (cases e)
    case RetryValueError
    with that assms(4-6) show ?thesis by (auto simp: raise_ok_def list_all_iff)
  next
    case (Reraised x)
    with that assms(2) obtain a v where k: "cx_kind x = KOther" "fst (live_connect N (a, v)) = Some x"
      by (auto simp: raise_ok_def)
    then obtain a' v' where "real_connect N a v = (Inl x, a', v')"
      by (cases "real_connect N a v") (auto simp: live_connect_def split: sum.splits)
    from real_connect_contract [OF this] k(1) Reraised show ?thesis
      by (auto simp: in_contract_def is_adapter_error_def)
  qed
  with r show ?thesis by (auto split: sum.splits)
qed

section \<open>A simulated world\<close>

text \<open>
  A clock that only sleeps move, the lower bound as the jitter, the mock adapter behind a server that
  comes up at a given time, and the fixed cache view, switched to hot at that time.
\<close>

record sim_world =
  sim_now :: rat
  sim_view :: static_ready_view
  sim_adapter :: mock_adapter

definition sim_ops :: "rat \<Rightarrow> sim_world retry_ops" where
  "sim_ops up =
     \<lparr>op_clock = (\<lambda>w. (sim_now w, w)),
      op_sleep = (\<lambda>d w. w\<lparr>sim_now := sim_now w + d\<rparr>),
      op_uniform = (\<lambda>a b w. (a, w)),
      op_ready = (\<lambda>w. (is_ready (set_ready (up \<le> sim_now w) (sim_view w)), w)),
      op_connect = (\<lambda>w. if sim_now w < up then (Some (unavailable (u ''TCP probe failed'')), w)
         else (None, w\<lparr>sim_adapter := mock_connect (sim_adapter w)\<rparr>))\<rparr>"

interpretation sim: retry_env "sim_ops up" sim_now for up
  by unfold_locales (auto simp: sim_ops_def split: if_splits)

definition sim_start :: sim_world where
  "sim_start = \<lparr>sim_now = 0, sim_view = \<lparr>view_ready = False\<rparr>, sim_adapter = new_mock\<rparr>"

definition sim_config :: retry_config where
  "sim_config = \<lparr>schedule = default_retry_schedule, jitter_factor = default_jitter_factor,
     has_jwt_cache = False, jwt_cache_wait_seconds = default_jwt_cache_wait_seconds,
     jwt_cache_poll_interval_seconds = 1/20,
     chars = \<lparr>lower_other = (\<lambda>s. s), digit_other = (\<lambda>_. None)\<rparr>,
     seconds_text = (\<lambda>_. u ''1.0''), exn_repr = cx_msg\<rparr>"

lemmas sim_defs = sim_config_def default_retry_schedule_def default_jitter_factor_def
  default_jwt_cache_wait_seconds_def

lemma sim_recovers: "recovers (sim_ops up) sim_now cfg up"
  by (auto simp: recovers_def sim_ops_def is_ready_def set_ready_def unavailable_def is_adapter_error_def
      split: if_splits)

text \<open>An outage of six seconds is within the reach of the default schedule.\<close>

lemma retry_recovers_witness:
  "\<exists>l w'. connect_with_retry (sim_ops 6) sim_config sim_start = Some (Inr l, w') \<and> succeeded l"
  by (rule retry_recovers [OF sim.retry_env_axioms sim_recovers])
    (simp_all add: sim_defs sim_start_def)

lemma sim_down:
  "\<exists>l w'. connect_with_retry (sim_ops 1) (sim_config\<lparr>schedule := []\<rparr>) sim_start = Some (Inr l, w')
     \<and> \<not> succeeded l \<and> log_reasons l = [TCP_UNREACHABLE]"
  by (simp add: connect_with_retry_def attempt_def connect_attempt_def sim_defs sim_ops_def sim_start_def
      next_delay_def log_record_def new_log_def log_reasons_def classify_failure_def unavailable_def
      is_adapter_error_def u_def)

lemma retry_log_ok_witness:
  "\<exists>l. log_ok 1 l \<and> log_reasons l = [TCP_UNREACHABLE]"
proof -
  obtain l w' where l: "connect_with_retry (sim_ops 1) (sim_config\<lparr>schedule := []\<rparr>) sim_start = Some (Inr l, w')"
    "log_reasons l = [TCP_UNREACHABLE]"
    using sim_down by blast
  from retry_log_ok [OF l(1)] l(2) show ?thesis by auto
qed

lemma retry_returns_witness:
  "\<exists>r w'. connect_with_retry (sim_ops 6) sim_config sim_start = Some (r, w')"
  using retry_returns [OF sim.retry_env_axioms, of sim_config 6 sim_start] by (auto simp: sim_defs)

lemma retry_backoff_bounds_witness:
  "\<exists>l w' ss slept. connect_with_retry (traced (sim_ops 1)) (sim_config\<lparr>schedule := []\<rparr>) (sim_start, [])
       = Some (Inr l, (w', slept))
     \<and> sleeps l = ss @ [0]"
proof -
  obtain l w' where l: "connect_with_retry (sim_ops 1) (sim_config\<lparr>schedule := []\<rparr>) sim_start = Some (Inr l, w')"
    using sim_down by blast
  have "0 < jwt_cache_poll_interval_seconds (sim_config\<lparr>schedule := []\<rparr>)" by (simp add: sim_defs)
  from retry_backoff_bounds [OF sim.retry_env_axioms this l] show ?thesis by blast
qed

text \<open>The live adapter in a world of which only the clock matters; the client library is absent.\<close>

definition absent_lib :: "(unit, rat) nats_lib" where
  "absent_lib = \<lparr>nl_probe = (\<lambda>_ w. (True, w)), nl_import_error = Some (u ''No module named nats''),
     nl_connect = (\<lambda>_ w. (Inr (), w)), nl_close = (\<lambda>_ w. (Inr (), w)),
     nl_publish = (\<lambda>_ _ _ w. (Inr (), w)),
     nl_chars = \<lparr>lower_other = (\<lambda>s. s), digit_other = (\<lambda>_. None)\<rparr>, nl_repr = (\<lambda>s. s)\<rparr>"

definition absent_ops :: "(unit real_adapter \<times> rat) retry_ops" where
  "absent_ops = \<lparr>op_clock = (\<lambda>w. (snd w, w)), op_sleep = (\<lambda>d w. (fst w, snd w + d)),
     op_uniform = (\<lambda>a b w. (a, w)), op_ready = (\<lambda>w. (True, w)), op_connect = live_connect absent_lib\<rparr>"

interpretation absent: retry_env absent_ops snd
  by unfold_locales
    (auto simp: absent_ops_def live_connect_def real_connect_def absent_lib_def split: prod.splits if_splits)

lemma retry_over_live_adapter_witness:
  "\<exists>r aw'. connect_with_retry absent_ops sim_config (new_real (chars sim_config) None None None, 0) = Some (r, aw')"
  using retry_over_live_adapter [OF absent.retry_env_axioms, of absent_lib sim_config
      "(new_real (chars sim_config) None None None, 0)"]
  by (auto simp: sim_defs absent_ops_def)

section \<open>A cache that stays cold\<close>

text \<open>
  With a view that never turns ready every attempt is recorded as cold, no connect is made, and the
  log is returned by the statement after the loop.
\<close>

definition cold_ops :: "sim_world retry_ops" where
  "cold_ops = (sim_ops 0)\<lparr>op_ready := (\<lambda>w. (is_ready (sim_view w), w))\<rparr>"

lemma cold_cache_falls_through:
  "\<exists>l w'. connect_with_retry cold_ops
       (sim_config\<lparr>schedule := [], has_jwt_cache := True, jwt_cache_wait_seconds := 0\<rparr>) sim_start
     = Some (Inr l, w') \<and> log_reasons l = [JWT_CACHE_COLD] \<and> \<not> succeeded l
       \<and> \<not> mk_connected (sim_adapter w')"
  by (simp add: connect_with_retry_def attempt_def cold_attempt_def wait_for_jwt_cache_def poll_cache.simps
      sim_defs sim_ops_def cold_ops_def sim_start_def new_mock_def is_ready_def next_delay_def
      log_record_def new_log_def log_reasons_def sleep_positive_def)

end
