(* ===== verification/Frames.thy ===== *)
theory Frames
  imports Jcs
begin

text \<open>
  The layer-1 frames of \<open>wirelang/frame_builder.py\<close>: the constructor \<open>build_layer_1_frame\<close> with
  its layer-2 envelope, and the fluent builder around it. A frame is the list of its items in
  order of insertion; SHA-256 is a parameter.
\<close>

section \<open>Constants\<close>

definition wirelang_default_version :: ustr where
  "wirelang_default_version = u ''0.2.0''"

definition default_datacontenttype :: ustr where
  "default_datacontenttype = u ''application/wirelang+json''"

definition default_vocab_id :: ustr where
  "default_vocab_id = u ''wakir.core''"

definition default_vocab_version :: ustr where
  "default_vocab_version = u ''0.1.0''"

definition default_vocab_anchor_url :: ustr where
  "default_vocab_anchor_url = u ''https://wakir.dev/wirelang/vocab/'' @ default_vocab_version @ u ''.json''"

section \<open>Capability references\<close>

definition hexdigest :: "octets \<Rightarrow> ustr" where
  "hexdigest b = concat (map (\<lambda>o1. [hex_digit (o1 div 16), hex_digit (o1 mod 16)]) b)"

definition capability_token_hash_ref :: "(octets \<Rightarrow> octets) \<Rightarrow> octets \<Rightarrow> ustr" where
  "capability_token_hash_ref sha256 token = u ''sha256:'' @ hexdigest (sha256 token)"

section \<open>The constructor\<close>

type_synonym items = "(ustr \<times> pyval) list"

record frame_args =
  persona_did :: ustr
  event_type :: ustr
  schema_id :: "ustr option"
  schema_version :: ustr
  actorrole :: ustr
  event_id :: ustr
  payload :: "items option"
  capability_token_hashes :: "ustr list option"
  frame_time :: "ustr option"
  wirelangversion :: ustr
  agentid :: "ustr option"
  personapin :: "ustr option"
  personahash :: "ustr option"
  attestationref :: "ustr option"
  imagedigest :: "ustr option"
  dataschemaref :: "ustr option"
  valid_after :: "ustr option"
  valid_until :: "ustr option"
  embed_layer_2_envelope :: bool
  extra_data :: "items option"

definition opt_pystr :: "ustr option \<Rightarrow> pyval" where
  "opt_pystr x = (case x of None \<Rightarrow> PNone | Some s \<Rightarrow> PStr s)"

definition classify_frame :: "ustr \<Rightarrow> ustr" where
  "classify_frame et = (if starts_with (u ''wakir.meta.'') et then u ''meta-event'' else u ''domain-event'')"

definition layer_2_envelope ::
    "ustr \<Rightarrow> ustr \<Rightarrow> ustr option \<Rightarrow> ustr option \<Rightarrow> ustr \<Rightarrow> ustr \<Rightarrow> ustr \<Rightarrow> ustr \<Rightarrow> items" where
  "layer_2_envelope sid sver va vu vid vver vurl fclass =
     [(u ''frame_class'', PStr fclass), (u ''schema_id'', PStr sid), (u ''schema_version'', PStr sver),
      (u ''validafter'', opt_pystr va), (u ''validuntil'', opt_pystr vu),
      (u ''vocabulary'', PDict [(u ''id'', PStr vid), (u ''version'', PStr vver),
         (u ''anchor_url'', PStr vurl)])]"

text \<open>\<open>d.update(e)\<close>, and storing an optional attribute when it is given.\<close>

definition dict_update :: "items \<Rightarrow> items \<Rightarrow> items" where
  "dict_update d e = foldl (\<lambda>d kv. dict_set d (fst kv) (snd kv)) d e"

definition set_opt :: "string \<Rightarrow> ustr option \<Rightarrow> items \<Rightarrow> items" where
  "set_opt k x d = (case x of None \<Rightarrow> d | Some s \<Rightarrow> dict_set d (u k) (PStr s))"

text \<open>\<open>schema_id or event_type\<close>: an empty schema id counts as none.\<close>

definition effective_schema_id :: "frame_args \<Rightarrow> ustr" where
  "effective_schema_id a =
     (case schema_id a of None \<Rightarrow> event_type a | Some s \<Rightarrow> if s = [] then event_type a else s)"

definition frame_data :: "frame_args \<Rightarrow> items" where
  "frame_data a =
     (let d0 = (case payload a of None \<Rightarrow> [] | Some p \<Rightarrow> dict_update [] p);
          d1 = (case extra_data a of None \<Rightarrow> d0 | Some x \<Rightarrow> dict_update d0 x)
      in if embed_layer_2_envelope a
         then dict_set d1 (u ''wirelang_layer_2_envelope'')
           (PDict (layer_2_envelope (effective_schema_id a) (schema_version a) (valid_after a)
              (valid_until a) default_vocab_id default_vocab_version default_vocab_anchor_url
              (classify_frame (event_type a))))
         else d1)"

definition frame_attributes :: "frame_args \<Rightarrow> items" where
  "frame_attributes a =
     (set_opt ''dataschemaref'' (dataschemaref a)
     (set_opt ''imagedigest'' (imagedigest a)
     (set_opt ''attestationref'' (attestationref a)
     (set_opt ''personahash'' (personahash a)
     (set_opt ''personapin'' (personapin a)
     (set_opt ''agentid'' (agentid a)
     (set_opt ''time'' (frame_time a)
       [(u ''specversion'', PStr (u ''1.0'')), (u ''type'', PStr (event_type a)),
        (u ''source'', PStr (persona_did a)), (u ''id'', PStr (event_id a)),
        (u ''wirelangversion'', PStr (wirelangversion a)),
        (u ''schemaid'', PStr (effective_schema_id a)),
        (u ''schemaversion'', PStr (schema_version a)), (u ''actorrole'', PStr (actorrole a)),
        (u ''datacontenttype'', PStr default_datacontenttype)])))))))"

definition build_layer_1_frame :: "frame_args \<Rightarrow> items" where
  "build_layer_1_frame a =
     (let f0 = frame_attributes a;
          f1 = (case capability_token_hashes a of
                  None \<Rightarrow> f0
                | Some hs \<Rightarrow> if hs = [] then f0
                            else dict_set f0 (u ''caprefs'') (PList (map PStr hs)));
          d = frame_data a
      in if d = [] then f1 else dict_set f1 (u ''data'') (PDict d))"

section \<open>The builder\<close>

record frame_builder =
  b_persona_did :: ustr
  b_event_type :: ustr
  b_schema_id :: "ustr option"
  b_schema_version :: ustr
  b_actorrole :: ustr
  b_event_id :: ustr
  b_payload :: items
  b_capability_token_hashes :: "ustr list"
  b_time :: "ustr option"
  b_wirelangversion :: ustr
  b_agentid :: "ustr option"

definition new_builder :: frame_builder where
  "new_builder = \<lparr>b_persona_did = u ''did:web:wakir.dev:treasury-agent'',
     b_event_type = u ''wakir.treasury.read'', b_schema_id = None, b_schema_version = u ''0.1.0'',
     b_actorrole = u ''treasury-operator'', b_event_id = u ''01HK4P8X3W2N5Q9V0R6T7S8YZA'',
     b_payload = [], b_capability_token_hashes = [], b_time = Some (u ''2026-05-06T11:35:00Z''),
     b_wirelangversion = wirelang_default_version, b_agentid = None\<rparr>"

definition with_persona :: "ustr \<Rightarrow> ustr option \<Rightarrow> frame_builder \<Rightarrow> frame_builder" where
  "with_persona did role b =
     (let b' = b\<lparr>b_persona_did := did\<rparr>
      in case role of None \<Rightarrow> b' | Some r \<Rightarrow> b'\<lparr>b_actorrole := r\<rparr>)"

definition with_event_type :: "ustr \<Rightarrow> ustr option \<Rightarrow> frame_builder \<Rightarrow> frame_builder" where
  "with_event_type et sid b =
     (let b' = b\<lparr>b_event_type := et\<rparr>
      in case sid of None \<Rightarrow> b' | Some s \<Rightarrow> b'\<lparr>b_schema_id := Some s\<rparr>)"

definition with_payload :: "items \<Rightarrow> frame_builder \<Rightarrow> frame_builder" where
  "with_payload p b = b\<lparr>b_payload := p\<rparr>"

definition with_capability :: "(octets \<Rightarrow> octets) \<Rightarrow> octets \<Rightarrow> frame_builder \<Rightarrow> frame_builder" where
  "with_capability sha256 token b =
     b\<lparr>b_capability_token_hashes := b_capability_token_hashes b @ [capability_token_hash_ref sha256 token]\<rparr>"

definition with_capability_hash :: "ustr \<Rightarrow> frame_builder \<Rightarrow> frame_builder" where
  "with_capability_hash ref b = b\<lparr>b_capability_token_hashes := b_capability_token_hashes b @ [ref]\<rparr>"

definition with_event_id :: "ustr \<Rightarrow> frame_builder \<Rightarrow> frame_builder" where
  "with_event_id i b = b\<lparr>b_event_id := i\<rparr>"

definition with_time :: "ustr option \<Rightarrow> frame_builder \<Rightarrow> frame_builder" where
  "with_time t b = b\<lparr>b_time := t\<rparr>"

definition with_agentid :: "ustr \<Rightarrow> frame_builder \<Rightarrow> frame_builder" where
  "with_agentid i b = b\<lparr>b_agentid := Some i\<rparr>"

definition builder_args :: "bool \<Rightarrow> frame_builder \<Rightarrow> frame_args" where
  "builder_args with_envelope b =
     \<lparr>persona_did = b_persona_did b, event_type = b_event_type b, schema_id = b_schema_id b,
      schema_version = b_schema_version b, actorrole = b_actorrole b, event_id = b_event_id b,
      payload = (if b_payload b = [] then None else Some (b_payload b)),
      capability_token_hashes =
        (if b_capability_token_hashes b = [] then None else Some (b_capability_token_hashes b)),
      frame_time = b_time b, wirelangversion = b_wirelangversion b, agentid = b_agentid b,
      personapin = None, personahash = None, attestationref = None, imagedigest = None,
      dataschemaref = None, valid_after = None, valid_until = None,
      embed_layer_2_envelope = with_envelope, extra_data = None\<rparr>"

definition build :: "bool \<Rightarrow> frame_builder \<Rightarrow> items" where
  "build with_envelope b = build_layer_1_frame (builder_args with_envelope b)"

section \<open>Frames are dictionaries\<close>

lemma distinct_update: "distinct (map fst d) \<Longrightarrow> distinct (map fst (dict_update d e))"
  unfolding dict_update_def by (induction e arbitrary: d) auto

lemma distinct_set_opt: "distinct (map fst d) \<Longrightarrow> distinct (map fst (set_opt k x d))"
  by (auto simp: set_opt_def split: option.split)

lemma map_of_update: "distinct (map fst e) \<Longrightarrow> map_of (dict_update d e) = map_of d ++ map_of e"
  unfolding dict_update_def
proof (induction e arbitrary: d)
  case (Cons kv e)
  have new: "fst kv \<notin> dom (map_of e)"
    using Cons.prems by (simp add: dom_map_of_conv_image_fst)
  have "map_of (foldl (\<lambda>d kv. dict_set d (fst kv) (snd kv)) d (kv # e))
      = (map_of d)(fst kv \<mapsto> snd kv) ++ map_of e"
    using Cons by simp
  also have "\<dots> = map_of d ++ (map_of e)(fst kv \<mapsto> snd kv)"
    using map_add_upd_left [OF new] map_add_upd [of "map_of d" "map_of e"] by metis
  also have "(map_of e)(fst kv \<mapsto> snd kv) = map_of (kv # e)"
    by (cases kv) simp
  finally show ?case .
qed simp

lemma map_of_set_opt [simp]:
  "map_of (set_opt k x d) = (case x of None \<Rightarrow> map_of d | Some s \<Rightarrow> (map_of d)(u k \<mapsto> PStr s))"
  by (simp add: set_opt_def split: option.split)

lemma distinct_attributes: "distinct (map fst (frame_attributes a))"
  unfolding frame_attributes_def by (intro distinct_set_opt) simp

lemma distinct_data: "distinct (map fst (frame_data a))"
  by (auto simp: frame_data_def Let_def intro!: distinct_update split: option.split)

lemma distinct_frame: "distinct (map fst (build_layer_1_frame a))"
  using distinct_attributes by (auto simp: build_layer_1_frame_def Let_def split: option.split)

section \<open>What a frame says\<close>

definition opt_items :: "items option \<Rightarrow> items" where
  "opt_items x = (case x of None \<Rightarrow> [] | Some d \<Rightarrow> d)"

definition envelope_of :: "frame_args \<Rightarrow> pyval" where
  "envelope_of a = PDict (layer_2_envelope (effective_schema_id a) (schema_version a) (valid_after a)
     (valid_until a) default_vocab_id default_vocab_version default_vocab_anchor_url
     (classify_frame (event_type a)))"

lemma frame_data_map:
  assumes "distinct (map fst (opt_items (payload a)))" "distinct (map fst (opt_items (extra_data a)))"
  shows "map_of (frame_data a) =
     (let m = map_of (opt_items (payload a)) ++ map_of (opt_items (extra_data a))
      in if embed_layer_2_envelope a then m(u ''wirelang_layer_2_envelope'' \<mapsto> envelope_of a) else m)"
  using assms
  by (auto simp: frame_data_def Let_def opt_items_def envelope_of_def map_of_update split: option.splits)

text \<open>
  In the \<open>data\<close> of a frame an entry of \<open>extra_data\<close> takes precedence over one of the payload with
  the same key, and the layer-2 envelope, when it is embedded, over both; the slot is left out
  exactly when it would be empty.
\<close>

lemma frame_data_precedence:
  assumes "distinct (map fst (opt_items (payload a)))" "distinct (map fst (opt_items (extra_data a)))"
  shows "map_of (build_layer_1_frame a) (u ''data'') = (if frame_data a = [] then None else Some (PDict (frame_data a)))
    \<and> map_of (frame_data a) =
       (let m = map_of (opt_items (payload a)) ++ map_of (opt_items (extra_data a))
        in if embed_layer_2_envelope a then m(u ''wirelang_layer_2_envelope'' \<mapsto> envelope_of a) else m)"
proof
  have "map_of (frame_attributes a) (u ''data'') = None"
    by (auto simp: frame_attributes_def split: option.splits)
  then show "map_of (build_layer_1_frame a) (u ''data'') = (if frame_data a = [] then None else Some (PDict (frame_data a)))"
    by (auto simp: build_layer_1_frame_def Let_def split: option.splits)
qed (rule frame_data_map [OF assms])

section \<open>Frames can be signed\<close>

definition items_ok :: "items \<Rightarrow> bool" where
  "items_ok d \<longleftrightarrow> (\<forall>kv \<in> set d. str_ok (fst kv) \<and> jcs_ok (snd kv) \<and> json_plain (snd kv))"

definition ostr_ok :: "ustr option \<Rightarrow> bool" where
  "ostr_ok x \<longleftrightarrow> (case x of None \<Rightarrow> True | Some s \<Rightarrow> str_ok s)"

definition args_ok :: "frame_args \<Rightarrow> bool" where
  "args_ok a \<longleftrightarrow> str_ok (persona_did a) \<and> str_ok (event_type a) \<and> ostr_ok (schema_id a)
     \<and> str_ok (schema_version a) \<and> str_ok (actorrole a) \<and> str_ok (event_id a)
     \<and> items_ok (opt_items (payload a)) \<and> items_ok (opt_items (extra_data a))
     \<and> (case capability_token_hashes a of None \<Rightarrow> True | Some hs \<Rightarrow> list_all (\<lambda>h. str_ok h) hs)
     \<and> ostr_ok (frame_time a) \<and> str_ok (wirelangversion a) \<and> ostr_ok (agentid a)
     \<and> ostr_ok (personapin a) \<and> ostr_ok (personahash a) \<and> ostr_ok (attestationref a)
     \<and> ostr_ok (imagedigest a) \<and> ostr_ok (dataschemaref a) \<and> ostr_ok (valid_after a)
     \<and> ostr_ok (valid_until a)"

lemma dict_set_subset: "set (dict_set d k v) \<subseteq> insert (k, v) (set d)"
  by (induction d k v rule: dict_set.induct) auto

lemma items_ok_Cons:
  "items_ok (kv # d) \<longleftrightarrow> str_ok (fst kv) \<and> jcs_ok (snd kv) \<and> json_plain (snd kv) \<and> items_ok d"
  by (auto simp only: items_ok_def list.set ball_simps)

lemma items_ok_set:
  "items_ok d \<Longrightarrow> str_ok k \<Longrightarrow> jcs_ok v \<Longrightarrow> json_plain v \<Longrightarrow> items_ok (dict_set d k v)"
proof (unfold items_ok_def, intro ballI)
  fix kv
  assume ok: "\<forall>kv \<in> set d. str_ok (fst kv) \<and> jcs_ok (snd kv) \<and> json_plain (snd kv)"
    "str_ok k" "jcs_ok v" "json_plain v" and "kv \<in> set (dict_set d k v)"
  then have "kv = (k, v) \<or> kv \<in> set d"
    using subsetD [OF dict_set_subset] by fast
  then show "str_ok (fst kv) \<and> jcs_ok (snd kv) \<and> json_plain (snd kv)"
  proof
    assume "kv = (k, v)"
    with ok(2-4) show ?thesis by (simp only: fst_conv snd_conv simp_thms)
  next
    assume "kv \<in> set d"
    with ok(1) show ?thesis by (rule bspec)
  qed
qed

lemma items_ok_update: "items_ok d \<Longrightarrow> items_ok e \<Longrightarrow> items_ok (dict_update d e)"
  unfolding dict_update_def
proof (induction e arbitrary: d)
  case (Cons kv e)
  then have "items_ok e" "items_ok (dict_set d (fst kv) (snd kv))"
    using items_ok_set by (auto simp only: items_ok_Cons)
  with Cons.IH show ?case by simp
qed simp

lemma items_ok_set_opt: "items_ok d \<Longrightarrow> ostr_ok x \<Longrightarrow> items_ok (set_opt k x d)"
  using u_ok [of k] by (auto simp: set_opt_def ostr_ok_def intro!: items_ok_set split: option.splits)

lemma schema_id_ok: "args_ok a \<Longrightarrow> str_ok (effective_schema_id a)"
  by (auto simp: args_ok_def ostr_ok_def effective_schema_id_def split: option.splits)

lemma attributes_ok:
  assumes "args_ok a"
  shows "items_ok (frame_attributes a)"
proof -
  have base: "items_ok
      [(u ''specversion'', PStr (u ''1.0'')), (u ''type'', PStr (event_type a)),
       (u ''source'', PStr (persona_did a)), (u ''id'', PStr (event_id a)),
       (u ''wirelangversion'', PStr (wirelangversion a)), (u ''schemaid'', PStr (effective_schema_id a)),
       (u ''schemaversion'', PStr (schema_version a)), (u ''actorrole'', PStr (actorrole a)),
       (u ''datacontenttype'', PStr default_datacontenttype)]"
    using assms schema_id_ok [OF assms] u_ok
    by (simp add: items_ok_def args_ok_def default_datacontenttype_def)
  show ?thesis
    unfolding frame_attributes_def
    by (intro items_ok_set_opt base) (use assms in \<open>simp_all add: args_ok_def\<close>)
qed

lemma opt_pystr_ok: "ostr_ok x \<Longrightarrow> jcs_ok (opt_pystr x) \<and> json_plain (opt_pystr x)"
  by (simp add: opt_pystr_def ostr_ok_def split: option.splits)

lemma envelope_ok:
  assumes "args_ok a"
  shows "jcs_ok (envelope_of a)" "json_plain (envelope_of a)"
proof -
  have "str_ok (classify_frame (event_type a))" "str_ok default_vocab_anchor_url"
    using u_ok by (auto simp: classify_frame_def default_vocab_anchor_url_def default_vocab_version_def)
  then show "jcs_ok (envelope_of a)" "json_plain (envelope_of a)"
    using assms schema_id_ok [OF assms] opt_pystr_ok [of "valid_after a"] opt_pystr_ok [of "valid_until a"] u_ok
    by (simp_all add: envelope_of_def layer_2_envelope_def args_ok_def default_vocab_id_def
        default_vocab_version_def)
qed

lemma data_ok:
  assumes "args_ok a"
  shows "items_ok (frame_data a)"
proof -
  have "items_ok (opt_items (payload a))" "items_ok (opt_items (extra_data a))" "items_ok []"
    using assms by (simp_all add: args_ok_def items_ok_def)
  then show ?thesis
    using envelope_ok [OF assms, unfolded envelope_of_def] u_ok
    by (auto simp: frame_data_def Let_def opt_items_def
        simp del: jcs_ok.simps json_plain.simps dict_set.simps
        intro!: items_ok_set items_ok_update split: option.splits)
qed

lemma frame_ok:
  assumes "args_ok a"
  shows "json_plain (PDict (build_layer_1_frame a))" "jcs_ok (PDict (build_layer_1_frame a))"
proof -
  have caps: "jcs_ok (PList (map PStr hs)) \<and> json_plain (PList (map PStr hs))"
    if "capability_token_hashes a = Some hs" for hs
    using assms that by (simp add: args_ok_def list_all_iff)
  have "jcs_ok (PDict (frame_data a))" "json_plain (PDict (frame_data a))"
    using data_ok [OF assms] distinct_data [of a] by (simp_all add: items_ok_def)
  then have "items_ok (build_layer_1_frame a)"
    using attributes_ok [OF assms] caps u_ok
    by (auto simp: build_layer_1_frame_def Let_def simp del: jcs_ok.simps json_plain.simps
        intro!: items_ok_set split: option.splits)
  then show "json_plain (PDict (build_layer_1_frame a))" "jcs_ok (PDict (build_layer_1_frame a))"
    using distinct_frame [of a] by (simp_all add: items_ok_def)
qed

text \<open>
  A frame built from encodable arguments has canonical bytes to sign, and two such frames have
  the same bytes exactly when they are the same document: a signature over one frame never
  carries over to a different one.
\<close>

lemma frame_signable:
  assumes "args_ok a" "args_ok a'"
  shows "\<exists>b b'. canonicalize (PDict (build_layer_1_frame a)) = Inr b
    \<and> canonicalize (PDict (build_layer_1_frame a')) = Inr b'
    \<and> (b = b' \<longleftrightarrow> json_denote (PDict (build_layer_1_frame a)) = json_denote (PDict (build_layer_1_frame a')))"
proof -
  from frame_ok(2) assms jcs_accepts obtain b b' where
    "canonicalize (PDict (build_layer_1_frame a)) = Inr b"
    "canonicalize (PDict (build_layer_1_frame a')) = Inr b'" by blast
  with canonical_bytes_eq [OF frame_ok(1) frame_ok(1), OF assms] show ?thesis by blast
qed

section \<open>The builder accumulates\<close>

lemma with_capabilities:
  "b_capability_token_hashes (foldl (\<lambda>b t. with_capability h t b) b ts)
     = b_capability_token_hashes b @ map (capability_token_hash_ref h) ts"
  by (induction ts arbitrary: b) (simp_all add: with_capability_def)

lemma build_caprefs:
  "b_capability_token_hashes b \<noteq> [] \<Longrightarrow>
     map_of (build e b) (u ''caprefs'') = Some (PList (map PStr (b_capability_token_hashes b)))"
  by (simp add: build_def build_layer_1_frame_def builder_args_def Let_def)

lemma frame_data_precedence_witness:
  "map_of (frame_data (builder_args True new_builder)) (u ''wirelang_layer_2_envelope'')
     = Some (envelope_of (builder_args True new_builder))"
  using frame_data_precedence [of "builder_args True new_builder"]
  by (simp add: builder_args_def new_builder_def opt_items_def)

lemma new_builder_ok: "args_ok (builder_args True new_builder)"
  by (simp add: args_ok_def builder_args_def new_builder_def opt_items_def items_ok_def ostr_ok_def
      u_ok wirelang_default_version_def)

lemma frame_signable_witness:
  "\<exists>b. canonicalize (PDict (build True new_builder)) = Inr b"
  unfolding build_def using frame_signable [OF new_builder_ok new_builder_ok] by blast

end
