(* ===== verification/Signing.thy ===== *)
theory Signing
  imports Frames
begin

text \<open>
  Signed documents: \<open>identity_substrate/aip_signing.py\<close> (Ed25519) and
  \<open>identity_substrate/did_document_signing.py\<close> (secp256k1). Both remove the slot of the
  signature from the document, canonicalise the rest, hash it with SHA-256 and sign the digest;
  the verifier does the same and checks the signature it is given.

  The locale \<open>signed_document\<close> is what the two have in common; its lemmas are proved once and
  both schemes interpret it. The hash, the two signature primitives and the \<open>rfc8785\<close> package
  are third-party code and fields of the environment.
\<close>

section \<open>Hexadecimal\<close>

text \<open>\<open>bytes.fromhex\<close>: ASCII white space may stand between two octets, not within one.\<close>

definition ascii_space :: "nat \<Rightarrow> bool" where
  "ascii_space c \<longleftrightarrow> (9 \<le> c \<and> c \<le> 13) \<or> c = 32"

fun fromhex :: "ustr \<Rightarrow> octets res" where
  "fromhex [] = Inr []"
| "fromhex [c] = (if ascii_space c then Inr [] else Inl ValueErr)"
| "fromhex (c # d # s) =
     (if ascii_space c then fromhex (d # s)
      else (case (hex_val c, hex_val d) of
              (Some h, Some l) \<Rightarrow> sbind (fromhex s) (\<lambda>b. Inr ((h * 16 + l) # b))
            | _ \<Rightarrow> Inl ValueErr))"

definition is_octet :: "nat \<Rightarrow> bool" where
  "is_octet b \<longleftrightarrow> b < 256"

definition octets_ok :: "octets \<Rightarrow> bool" where
  "octets_ok bs \<longleftrightarrow> list_all is_octet bs"

lemma octets_ok_simps [simp]:
  "octets_ok []" "octets_ok (b # bs) \<longleftrightarrow> b < 256 \<and> octets_ok bs"
  "octets_ok (bs @ cs) \<longleftrightarrow> octets_ok bs \<and> octets_ok cs"
  by (auto simp: octets_ok_def is_octet_def)

lemma hexdigest_simps [simp]:
  "hexdigest [] = []"
  "hexdigest (b # bs) = hex_digit (b div 16) # hex_digit (b mod 16) # hexdigest bs"
  by (simp_all add: hexdigest_def)

lemma hex_digit_graph: "n < 16 \<Longrightarrow> 48 \<le> hex_digit n \<and> hex_digit n \<le> 102"
  by (auto simp: hex_digit_def)

lemma hex_digit_space [simp]: "\<not> ascii_space (hex_digit n)"
  by (auto simp: hex_digit_def ascii_space_def)

lemma fromhex_hexdigest [simp]: "octets_ok b \<Longrightarrow> fromhex (hexdigest b) = Inr b"
  by (induction b) (auto simp: hex_val_digit)

lemma hexdigest_inj: "octets_ok a \<Longrightarrow> octets_ok b \<Longrightarrow> hexdigest a = hexdigest b \<Longrightarrow> a = b"
  by (metis fromhex_hexdigest Inr_inject)

lemma hexdigest_graph: "octets_ok b \<Longrightarrow> c \<in> set (hexdigest b) \<Longrightarrow> 48 \<le> c \<and> c \<le> 102"
proof (induction b)
  case (Cons o1 b)
  moreover have "o1 div 16 < 16" "o1 mod 16 < 16" using Cons.prems by auto
  ultimately show ?case using hex_digit_graph by auto
qed simp

lemma fromhex_chars: "fromhex s = Inr b \<Longrightarrow> c \<in> set s \<Longrightarrow> ascii_space c \<or> hex_val c \<noteq> None"
proof (induction s arbitrary: b rule: fromhex.induct)
  case (3 x y s)
  show ?case
  proof (cases "ascii_space x")
    case True
    with 3 show ?thesis by auto
  next
    case False
    with "3.prems" obtain h l b' where hl: "hex_val x = Some h" "hex_val y = Some l" "fromhex s = Inr b'"
      by (auto split: option.splits)
    with "3.IH"(2) [OF False] "3.prems"(2) show ?thesis by auto
  qed
qed (auto split: if_splits)

lemma fromhex_octets: "fromhex s = Inr b \<Longrightarrow> octets_ok b"
proof (induction s arbitrary: b rule: fromhex.induct)
  case (3 c d s)
  have bound: "hex_val x = Some h \<Longrightarrow> h < 16" for x h
    by (auto simp: hex_val_def split: if_splits)
  show ?case
  proof (cases "ascii_space c")
    case False
    with "3.prems" obtain h l b' where hl: "hex_val c = Some h" "hex_val d = Some l"
      "fromhex s = Inr b'" "b = (h * 16 + l) # b'"
      by (auto split: option.splits)
    moreover have "h * 16 + l < 256" using bound [OF hl(1)] bound [OF hl(2)] by simp
    ultimately show ?thesis using "3.IH"(2) [OF False] by simp
  qed (use 3 in auto)
qed (auto split: if_splits)

section \<open>Octets as numbers\<close>

text \<open>\<open>int.from_bytes(b, "big")\<close> and \<open>n.to_bytes(k, "big")\<close>.\<close>

definition from_bytes :: "octets \<Rightarrow> nat" where
  "from_bytes b = foldl (\<lambda>n o1. n * 256 + o1) 0 b"

fun low_octets :: "nat \<Rightarrow> nat \<Rightarrow> octets" where
  "low_octets 0 n = []"
| "low_octets (Suc k) n = low_octets k (n div 256) @ [n mod 256]"

definition to_bytes :: "nat \<Rightarrow> nat \<Rightarrow> octets res" where
  "to_bytes k n = (if n < 256 ^ k then Inr (low_octets k n) else Inl OverflowErr)"

lemma length_low_octets [simp]: "length (low_octets k n) = k"
  by (induction k n rule: low_octets.induct) auto

lemma low_octets_ok [simp]: "octets_ok (low_octets k n)"
  by (induction k n rule: low_octets.induct) auto

lemma from_low_octets: "n < 256 ^ k \<Longrightarrow> from_bytes (low_octets k n) = n"
proof (induction k n rule: low_octets.induct)
  case (2 k n)
  then have "n div 256 < 256 ^ k"
    by (simp add: less_mult_imp_div_less mult.commute)
  with 2 show ?case by (simp add: from_bytes_def)
qed (simp add: from_bytes_def)

section \<open>The environment and the canonicaliser\<close>

text \<open>
  \<open>rfc8785_dumps\<close> is the canonicaliser of the \<open>rfc8785\<close> package where it is installed. A private
  or a public key is the octets the code passes to the \<open>cryptography\<close> package; \<open>ed_verify\<close> and
  \<open>ec_verify\<close> load the public key and check a signature, \<open>Inr False\<close> being \<open>InvalidSignature\<close>.
  An ECDSA signature is its pair \<open>(r, s)\<close>: the DER form in between is the package's own.
\<close>

record sign_env =
  rfc8785_dumps :: "(pyval \<Rightarrow> octets res) option"
  sha256 :: "octets \<Rightarrow> octets"
  ed_sign :: "octets \<Rightarrow> octets \<Rightarrow> octets"
  ed_verify :: "octets \<Rightarrow> octets \<Rightarrow> octets \<Rightarrow> bool res"
  ec_sign :: "octets \<Rightarrow> octets \<Rightarrow> (nat \<times> nat) res"
  ec_verify :: "octets \<Rightarrow> nat \<times> nat \<Rightarrow> octets \<Rightarrow> bool res"

definition jcs_canonicalize :: "sign_env \<Rightarrow> pyval \<Rightarrow> octets res" where
  "jcs_canonicalize E v = (case rfc8785_dumps E of Some f \<Rightarrow> f v | None \<Rightarrow> canonicalize v)"

text \<open>\<open>block[k]\<close> for a key that was checked to be there, as a text.\<close>

definition hex_arg :: "pyval option \<Rightarrow> octets res" where
  "hex_arg v = (case v of Some (PStr s) \<Rightarrow> fromhex s | _ \<Rightarrow> Inl TypeErr)"

section \<open>AIP documents\<close>

definition default_kid :: ustr where
  "default_kid = u ''biscuit-root-1''"

definition aip_payload :: "sign_env \<Rightarrow> items \<Rightarrow> octets res" where
  "aip_payload E doc =
     sbind (jcs_canonicalize E (PDict (dict_pop doc (u ''document_signature''))))
       (\<lambda>c. Inr (sha256 E c))"

definition sign_aip_document :: "sign_env \<Rightarrow> items \<Rightarrow> octets \<Rightarrow> ustr \<Rightarrow> items res" where
  "sign_aip_document E doc priv kid =
     (if length priv \<noteq> 32 then Inl ValueErr
      else sbind (aip_payload E doc) (\<lambda>digest.
        Inr [(u ''alg'', PStr (u ''Ed25519'')), (u ''kid'', PStr kid),
             (u ''signature'', PStr (hexdigest (ed_sign E priv digest)))]))"

definition verify_aip_signature :: "sign_env \<Rightarrow> items \<Rightarrow> items \<Rightarrow> octets \<Rightarrow> bool res" where
  "verify_aip_signature E doc block pub =
     (if map_of block (u ''alg'') = None \<or> map_of block (u ''signature'') = None then Inl ValueErr
      else if map_of block (u ''alg'') \<noteq> Some (PStr (u ''Ed25519'')) then Inl ValueErr
      else if length pub \<noteq> 32 then Inl ValueErr
      else sbind (hex_arg (map_of block (u ''signature''))) (\<lambda>sig.
        if length sig \<noteq> 64 then Inl ValueErr
        else sbind (aip_payload E doc) (\<lambda>digest. ed_verify E pub sig digest)))"

section \<open>DID documents\<close>

definition proof_type :: ustr where
  "proof_type = u ''EcdsaSecp256k1Signature2019''"

definition did_payload :: "sign_env \<Rightarrow> items \<Rightarrow> octets res" where
  "did_payload E doc =
     sbind (jcs_canonicalize E (PDict (dict_pop doc (u ''proof'')))) (\<lambda>c. Inr (sha256 E c))"

definition to_compact_signature :: "nat \<times> nat \<Rightarrow> octets res" where
  "to_compact_signature rs =
     sbind (to_bytes 32 (fst rs)) (\<lambda>r. sbind (to_bytes 32 (snd rs)) (\<lambda>s. Inr (r @ s)))"

definition from_compact_signature :: "octets \<Rightarrow> (nat \<times> nat) res" where
  "from_compact_signature c =
     (if length c \<noteq> 64 then Inl ValueErr
      else Inr (from_bytes (take 32 c), from_bytes (drop 32 c)))"

text \<open>
  \<open>str\<close> of a document's \<open>id\<close> is the text itself; the documents the code signs have no other
  \<open>id\<close>, and what an f-string makes of another value is the argument \<open>text\<close>.
\<close>

definition sign_did_document ::
    "sign_env \<Rightarrow> (pyval \<Rightarrow> ustr) \<Rightarrow> items \<Rightarrow> octets \<Rightarrow> ustr option \<Rightarrow> items res" where
  "sign_did_document E text doc priv vmid =
     (if length priv \<noteq> 32 then Inl ValueErr
      else sbind (case vmid of
            Some m \<Rightarrow> Inr m
          | None \<Rightarrow> (case map_of doc (u ''id'') of
              None \<Rightarrow> Inl ValueErr
            | Some v \<Rightarrow> Inr ((case v of PStr s \<Rightarrow> s | _ \<Rightarrow> text v) @ u ''#keys-secp256k1-1'')))
        (\<lambda>m. sbind (did_payload E doc) (\<lambda>digest. sbind (ec_sign E priv digest) (\<lambda>rs.
          sbind (to_compact_signature rs) (\<lambda>c.
            Inr [(u ''type'', PStr proof_type), (u ''verificationMethod'', PStr m),
                 (u ''alg'', PStr (u ''ES256K'')), (u ''signatureHex'', PStr (hexdigest c))])))))"

definition verify_did_signature :: "sign_env \<Rightarrow> items \<Rightarrow> items \<Rightarrow> octets \<Rightarrow> bool res" where
  "verify_did_signature E doc block pub =
     (if map_of block (u ''type'') = None \<or> map_of block (u ''alg'') = None
         \<or> map_of block (u ''signatureHex'') = None then Inl ValueErr
      else if map_of block (u ''type'') \<noteq> Some (PStr proof_type) then Inl ValueErr
      else if map_of block (u ''alg'') \<noteq> Some (PStr (u ''ES256K'')) then Inl ValueErr
      else if length pub \<noteq> 33 then Inl ValueErr
      else sbind (hex_arg (map_of block (u ''signatureHex''))) (\<lambda>c.
        sbind (did_payload E doc) (\<lambda>digest.
          sbind (from_compact_signature c) (\<lambda>rs. ec_verify E pub rs digest))))"

section \<open>What the two schemes share\<close>

lemma dict_pop_set [simp]: "dict_pop (dict_set d k v) k = dict_pop d k"
  by (induction d k v rule: dict_set.induct) (auto simp: dict_pop_def)

lemma dict_pop_twice [simp]: "dict_pop (dict_pop d k) k = dict_pop d k"
  by (simp add: dict_pop_def)

text \<open>
  A scheme embeds its signature in the slot \<open>slot\<close> of the document. \<open>accepts E b p m\<close> is what a key
  \<open>p\<close> and a block \<open>b\<close> say of a digest \<open>m\<close>; the document enters a verification through its digest
  alone.
\<close>

locale signed_document =
  fixes slot :: ustr
    and payload :: "sign_env \<Rightarrow> items \<Rightarrow> octets res"
    and accepts :: "sign_env \<Rightarrow> items \<Rightarrow> octets \<Rightarrow> octets \<Rightarrow> bool"
    and verify :: "sign_env \<Rightarrow> items \<Rightarrow> items \<Rightarrow> octets \<Rightarrow> bool res"
  assumes payload_body: "payload E d =
      sbind (jcs_canonicalize E (PDict (dict_pop d slot))) (\<lambda>c. Inr (sha256 E c))"
    and verify_payload: "payload E d = payload E d' \<Longrightarrow> verify E d b p = verify E d' b p"
    and verify_True: "verify E d b p = Inr True \<longleftrightarrow> (\<exists>m. payload E d = Inr m \<and> accepts E b p m)"
begin

definition body :: "items \<Rightarrow> pyval" where
  "body d = PDict (dict_pop d slot)"

lemma verify_attached: "verify E (dict_set d slot v) b p = verify E d b p"
  by (rule verify_payload) (simp add: payload_body)

lemma payload_denote:
  assumes "rfc8785_dumps E = None" "json_plain (body d)" "json_plain (body d')"
    and "payload E d = Inr m" "json_denote (body d) = json_denote (body d')"
  shows "payload E d' = Inr m"
  using assms canonicalize_denote [of "body d" "body d'"]
  by (auto simp: payload_body jcs_canonicalize_def body_def)

lemma verify_denote:
  assumes "rfc8785_dumps E = None" "json_plain (body d)" "json_plain (body d')"
    and "verify E d b p = Inr True" "json_denote (body d) = json_denote (body d')"
  shows "verify E d' b p = Inr True"
  using assms(4) payload_denote [OF assms(1-3) _ assms(5)] unfolding verify_True by blast

lemma binds_body:
  assumes "rfc8785_dumps E = None" "json_plain (body d)" "json_plain (body d')"
    and one: "\<And>m m'. accepts E b p m \<Longrightarrow> accepts E b p m' \<Longrightarrow> m = m'"
    and sha: "\<And>c c'. canonicalize (body d) = Inr c \<Longrightarrow> canonicalize (body d') = Inr c' \<Longrightarrow>
                sha256 E c = sha256 E c' \<Longrightarrow> c = c'"
    and ok: "verify E d b p = Inr True" "verify E d' b p = Inr True"
  shows "json_denote (body d) = json_denote (body d')"
proof -
  from ok one obtain m where "payload E d = Inr m" "payload E d' = Inr m"
    unfolding verify_True by metis
  then obtain c c' where c: "canonicalize (body d) = Inr c" "canonicalize (body d') = Inr c'"
    "sha256 E c = sha256 E c'"
    by (auto simp: payload_body jcs_canonicalize_def assms(1) body_def)
  with sha have "c = c'" by blast
  with c(1,2) assms(2,3) show ?thesis using canonical_bytes_eq by blast
qed

end

definition aip_accepts :: "sign_env \<Rightarrow> items \<Rightarrow> octets \<Rightarrow> octets \<Rightarrow> bool" where
  "aip_accepts E b p m \<longleftrightarrow> map_of b (u ''alg'') = Some (PStr (u ''Ed25519'')) \<and> length p = 32
     \<and> (\<exists>h sig. map_of b (u ''signature'') = Some (PStr h) \<and> fromhex h = Inr sig
          \<and> length sig = 64 \<and> ed_verify E p sig m = Inr True)"

definition did_accepts :: "sign_env \<Rightarrow> items \<Rightarrow> octets \<Rightarrow> octets \<Rightarrow> bool" where
  "did_accepts E b p m \<longleftrightarrow> map_of b (u ''type'') = Some (PStr proof_type)
     \<and> map_of b (u ''alg'') = Some (PStr (u ''ES256K'')) \<and> length p = 33
     \<and> (\<exists>h c rs. map_of b (u ''signatureHex'') = Some (PStr h) \<and> fromhex h = Inr c
          \<and> from_compact_signature c = Inr rs \<and> ec_verify E p rs m = Inr True)"

lemma hex_arg_Inr: "hex_arg v = Inr b \<longleftrightarrow> (\<exists>h. v = Some (PStr h) \<and> fromhex h = Inr b)"
  by (auto simp: hex_arg_def split: option.split pyval.split)

interpretation aip: signed_document "u ''document_signature''" aip_payload aip_accepts verify_aip_signature
proof unfold_locales
  show "aip_payload E d =
      sbind (jcs_canonicalize E (PDict (dict_pop d (u ''document_signature'')))) (\<lambda>c. Inr (sha256 E c))" for E d
    by (simp add: aip_payload_def)
  show "aip_payload E d = aip_payload E d' \<Longrightarrow>
      verify_aip_signature E d b p = verify_aip_signature E d' b p" for E d d' b p
    by (simp only: verify_aip_signature_def)
  show "verify_aip_signature E d b p = Inr True \<longleftrightarrow> (\<exists>m. aip_payload E d = Inr m \<and> aip_accepts E b p m)"
    for E d b p
    by (auto simp: verify_aip_signature_def aip_accepts_def hex_arg_Inr)
qed

interpretation did: signed_document "u ''proof''" did_payload did_accepts verify_did_signature
proof unfold_locales
  show "did_payload E d =
      sbind (jcs_canonicalize E (PDict (dict_pop d (u ''proof'')))) (\<lambda>c. Inr (sha256 E c))" for E d
    by (simp add: did_payload_def)
  show "did_payload E d = did_payload E d' \<Longrightarrow>
      verify_did_signature E d b p = verify_did_signature E d' b p" for E d d' b p
    by (simp only: verify_did_signature_def)
  show "verify_did_signature E d b p = Inr True \<longleftrightarrow> (\<exists>m. did_payload E d = Inr m \<and> did_accepts E b p m)"
    for E d b p
    by (auto simp: verify_did_signature_def did_accepts_def hex_arg_Inr)
qed

section \<open>Properties\<close>

lemma aip_block_verifies:
  assumes "length pub = 32"
    and "\<And>m. octets_ok (ed_sign E priv m) \<and> length (ed_sign E priv m) = 64
           \<and> ed_verify E pub (ed_sign E priv m) m = Inr True"
    and "sign_aip_document E doc priv kid = Inr block"
  shows "verify_aip_signature E doc block pub = Inr True"
  using assms
  by (auto simp: sign_aip_document_def aip.verify_True aip_accepts_def split: if_splits)

text \<open>
  Sign, attach, verify. The block that \<open>sign_aip_document\<close> returns verifies under the public
  key of the signing key, for the document with the block attached in its slot and, with the
  canonicaliser of the repository, for every document that has the same abstract value outside the
  slot: reordering members or replacing the slot does not break a signature.
\<close>

lemma aip_sign_verify:
  assumes "length pub = 32"
    and "\<And>m. octets_ok (ed_sign E priv m) \<and> length (ed_sign E priv m) = 64
           \<and> ed_verify E pub (ed_sign E priv m) m = Inr True"
    and "sign_aip_document E doc priv kid = Inr block"
  shows "verify_aip_signature E (dict_set doc (u ''document_signature'') (PDict block)) block pub = Inr True
    \<and> (\<forall>doc'. rfc8785_dumps E = None
        \<longrightarrow> json_plain (PDict (dict_pop doc (u ''document_signature'')))
        \<longrightarrow> json_plain (PDict (dict_pop doc' (u ''document_signature'')))
        \<longrightarrow> json_denote (PDict (dict_pop doc (u ''document_signature'')))
             = json_denote (PDict (dict_pop doc' (u ''document_signature'')))
        \<longrightarrow> verify_aip_signature E doc' block pub = Inr True)"
proof (intro conjI allI impI)
  note ok = aip_block_verifies [OF assms]
  then show "verify_aip_signature E (dict_set doc (u ''document_signature'') (PDict block)) block pub = Inr True"
    by (simp add: aip.verify_attached)
  show "verify_aip_signature E doc' block pub = Inr True"
    if "rfc8785_dumps E = None" "json_plain (PDict (dict_pop doc (u ''document_signature'')))"
      "json_plain (PDict (dict_pop doc' (u ''document_signature'')))"
      "json_denote (PDict (dict_pop doc (u ''document_signature'')))
         = json_denote (PDict (dict_pop doc' (u ''document_signature'')))" for doc'
    using aip.verify_denote [unfolded aip.body_def, OF that(1-3) ok that(4)] .
qed

lemma to_compact_Inr:
  "to_compact_signature rs = Inr c \<Longrightarrow>
     octets_ok c \<and> length c = 64 \<and> from_compact_signature c = Inr rs"
  by (cases rs) (auto simp: to_compact_signature_def to_bytes_def from_compact_signature_def
      from_low_octets split: if_splits)

text \<open>
  The same for DID documents: what \<open>sign_did_document\<close> returns verifies with the proof
  attached. The pair \<open>(r, s)\<close> survives its 64-octet hexadecimal form.
\<close>

lemma did_sign_verify:
  assumes "length pub = 33"
    and "\<And>m rs. ec_sign E priv m = Inr rs \<Longrightarrow> ec_verify E pub rs m = Inr True"
    and "sign_did_document E text doc priv vmid = Inr proof_block"
  shows "verify_did_signature E (dict_set doc (u ''proof'') (PDict proof_block)) proof_block pub = Inr True"
proof -
  from assms(3) obtain vm m rs c where *: "did_payload E doc = Inr m" "ec_sign E priv m = Inr rs"
    "to_compact_signature rs = Inr c"
    "proof_block = [(u ''type'', PStr proof_type), (u ''verificationMethod'', PStr vm),
       (u ''alg'', PStr (u ''ES256K'')), (u ''signatureHex'', PStr (hexdigest c))]"
    by (auto simp: sign_did_document_def split: if_splits)
  with assms(1) assms(2) [OF *(2)] to_compact_Inr [OF *(3)]
  have "verify_did_signature E doc proof_block pub = Inr True"
    by (cases rs) (simp add: did.verify_True did_accepts_def)
  then show ?thesis by (simp add: did.verify_attached)
qed

text \<open>
  C20: A signature binds the document. If one block verifies under one key for two documents, the
  key accepts the signature in it for one message only and SHA-256 does not collide on the two
  bodies, then the documents have the same abstract value outside the signature slot.
\<close>

theorem aip_signature_binds:
  assumes "rfc8785_dumps E = None"
    and "json_plain (PDict (dict_pop doc (u ''document_signature'')))"
    and "json_plain (PDict (dict_pop doc' (u ''document_signature'')))"
    and "map_of block (u ''signature'') = Some (PStr h)" "fromhex h = Inr sig"
    and "\<And>m m'. ed_verify E pub sig m = Inr True \<Longrightarrow> ed_verify E pub sig m' = Inr True \<Longrightarrow> m = m'"
    and "\<And>c c'. canonicalize (PDict (dict_pop doc (u ''document_signature''))) = Inr c \<Longrightarrow>
           canonicalize (PDict (dict_pop doc' (u ''document_signature''))) = Inr c' \<Longrightarrow>
           sha256 E c = sha256 E c' \<Longrightarrow> c = c'"
    and "verify_aip_signature E doc block pub = Inr True"
    and "verify_aip_signature E doc' block pub = Inr True"
  shows "json_denote (PDict (dict_pop doc (u ''document_signature'')))
       = json_denote (PDict (dict_pop doc' (u ''document_signature'')))"
proof (rule aip.binds_body [unfolded aip.body_def, OF assms(1-3) _ assms(7-9)])
  show "m = m'" if "aip_accepts E block pub m" "aip_accepts E block pub m'" for m m'
    using that assms(4-6) by (auto simp: aip_accepts_def)
qed

section \<open>Concrete documents\<close>

definition sample_doc :: items where
  "sample_doc = [(u ''aip'', PStr (u ''1.0'')), (u ''id'', PStr (u ''a''))]"

definition sample_doc_moved :: items where
  "sample_doc_moved =
     [(u ''document_signature'', PNone), (u ''id'', PStr (u ''a'')), (u ''aip'', PStr (u ''1.0''))]"

definition pad64 :: "octets \<Rightarrow> octets" where
  "pad64 m = map (\<lambda>b. b mod 256) (take 64 (m @ replicate 64 0))"

definition sample_sign_env :: sign_env where
  "sample_sign_env = \<lparr>rfc8785_dumps = None, sha256 = (\<lambda>b. b), ed_sign = (\<lambda>k m. pad64 m),
     ed_verify = (\<lambda>k s m. Inr (s = pad64 m)), ec_sign = (\<lambda>k m. Inr (1, 2)),
     ec_verify = (\<lambda>k rs m. Inr (rs = (1, 2)))\<rparr>"

definition sample_priv :: octets where
  "sample_priv = replicate 32 1"

lemma pad64_ok [simp]: "octets_ok (pad64 m)" "length (pad64 m) = 64"
  by (auto simp: pad64_def octets_ok_def is_octet_def list_all_iff)

lemma sample_canonical:
  "canonicalize (PDict (dict_pop sample_doc (u ''document_signature''))) = Inr (u ''{\"aip\":\"1.0\",\"id\":\"a\"}'')"
  "canonicalize (PDict (dict_pop sample_doc_moved (u ''document_signature'')))
     = Inr (u ''{\"aip\":\"1.0\",\"id\":\"a\"}'')"
  by (simp_all add: sample_doc_def sample_doc_moved_def dict_pop_def canonicalize_def u_def
      json_string_def escape_char_def encode_cp_def sort_key_simps)

lemma sample_signs: "\<exists>block. sign_aip_document sample_sign_env sample_doc sample_priv default_kid = Inr block"
  by (simp add: sign_aip_document_def sample_priv_def aip_payload_def jcs_canonicalize_def
      sample_sign_env_def sample_canonical)

lemma aip_sign_verify_witness:
  "\<exists>block. sign_aip_document sample_sign_env sample_doc sample_priv default_kid = Inr block
     \<and> verify_aip_signature sample_sign_env
         (dict_set sample_doc (u ''document_signature'') (PDict block)) block (replicate 32 2) = Inr True"
proof -
  obtain block where b: "sign_aip_document sample_sign_env sample_doc sample_priv default_kid = Inr block"
    using sample_signs by blast
  have "verify_aip_signature sample_sign_env
         (dict_set sample_doc (u ''document_signature'') (PDict block)) block (replicate 32 2) = Inr True"
    by (rule aip_sign_verify [THEN conjunct1, OF _ _ b]) (simp_all add: sample_sign_env_def)
  with b show ?thesis by blast
qed

lemma did_sign_verify_witness:
  "\<exists>block. sign_did_document sample_sign_env (\<lambda>_. []) sample_doc sample_priv None = Inr block
     \<and> verify_did_signature sample_sign_env
         (dict_set sample_doc (u ''proof'') (PDict block)) block (replicate 33 2) = Inr True"
proof -
  have "dict_pop sample_doc (u ''proof'') = dict_pop sample_doc (u ''document_signature'')"
    by (simp add: sample_doc_def dict_pop_def)
  then obtain block where b: "sign_did_document sample_sign_env (\<lambda>_. []) sample_doc sample_priv None = Inr block"
    using sample_canonical
    by (simp add: sign_did_document_def sample_priv_def did_payload_def jcs_canonicalize_def
        sample_sign_env_def sample_doc_def to_compact_signature_def to_bytes_def)
  have "verify_did_signature sample_sign_env
         (dict_set sample_doc (u ''proof'') (PDict block)) block (replicate 33 2) = Inr True"
    by (rule did_sign_verify [OF _ _ b]) (simp_all add: sample_sign_env_def)
  with b show ?thesis by blast
qed

text \<open>A key that accepts one signature, for one message.\<close>

definition single_env :: sign_env where
  "single_env = sample_sign_env\<lparr>ed_verify := (\<lambda>k s m.
     Inr (s = replicate 64 7 \<and> m = u ''{\"aip\":\"1.0\",\"id\":\"a\"}''))\<rparr>"

definition single_block :: items where
  "single_block = [(u ''alg'', PStr (u ''Ed25519'')), (u ''signature'', PStr (hexdigest (replicate 64 7)))]"

lemma single_verifies:
  "verify_aip_signature single_env sample_doc single_block sample_priv = Inr True"
  "verify_aip_signature single_env sample_doc_moved single_block sample_priv = Inr True"
proof -
  have "octets_ok (replicate 64 7)"
    by (simp add: octets_ok_def is_octet_def list_all_iff)
  then show "verify_aip_signature single_env sample_doc single_block sample_priv = Inr True"
    "verify_aip_signature single_env sample_doc_moved single_block sample_priv = Inr True"
    by (simp_all add: aip.verify_True aip_accepts_def aip_payload_def jcs_canonicalize_def single_env_def
        sample_sign_env_def single_block_def sample_priv_def sample_canonical)
qed

lemma aip_signature_binds_witness:
  "json_denote (PDict (dict_pop sample_doc (u ''document_signature'')))
     = json_denote (PDict (dict_pop sample_doc_moved (u ''document_signature'')))"
proof (rule aip_signature_binds [where E = single_env and block = single_block and pub = sample_priv
      and h = "hexdigest (replicate 64 7)" and sig = "replicate 64 7"])
  show "fromhex (hexdigest (replicate 64 7)) = Inr (replicate 64 7)"
    by (rule fromhex_hexdigest) (simp add: octets_ok_def is_octet_def list_all_iff)
qed (auto simp: single_verifies sample_canonical, auto simp: single_env_def sample_sign_env_def
    sample_doc_def sample_doc_moved_def dict_pop_def single_block_def)

end
