(* ===== verification/OrderCache.thy ===== *)
theory OrderCache
  imports Prelude
begin

text \<open>
  The contract of the two bounded caches of the identity substrate (the signature-verification
  cache and the ETag cache of the HTTPS resolver). Both keep a dict of entries beside a list of
  keys in order of insertion, and evict the first key of the list when they are full. A client
  needs that what is stored is found, that nothing is found that was not stored, and that the
  bound holds; \<open>stored_invariant\<close> is the lemma both clients rest on.
\<close>

definition cache_wf :: "nat \<Rightarrow> ('k \<times> 'v) list \<Rightarrow> 'k list \<Rightarrow> bool" where
  "cache_wf cap es ks \<longleftrightarrow>
     distinct (map fst es) \<and> distinct ks \<and> set ks = fst ` set es \<and> length ks \<le> cap"

lemma cache_wf_size: "cache_wf cap es ks \<Longrightarrow> length es \<le> cap"
proof -
  assume "cache_wf cap es ks"
  then have "length es = card (fst ` set es)" "length ks = card (fst ` set es)" "length ks \<le> cap"
    unfolding cache_wf_def by (metis distinct_card list.set_map length_map)+
  then show ?thesis by simp
qed

lemma cache_wf_empty [simp]: "cache_wf cap [] []"
  by (simp add: cache_wf_def)

lemma cache_wf_remove: "cache_wf cap es ks \<Longrightarrow> cache_wf cap (dict_pop es k) (remove1 k ks)"
  by (auto simp: cache_wf_def dict_pop_def distinct_map_filter length_remove1
      split: if_splits)

lemma cache_wf_append:
  assumes "cache_wf cap es ks" "k \<notin> set ks" "length ks < cap"
  shows "cache_wf cap (dict_set es k v) (ks @ [k])"
  using assms keys_dict_set [of es k v] distinct_dict_set [of es k v] by (auto simp: cache_wf_def)

lemma cache_wf_hd: "cache_wf cap es (k # ks) \<Longrightarrow> cache_wf cap (dict_pop es k) ks"
  using cache_wf_remove [of cap es "k # ks" k] by simp

text \<open>The eviction of the first key and the storing of a new one.\<close>

lemma cache_wf_rotate:
  assumes "cache_wf cap es (k0 # ks)" "k \<notin> set (k0 # ks)"
  shows "cache_wf cap (dict_set (dict_pop es k0) k v) (ks @ [k])"
proof -
  from assms have "k \<notin> set ks" "length ks < cap" by (auto simp: cache_wf_def)
  with cache_wf_append [OF cache_wf_hd [OF assms(1)]] show ?thesis by blast
qed

lemma cache_wf_keys: "cache_wf cap es ks \<Longrightarrow> map_of es k = None \<longleftrightarrow> k \<notin> set ks"
  by (simp add: cache_wf_def map_of_eq_None_iff)

lemma cache_wf_lengths: "cache_wf cap es ks \<Longrightarrow> length es = length ks"
  unfolding cache_wf_def by (metis distinct_card list.set_map length_map)

locale bounded_cache =
  fixes entries :: "'c \<Rightarrow> ('k \<times> 'v) list"
    and order :: "'c \<Rightarrow> 'k list"
    and capacity :: "'c \<Rightarrow> nat"
    and may_store :: "'k \<Rightarrow> 'c \<Rightarrow> bool"
    and store :: "'k \<Rightarrow> 'v \<Rightarrow> 'c \<Rightarrow> 'c"
  assumes store_capacity: "capacity (store k v c) = capacity c"
    and store_wf:
      "cache_wf (capacity c) (entries c) (order c) \<Longrightarrow> 0 < capacity c \<Longrightarrow> may_store k c \<Longrightarrow>
         cache_wf (capacity c) (entries (store k v c)) (order (store k v c))"
    and store_found:
      "cache_wf (capacity c) (entries c) (order c) \<Longrightarrow> 0 < capacity c \<Longrightarrow> may_store k c \<Longrightarrow>
         map_of (entries (store k v c)) k = Some v"
    and store_others:
      "map_of (entries (store k v c)) k' = Some v' \<Longrightarrow> k' \<noteq> k \<Longrightarrow> map_of (entries c) k' = Some v'"
    and store_keeps:
      "map_of (entries c) k' = Some v' \<Longrightarrow> k' \<noteq> k \<Longrightarrow>
       length (order c) < capacity c \<or> map_of (entries c) k \<noteq> None \<or> k' \<noteq> hd (order c) \<Longrightarrow>
       cache_wf (capacity c) (entries c) (order c) \<Longrightarrow> 0 < capacity c \<Longrightarrow> may_store k c \<Longrightarrow>
         map_of (entries (store k v c)) k' = Some v'"
begin

definition wf :: "'c \<Rightarrow> bool" where
  "wf c \<longleftrightarrow> 0 < capacity c \<and> cache_wf (capacity c) (entries c) (order c)"

lemma wf_store: "wf c \<Longrightarrow> may_store k c \<Longrightarrow> wf (store k v c)"
  by (simp add: wf_def store_capacity store_wf)

lemma wf_bound: "wf c \<Longrightarrow> length (entries c) \<le> capacity c"
  by (auto simp: wf_def dest: cache_wf_size)

text \<open>What holds of every entry goes on holding when an entry of which it holds is stored.\<close>

lemma stored_invariant:
  assumes "wf c" "may_store k c" "\<And>k v. map_of (entries c) k = Some v \<Longrightarrow> P k v" "P k v"
    and "map_of (entries (store k v c)) k' = Some v'"
  shows "P k' v'"
  using assms store_found [of c k v] store_others [of k v c k' v']
  by (cases "k' = k") (auto simp: wf_def)

text \<open>Storing loses at most the oldest entry, and nothing when there is room.\<close>

lemma store_loses:
  assumes "wf c" "may_store k c" "k' \<noteq> k" "map_of (entries c) k' = Some v'"
    and "map_of (entries (store k v c)) k' = None"
  shows "k' = hd (order c) \<and> length (entries c) = capacity c"
proof -
  from assms(1) have len: "length (entries c) = length (order c)" "length (order c) \<le> capacity c"
    by (auto simp: wf_def cache_wf_lengths cache_wf_def)
  with assms store_keeps [of c k' v' k v] show ?thesis
    by (cases "length (order c) < capacity c") (auto simp: wf_def)
qed

end

end
