(* ===== verification/SigCache.thy ===== *)
theory SigCache
  imports Signing OrderCache Complex_Main
begin

text \<open>
  The cache of signature verifications, \<open>identity_substrate/aip_signature_verification_cache.py\<close>.
  An entry is the outcome of a verification and the reading of the clock when it was stored; the
  key is SHA-256 of the five inputs of the verification, separated by NUL octets.

  Seconds are rational numbers (the rounding of doubles is not modelled) and the clock is the
  argument \<open>now\<close> of an operation, its reading there. The theory shows that the cache is
  transparent: with a collision-free hash and key identifiers without NUL, every call returns
  what a fresh verification returns. Without the condition on the key identifiers it does not.
\<close>

section \<open>The key\<close>

definition jcs_body_digest_hex :: "sign_env \<Rightarrow> items \<Rightarrow> ustr res" where
  "jcs_body_digest_hex E doc =
     sbind (jcs_canonicalize E (PDict (dict_pop doc (u ''document_signature''))))
       (\<lambda>c. Inr (hexdigest (sha256 E c)))"

text \<open>\<open>value.encode("utf-8")\<close> and \<open>value.encode("ascii")\<close> of a value that may not be a \<open>str\<close>.\<close>

definition encode_utf8 :: "pyval \<Rightarrow> octets res" where
  "encode_utf8 v = (case v of PStr s \<Rightarrow> utf8_encode s | _ \<Rightarrow> Inl AttributeErr)"

definition encode_ascii :: "pyval \<Rightarrow> octets res" where
  "encode_ascii v = (case v of
       PStr s \<Rightarrow> if list_all (\<lambda>c. c < 128) s then Inr s else Inl UnicodeEncodeErr
     | _ \<Rightarrow> Inl AttributeErr)"

definition key_payload :: "sign_env \<Rightarrow> items \<Rightarrow> items \<Rightarrow> octets \<Rightarrow> octets res" where
  "key_payload E doc block pub =
     (case (map_of block (u ''alg''), map_of block (u ''kid''), map_of block (u ''signature'')) of
        (Some alg, Some kid, Some sig) \<Rightarrow>
          sbind (jcs_body_digest_hex E doc) (\<lambda>body_digest.
          sbind (encode_ascii (PStr body_digest)) (\<lambda>p1.
          sbind (encode_utf8 alg) (\<lambda>p2. sbind (encode_utf8 kid) (\<lambda>p3.
          sbind (encode_ascii sig) (\<lambda>p4. sbind (encode_ascii (PStr (hexdigest pub))) (\<lambda>p5.
            Inr (join_with [0] [p1, p2, p3, p4, p5])))))))
      | _ \<Rightarrow> Inl KeyErr)"

definition build_cache_key :: "sign_env \<Rightarrow> items \<Rightarrow> items \<Rightarrow> octets \<Rightarrow> ustr res" where
  "build_cache_key E doc block pub =
     sbind (key_payload E doc block pub) (\<lambda>p. Inr (hexdigest (sha256 E p)))"

section \<open>The cache\<close>

record cache_entry =
  outcome :: bool
  inserted_at :: rat

record sig_cache =
  max_entries :: nat
  ttl_seconds :: rat
  sc_entries :: "(ustr \<times> cache_entry) list"
  sc_order :: "ustr list"
  hits :: nat
  misses :: nat
  evictions :: nat
  expired :: nat

definition default_max_entries :: int where
  "default_max_entries = 256"

definition default_ttl_seconds :: rat where
  "default_ttl_seconds = 300"

definition new_sig_cache :: "int \<Rightarrow> rat \<Rightarrow> sig_cache res" where
  "new_sig_cache n ttl =
     (if n \<le> 0 then Inl ValueErr
      else if ttl \<le> 0 then Inl ValueErr
      else Inr \<lparr>max_entries = nat n, ttl_seconds = ttl, sc_entries = [], sc_order = [],
        hits = 0, misses = 0, evictions = 0, expired = 0\<rparr>)"

definition sig_remove :: "ustr \<Rightarrow> sig_cache \<Rightarrow> sig_cache" where
  "sig_remove key c = c\<lparr>sc_entries := dict_pop (sc_entries c) key, sc_order := remove1 key (sc_order c)\<rparr>"

text \<open>The removal of an expired entry, on a lookup or in a sweep.\<close>

definition sig_expire :: "ustr \<Rightarrow> sig_cache \<Rightarrow> sig_cache" where
  "sig_expire key c = (let c1 = sig_remove key c in c1\<lparr>expired := expired c1 + 1\<rparr>)"

definition sig_put :: "ustr \<Rightarrow> cache_entry \<Rightarrow> sig_cache \<Rightarrow> sig_cache" where
  "sig_put key e c = c\<lparr>sc_entries := dict_set (sc_entries c) key e, sc_order := sc_order c @ [key]\<rparr>"

definition sig_insert :: "ustr \<Rightarrow> cache_entry \<Rightarrow> sig_cache \<Rightarrow> unit res \<times> sig_cache" where
  "sig_insert key e c =
     (if max_entries c \<le> length (sc_entries c) then
        (case sc_order c of
           [] \<Rightarrow> (Inl IndexErr, c)
         | oldest # rest \<Rightarrow>
             (Inr (), sig_put key e (c\<lparr>sc_entries := dict_pop (sc_entries c) oldest, sc_order := rest,
                evictions := evictions c + 1\<rparr>)))
      else (Inr (), sig_put key e c))"

definition sig_miss ::
    "sign_env \<Rightarrow> items \<Rightarrow> items \<Rightarrow> octets \<Rightarrow> rat \<Rightarrow> ustr \<Rightarrow> sig_cache \<Rightarrow> bool res \<times> sig_cache" where
  "sig_miss E doc block pub now key c =
     (case verify_aip_signature E doc block pub of
        Inl e \<Rightarrow> (Inl e, c)
      | Inr b \<Rightarrow>
          (case sig_insert key \<lparr>outcome = b, inserted_at = now\<rparr> (c\<lparr>misses := misses c + 1\<rparr>) of
             (Inl e, c') \<Rightarrow> (Inl e, c')
           | (Inr _, c') \<Rightarrow> (Inr b, c')))"

definition sig_verify ::
    "sign_env \<Rightarrow> items \<Rightarrow> items \<Rightarrow> octets \<Rightarrow> rat \<Rightarrow> sig_cache \<Rightarrow> bool res \<times> sig_cache" where
  "sig_verify E doc block pub now c =
     (case build_cache_key E doc block pub of
        Inl e \<Rightarrow> (Inl e, c)
      | Inr key \<Rightarrow>
          (case map_of (sc_entries c) key of
             None \<Rightarrow> sig_miss E doc block pub now key c
           | Some e \<Rightarrow>
               if now - inserted_at e < ttl_seconds c then (Inr (outcome e), c\<lparr>hits := hits c + 1\<rparr>)
               else sig_miss E doc block pub now key (sig_expire key c)))"

definition sig_clear :: "sig_cache \<Rightarrow> sig_cache" where
  "sig_clear c = c\<lparr>sc_entries := [], sc_order := []\<rparr>"

definition is_expired :: "rat \<Rightarrow> sig_cache \<Rightarrow> ustr \<Rightarrow> bool" where
  "is_expired now c key =
     (case map_of (sc_entries c) key of
        None \<Rightarrow> False
      | Some e \<Rightarrow> inserted_at e \<le> now - ttl_seconds c)"

definition evict_expired :: "rat \<Rightarrow> sig_cache \<Rightarrow> nat \<times> sig_cache" where
  "evict_expired now c =
     (let to_remove = filter (is_expired now c) (sc_order c)
      in (length to_remove, foldl (\<lambda>c key. sig_expire key c) c to_remove))"

record cache_stats =
  st_hits :: nat
  st_misses :: nat
  st_evictions :: nat
  st_expired :: nat
  st_size :: nat

definition sig_stats :: "sig_cache \<Rightarrow> cache_stats" where
  "sig_stats c = \<lparr>st_hits = hits c, st_misses = misses c, st_evictions = evictions c,
     st_expired = expired c, st_size = length (sc_entries c)\<rparr>"

section \<open>The cache as a bounded cache\<close>

lemmas sig_store_defs = sig_insert_def sig_put_def

interpretation sigc: bounded_cache sc_entries sc_order max_entries
    "\<lambda>k c. k \<notin> set (sc_order c)" "\<lambda>k v c. snd (sig_insert k v c)"
proof unfold_locales
  fix k k' :: ustr and v v' :: cache_entry and c :: sig_cache
  show "max_entries (snd (sig_insert k v c)) = max_entries c"
    by (simp add: sig_store_defs split: list.split)
  show "map_of (sc_entries (snd (sig_insert k v c))) k' = Some v' \<Longrightarrow> k' \<noteq> k \<Longrightarrow>
      map_of (sc_entries c) k' = Some v'"
    by (auto simp: sig_store_defs split: list.splits if_splits)
  assume wf: "cache_wf (max_entries c) (sc_entries c) (sc_order c)" "0 < max_entries c" "k \<notin> set (sc_order c)"
  note len = cache_wf_lengths [OF wf(1)]
  show "cache_wf (max_entries c) (sc_entries (snd (sig_insert k v c))) (sc_order (snd (sig_insert k v c)))"
    using wf len cache_wf_append [OF wf(1,3), of v]
    by (cases "sc_order c") (auto simp: sig_store_defs cache_wf_rotate)
  show "map_of (sc_entries (snd (sig_insert k v c))) k = Some v"
    using wf len by (cases "sc_order c") (auto simp: sig_store_defs)
  show "map_of (sc_entries c) k' = Some v' \<Longrightarrow> k' \<noteq> k \<Longrightarrow>
      length (sc_order c) < max_entries c \<or> map_of (sc_entries c) k \<noteq> None \<or> k' \<noteq> hd (sc_order c) \<Longrightarrow>
      map_of (sc_entries (snd (sig_insert k v c))) k' = Some v'"
    using wf len cache_wf_keys [OF wf(1), of k] by (cases "sc_order c") (auto simp: sig_store_defs)
qed

lemma sig_wf_misses [simp]: "sigc.wf (c\<lparr>misses := n\<rparr>) = sigc.wf c" "sigc.wf (c\<lparr>hits := n\<rparr>) = sigc.wf c"
  by (simp_all add: sigc.wf_def)

lemma sig_wf_expire: "sigc.wf c \<Longrightarrow> sigc.wf (sig_expire k c)"
  by (simp add: sigc.wf_def sig_expire_def sig_remove_def Let_def cache_wf_remove)

lemma sig_wf_new: "new_sig_cache n ttl = Inr c \<Longrightarrow> sigc.wf c \<and> sc_entries c = []"
  by (auto simp: new_sig_cache_def sigc.wf_def split: if_splits)

lemma sig_wf_clear: "sigc.wf c \<Longrightarrow> sigc.wf (sig_clear c)"
  by (simp add: sigc.wf_def sig_clear_def)

text \<open>On a well-formed cache the eviction finds an oldest key.\<close>

lemma sig_insert_ok: "sigc.wf c \<Longrightarrow> fst (sig_insert k v c) = Inr ()"
  by (cases "sc_order c") (auto simp: sig_insert_def sigc.wf_def dest: cache_wf_lengths)

lemma sig_insert_counts:
  assumes "sigc.wf c" "k \<notin> set (sc_order c)"
  shows "hits (snd (sig_insert k v c)) = hits c" "misses (snd (sig_insert k v c)) = misses c"
    "expired (snd (sig_insert k v c)) = expired c"
    "length (sc_entries (snd (sig_insert k v c))) + evictions (snd (sig_insert k v c))
       = Suc (length (sc_entries c) + evictions c)"
proof -
  have "sigc.wf (snd (sig_insert k v c))" using assms by (rule sigc.wf_store)
  then have "length (sc_entries (snd (sig_insert k v c))) = length (sc_order (snd (sig_insert k v c)))"
    "length (sc_entries c) = length (sc_order c)"
    using assms(1) by (auto simp: sigc.wf_def dest: cache_wf_lengths)
  then show "length (sc_entries (snd (sig_insert k v c))) + evictions (snd (sig_insert k v c))
       = Suc (length (sc_entries c) + evictions c)"
    using sig_insert_ok [OF assms(1), of k v]
    by (auto simp: sig_store_defs split: list.splits if_splits)
qed (auto simp: sig_store_defs split: list.splits)

lemma sig_expire_counts:
  assumes "sigc.wf c" "k \<in> set (sc_order c)"
  shows "hits (sig_expire k c) = hits c" "misses (sig_expire k c) = misses c"
    "evictions (sig_expire k c) = evictions c" "expired (sig_expire k c) = Suc (expired c)"
    "Suc (length (sc_entries (sig_expire k c))) = length (sc_entries c)"
proof -
  have "length (sc_entries c) = length (sc_order c)"
    "length (sc_entries (sig_expire k c)) = length (sc_order (sig_expire k c))"
    using sig_wf_expire [OF assms(1)] assms(1) by (auto simp: sigc.wf_def dest: cache_wf_lengths)
  moreover have "Suc (length (sc_order (sig_expire k c))) = length (sc_order c)"
    using length_pos_if_in_set [OF assms(2)] assms(2)
    by (simp add: sig_expire_def sig_remove_def Let_def length_remove1)
  ultimately show "Suc (length (sc_entries (sig_expire k c))) = length (sc_entries c)" by simp
qed (simp_all add: sig_expire_def sig_remove_def Let_def)

section \<open>Sequences of operations\<close>

datatype cache_op = OpVerify items items octets rat | OpClear | OpEvict rat

fun sig_run :: "sign_env \<Rightarrow> cache_op list \<Rightarrow> sig_cache \<Rightarrow> bool res list \<times> sig_cache" where
  "sig_run E [] c = ([], c)"
| "sig_run E (OpVerify doc block pub now # ops) c =
     (case sig_verify E doc block pub now c of
        (r, c1) \<Rightarrow> (case sig_run E ops c1 of (rs, c2) \<Rightarrow> (r # rs, c2)))"
| "sig_run E (OpClear # ops) c = sig_run E ops (sig_clear c)"
| "sig_run E (OpEvict now # ops) c = sig_run E ops (snd (evict_expired now c))"

lemma map_of_in_order: "sigc.wf c \<Longrightarrow> map_of (sc_entries c) k = Some e \<Longrightarrow> k \<in> set (sc_order c)"
  by (metis cache_wf_keys option.distinct(1) sigc.wf_def)

lemma map_of_expire [simp]: "map_of (sc_entries (sig_expire k c)) = (map_of (sc_entries c))(k := None)"
  by (simp add: sig_expire_def sig_remove_def Let_def)

lemma expire_order: "sigc.wf c \<Longrightarrow> set (sc_order (sig_expire k c)) = set (sc_order c) - {k}"
  by (simp add: sigc.wf_def cache_wf_def sig_expire_def sig_remove_def Let_def)

text \<open>The sum that the operations keep: every recorded miss is an entry, evicted or expired.\<close>

definition balance :: "sig_cache \<Rightarrow> nat" where
  "balance c = length (sc_entries c) + evictions c + expired c"

lemma sig_miss_wf:
  assumes "sigc.wf c" "key \<notin> set (sc_order c)" "sig_miss E doc block pub now key c = (r, c')"
  shows "sigc.wf c' \<and> hits c' = hits c \<and> balance c' + misses c = balance c + misses c'
    \<and> misses c' = misses c + (if isl r then 0 else 1) \<and> r = verify_aip_signature E doc block pub"
proof (cases "verify_aip_signature E doc block pub")
  case (Inl e)
  with assms have "r = Inl e" "c' = c" by (auto simp: sig_miss_def)
  with Inl assms show ?thesis by simp
next
  case (Inr b)
  let ?c = "c\<lparr>misses := misses c + 1\<rparr>" and ?e = "\<lparr>outcome = b, inserted_at = now\<rparr>"
  have wf: "sigc.wf ?c" "key \<notin> set (sc_order ?c)" using assms by simp_all
  obtain u1 c1 where ins: "sig_insert key ?e ?c = (u1, c1)" by fastforce
  with sig_insert_ok [OF wf(1), of key ?e] have "u1 = Inr ()" by simp
  with Inr ins assms(3) have r: "r = Inr b" "c' = c1" by (auto simp: sig_miss_def)
  with Inr wf sig_insert_counts [OF wf, of ?e] sigc.wf_store [OF wf, of ?e] ins show ?thesis
    by (simp add: balance_def)
qed

lemma sig_verify_wf:
  assumes "sigc.wf c" "sig_verify E doc block pub now c = (r, c')"
  shows "sigc.wf c' \<and> balance c' + misses c = balance c + misses c'
    \<and> hits c' + misses c' = hits c + misses c + (if isl r then 0 else 1)
    \<and> (isl r \<longrightarrow> sbind (build_cache_key E doc block pub) (\<lambda>_. verify_aip_signature E doc block pub) = r)"
proof (cases "build_cache_key E doc block pub")
  case (Inl e)
  with assms have "r = Inl e" "c' = c" by (auto simp: sig_verify_def)
  with Inl assms show ?thesis by simp
next
  case (Inr key)
  show ?thesis
  proof (cases "map_of (sc_entries c) key")
    case None
    then have "key \<notin> set (sc_order c)" using assms(1) cache_wf_keys by (metis sigc.wf_def)
    with sig_miss_wf [OF assms(1), of key E doc block pub now r c'] assms(2) Inr None
    show ?thesis by (auto simp: sig_verify_def)
  next
    case (Some e)
    let ?c = "sig_expire key c"
    have mem: "key \<in> set (sc_order c)" by (rule map_of_in_order [OF assms(1) Some])
    have wf: "sigc.wf ?c" "key \<notin> set (sc_order ?c)"
      using assms(1) by (simp_all add: sig_wf_expire expire_order)
    show ?thesis
    proof (cases "now - inserted_at e < ttl_seconds c")
      case True
      with Inr Some assms have "r = Inr (outcome e)" "c' = c\<lparr>hits := hits c + 1\<rparr>"
        by (auto simp: sig_verify_def)
      with assms(1) show ?thesis by (simp add: balance_def)
    next
      case False
      with Inr Some assms(2) have "sig_miss E doc block pub now key ?c = (r, c')"
        by (simp add: sig_verify_def)
      with sig_miss_wf [OF wf this] sig_expire_counts [OF assms(1) mem] Inr
      show ?thesis by (auto simp: balance_def)
    qed
  qed
qed

lemma sig_sweep_wf:
  assumes "sigc.wf c" "distinct ks" "set ks \<subseteq> set (sc_order c)"
  shows "sigc.wf (foldl (\<lambda>c key. sig_expire key c) c ks)
    \<and> balance (foldl (\<lambda>c key. sig_expire key c) c ks) = balance c
    \<and> misses (foldl (\<lambda>c key. sig_expire key c) c ks) = misses c
    \<and> hits (foldl (\<lambda>c key. sig_expire key c) c ks) = hits c"
  using assms
proof (induction ks arbitrary: c)
  case (Cons k ks)
  then have "sigc.wf (sig_expire k c)" "set ks \<subseteq> set (sc_order (sig_expire k c))"
    by (auto simp: sig_wf_expire expire_order)
  moreover have "balance (sig_expire k c) = balance c" "misses (sig_expire k c) = misses c"
    "hits (sig_expire k c) = hits c"
    using sig_expire_counts [of c k] Cons.prems by (simp_all add: balance_def)
  ultimately show ?case using Cons.IH [of "sig_expire k c"] Cons.prems by simp
qed simp

lemma sig_evict_wf:
  assumes "sigc.wf c"
  shows "sigc.wf (snd (evict_expired now c)) \<and> balance (snd (evict_expired now c)) = balance c
    \<and> misses (snd (evict_expired now c)) = misses c \<and> hits (snd (evict_expired now c)) = hits c"
proof -
  have "distinct (sc_order c)" using assms by (simp add: sigc.wf_def cache_wf_def)
  then show ?thesis
    using sig_sweep_wf [OF assms, of "filter (is_expired now c) (sc_order c)"]
    by (simp add: evict_expired_def Let_def)
qed

lemma sig_sweep_entries:
  "sc_entries (foldl (\<lambda>c key. sig_expire key c) c ks) = filter (\<lambda>kv. fst kv \<notin> set ks) (sc_entries c)"
proof (induction ks arbitrary: c)
  case (Cons k ks)
  have "sc_entries (sig_expire k c) = filter (\<lambda>kv. fst kv \<noteq> k) (sc_entries c)"
    by (simp add: sig_expire_def sig_remove_def Let_def dict_pop_def)
  with Cons show ?case by (auto simp: conj_commute intro: filter_cong)
qed simp

lemma sig_run_wf:
  assumes "sigc.wf c" "sig_run E ops c = (rs, c')"
  shows "sigc.wf c' \<and> balance c' + misses c \<le> balance c + misses c'
    \<and> (OpClear \<notin> set ops \<longrightarrow> balance c' + misses c = balance c + misses c')
    \<and> hits c' + misses c' = hits c + misses c + length (filter (\<lambda>r. \<not> isl r) rs)"
  using assms
proof (induction ops arbitrary: c rs)
  case (Cons x ops)
  show ?case
  proof (cases x)
    case (OpVerify doc block pub now)
    obtain r c1 where v: "sig_verify E doc block pub now c = (r, c1)" by fastforce
    with OpVerify Cons.prems(2) obtain rs1 where "sig_run E ops c1 = (rs1, c')" "rs = r # rs1"
      by (auto split: prod.splits)
    with Cons.IH [of c1 rs1] sig_verify_wf [OF Cons.prems(1) v] OpVerify show ?thesis by auto
  next
    case OpClear
    have "balance (sig_clear c) \<le> balance c" "misses (sig_clear c) = misses c" "hits (sig_clear c) = hits c"
      by (simp_all add: balance_def sig_clear_def)
    with OpClear Cons.IH [OF sig_wf_clear [OF Cons.prems(1)], of rs] Cons.prems show ?thesis by simp
  next
    case (OpEvict now)
    with sig_evict_wf [OF Cons.prems(1), of now] Cons.IH [of "snd (evict_expired now c)" rs] Cons.prems
    show ?thesis by simp
  qed
qed simp

section \<open>Transparency\<close>

text \<open>The calls of a sequence, and what each returns without a cache.\<close>

type_synonym verify_call = "items \<times> items \<times> octets"

fun verify_calls :: "cache_op list \<Rightarrow> verify_call list" where
  "verify_calls [] = []"
| "verify_calls (OpVerify doc block pub now # ops) = (doc, block, pub) # verify_calls ops"
| "verify_calls (OpClear # ops) = verify_calls ops"
| "verify_calls (OpEvict now # ops) = verify_calls ops"

definition call_payload :: "sign_env \<Rightarrow> verify_call \<Rightarrow> octets res" where
  "call_payload E t = key_payload E (fst t) (fst (snd t)) (snd (snd t))"

definition call_key :: "sign_env \<Rightarrow> verify_call \<Rightarrow> ustr res" where
  "call_key E t = build_cache_key E (fst t) (fst (snd t)) (snd (snd t))"

definition call_fresh :: "sign_env \<Rightarrow> verify_call \<Rightarrow> bool res" where
  "call_fresh E t = verify_aip_signature E (fst t) (fst (snd t)) (snd (snd t))"

definition kid_nul_free :: "items \<Rightarrow> bool" where
  "kid_nul_free block = (case map_of block (u ''kid'') of Some (PStr s) \<Rightarrow> 0 \<notin> set s | _ \<Rightarrow> True)"

text \<open>Joined parts without the separator can be told apart from any other parts.\<close>

definition count_of :: "nat \<Rightarrow> nat list \<Rightarrow> nat" where
  "count_of d s = length (filter ((=) d) s)"

lemma count_of_simps [simp]:
  "count_of d [] = 0" "count_of d (c # s) = (if d = c then Suc (count_of d s) else count_of d s)"
  "count_of d (s @ t) = count_of d s + count_of d t"
  by (simp_all add: count_of_def)

lemma count_of_zero: "count_of d s = 0 \<longleftrightarrow> d \<notin> set s"
  by (induction s) auto

lemma count_of_join:
  "ps \<noteq> [] \<Longrightarrow> count_of d (join_with [d] ps) + 1 = length ps + sum_list (map (count_of d) ps)"
  by (induction ps rule: induct_list012) auto

lemma join_separated:
  assumes "join_with [d] ps = join_with [d] qs" "length ps = length qs" "ps \<noteq> []" "\<forall>p \<in> set ps. d \<notin> set p"
  shows "qs = ps"
proof -
  have ps: "sum_list (map (count_of d) ps) = 0"
    using assms(4) by (simp add: count_of_zero)
  have "qs \<noteq> []" using assms(2,3) by auto
  have "count_of d (join_with [d] qs) + 1 = length qs"
    using count_of_join [OF assms(3), of d] by (simp only: ps assms(1,2) add_0_right)
  with count_of_join [OF \<open>qs \<noteq> []\<close>, of d] have "sum_list (map (count_of d) qs) = 0"
    by linarith
  then have "\<forall>q \<in> set qs. d \<notin> set q" by (simp add: count_of_zero)
  with assms(1,3,4) \<open>qs \<noteq> []\<close> show ?thesis by (metis split_join)
qed

lemma encode_cp_zero: "encode_cp c = Inr b \<Longrightarrow> 0 \<in> set b \<Longrightarrow> c = 0"
  by (auto simp: encode_cp_def split: if_splits)

lemma utf8_encode_zero: "utf8_encode s = Inr b \<Longrightarrow> 0 \<notin> set s \<Longrightarrow> 0 \<notin> set b"
  by (induction s arbitrary: b) (auto dest: encode_cp_zero)

lemma fromhex_nul: "fromhex s = Inr b \<Longrightarrow> 0 \<notin> set s"
  using fromhex_chars [of s b 0] by (auto simp: ascii_space_def hex_val_def)

lemma encode_ascii_Inr: "encode_ascii v = Inr b \<Longrightarrow> v = PStr b"
  by (auto simp: encode_ascii_def split: pyval.splits if_splits)

lemma encode_utf8_Inr: "encode_utf8 v = Inr b \<longleftrightarrow> (\<exists>s. v = PStr s \<and> utf8_encode s = Inr b)"
  by (auto simp: encode_utf8_def split: pyval.splits)

lemma key_payload_parts:
  assumes "key_payload E doc block pub = Inr p"
  obtains d alg a kid k s where "aip_payload E doc = Inr d"
    "map_of block (u ''alg'') = Some (PStr alg)" "utf8_encode alg = Inr a"
    "map_of block (u ''kid'') = Some (PStr kid)" "utf8_encode kid = Inr k"
    "map_of block (u ''signature'') = Some (PStr s)"
    "p = join_with [0] [hexdigest d, a, k, s, hexdigest pub]"
  using assms
  by (fastforce simp: key_payload_def jcs_body_digest_hex_def aip_payload_def encode_utf8_Inr
      dest!: encode_ascii_Inr split: option.splits)

lemma hexdigest_nul: "octets_ok b \<Longrightarrow> 0 \<notin> set (hexdigest b)"
  using hexdigest_graph [of b 0] by auto

lemma payload_agree:
  assumes sha: "\<And>x. octets_ok (sha256 E x)"
    and pubs: "octets_ok pub0" "octets_ok pub1"
    and kid: "kid_nul_free block0"
    and keys: "key_payload E doc0 block0 pub0 = Inr p" "key_payload E doc1 block1 pub1 = Inr p"
    and fresh: "verify_aip_signature E doc0 block0 pub0 = Inr b"
  shows "verify_aip_signature E doc1 block1 pub1 = Inr b"
proof -
  obtain d0 alg0 a0 kid0 k0 s0 where 0: "aip_payload E doc0 = Inr d0"
    "map_of block0 (u ''alg'') = Some (PStr alg0)" "utf8_encode alg0 = Inr a0"
    "map_of block0 (u ''kid'') = Some (PStr kid0)" "utf8_encode kid0 = Inr k0"
    "map_of block0 (u ''signature'') = Some (PStr s0)"
    "p = join_with [0] [hexdigest d0, a0, k0, s0, hexdigest pub0]"
    using keys(1) by (rule key_payload_parts)
  obtain d1 alg1 a1 kid1 k1 s1 where 1: "aip_payload E doc1 = Inr d1"
    "map_of block1 (u ''alg'') = Some (PStr alg1)" "utf8_encode alg1 = Inr a1"
    "map_of block1 (u ''kid'') = Some (PStr kid1)" "utf8_encode kid1 = Inr k1"
    "map_of block1 (u ''signature'') = Some (PStr s1)"
    "p = join_with [0] [hexdigest d1, a1, k1, s1, hexdigest pub1]"
    using keys(2) by (rule key_payload_parts)
  from fresh 0 obtain sig where s0: "alg0 = u ''Ed25519''" "fromhex s0 = Inr sig"
    by (auto simp: verify_aip_signature_def hex_arg_Inr split: if_splits)
  have d: "octets_ok d0" "octets_ok d1"
    using 0(1) 1(1) sha by (auto simp: aip_payload_def)
  have "0 \<notin> set alg0" using s0(1) by (simp add: u_def)
  moreover have "0 \<notin> set kid0" using kid 0(4) by (simp add: kid_nul_free_def)
  ultimately have "\<forall>q \<in> set [hexdigest d0, a0, k0, s0, hexdigest pub0]. 0 \<notin> set q"
    using hexdigest_nul d pubs utf8_encode_zero 0(3,5) fromhex_nul [OF s0(2)] by simp
  with 0(7) 1(7) have "[hexdigest d1, a1, k1, s1, hexdigest pub1] = [hexdigest d0, a0, k0, s0, hexdigest pub0]"
    by (intro join_separated) (simp_all del: join_with.simps)
  then have "d1 = d0" "a1 = a0" "s1 = s0" "pub1 = pub0"
    using hexdigest_inj d pubs by auto
  moreover have "alg1 = alg0" using utf8_encode_inj 0(3) 1(3) \<open>a1 = a0\<close> by metis
  ultimately have "verify_aip_signature E doc1 block1 pub1 = verify_aip_signature E doc0 block0 pub0"
    by (simp add: verify_aip_signature_def 0(1,2,6) 1(1,2,6) cong: if_cong)
  with fresh show ?thesis by simp
qed

text \<open>The hash does not collide on the payloads of the calls.\<close>

definition collision_free :: "sign_env \<Rightarrow> verify_call list \<Rightarrow> bool" where
  "collision_free E ts \<longleftrightarrow>
     (\<forall>t \<in> set ts. \<forall>t' \<in> set ts.
        case (call_payload E t, call_payload E t') of
          (Inr p, Inr p') \<Rightarrow> sha256 E p = sha256 E p' \<longrightarrow> p = p'
        | _ \<Rightarrow> True)"

definition calls_ok :: "verify_call list \<Rightarrow> bool" where
  "calls_ok ts \<longleftrightarrow> (\<forall>t \<in> set ts. octets_ok (snd (snd t)) \<and> kid_nul_free (fst (snd t)))"

text \<open>What every entry of the cache is: the outcome of one of the calls.\<close>

definition vouched :: "sign_env \<Rightarrow> verify_call list \<Rightarrow> ustr \<Rightarrow> cache_entry \<Rightarrow> bool" where
  "vouched E ts k e \<longleftrightarrow> (\<exists>t \<in> set ts. call_key E t = Inr k \<and> call_fresh E t = Inr (outcome e))"

definition all_vouched :: "sign_env \<Rightarrow> verify_call list \<Rightarrow> sig_cache \<Rightarrow> bool" where
  "all_vouched E ts c \<longleftrightarrow> (\<forall>k e. map_of (sc_entries c) k = Some e \<longrightarrow> vouched E ts k e)"

lemma vouched_fresh:
  assumes "\<And>x. octets_ok (sha256 E x)" "calls_ok ts" "collision_free E ts"
    and "vouched E ts k e" "t \<in> set ts" "call_key E t = Inr k"
  shows "call_fresh E t = Inr (outcome e)"
proof -
  from assms(4) obtain t0 where t0: "t0 \<in> set ts" "call_key E t0 = Inr k" "call_fresh E t0 = Inr (outcome e)"
    by (auto simp: vouched_def)
  from t0(2) obtain p0 where p0: "call_payload E t0 = Inr p0" "k = hexdigest (sha256 E p0)"
    by (auto simp: call_key_def build_cache_key_def call_payload_def)
  from assms(6) obtain p where p: "call_payload E t = Inr p" "k = hexdigest (sha256 E p)"
    by (auto simp: call_key_def build_cache_key_def call_payload_def)
  have "sha256 E p = sha256 E p0"
    using p(2) p0(2) assms(1) hexdigest_inj by metis
  moreover have "sha256 E p = sha256 E p0 \<longrightarrow> p = p0"
    using assms(3,5) t0(1) p(1) p0(1) by (fastforce simp: collision_free_def)
  ultimately have "p = p0" by blast
  then show ?thesis
    using payload_agree [of E "snd (snd t0)" "snd (snd t)" "fst (snd t0)" "fst t0" p0 "fst t" "fst (snd t)"]
      assms(1,2,5) t0 p(1) p0(1)
    by (simp add: call_fresh_def call_payload_def calls_ok_def)
qed

lemma all_vouched_expire: "all_vouched E ts c \<Longrightarrow> all_vouched E ts (sig_expire k c)"
  by (simp add: all_vouched_def)

lemma all_vouched_evict: "all_vouched E ts c \<Longrightarrow> all_vouched E ts (snd (evict_expired now c))"
proof -
  have "all_vouched E ts (foldl (\<lambda>c key. sig_expire key c) c ks)" if "all_vouched E ts c" for ks
    using that by (induction ks arbitrary: c) (simp_all add: all_vouched_expire)
  then show "all_vouched E ts c \<Longrightarrow> all_vouched E ts (snd (evict_expired now c))"
    by (simp add: evict_expired_def Let_def)
qed

lemma sig_miss_vouched:
  assumes "sigc.wf c" "key \<notin> set (sc_order c)" "all_vouched E ts c"
    and "(doc, block, pub) \<in> set ts" "build_cache_key E doc block pub = Inr key"
    and miss: "sig_miss E doc block pub now key c = (r, c')"
  shows "all_vouched E ts c'"
proof (cases "verify_aip_signature E doc block pub")
  case (Inl e)
  with miss assms(3) show ?thesis by (simp add: sig_miss_def)
next
  case (Inr b)
  let ?c = "c\<lparr>misses := misses c + 1\<rparr>" and ?e = "\<lparr>outcome = b, inserted_at = now\<rparr>"
  have c': "c' = snd (sig_insert key ?e ?c)"
    using Inr miss by (auto simp: sig_miss_def split: prod.splits sum.splits)
  have "vouched E ts key ?e"
    using assms(4,5) Inr by (force simp: vouched_def call_key_def call_fresh_def)
  moreover have "sigc.wf ?c" "key \<notin> set (sc_order ?c)" using assms(1,2) by simp_all
  moreover have "vouched E ts k e" if "map_of (sc_entries ?c) k = Some e" for k e
    using that assms(3) by (simp add: all_vouched_def)
  ultimately show ?thesis
    unfolding all_vouched_def c' using sigc.stored_invariant [of ?c key "vouched E ts" ?e] by blast
qed

lemma sig_verify_transparent:
  assumes sha: "\<And>x. octets_ok (sha256 E x)" "calls_ok ts" "collision_free E ts"
    and "sigc.wf c" "all_vouched E ts c" "(doc, block, pub) \<in> set ts"
    and run: "sig_verify E doc block pub now c = (r, c')"
  shows "all_vouched E ts c' \<and> r = sbind (build_cache_key E doc block pub) (\<lambda>_. verify_aip_signature E doc block pub)"
proof (cases "build_cache_key E doc block pub")
  case (Inl e)
  with run assms(5) show ?thesis by (simp add: sig_verify_def)
next
  case (Inr key)
  show ?thesis
  proof (cases "map_of (sc_entries c) key")
    case None
    then have "key \<notin> set (sc_order c)" using assms(4) cache_wf_keys by (metis sigc.wf_def)
    moreover have "sig_miss E doc block pub now key c = (r, c')"
      using run Inr None by (simp add: sig_verify_def)
    ultimately show ?thesis
      using sig_miss_vouched [OF assms(4) _ assms(5,6) Inr] sig_miss_wf [OF assms(4)] Inr by simp
  next
    case (Some e)
    have "vouched E ts key e" using assms(5) Some by (simp add: all_vouched_def)
    from vouched_fresh [OF sha this assms(6)] Inr
    have fresh: "verify_aip_signature E doc block pub = Inr (outcome e)"
      by (simp add: call_key_def call_fresh_def)
    let ?c = "sig_expire key c"
    have wf: "sigc.wf ?c" "key \<notin> set (sc_order ?c)"
      using assms(4) by (simp_all add: sig_wf_expire expire_order)
    show ?thesis
    proof (cases "now - inserted_at e < ttl_seconds c")
      case True
      with Inr Some run fresh assms(5) show ?thesis by (auto simp: sig_verify_def all_vouched_def)
    next
      case False
      with Inr Some run have "sig_miss E doc block pub now key ?c = (r, c')"
        by (simp add: sig_verify_def)
      with sig_miss_vouched [OF wf all_vouched_expire [OF assms(5)] assms(6) Inr] sig_miss_wf [OF wf] Inr
      show ?thesis by simp
    qed
  qed
qed

lemma sig_run_transparent:
  assumes sha: "\<And>x. octets_ok (sha256 E x)" "calls_ok ts" "collision_free E ts"
    and "sigc.wf c" "all_vouched E ts c" "set (verify_calls ops) \<subseteq> set ts"
  shows "fst (sig_run E ops c) = map (\<lambda>t. sbind (call_key E t) (\<lambda>_. call_fresh E t)) (verify_calls ops)"
  using assms(4-)
proof (induction ops arbitrary: c)
  case (Cons x ops)
  show ?case
  proof (cases x)
    case (OpVerify doc block pub now)
    obtain r c1 where v: "sig_verify E doc block pub now c = (r, c1)" by fastforce
    have "(doc, block, pub) \<in> set ts" using OpVerify Cons.prems(3) by simp
    from sig_verify_transparent [OF sha Cons.prems(1,2) this v] sig_verify_wf [OF Cons.prems(1) v]
      Cons.IH [of c1] Cons.prems(3) OpVerify v
    show ?thesis by (auto simp: call_key_def call_fresh_def split: prod.splits)
  next
    case OpClear
    have "all_vouched E ts (sig_clear c)" by (simp add: all_vouched_def sig_clear_def)
    with OpClear Cons sig_wf_clear show ?thesis by simp
  next
    case (OpEvict now)
    with Cons sig_evict_wf all_vouched_evict show ?thesis by simp
  qed
qed simp

section \<open>Properties\<close>

text \<open>
  C19: The cache is transparent. In every sequence of verifications, sweeps and clears on a new
  cache, each verification returns (or raises) what the construction of its key raises and
  otherwise what a fresh \<open>verify_aip_signature\<close> does, whatever was cached, evicted or expired before
  and whatever the clock reads, if SHA-256 does not collide on the payloads of the keys and no key
  identifier contains a NUL.
\<close>

theorem cache_transparent:
  assumes "new_sig_cache n ttl = Inr c" "\<And>x. octets_ok (sha256 E x)"
    and "calls_ok (verify_calls ops)" "collision_free E (verify_calls ops)"
  shows "fst (sig_run E ops c)
     = map (\<lambda>t. sbind (call_key E t) (\<lambda>_. call_fresh E t)) (verify_calls ops)"
proof (rule sig_run_transparent [OF assms(2-4)])
  from sig_wf_new [OF assms(1)] show "sigc.wf c" "all_vouched E (verify_calls ops) c"
    by (simp_all add: all_vouched_def)
qed simp

lemma sig_insert_fixed: "max_entries (snd (sig_insert k v c)) = max_entries c"
  by (rule sigc.store_capacity)

lemma sig_miss_fixed: "sig_miss E doc block pub now key c = (r, c') \<Longrightarrow> max_entries c' = max_entries c"
  using sig_insert_fixed [of key _ "c\<lparr>misses := misses c + 1\<rparr>"]
  by (fastforce simp: sig_miss_def dest: arg_cong [where f = snd] split: sum.splits prod.splits)

lemma sig_verify_fixed: "sig_verify E doc block pub now c = (r, c') \<Longrightarrow> max_entries c' = max_entries c"
  by (auto simp: sig_verify_def sig_expire_def sig_remove_def Let_def dest!: sig_miss_fixed
      split: sum.splits option.splits if_splits)

lemma sig_evict_fixed: "max_entries (snd (evict_expired now c)) = max_entries c"
proof -
  have "max_entries (foldl (\<lambda>c key. sig_expire key c) c ks) = max_entries c" for ks
    by (induction ks arbitrary: c) (simp_all add: sig_expire_def sig_remove_def Let_def)
  then show ?thesis by (simp add: evict_expired_def Let_def)
qed

lemma sig_run_fixed: "max_entries (snd (sig_run E ops c)) = max_entries c"
proof (induction E ops c rule: sig_run.induct)
  case (2 E doc block pub now ops c)
  obtain r c1 where v: "sig_verify E doc block pub now c = (r, c1)" by fastforce
  with 2 sig_verify_fixed [OF v] show ?case by (auto split: prod.split)
qed (simp_all add: sig_clear_def sig_evict_fixed)

text \<open>
  The cache keeps its bound and its books. After any sequence of operations it holds at most
  \<open>max_entries\<close> entries; the calls that returned an outcome are its hits and misses; and the misses
  are the live entries, the evicted and the expired ones (and those a \<open>clear\<close> dropped).
\<close>

lemma cache_bounded:
  assumes "new_sig_cache n ttl = Inr c0" "sig_run E ops c0 = (rs, c)"
  shows "length (sc_entries c) \<le> nat n
    \<and> hits c + misses c = length (filter (\<lambda>r. \<not> isl r) rs)
    \<and> length (sc_entries c) + evictions c + expired c \<le> misses c
    \<and> (OpClear \<notin> set ops \<longrightarrow> length (sc_entries c) + evictions c + expired c = misses c)"
proof -
  from assms(1) have c0: "hits c0 = 0" "misses c0 = 0" "balance c0 = 0" "max_entries c0 = nat n"
    by (auto simp: new_sig_cache_def balance_def split: if_splits)
  have wf: "sigc.wf c0" using sig_wf_new [OF assms(1)] by simp
  from sig_run_wf [OF wf assms(2)] sigc.wf_bound [of c] sig_run_fixed [of E ops c0] assms(2) c0
  show ?thesis by (simp add: balance_def)
qed

section \<open>A key identifier with a NUL\<close>

definition cache_env :: sign_env where
  "cache_env = \<lparr>rfc8785_dumps = None, sha256 = map (\<lambda>b. b mod 256), ed_sign = (\<lambda>k m. replicate 64 7),
     ed_verify = (\<lambda>k s m. Inr (s = replicate 64 7)), ec_sign = (\<lambda>k m. Inl ValueErr),
     ec_verify = (\<lambda>k rs m. Inr False)\<rparr>"

definition cache_block :: "ustr \<Rightarrow> ustr \<Rightarrow> items" where
  "cache_block kid sig = [(u ''alg'', PStr (u ''Ed25519'')), (u ''kid'', PStr kid), (u ''signature'', PStr sig)]"

definition sevens :: ustr where
  "sevens = hexdigest (replicate 64 7)"

lemma sevens_props: "fromhex sevens = Inr (replicate 64 7)" "list_all (\<lambda>c. c < 128) sevens"
proof -
  have ok: "octets_ok (replicate 64 7)" by (simp add: octets_ok_def is_octet_def list_all_iff)
  then show "fromhex sevens = Inr (replicate 64 7)" by (simp add: sevens_def)
  show "list_all (\<lambda>c. c < 128) sevens"
    using hexdigest_graph [OF ok] by (fastforce simp: sevens_def list_all_iff)
qed

lemma cache_env_ok: "octets_ok (sha256 cache_env x)"
  by (simp add: cache_env_def octets_ok_def is_octet_def list_all_iff)

text \<open>
  The parts of a key are separated by NUL octets and a key identifier may contain one, so the key
  of a well-formed block can be that of a malformed one, whose signature is not hexadecimal: the
  second call below returns \<open>True\<close> where \<open>verify_aip_signature\<close> raises.
\<close>

lemma nul_kid_key:
  "key_payload E doc (cache_block (u ''x'' @ 0 # u ''y'') sevens) pub
     = key_payload E doc (cache_block (u ''x'') (u ''y'' @ 0 # sevens)) pub"
  using sevens_props(2)
  by (simp add: key_payload_def cache_block_def encode_utf8_def encode_ascii_def u_def encode_cp_def
      cong: if_cong)

lemma sample_digest: "\<exists>d. jcs_body_digest_hex cache_env sample_doc = Inr d \<and> list_all (\<lambda>c. c < 128) d"
proof -
  obtain d where d: "jcs_body_digest_hex cache_env sample_doc = Inr (hexdigest (sha256 cache_env d))"
    by (simp add: jcs_body_digest_hex_def jcs_canonicalize_def cache_env_def sample_canonical)
  moreover have "list_all (\<lambda>c. c < 128) (hexdigest (sha256 cache_env d))"
    using hexdigest_graph [OF cache_env_ok [of d]] by (fastforce simp: list_all_iff)
  ultimately show ?thesis by blast
qed

definition empty_cache :: sig_cache where
  "empty_cache = \<lparr>max_entries = 256, ttl_seconds = 300, sc_entries = [], sc_order = [],
     hits = 0, misses = 0, evictions = 0, expired = 0\<rparr>"

lemma new_empty_cache: "new_sig_cache default_max_entries default_ttl_seconds = Inr empty_cache"
  by (simp add: new_sig_cache_def default_max_entries_def default_ttl_seconds_def empty_cache_def)

lemma verify_sevens:
  "verify_aip_signature cache_env sample_doc (cache_block kid sevens) sample_priv = Inr True"
  using sevens_props
  by (simp add: aip.verify_True aip_accepts_def cache_block_def sample_priv_def aip_payload_def
      jcs_canonicalize_def sample_canonical cache_env_def)

lemma key_of_sevens:
  assumes "list_all (\<lambda>c. c < 128) kid"
  obtains key where "build_cache_key cache_env sample_doc (cache_block kid sevens) sample_priv = Inr key"
proof -
  obtain d where d: "jcs_body_digest_hex cache_env sample_doc = Inr d" "list_all (\<lambda>c. c < 128) d"
    using sample_digest by blast
  have "list_all (\<lambda>c. c < 128) (hexdigest sample_priv)"
    using hexdigest_graph [of sample_priv]
    by (fastforce simp: list_all_iff sample_priv_def octets_ok_def is_octet_def)
  moreover have "utf8_encode kid = Inr kid"
    using assms utf8_encode_ascii by (simp add: list_all_iff)
  moreover have "utf8_encode (u ''Ed25519'') = Inr (u ''Ed25519'')"
    by (simp add: u_def encode_cp_def)
  ultimately have "\<exists>p. key_payload cache_env sample_doc (cache_block kid sevens) sample_priv = Inr p"
    using d sevens_props(2)
    by (simp add: key_payload_def cache_block_def encode_utf8_def encode_ascii_def)
  with that show ?thesis by (auto simp: build_cache_key_def)
qed

lemma nul_kid_hit:
  "fst (sig_run cache_env
     [OpVerify sample_doc (cache_block (u ''x'' @ 0 # u ''y'') sevens) sample_priv 0,
      OpVerify sample_doc (cache_block (u ''x'') (u ''y'' @ 0 # sevens)) sample_priv 1] empty_cache)
     = [Inr True, Inr True]"
  "verify_aip_signature cache_env sample_doc (cache_block (u ''x'') (u ''y'' @ 0 # sevens)) sample_priv
     = Inl ValueErr"
proof -
  obtain key where key: "build_cache_key cache_env sample_doc (cache_block (u ''x'' @ 0 # u ''y'') sevens) sample_priv
      = Inr key"
    by (rule key_of_sevens [of "u ''x'' @ 0 # u ''y''"]) (simp_all add: u_def)
  then have key2: "build_cache_key cache_env sample_doc (cache_block (u ''x'') (u ''y'' @ 0 # sevens)) sample_priv
      = Inr key"
    by (simp add: build_cache_key_def nul_kid_key)
  show "fst (sig_run cache_env
     [OpVerify sample_doc (cache_block (u ''x'' @ 0 # u ''y'') sevens) sample_priv 0,
      OpVerify sample_doc (cache_block (u ''x'') (u ''y'' @ 0 # sevens)) sample_priv 1] empty_cache)
     = [Inr True, Inr True]"
    by (simp add: sig_verify_def key key2 empty_cache_def sig_miss_def verify_sevens sig_insert_def sig_put_def)
  show "verify_aip_signature cache_env sample_doc (cache_block (u ''x'') (u ''y'' @ 0 # sevens)) sample_priv
     = Inl ValueErr"
    by (simp add: verify_aip_signature_def cache_block_def sample_priv_def hex_arg_def u_def
        ascii_space_def hex_val_def)
qed

lemma cache_transparent_witness:
  "fst (sig_run cache_env
     [OpVerify sample_doc (cache_block (u ''k'') sevens) sample_priv 0, OpEvict 20,
      OpVerify sample_doc (cache_block (u ''k'') sevens) sample_priv 30] empty_cache)
     = [Inr True, Inr True]"
proof -
  obtain key where key: "build_cache_key cache_env sample_doc (cache_block (u ''k'') sevens) sample_priv = Inr key"
    by (rule key_of_sevens [of "u ''k''"]) (simp_all add: u_def)
  let ?ops = "[OpVerify sample_doc (cache_block (u ''k'') sevens) sample_priv 0, OpEvict 20,
      OpVerify sample_doc (cache_block (u ''k'') sevens) sample_priv 30]"
  have "fst (sig_run cache_env ?ops empty_cache)
     = map (\<lambda>t. sbind (call_key cache_env t) (\<lambda>_. call_fresh cache_env t)) (verify_calls ?ops)"
  proof (rule cache_transparent [OF new_empty_cache cache_env_ok])
    show "calls_ok (verify_calls ?ops)"
      by (simp add: calls_ok_def sample_priv_def octets_ok_def is_octet_def list_all_iff
          kid_nul_free_def cache_block_def u_def)
    show "collision_free cache_env (verify_calls ?ops)"
      by (auto simp: collision_free_def split: sum.split)
  qed
  then show ?thesis by (simp add: call_key_def call_fresh_def key verify_sevens)
qed

lemma cache_bounded_witness:
  "length (sc_entries (snd (sig_run cache_env
     [OpVerify sample_doc (cache_block (u ''k'') sevens) sample_priv 0, OpClear] empty_cache))) \<le> 256"
  using cache_bounded [OF new_empty_cache prod.collapse [symmetric],
      of cache_env "[OpVerify sample_doc (cache_block (u ''k'') sevens) sample_priv 0, OpClear]"]
  by (simp add: default_max_entries_def)

end
