(* ===== verification/KidResolver.thy ===== *)
theory KidResolver
  imports Signing Pytime
begin

text \<open>
  The kid resolver, \<open>identity_substrate/kid_resolver.py\<close>: \<open>resolve_kid\<close> finds the public key a
  key identifier names in an identity document, \<open>list_resolvable_kids\<close> lists the identifiers it
  would resolve. Documents are JSON values. \<open>list_agrees\<close> states how far the two agree.
\<close>

section \<open>The code\<close>

record resolved_key =
  rk_kid :: ustr
  rk_public_key :: octets
  rk_validafter :: "dt option"
  rk_validuntil :: "dt option"
  rk_purpose :: "ustr option"

definition supported_alg :: ustr where
  "supported_alg = u ''Ed25519''"

text \<open>\<open>entry.get(k)\<close>.\<close>

definition get_item :: "items \<Rightarrow> string \<Rightarrow> pyval" where
  "get_item d k = (case map_of d (u k) of Some v \<Rightarrow> v | None \<Rightarrow> PNone)"

definition replace_z :: "ustr \<Rightarrow> ustr" where
  "replace_z s = (if ends_with (u ''Z'') s then take (length s - 1) s @ u ''+00:00'' else s)"

definition ensure_utc :: "pyenv \<Rightarrow> dt \<Rightarrow> dt res" where
  "ensure_utc E d = (if aware d then astimezone_utc E d else Inr (Dt (wall d) (Some 0)))"

definition parse_rfc3339 :: "pyenv \<Rightarrow> pyval \<Rightarrow> dt res" where
  "parse_rfc3339 E value = (case value of
       PStr s \<Rightarrow> sbind (rethrow is_value_error KidResolverErr (fromisoformat E (replace_z s)))
                  (\<lambda>d. astimezone_utc E (if aware d then d else Dt (wall d) (Some 0)))
     | _ \<Rightarrow> Inl KidResolverErr)"

definition parse_bound :: "pyenv \<Rightarrow> items \<Rightarrow> string \<Rightarrow> dt option res" where
  "parse_bound E entry k =
     (if get_item entry k = PNone then Inr None
      else sbind (parse_rfc3339 E (get_item entry k)) (\<lambda>d. Inr (Some d)))"

text \<open>\<open>validafter <= as_of < validuntil\<close>, each bound only where it is given.\<close>

definition in_window :: "dt option \<Rightarrow> dt option \<Rightarrow> dt \<Rightarrow> bool res" where
  "in_window va vu t =
     sbind (case va of None \<Rightarrow> Inr False | Some a \<Rightarrow> dt_lt t a) (\<lambda>early.
       if early then Inr False
       else sbind (case vu of None \<Rightarrow> Inr False | Some b \<Rightarrow> dt_ge t b) (\<lambda>late. Inr (\<not> late)))"

definition key_of_entry :: "items \<Rightarrow> octets option" where
  "key_of_entry entry = (case map_of entry (u ''key_hex'') of
       Some (PStr h) \<Rightarrow>
         if length h \<noteq> 64 then None
         else (case fromhex h of
             Inl e \<Rightarrow> None
           | Inr b \<Rightarrow> if length b \<noteq> 32 then None else Some b)
     | _ \<Rightarrow> None)"

text \<open>The checks of \<open>resolve_kid\<close> on the one entry that matches.\<close>

definition resolve_entry ::
    "pyenv \<Rightarrow> ustr \<Rightarrow> dt option \<Rightarrow> ustr option \<Rightarrow> items \<Rightarrow> resolved_key res" where
  "resolve_entry E kid as_of require_purpose entry =
     (if get_item entry ''alg'' \<noteq> PStr supported_alg then Inl KidResolverErr
      else (case key_of_entry entry of
          None \<Rightarrow> Inl KidResolverErr
        | Some key \<Rightarrow>
            sbind (parse_bound E entry ''validafter'') (\<lambda>va.
            sbind (parse_bound E entry ''validuntil'') (\<lambda>vu.
            sbind (case as_of of
                None \<Rightarrow> Inr True
              | Some t \<Rightarrow> sbind (ensure_utc E t) (in_window va vu)) (\<lambda>ok.
            if \<not> ok then Inl KidResolverErr
            else if require_purpose \<noteq> None \<and> get_item entry ''purpose'' \<noteq> PStr (the require_purpose)
            then Inl KidResolverErr
            else Inr \<lparr>rk_kid = kid, rk_public_key = key, rk_validafter = va, rk_validuntil = vu,
              rk_purpose = (case get_item entry ''purpose'' of PStr s \<Rightarrow> Some s | _ \<Rightarrow> None)\<rparr>)))))"

fun is_mapping :: "pyval \<Rightarrow> bool" where
  "is_mapping (PDict d) = True"
| "is_mapping v = False"

fun entry_items :: "pyval \<Rightarrow> items" where
  "entry_items (PDict d) = d"
| "entry_items v = []"

definition public_keys_of :: "pyval \<Rightarrow> pyval list res" where
  "public_keys_of aip_doc = (case aip_doc of
       PDict doc \<Rightarrow>
         (case map_of doc (u ''public_keys'') of
            Some (PList pks) \<Rightarrow> Inr pks
          | _ \<Rightarrow> Inl KidResolverErr)
     | _ \<Rightarrow> Inl KidResolverErr)"

definition resolve_kid ::
    "pyenv \<Rightarrow> pyval \<Rightarrow> ustr \<Rightarrow> dt option \<Rightarrow> ustr option \<Rightarrow> resolved_key res" where
  "resolve_kid E aip_doc kid as_of require_purpose =
     (if kid = [] then Inl KidResolverErr
      else sbind (public_keys_of aip_doc) (\<lambda>pks.
        if pks = [] then Inl KidResolverErr
        else if \<not> list_all is_mapping pks then Inl KidResolverErr
        else (case filter (\<lambda>e. get_item (entry_items e) ''kid'' = PStr kid) pks of
            [e] \<Rightarrow> resolve_entry E kid as_of require_purpose (entry_items e)
          | _ \<Rightarrow> Inl KidResolverErr)))"

text \<open>The kid of an entry that \<open>list_resolvable_kids\<close> counts.\<close>

definition listed_kid :: "pyval \<Rightarrow> ustr option" where
  "listed_kid e = (if is_mapping e then
       (case get_item (entry_items e) ''kid'' of PStr k \<Rightarrow> if k = [] then None else Some k | _ \<Rightarrow> None)
     else None)"

definition kid_count :: "pyval list \<Rightarrow> ustr \<Rightarrow> nat" where
  "kid_count pks k = length (filter (\<lambda>e. listed_kid e = Some k) pks)"

definition window_passes :: "pyenv \<Rightarrow> dt \<Rightarrow> items \<Rightarrow> bool res" where
  "window_passes E t entry =
     (case sbind (parse_bound E entry ''validafter'') (\<lambda>va.
             sbind (parse_bound E entry ''validuntil'') (\<lambda>vu. Inr (va, vu))) of
        Inl e \<Rightarrow> if e = KidResolverErr then Inr False else Inl e
      | Inr (va, vu) \<Rightarrow> in_window va vu t)"

definition entry_passes :: "pyenv \<Rightarrow> dt option \<Rightarrow> ustr option \<Rightarrow> items \<Rightarrow> bool res" where
  "entry_passes E as_of_utc require_purpose entry =
     (if get_item entry ''alg'' \<noteq> PStr supported_alg then Inr False
      else if key_of_entry entry = None then Inr False
      else sbind (case as_of_utc of None \<Rightarrow> Inr True | Some t \<Rightarrow> window_passes E t entry) (\<lambda>ok.
        Inr (ok \<and> (require_purpose = None \<or> get_item entry ''purpose'' = PStr (the require_purpose)))))"

fun list_pass :: "pyenv \<Rightarrow> dt option \<Rightarrow> ustr option \<Rightarrow> pyval list \<Rightarrow> pyval list \<Rightarrow> ustr list res" where
  "list_pass E t p pks [] = Inr []"
| "list_pass E t p pks (e # es) =
     (case listed_kid e of
        None \<Rightarrow> list_pass E t p pks es
      | Some k \<Rightarrow>
          if kid_count pks k \<noteq> 1 then list_pass E t p pks es
          else sbind (entry_passes E t p (entry_items e)) (\<lambda>ok.
            sbind (list_pass E t p pks es) (\<lambda>ks. Inr (if ok then k # ks else ks))))"

definition list_resolvable_kids :: "pyenv \<Rightarrow> pyval \<Rightarrow> dt option \<Rightarrow> ustr option \<Rightarrow> ustr list res" where
  "list_resolvable_kids E aip_doc as_of require_purpose =
     sbind (public_keys_of aip_doc) (\<lambda>pks.
     sbind (case as_of of None \<Rightarrow> Inr None | Some t \<Rightarrow> sbind (ensure_utc E t) (\<lambda>d. Inr (Some d))) (\<lambda>t.
     sbind (list_pass E t require_purpose pks pks) (\<lambda>ks. Inr (sort ks))))"

section \<open>What is resolved\<close>

lemma entry_passes_iff:
  assumes "ensure_utc E t = Inr t'" "entry_passes E (Some t') p entry = Inr ok"
  shows "ok \<longleftrightarrow> (\<exists>r. resolve_entry E kid (Some t) p entry = Inr r)"
  using assms
  by (cases "key_of_entry entry"; cases p)
    (auto simp: entry_passes_def resolve_entry_def window_passes_def ex_bool_eq split: if_splits sum.splits)

lemma listed_kid_iff:
  "is_mapping e \<Longrightarrow> k \<noteq> [] \<Longrightarrow> listed_kid e = Some k \<longleftrightarrow> get_item (entry_items e) ''kid'' = PStr k"
  by (auto simp: listed_kid_def split: pyval.splits)

lemma listed_kid_ne: "listed_kid e = Some k \<Longrightarrow> k \<noteq> [] \<and> is_mapping e"
  by (auto simp: listed_kid_def split: pyval.splits if_splits)

lemma list_pass_mem:
  "list_pass E t p pks es = Inr ks \<Longrightarrow>
     k \<in> set ks \<longleftrightarrow> (\<exists>e \<in> set es. listed_kid e = Some k \<and> kid_count pks k = 1
                      \<and> entry_passes E t p (entry_items e) = Inr True)"
proof (induction es arbitrary: ks)
  case (Cons e es)
  show ?case
  proof (cases "\<exists>j. listed_kid e = Some j \<and> kid_count pks j = 1")
    case True
    then obtain j ok ks' where "listed_kid e = Some j" "kid_count pks j = 1"
      "entry_passes E t p (entry_items e) = Inr ok" "list_pass E t p pks es = Inr ks'"
      "ks = (if ok then j # ks' else ks')"
      using Cons.prems by auto
    with Cons.IH [of ks'] show ?thesis by auto
  next
    case False
    with Cons.prems have "list_pass E t p pks es = Inr ks"
      by (auto split: option.splits if_splits)
    with Cons.IH [of ks] False show ?thesis by auto
  qed
qed simp

lemma list_pass_evaluates:
  assumes "list_pass E t p pks es = Inr ks" "e \<in> set es" "listed_kid e = Some k" "kid_count pks k = 1"
  shows "\<exists>ok. entry_passes E t p (entry_items e) = Inr ok"
  using assms by (induction es arbitrary: ks) (auto split: option.splits if_splits)

lemma list_pass_distinct:
  assumes "list_pass E t p pks es = Inr ks"
    and "\<forall>k. kid_count pks k = 1 \<longrightarrow> kid_count es k \<le> 1"
  shows "distinct ks"
  using assms
proof (induction es arbitrary: ks)
  case (Cons e es)
  have sub: "\<forall>k. kid_count pks k = 1 \<longrightarrow> kid_count es k \<le> 1"
    using Cons.prems(2) by (fastforce simp: kid_count_def split: if_splits)
  show ?case
  proof (cases "\<exists>j. listed_kid e = Some j \<and> kid_count pks j = 1")
    case True
    then obtain j ok ks' where j: "listed_kid e = Some j" "kid_count pks j = 1"
      "list_pass E t p pks es = Inr ks'" "ks = (if ok then j # ks' else ks')"
      using Cons.prems by auto
    have "kid_count es j = 0"
      using Cons.prems(2) j(1,2) by (fastforce simp: kid_count_def)
    then have "j \<notin> set ks'"
      using list_pass_mem [OF j(3), of j] by (auto simp: kid_count_def filter_empty_conv)
    with Cons.IH [OF j(3) sub] j(4) show ?thesis by auto
  next
    case False
    with Cons.prems(1) have "list_pass E t p pks es = Inr ks"
      by (auto split: option.splits if_splits)
    with Cons.IH sub show ?thesis by blast
  qed
qed simp

lemma length_one_filter: "length (filter P xs) = 1 \<Longrightarrow> e \<in> set xs \<Longrightarrow> P e \<Longrightarrow> filter P xs = [e]"
proof -
  assume *: "length (filter P xs) = 1" "e \<in> set xs" "P e"
  then obtain a where a: "filter P xs = [a]" by (auto simp: length_Suc_conv)
  have "e \<in> set (filter P xs)" using * by simp
  with a show ?thesis by (metis empty_iff insert_iff list.set)
qed

lemma resolve_kid_iff:
  assumes "public_keys_of doc = Inr pks" "list_all is_mapping pks" "k \<noteq> []"
  shows "resolve_kid E doc k t p = Inr r \<longleftrightarrow>
     (\<exists>e. filter (\<lambda>e. listed_kid e = Some k) pks = [e] \<and> resolve_entry E k t p (entry_items e) = Inr r)"
proof -
  have f: "filter (\<lambda>e. get_item (entry_items e) ''kid'' = PStr k) pks = filter (\<lambda>e. listed_kid e = Some k) pks"
    using assms(2,3) by (intro filter_cong) (auto simp: listed_kid_iff list_all_iff)
  show ?thesis
  proof (cases "filter (\<lambda>e. listed_kid e = Some k) pks")
    case (Cons e es)
    then have "pks \<noteq> []" by auto
    with Cons assms f show ?thesis by (cases es) (auto simp: resolve_kid_def)
  qed (use assms f in \<open>auto simp: resolve_kid_def\<close>)
qed

text \<open>
  C28: At a given time, \<open>list_resolvable_kids\<close> lists exactly the identifiers that \<open>resolve_kid\<close> resolves
  then, each once and in order, for every document whose \<open>public_keys\<close> are all objects.
\<close>

theorem list_agrees:
  assumes "public_keys_of doc = Inr pks" "list_all is_mapping pks"
    and "list_resolvable_kids E doc (Some t) p = Inr ks"
  shows "sorted ks \<and> distinct ks
    \<and> (\<forall>k. k \<in> set ks \<longleftrightarrow> (\<exists>r. resolve_kid E doc k (Some t) p = Inr r))"
proof -
  from assms obtain t' ks' where *: "ensure_utc E t = Inr t'" "list_pass E (Some t') p pks pks = Inr ks'"
    "ks = sort ks'"
    by (auto simp: list_resolvable_kids_def)
  have "distinct ks'" using list_pass_distinct [OF *(2)] by simp
  moreover have "k \<in> set ks' \<longleftrightarrow> (\<exists>r. resolve_kid E doc k (Some t) p = Inr r)" for k
  proof
    assume "k \<in> set ks'"
    then obtain e where e: "e \<in> set pks" "listed_kid e = Some k" "kid_count pks k = 1"
      "entry_passes E (Some t') p (entry_items e) = Inr True"
      using list_pass_mem [OF *(2)] by blast
    then have "filter (\<lambda>e. listed_kid e = Some k) pks = [e]"
      by (intro length_one_filter) (auto simp: kid_count_def)
    moreover obtain r where "resolve_entry E k (Some t) p (entry_items e) = Inr r"
      using entry_passes_iff [OF *(1) e(4), of k] by blast
    ultimately show "\<exists>r. resolve_kid E doc k (Some t) p = Inr r"
      using resolve_kid_iff [OF assms(1,2)] listed_kid_ne [OF e(2)] by blast
  next
    assume "\<exists>r. resolve_kid E doc k (Some t) p = Inr r"
    then obtain r where r: "resolve_kid E doc k (Some t) p = Inr r" by blast
    then have "k \<noteq> []" by (auto simp: resolve_kid_def)
    with r obtain e where e: "filter (\<lambda>e. listed_kid e = Some k) pks = [e]"
      "resolve_entry E k (Some t) p (entry_items e) = Inr r"
      using resolve_kid_iff [OF assms(1,2)] by blast
    then have mem: "e \<in> set pks" "listed_kid e = Some k" "kid_count pks k = 1"
      by (auto simp: kid_count_def dest: filter_eq_ConsD)
    obtain ok where ok: "entry_passes E (Some t') p (entry_items e) = Inr ok"
      using list_pass_evaluates [OF *(2) mem] by blast
    have ok using entry_passes_iff [OF *(1) ok, of k] e(2) by blast
    with ok mem show "k \<in> set ks'" by (auto simp: list_pass_mem [OF *(2)])
  qed
  ultimately show ?thesis using *(3) by simp
qed

lemma key_of_entry_Some:
  "key_of_entry entry = Some key \<Longrightarrow>
     \<exists>h. get_item entry ''key_hex'' = PStr h \<and> length h = 64 \<and> fromhex h = Inr key \<and> length key = 32"
  by (auto simp: key_of_entry_def get_item_def split: option.splits pyval.splits if_splits sum.splits)

lemma astimezone_aware: "astimezone_utc E d = Inr d' \<Longrightarrow> aware d'"
  by (auto simp: astimezone_utc_def aware_def Let_def split: if_splits option.splits)

lemma ensure_utc_aware: "ensure_utc E d = Inr d' \<Longrightarrow> aware d'"
  by (auto simp: ensure_utc_def aware_def dest: astimezone_aware split: if_splits)

lemma parse_bound_aware: "parse_bound E entry k = Inr (Some d) \<Longrightarrow> aware d"
  by (auto simp: parse_bound_def parse_rfc3339_def dest: astimezone_aware split: if_splits pyval.splits)

lemma in_window_True:
  assumes "in_window va vu t = Inr True" "aware t" "\<And>d. va = Some d \<Longrightarrow> aware d" "\<And>d. vu = Some d \<Longrightarrow> aware d"
  shows "(\<forall>d. va = Some d \<longrightarrow> instant d \<le> instant t) \<and> (\<forall>d. vu = Some d \<longrightarrow> instant t < instant d)"
  using assms by (auto simp: in_window_def dt_lt_def dt_ge_def not_less split: option.splits if_splits)

text \<open>A bound is absent exactly where the member is, and is the instant the member writes otherwise.\<close>

definition bound_of :: "pyenv \<Rightarrow> items \<Rightarrow> string \<Rightarrow> dt option \<Rightarrow> bool" where
  "bound_of E e k b \<longleftrightarrow> (case b of
       None \<Rightarrow> get_item e k = PNone
     | Some d \<Rightarrow> get_item e k \<noteq> PNone \<and> parse_rfc3339 E (get_item e k) = Inr d)"

lemma parse_bound_of: "parse_bound E e k = Inr b \<longleftrightarrow> bound_of E e k b"
  by (auto simp: parse_bound_def bound_of_def split: option.splits)

lemma resolve_entry_sound:
  assumes "resolve_entry E k as_of p e = Inr r"
  shows "get_item e ''alg'' = PStr supported_alg \<and> rk_kid r = k
    \<and> (\<exists>h. get_item e ''key_hex'' = PStr h \<and> length h = 64 \<and> fromhex h = Inr (rk_public_key r))
    \<and> length (rk_public_key r) = 32
    \<and> (\<forall>t t'. as_of = Some t \<longrightarrow> ensure_utc E t = Inr t' \<longrightarrow>
         (\<forall>d. rk_validafter r = Some d \<longrightarrow> instant d \<le> instant t')
         \<and> (\<forall>d. rk_validuntil r = Some d \<longrightarrow> instant t' < instant d))
    \<and> bound_of E e ''validafter'' (rk_validafter r) \<and> bound_of E e ''validuntil'' (rk_validuntil r)
    \<and> (\<forall>q. rk_purpose r = Some q \<longleftrightarrow> get_item e ''purpose'' = PStr q)
    \<and> (\<forall>q. p = Some q \<longrightarrow> get_item e ''purpose'' = PStr q)"
proof -
  from assms obtain key va vu where *: "key_of_entry e = Some key"
    "parse_bound E e ''validafter'' = Inr va" "parse_bound E e ''validuntil'' = Inr vu"
    "(case as_of of None \<Rightarrow> Inr True | Some t \<Rightarrow> sbind (ensure_utc E t) (in_window va vu)) = Inr True"
    "p = None \<or> get_item e ''purpose'' = PStr (the p)" "get_item e ''alg'' = PStr supported_alg"
    "r = \<lparr>rk_kid = k, rk_public_key = key, rk_validafter = va, rk_validuntil = vu,
       rk_purpose = (case get_item e ''purpose'' of PStr s \<Rightarrow> Some s | _ \<Rightarrow> None)\<rparr>"
    by (auto simp: resolve_entry_def split: if_splits option.splits)
  have "(\<forall>d. va = Some d \<longrightarrow> instant d \<le> instant t') \<and> (\<forall>d. vu = Some d \<longrightarrow> instant t' < instant d)"
    if "as_of = Some t" "ensure_utc E t = Inr t'" for t t'
  proof (rule in_window_True)
    show "in_window va vu t' = Inr True" using *(4) that by simp
    show "aware t'" using that(2) by (rule ensure_utc_aware)
    show "aware d" if "va = Some d" for d using *(2) that parse_bound_aware by blast
    show "aware d" if "vu = Some d" for d using *(3) that parse_bound_aware by blast
  qed
  moreover have "rk_purpose r = Some q \<longleftrightarrow> get_item e ''purpose'' = PStr q" for q
    using *(7) by (cases "get_item e ''purpose''") auto
  ultimately show ?thesis
    using * key_of_entry_Some [OF *(1)] *(2,3) [unfolded parse_bound_of] by auto
qed

text \<open>
  C29: A resolved key is the right one: it is the 32 octets of the \<open>key_hex\<close> of the only entry with
  that identifier, an Ed25519 entry; its bounds are the instants the entry writes and the time asked
  for lies within them; its purpose is the entry's, and the one asked for.
\<close>

theorem resolve_kid_sound:
  assumes "resolve_kid E doc k as_of p = Inr r"
  shows "\<exists>pks e. public_keys_of doc = Inr pks \<and> PDict e \<in> set pks \<and> get_item e ''kid'' = PStr k
    \<and> (\<forall>e'. PDict e' \<in> set pks \<longrightarrow> get_item e' ''kid'' = PStr k \<longrightarrow> e' = e)
    \<and> get_item e ''alg'' = PStr supported_alg \<and> rk_kid r = k
    \<and> (\<exists>h. get_item e ''key_hex'' = PStr h \<and> length h = 64 \<and> fromhex h = Inr (rk_public_key r))
    \<and> length (rk_public_key r) = 32
    \<and> (\<forall>t t'. as_of = Some t \<longrightarrow> ensure_utc E t = Inr t' \<longrightarrow>
         (\<forall>d. rk_validafter r = Some d \<longrightarrow> instant d \<le> instant t')
         \<and> (\<forall>d. rk_validuntil r = Some d \<longrightarrow> instant t' < instant d))
    \<and> bound_of E e ''validafter'' (rk_validafter r) \<and> bound_of E e ''validuntil'' (rk_validuntil r)
    \<and> (\<forall>q. rk_purpose r = Some q \<longleftrightarrow> get_item e ''purpose'' = PStr q)
    \<and> (\<forall>q. p = Some q \<longrightarrow> get_item e ''purpose'' = PStr q)"
proof -
  from assms have ne: "k \<noteq> []" by (auto simp: resolve_kid_def)
  from assms obtain pks where pks: "public_keys_of doc = Inr pks" "list_all is_mapping pks"
    by (auto simp: resolve_kid_def split: if_splits)
  from assms obtain v where v: "filter (\<lambda>e. listed_kid e = Some k) pks = [v]"
    "resolve_entry E k as_of p (entry_items v) = Inr r"
    using resolve_kid_iff [OF pks ne] by blast
  have vin: "v \<in> set pks" "listed_kid v = Some k" using v(1) by (auto dest: filter_eq_ConsD)
  have "is_mapping v" using listed_kid_ne [OF vin(2)] by blast
  then obtain e where e: "v = PDict e" by (auto elim: is_mapping.elims)
  have uniq: "e' = e" if "PDict e' \<in> set pks" "get_item e' ''kid'' = PStr k" for e'
  proof -
    have "PDict e' \<in> set (filter (\<lambda>e. listed_kid e = Some k) pks)"
      using that ne by (simp add: listed_kid_iff)
    with v(1) e show ?thesis by simp
  qed
  have "get_item e ''kid'' = PStr k" using vin(2) e ne by (simp add: listed_kid_iff)
  note facts = pks(1) vin(1) [unfolded e] this uniq resolve_entry_sound [OF v(2), unfolded e entry_items.simps]
  show ?thesis
    by (rule exI [of _ pks], rule exI [of _ e]) (intro conjI allI impI, insert facts, blast+)
qed

section \<open>Where the two disagree\<close>

definition key_entry :: "ustr \<Rightarrow> (string \<times> pyval) list \<Rightarrow> pyval" where
  "key_entry kid extra = PDict ([(u ''kid'', PStr kid), (u ''alg'', PStr supported_alg),
     (u ''key_hex'', PStr (replicate 64 48))] @ map (\<lambda>kv. (u (fst kv), snd kv)) extra)"

definition keys_doc :: "pyval list \<Rightarrow> pyval" where
  "keys_doc pks = PDict [(u ''public_keys'', PList pks)]"

definition plain_env :: pyenv where
  "plain_env = \<lparr>iso_other = (\<lambda>_. None), local_off = (\<lambda>_. 0), float_of = (\<lambda>_. FNan)\<rparr>"

lemma zeros_hex: "fromhex (replicate 64 48) = Inr (replicate 32 0)"
proof -
  have "fromhex (replicate (2 * n) 48) = Inr (replicate n 0)" for n
    by (induction n) (auto simp: ascii_space_def hex_val_def)
  from this [of 32] show ?thesis by simp
qed

lemma key_entry_items [simp]:
  "get_item (entry_items (key_entry kid extra)) ''kid'' = PStr kid"
  "get_item (entry_items (key_entry kid extra)) ''alg'' = PStr supported_alg"
  "key_of_entry (entry_items (key_entry kid extra)) = Some (replicate 32 0)"
  "is_mapping (key_entry kid extra)"
  by (simp_all add: key_entry_def get_item_def key_of_entry_def zeros_hex)

text \<open>
  Without a time, an entry whose window does not parse is listed but not resolved; an entry that is
  not an object is skipped by the list and makes every resolution fail.
\<close>

lemma listed_not_resolved:
  "list_resolvable_kids plain_env (keys_doc [key_entry (u ''k'') [(''validafter'', PInt 0)]]) None None = Inr [u ''k'']"
  "resolve_kid plain_env (keys_doc [key_entry (u ''k'') [(''validafter'', PInt 0)]]) (u ''k'') None None = Inl KidResolverErr"
  "list_resolvable_kids plain_env (keys_doc [PInt 0, key_entry (u ''k'') []]) None None = Inr [u ''k'']"
  "resolve_kid plain_env (keys_doc [PInt 0, key_entry (u ''k'') []]) (u ''k'') None None = Inl KidResolverErr"
proof -
  have bad: "parse_bound plain_env (entry_items (key_entry (u ''k'') [(''validafter'', PInt 0)])) ''validafter''
      = Inl KidResolverErr"
    by (simp add: parse_bound_def key_entry_def get_item_def parse_rfc3339_def)
  have lk: "listed_kid (key_entry (u ''k'') extra) = Some (u ''k'')" for extra
    by (simp add: listed_kid_def)
  show "list_resolvable_kids plain_env (keys_doc [key_entry (u ''k'') [(''validafter'', PInt 0)]]) None None = Inr [u ''k'']"
    by (simp add: list_resolvable_kids_def public_keys_of_def keys_doc_def lk kid_count_def entry_passes_def)
  show "resolve_kid plain_env (keys_doc [key_entry (u ''k'') [(''validafter'', PInt 0)]]) (u ''k'') None None = Inl KidResolverErr"
    by (simp add: resolve_kid_def public_keys_of_def keys_doc_def resolve_entry_def bad)
  have "listed_kid (PInt 0) = None" by (simp add: listed_kid_def)
  then show "list_resolvable_kids plain_env (keys_doc [PInt 0, key_entry (u ''k'') []]) None None = Inr [u ''k'']"
    by (simp add: list_resolvable_kids_def public_keys_of_def keys_doc_def lk kid_count_def entry_passes_def)
  show "resolve_kid plain_env (keys_doc [PInt 0, key_entry (u ''k'') []]) (u ''k'') None None = Inl KidResolverErr"
    by (simp add: resolve_kid_def public_keys_of_def keys_doc_def)
qed

section \<open>A concrete document\<close>

definition two_keys :: pyval where
  "two_keys = keys_doc [key_entry (u ''k2'') [], key_entry (u ''k1'') [(''purpose'', PStr (u ''aip-signing''))]]"

lemma epoch_utc: "ensure_utc plain_env (Dt 0 (Some 0)) = Inr (Dt 0 (Some 0))"
  by (simp add: ensure_utc_def aware_def astimezone_utc_def max_us_def us_day_def)

lemma open_window: "parse_bound plain_env (entry_items (key_entry kid [])) ''validafter'' = Inr None"
  "parse_bound plain_env (entry_items (key_entry kid [])) ''validuntil'' = Inr None"
  "parse_bound plain_env (entry_items (key_entry kid [(''purpose'', v)])) ''validafter'' = Inr None"
  "parse_bound plain_env (entry_items (key_entry kid [(''purpose'', v)])) ''validuntil'' = Inr None"
  by (simp_all add: parse_bound_def key_entry_def get_item_def)

lemma list_two_keys:
  "list_resolvable_kids plain_env two_keys (Some (Dt 0 (Some 0))) None = Inr [u ''k1'', u ''k2'']"
proof -
  have lk: "listed_kid (key_entry (u (c # cs)) extra) = Some (u (c # cs))" for c cs extra
    by (simp add: listed_kid_def)
  have "u ''k1'' < u ''k2''" by (simp add: u_def)
  then have "sort [u ''k2'', u ''k1''] = [u ''k1'', u ''k2'']" by simp
  then show ?thesis
    by (simp add: list_resolvable_kids_def two_keys_def public_keys_of_def keys_doc_def lk kid_count_def
        entry_passes_def epoch_utc window_passes_def open_window in_window_def)
qed

lemma list_agrees_witness:
  "\<exists>r. resolve_kid plain_env two_keys (u ''k1'') (Some (Dt 0 (Some 0))) None = Inr r"
proof -
  have pks: "public_keys_of two_keys
     = Inr [key_entry (u ''k2'') [], key_entry (u ''k1'') [(''purpose'', PStr (u ''aip-signing''))]]"
    by (simp add: two_keys_def public_keys_of_def keys_doc_def)
  have "list_all is_mapping [key_entry (u ''k2'') [], key_entry (u ''k1'') [(''purpose'', PStr (u ''aip-signing''))]]"
    by simp
  from list_agrees [OF pks this list_two_keys, THEN conjunct2, THEN conjunct2, THEN spec, of "u ''k1''"]
  show ?thesis by simp
qed

lemma resolve_kid_sound_witness:
  "\<exists>r. resolve_kid plain_env two_keys (u ''k1'') (Some (Dt 0 (Some 0))) None = Inr r
     \<and> length (rk_public_key r) = 32 \<and> rk_kid r = u ''k1''"
proof -
  have "filter (\<lambda>e. get_item (entry_items e) ''kid'' = PStr (u ''k1''))
      [key_entry (u ''k2'') [], key_entry (u ''k1'') [(''purpose'', PStr (u ''aip-signing''))]]
     = [key_entry (u ''k1'') [(''purpose'', PStr (u ''aip-signing''))]]"
    by simp
  then obtain r where r: "resolve_kid plain_env two_keys (u ''k1'') (Some (Dt 0 (Some 0))) None = Inr r"
    by (simp add: resolve_kid_def two_keys_def public_keys_of_def keys_doc_def resolve_entry_def
        epoch_utc open_window in_window_def)
  with resolve_kid_sound [OF r] show ?thesis by blast
qed

end
