(* ===== verification/HttpsBackend.thy ===== *)
theory HttpsBackend
  imports JsonRoundtrip Pytext OrderCache Complex_Main
begin

text \<open>
  The HTTPS transport for identity documents, \<open>identity_substrate/aip_https_backend.py\<close>: one GET
  with a redirect budget, the checks on the response, the resolver that hands the body to a
  verifier, and the resolver's ETag cache.

  \<open>urlopen\<close>, which the transport is constructed with, acts on a world \<open>'w\<close> that the module does not
  own (the network); the verifier of the resolver is a parameter too. The default \<open>urlopen\<close> is the one of
  \<open>urllib\<close>, which follows redirects by itself: it is modelled over the single exchange. URLs and header values are
  texts (a caller's values of other types, which the code drops or refuses, are not modelled).
\<close>

section \<open>Requests, responses and errors\<close>

record http_request =
  rq_url :: ustr
  rq_headers :: "(ustr \<times> ustr) list"

text \<open>What \<open>read(n)\<close> of a response gives: octets, an object that is not bytes, or an \<open>OSError\<close>.\<close>

datatype read_result = RBytes octets | RNotBytes | ROSError | RRaises string

record http_response =
  rs_status :: "int option"
  rs_getcode :: "int option"
  rs_read :: "nat \<Rightarrow> read_result"
  rs_headers :: "(ustr \<times> ustr) list"

text \<open>
  \<open>HttpError\<close> carries the status and what its headers have under \<open>Location\<close> and \<open>ETag\<close>;
  \<open>OpenRaises\<close> is any exception the transport does not catch.
\<close>

datatype open_result =
    Opened http_response
  | HttpError int "ustr option" "ustr option"
  | UrlError
  | TimedOut
  | OpenRaises string

datatype https_error =
    SchemeError ustr
  | TransportError ustr
  | StatusError int ustr
  | RedirectError ustr
  | BodySizeError ustr
  | PayloadError ustr
  | NotModified ustr "ustr option"
  | Escaped string

record document_response =
  dr_url :: ustr
  dr_body :: "(ustr \<times> pyval) list"
  dr_bytes :: octets
  dr_status :: int
  dr_etag :: "ustr option"
  dr_cache_control :: "ustr option"
  dr_max_age :: "int option"
  dr_content_type :: "ustr option"

text \<open>
  \<open>json.loads\<close> of bytes decodes them first: octets that start with a byte order mark or have a NUL
  among the first four, and UTF-8 with encoded surrogates, are read by \<open>other_text\<close>.
\<close>

record text_env =
  te_json :: pyenv
  te_chars :: unicode
  other_text :: "octets \<Rightarrow> ustr res"

definition has_bom :: "octets \<Rightarrow> bool" where
  "has_bom b \<longleftrightarrow> starts_with [254, 255] b \<or> starts_with [255, 254] b \<or> starts_with [239, 187, 191] b"

definition json_text :: "text_env \<Rightarrow> octets \<Rightarrow> ustr res" where
  "json_text T b =
     (if has_bom b \<or> 0 \<in> set (take 4 b) then other_text T b
      else (case utf8_decode b of Inr s \<Rightarrow> Inr s | Inl _ \<Rightarrow> other_text T b))"

definition json_loads_bytes :: "text_env \<Rightarrow> octets \<Rightarrow> pyval res" where
  "json_loads_bytes T b = sbind (json_text T b) (json_loads (te_json T))"

section \<open>The transport\<close>

record 'w transport =
  t_text :: text_env
  max_body_bytes :: nat
  max_redirects :: nat
  user_agent :: ustr
  t_open :: "http_request \<Rightarrow> 'w \<Rightarrow> open_result \<times> 'w"

definition new_transport ::
    "text_env \<Rightarrow> rat \<Rightarrow> int \<Rightarrow> int \<Rightarrow> ustr \<Rightarrow> (http_request \<Rightarrow> 'w \<Rightarrow> open_result \<times> 'w) \<Rightarrow> 'w transport res" where
  "new_transport T timeout_s body_bytes redirects agent urlopen =
     (if timeout_s \<le> 0 then Inl ValueErr
      else if body_bytes \<le> 0 then Inl ValueErr
      else if redirects < 0 then Inl ValueErr
      else if agent = [] then Inl ValueErr
      else Inr \<lparr>t_text = T, max_body_bytes = nat body_bytes, max_redirects = nat redirects,
        user_agent = agent, t_open = urlopen\<rparr>)"

definition enforce_https :: "unicode \<Rightarrow> ustr \<Rightarrow> https_error + unit" where
  "enforce_https U url =
     (if url = [] then Inl (SchemeError url)
      else (case find_sub (u ''://'') url of
          None \<Rightarrow> Inl (SchemeError url)
        | Some i \<Rightarrow>
            if i = 0 then Inl (SchemeError url)
            else if py_lower U (take i url) \<noteq> u ''https'' then Inl (SchemeError url)
            else Inr ()))"

definition forbidden_request_headers :: "ustr list" where
  "forbidden_request_headers = [u ''cookie'', u ''authorization'', u ''proxy-authorization'']"

definition add_extra :: "unicode \<Rightarrow> (ustr \<times> ustr) list \<Rightarrow> ustr \<times> ustr \<Rightarrow> (ustr \<times> ustr) list" where
  "add_extra U hs kv =
     (if py_lower U (fst kv) \<in> set forbidden_request_headers then hs
      else dict_set hs (py_lower U (fst kv)) (snd kv))"

definition build_headers ::
    "'w transport \<Rightarrow> ustr option \<Rightarrow> (ustr \<times> ustr) list \<Rightarrow> (ustr \<times> ustr) list" where
  "build_headers T if_none_match extra =
     (let h0 = [(u ''user-agent'', user_agent T), (u ''accept'', u ''application/json'')];
          h1 = foldl (add_extra (te_chars (t_text T))) h0 extra
      in (case if_none_match of None \<Rightarrow> h1 | Some e \<Rightarrow> dict_set h1 (u ''if-none-match'') e))"

definition headers_to_mapping :: "unicode \<Rightarrow> (ustr \<times> ustr) list \<Rightarrow> (ustr \<times> ustr) list" where
  "headers_to_mapping U hs = foldl (\<lambda>d kv. dict_set d (py_lower U (fst kv)) (snd kv)) [] hs"

fun max_age_of :: "unicode \<Rightarrow> ustr list \<Rightarrow> int option" where
  "max_age_of U [] = None"
| "max_age_of U (d # ds) =
     (let token = py_lower U (py_strip d) in
      if starts_with (u ''max-age='') token then
        (case py_int U (py_strip (drop (length (u ''max-age='')) token)) of
           Inl e \<Rightarrow> None
         | Inr seconds \<Rightarrow> if seconds < 0 then None else Some seconds)
      else max_age_of U ds)"

definition parse_max_age :: "unicode \<Rightarrow> ustr option \<Rightarrow> int option" where
  "parse_max_age U cc = (case cc of
       None \<Rightarrow> None
     | Some s \<Rightarrow> if s = [] then None else max_age_of U (split_on 44 s))"

definition response_status :: "http_response \<Rightarrow> int" where
  "response_status r = (case rs_status r of
       Some s \<Rightarrow> s
     | None \<Rightarrow> (case rs_getcode r of Some s \<Rightarrow> s | None \<Rightarrow> 200))"

definition read_2xx :: "'w transport \<Rightarrow> http_response \<Rightarrow> ustr \<Rightarrow> https_error + document_response" where
  "read_2xx T r url =
     (let U = te_chars (t_text T); status = response_status r in
      if \<not> (200 \<le> status \<and> status < 300) then Inl (StatusError status url)
      else (case rs_read r (max_body_bytes T + 1) of
          RRaises x \<Rightarrow> Inl (Escaped x)
        | ROSError \<Rightarrow> Inl (TransportError url)
        | RNotBytes \<Rightarrow> Inl (PayloadError url)
        | RBytes raw \<Rightarrow>
            if max_body_bytes T < length raw then Inl (BodySizeError url)
            else (case json_loads_bytes (t_text T) raw of
                Inl e \<Rightarrow> if is_value_error e then Inl (PayloadError url) else Inl (Escaped ''json.loads'')
              | Inr (PDict d) \<Rightarrow>
                  (let h = map_of (headers_to_mapping U (rs_headers r)) in
                   Inr \<lparr>dr_url = url, dr_body = d, dr_bytes = raw, dr_status = status,
                     dr_etag = h (u ''etag''), dr_cache_control = h (u ''cache-control''),
                     dr_max_age = parse_max_age U (h (u ''cache-control'')),
                     dr_content_type = h (u ''content-type'')\<rparr>)
              | Inr _ \<Rightarrow> Inl (PayloadError url))))"

text \<open>
  The loop of \<open>_fetch_with_redirect_budget\<close>; the last argument but one is the budget. An empty
  \<open>Location\<close> counts as none.
\<close>

definition is_redirect :: "int \<Rightarrow> bool" where
  "is_redirect status \<longleftrightarrow> status \<in> {301, 302, 303, 307, 308}"

fun fetch :: "'w transport \<Rightarrow> (ustr \<times> ustr) list \<Rightarrow> ustr \<Rightarrow> nat \<Rightarrow> 'w \<Rightarrow> (https_error + document_response) \<times> 'w" where
  "fetch T headers url budget w =
     (case t_open T \<lparr>rq_url = url, rq_headers = headers\<rparr> w of
        (Opened r, w') \<Rightarrow> (read_2xx T r url, w')
      | (UrlError, w') \<Rightarrow> (Inl (TransportError url), w')
      | (TimedOut, w') \<Rightarrow> (Inl (TransportError url), w')
      | (OpenRaises x, w') \<Rightarrow> (Inl (Escaped x), w')
      | (HttpError status location etag, w') \<Rightarrow>
          if is_redirect status then
            (case location of
               None \<Rightarrow> (Inl (StatusError status url), w')
             | Some loc \<Rightarrow>
                 if loc = [] then (Inl (StatusError status url), w')
                 else (case budget of
                     0 \<Rightarrow> (Inl (RedirectError url), w')
                   | Suc b \<Rightarrow>
                       (case enforce_https (te_chars (t_text T)) loc of
                          Inl e \<Rightarrow> (Inl e, w')
                        | Inr _ \<Rightarrow> fetch T headers loc b w')))
          else if status = 304 then (Inl (NotModified url etag), w')
          else (Inl (StatusError status url), w'))"

declare fetch.simps [simp del]

definition transport_get ::
    "'w transport \<Rightarrow> ustr \<Rightarrow> ustr option \<Rightarrow> (ustr \<times> ustr) list \<Rightarrow> 'w \<Rightarrow> (https_error + document_response) \<times> 'w" where
  "transport_get T url if_none_match extra w =
     (case enforce_https (te_chars (t_text T)) url of
        Inl e \<Rightarrow> (Inl e, w)
      | Inr _ \<Rightarrow> fetch T (build_headers T if_none_match extra) url (max_redirects T) w)"

section \<open>The ETag cache and the resolver\<close>

record 'd etag_cache =
  ec_max :: nat
  ec_entries :: "(ustr \<times> (ustr \<times> 'd)) list"
  ec_order :: "ustr list"

definition new_etag_cache :: "int \<Rightarrow> 'd etag_cache res" where
  "new_etag_cache n =
     (if n \<le> 0 then Inl ValueErr else Inr \<lparr>ec_max = nat n, ec_entries = [], ec_order = []\<rparr>)"

definition etag_get :: "ustr \<Rightarrow> 'd etag_cache \<Rightarrow> (ustr \<times> 'd) option" where
  "etag_get uri c = map_of (ec_entries c) uri"

text \<open>\<open>pop(0)\<close> is reached with a full order only, which is not empty.\<close>

definition etag_put :: "ustr \<Rightarrow> ustr \<times> 'd \<Rightarrow> 'd etag_cache \<Rightarrow> 'd etag_cache" where
  "etag_put uri e c =
     (if map_of (ec_entries c) uri \<noteq> None then
        c\<lparr>ec_entries := dict_set (ec_entries c) uri e, ec_order := remove1 uri (ec_order c) @ [uri]\<rparr>
      else
        (let c1 = (if ec_max c \<le> length (ec_order c)
                   then c\<lparr>ec_order := tl (ec_order c),
                     ec_entries := dict_pop (ec_entries c) (hd (ec_order c))\<rparr>
                   else c)
         in c1\<lparr>ec_entries := dict_set (ec_entries c1) uri e, ec_order := ec_order c1 @ [uri]\<rparr>))"

text \<open>
  \<open>resolve\<close>; \<open>verify\<close> is the verifier, which may raise an exception \<open>'x\<close> of its own.
\<close>

datatype 'x resolve_error = Backend https_error | FromVerify 'x

definition resolve ::
    "'w transport \<Rightarrow> (ustr \<Rightarrow> octets \<Rightarrow> (ustr \<times> pyval) list \<Rightarrow> 'x + 'd) \<Rightarrow> ustr
     \<Rightarrow> 'd etag_cache option \<times> 'w \<Rightarrow> ('x resolve_error + 'd) \<times> 'd etag_cache option \<times> 'w" where
  "resolve T verify uri cw =
     (let entry = (case fst cw of None \<Rightarrow> None | Some c \<Rightarrow> etag_get uri c) in
      (case transport_get T uri (map_option fst entry) [] (snd cw) of
         (Inl e, w) \<Rightarrow>
           (case (e, entry) of
              (NotModified _ _, Some (_, d)) \<Rightarrow> (Inr d, fst cw, w)
            | _ \<Rightarrow> (Inl (Backend e), fst cw, w))
       | (Inr resp, w) \<Rightarrow>
           (case verify uri (dr_bytes resp) (dr_body resp) of
              Inl x \<Rightarrow> (Inl (FromVerify x), fst cw, w)
            | Inr d \<Rightarrow>
                (Inr d,
                 (case (fst cw, dr_etag resp) of
                    (Some c, Some t) \<Rightarrow> Some (etag_put uri (t, d) c)
                  | _ \<Rightarrow> fst cw), w))))"

section \<open>What the transport sends and accepts\<close>

text \<open>
  The same transport, whose world also keeps the calls made of \<open>urlopen\<close> and what they answered.
\<close>

type_synonym call_log = "(http_request \<times> open_result) list"

definition recording ::
    "(http_request \<Rightarrow> 'w \<Rightarrow> open_result \<times> 'w) \<Rightarrow> http_request \<Rightarrow> 'w \<times> call_log
     \<Rightarrow> open_result \<times> ('w \<times> call_log)" where
  "recording op rq wl = (case op rq (fst wl) of (r, w') \<Rightarrow> (r, (w', snd wl @ [(rq, r)])))"

definition recorded :: "'w transport \<Rightarrow> ('w \<times> call_log) transport" where
  "recorded T = \<lparr>t_text = t_text T, max_body_bytes = max_body_bytes T, max_redirects = max_redirects T,
     user_agent = user_agent T, t_open = recording (t_open T)\<rparr>"

lemma recorded_simps [simp]:
  "t_text (recorded T) = t_text T" "max_body_bytes (recorded T) = max_body_bytes T"
  "max_redirects (recorded T) = max_redirects T" "user_agent (recorded T) = user_agent T"
  "t_open (recorded T) = recording (t_open T)"
  "build_headers (recorded T) e x = build_headers T e x" "read_2xx (recorded T) r url = read_2xx T r url"
  by (simp_all only: recorded_def build_headers_def read_2xx_def transport.simps)

text \<open>
  \<open>serves T rq x b\<close>: the response \<open>x\<close> to the call \<open>rq\<close> is a 2xx, the call was for an \<open>https://\<close> URL, and
  reading one octet more than the limit gave \<open>b\<close>, which is within the limit.
\<close>

definition serves :: "'w transport \<Rightarrow> http_request \<Rightarrow> http_response \<Rightarrow> octets \<Rightarrow> bool" where
  "serves T rq x b \<longleftrightarrow>
     enforce_https (te_chars (t_text T)) (rq_url rq) = Inr ()
     \<and> 200 \<le> response_status x \<and> response_status x < 300
     \<and> rs_read x (max_body_bytes T + 1) = RBytes b \<and> length b \<le> max_body_bytes T"

text \<open>Of a response whose \<open>read(n)\<close> gives the first \<open>n\<close> octets of its body, that is the whole body.\<close>

lemma serves_whole:
  assumes "serves T rq x b" "\<forall>n. rs_read x n = RBytes (take n whole)"
  shows "b = whole"
proof -
  have "b = take (max_body_bytes T + 1) whole" "length b \<le> max_body_bytes T"
    using assms by (auto simp: serves_def)
  then show ?thesis by (cases "length whole \<le> max_body_bytes T + 1") auto
qed

definition no_credentials :: "(ustr \<times> ustr) list \<Rightarrow> bool" where
  "no_credentials hs \<longleftrightarrow> list_all (\<lambda>kv. fst kv \<notin> set forbidden_request_headers) hs"

definition accepted_response :: "'w transport \<Rightarrow> document_response \<Rightarrow> bool" where
  "accepted_response T r \<longleftrightarrow>
     enforce_https (te_chars (t_text T)) (dr_url r) = Inr ()
     \<and> length (dr_bytes r) \<le> max_body_bytes T \<and> 200 \<le> dr_status r \<and> dr_status r < 300
     \<and> json_loads_bytes (t_text T) (dr_bytes r) = Inr (PDict (dr_body r))
     \<and> (case dr_max_age r of None \<Rightarrow> True | Some n \<Rightarrow> 0 \<le> n)"

lemma no_credentials_set: "no_credentials hs \<Longrightarrow> k \<notin> set forbidden_request_headers \<Longrightarrow> no_credentials (dict_set hs k v)"
  unfolding no_credentials_def by (induction hs k v rule: dict_set.induct) auto

lemma no_credentials_extra: "no_credentials hs \<Longrightarrow> no_credentials (foldl (add_extra U) hs extra)"
  by (induction extra arbitrary: hs) (simp_all add: add_extra_def no_credentials_set)

lemma no_credentials_build: "no_credentials (build_headers T e extra)"
proof -
  have "no_credentials [(u ''user-agent'', user_agent T), (u ''accept'', u ''application/json'')]"
    by (simp add: no_credentials_def forbidden_request_headers_def)
  then show ?thesis
    using no_credentials_extra
    by (auto simp: build_headers_def Let_def forbidden_request_headers_def intro!: no_credentials_set
        split: option.split)
qed

lemma max_age_nonneg: "max_age_of U ds = Some n \<Longrightarrow> 0 \<le> n"
  by (induction U ds rule: max_age_of.induct) (auto simp: Let_def split: if_splits sum.splits)

lemma read_2xx_accepts:
  assumes "read_2xx T x (rq_url rq) = Inr resp" "enforce_https (te_chars (t_text T)) (rq_url rq) = Inr ()"
  shows "accepted_response T resp \<and> dr_url resp = rq_url rq \<and> serves T rq x (dr_bytes resp)"
  using assms
  by (auto simp: read_2xx_def accepted_response_def serves_def Let_def parse_max_age_def dest: max_age_nonneg
      split: if_splits read_result.splits sum.splits pyval.splits option.splits)

definition https_calls :: "'w transport \<Rightarrow> (ustr \<times> ustr) list \<Rightarrow> ustr \<Rightarrow> call_log \<Rightarrow> bool" where
  "https_calls T headers url calls \<longleftrightarrow> calls \<noteq> [] \<and> rq_url (fst (hd calls)) = url
     \<and> (\<forall>rq \<in> fst ` set calls. rq_headers rq = headers \<and> enforce_https (te_chars (t_text T)) (rq_url rq) = Inr ())"

definition accepted_last :: "'w transport \<Rightarrow> call_log \<Rightarrow> document_response \<Rightarrow> bool" where
  "accepted_last T calls resp \<longleftrightarrow> accepted_response T resp
     \<and> (\<exists>rq x. last calls = (rq, Opened x) \<and> dr_url resp = rq_url rq \<and> serves T rq x (dr_bytes resp))"

lemma fetch_recorded:
  assumes "fetch (recorded T) headers url budget (w, sent) = (r, (w', sent'))"
    and "enforce_https (te_chars (t_text T)) url = Inr ()"
  shows "fetch T headers url budget w = (r, w')
    \<and> (\<exists>calls. sent' = sent @ calls \<and> https_calls T headers url calls \<and> length calls \<le> budget + 1
         \<and> (\<forall>resp. r = Inr resp \<longrightarrow> accepted_last T calls resp))"
  using assms
proof (induction budget arbitrary: url w sent)
  case 0
  let ?rq = "\<lparr>rq_url = url, rq_headers = headers\<rparr>"
  obtain o1 w1 where op: "t_open T ?rq w = (o1, w1)" by fastforce
  with 0 have "sent' = sent @ [(?rq, o1)]" "fetch T headers url 0 w = (r, w')"
    "\<forall>resp. r = Inr resp \<longrightarrow> (\<exists>x. o1 = Opened x \<and> read_2xx T x (rq_url ?rq) = Inr resp)"
    by (auto simp: fetch.simps [of _ headers url] recording_def split: open_result.splits if_splits option.splits)
  then show ?case
    using 0(2) read_2xx_accepts [of T _ ?rq] by (fastforce simp: https_calls_def accepted_last_def)
next
  case (Suc budget)
  let ?rq = "\<lparr>rq_url = url, rq_headers = headers\<rparr>"
  obtain o1 w1 where op: "t_open T ?rq w = (o1, w1)" by fastforce
  show ?case
  proof (cases "\<exists>status loc etag. o1 = HttpError status (Some loc) etag \<and> is_redirect status \<and> loc \<noteq> []
      \<and> enforce_https (te_chars (t_text T)) loc = Inr ()")
    case True
    then obtain status loc etag where o1: "o1 = HttpError status (Some loc) etag" "is_redirect status" "loc \<noteq> []"
      "enforce_https (te_chars (t_text T)) loc = Inr ()" by blast
    with op have step: "fetch (recorded T) headers url (Suc budget) (w, sent) = fetch (recorded T) headers loc budget (w1, sent @ [(?rq, o1)])"
      "fetch T headers url (Suc budget) w = fetch T headers loc budget w1"
      by (simp_all add: fetch.simps [of _ headers url] recording_def)
    from Suc.IH [OF Suc.prems(1) [unfolded step(1)] o1(4)] obtain calls where
      "fetch T headers loc budget w1 = (r, w')" "sent' = (sent @ [(?rq, o1)]) @ calls"
      "https_calls T headers loc calls" "length calls \<le> budget + 1"
      "\<forall>resp. r = Inr resp \<longrightarrow> accepted_last T calls resp"
      by blast
    with step(2) Suc.prems(2) show ?thesis
      by (intro conjI exI [of _ "(?rq, o1) # calls"]) (auto simp: https_calls_def accepted_last_def)
  next
    case False
    with op Suc.prems have "sent' = sent @ [(?rq, o1)]" "fetch T headers url (Suc budget) w = (r, w')"
      "\<forall>resp. r = Inr resp \<longrightarrow> (\<exists>x. o1 = Opened x \<and> read_2xx T x (rq_url ?rq) = Inr resp)"
      by (auto simp: fetch.simps [of _ headers url] recording_def
          split: open_result.splits if_splits option.splits sum.splits)
    then show ?thesis
      using Suc.prems(2) read_2xx_accepts [of T _ ?rq] by (fastforce simp: https_calls_def accepted_last_def)
  qed
qed

lemma transport_get_recorded:
  assumes "transport_get (recorded T) url e extra (w, sent) = (r, (w', sent'))"
  shows "transport_get T url e extra w = (r, w')
    \<and> (\<exists>calls. sent' = sent @ calls \<and> length calls \<le> max_redirects T + 1
         \<and> (calls \<noteq> [] \<longrightarrow> https_calls T (build_headers T e extra) url calls)
         \<and> (\<forall>resp. r = Inr resp \<longrightarrow> calls \<noteq> [] \<and> accepted_last T calls resp))"
proof (cases "enforce_https (te_chars (t_text T)) url")
  case (Inl x)
  with assms show ?thesis by (auto simp: transport_get_def)
next
  case (Inr x)
  then have url: "enforce_https (te_chars (t_text T)) url = Inr ()" by simp
  with assms have "fetch (recorded T) (build_headers T e extra) url (max_redirects T) (w, sent) = (r, (w', sent'))"
    by (simp add: transport_get_def)
  from fetch_recorded [OF this url] show ?thesis
    using url by (auto simp: transport_get_def https_calls_def)
qed

text \<open>
  C21: A fetch stays on HTTPS, is bounded and returns what was served. Whatever the injected
  \<open>urlopen\<close> answers, \<open>get\<close> calls it at most \<open>max_redirects + 1\<close> times, first for the URL it was given,
  each time for an \<open>https://\<close> URL and without credential headers; a document it returns is the response
  of the last of these calls: a 2xx whose body, read up to one octet beyond the limit, is within the
  limit (so it is the whole body of a response that reads like one) and is a JSON object; and its
  \<open>max-age\<close> is not negative.
\<close>

theorem https_requests:
  assumes "transport_get (recorded T) url if_none_match extra (w, []) = (r, (w', calls))"
  shows "transport_get T url if_none_match extra w = (r, w')
    \<and> length calls \<le> max_redirects T + 1
    \<and> (calls \<noteq> [] \<longrightarrow> rq_url (fst (hd calls)) = url)
    \<and> (\<forall>rq \<in> fst ` set calls. enforce_https (te_chars (t_text T)) (rq_url rq) = Inr () \<and> no_credentials (rq_headers rq))
    \<and> (\<forall>resp. r = Inr resp \<longrightarrow> accepted_response T resp \<and> calls \<noteq> []
         \<and> (\<exists>rq x. last calls = (rq, Opened x) \<and> dr_url resp = rq_url rq \<and> serves T rq x (dr_bytes resp)
              \<and> (\<forall>whole. (\<forall>n. rs_read x n = RBytes (take n whole)) \<longrightarrow> dr_bytes resp = whole)))"
proof -
  from transport_get_recorded [OF assms] have
    get: "transport_get T url if_none_match extra w = (r, w')" "length calls \<le> max_redirects T + 1"
      "calls \<noteq> [] \<longrightarrow> https_calls T (build_headers T if_none_match extra) url calls"
    and ok: "\<forall>resp. r = Inr resp \<longrightarrow> calls \<noteq> [] \<and> accepted_last T calls resp" by auto
  from ok have "\<forall>resp. r = Inr resp \<longrightarrow> accepted_response T resp \<and> calls \<noteq> []
      \<and> (\<exists>rq x. last calls = (rq, Opened x) \<and> dr_url resp = rq_url rq \<and> serves T rq x (dr_bytes resp)
           \<and> (\<forall>whole. (\<forall>n. rs_read x n = RBytes (take n whole)) \<longrightarrow> dr_bytes resp = whole))"
    unfolding accepted_last_def using serves_whole by metis
  with get show ?thesis
    using no_credentials_build [of T if_none_match extra] by (auto simp: https_calls_def)
qed

section \<open>The ETag cache as a bounded cache\<close>

lemma cache_wf_touch:
  assumes "cache_wf cap es ks" "k \<in> set ks"
  shows "cache_wf cap (dict_set es k v) (remove1 k ks @ [k])"
proof -
  have "length (remove1 k ks) < length ks"
    using assms(2) length_pos_if_in_set [OF assms(2)] by (simp add: length_remove1)
  then show ?thesis
    using assms distinct_dict_set [of es k v]
    by (auto simp: cache_wf_def keys_dict_set insert_absorb)
qed

interpretation etagc: bounded_cache ec_entries ec_order ec_max "\<lambda>k c. True" etag_put
proof unfold_locales
  fix k k' :: ustr and v v' :: "ustr \<times> 'a" and c :: "'a etag_cache"
  show "ec_max (etag_put k v c) = ec_max c"
    by (simp add: etag_put_def Let_def)
  show "map_of (ec_entries (etag_put k v c)) k' = Some v' \<Longrightarrow> k' \<noteq> k \<Longrightarrow> map_of (ec_entries c) k' = Some v'"
    by (auto simp: etag_put_def Let_def split: if_splits)
  assume wf: "cache_wf (ec_max c) (ec_entries c) (ec_order c)" "0 < ec_max c"
  note keys = cache_wf_keys [OF wf(1)]
  show "cache_wf (ec_max c) (ec_entries (etag_put k v c)) (ec_order (etag_put k v c))"
  proof (cases "k \<in> set (ec_order c)")
    case True
    with keys cache_wf_touch [OF wf(1) True, of v] show ?thesis by (auto simp: etag_put_def)
  next
    case new: False
    show ?thesis
    proof (cases "ec_order c")
      case Nil
      with new wf keys cache_wf_append [OF wf(1) new, of v] show ?thesis by (simp add: etag_put_def)
    next
      case (Cons k0 ks)
      with new wf keys cache_wf_append [OF wf(1) new, of v]
        cache_wf_rotate [of "ec_max c" "ec_entries c" k0 ks k v]
      show ?thesis by (auto simp: etag_put_def)
    qed
  qed
  show "map_of (ec_entries (etag_put k v c)) k = Some v"
    by (simp add: etag_put_def Let_def)
  show "map_of (ec_entries c) k' = Some v' \<Longrightarrow> k' \<noteq> k \<Longrightarrow>
      length (ec_order c) < ec_max c \<or> map_of (ec_entries c) k \<noteq> None \<or> k' \<noteq> hd (ec_order c) \<Longrightarrow>
      map_of (ec_entries (etag_put k v c)) k' = Some v'"
    by (auto simp: etag_put_def Let_def)
qed

section \<open>The resolver\<close>

text \<open>
  \<open>verified T verify uri d\<close>: the verifier accepted \<open>d\<close> for \<open>uri\<close> on a JSON object within the size
  limit.
\<close>

definition verified ::
    "'w transport \<Rightarrow> (ustr \<Rightarrow> octets \<Rightarrow> (ustr \<times> pyval) list \<Rightarrow> 'x + 'd) \<Rightarrow> ustr \<Rightarrow> 'd \<Rightarrow> bool" where
  "verified T verify uri d \<longleftrightarrow>
     (\<exists>b body. length b \<le> max_body_bytes T \<and> json_loads_bytes (t_text T) b = Inr (PDict body)
        \<and> verify uri b body = Inr d)"

fun resolve_all ::
    "'w transport \<Rightarrow> (ustr \<Rightarrow> octets \<Rightarrow> (ustr \<times> pyval) list \<Rightarrow> 'x + 'd) \<Rightarrow> ustr list
     \<Rightarrow> 'd etag_cache option \<times> 'w \<Rightarrow> ('x resolve_error + 'd) list \<times> 'd etag_cache option \<times> 'w" where
  "resolve_all T verify [] cw = ([], cw)"
| "resolve_all T verify (uri # uris) cw =
     (case resolve T verify uri cw of
        (r, cw1) \<Rightarrow> (case resolve_all T verify uris cw1 of (rs, cw2) \<Rightarrow> (r # rs, cw2)))"

lemma transport_get_accepts:
  assumes "transport_get T url e extra w = (Inr resp, w')"
  shows "accepted_response T resp"
proof -
  obtain r w1 calls where "transport_get (recorded T) url e extra (w, []) = (r, (w1, calls))"
    by (metis surj_pair)
  from transport_get_recorded [OF this] assms show ?thesis by (auto simp: accepted_last_def)
qed

text \<open>
  What a fetch establishes of a document and later fetches keep, every document the resolver returns
  has: \<open>P w uri d\<close> says it of \<open>d\<close> returned for \<open>uri\<close>, in the world \<open>w\<close>.
\<close>

definition established ::
    "'w transport \<Rightarrow> (ustr \<Rightarrow> octets \<Rightarrow> (ustr \<times> pyval) list \<Rightarrow> 'x + 'd) \<Rightarrow> ('w \<Rightarrow> ustr \<Rightarrow> 'd \<Rightarrow> bool) \<Rightarrow> bool" where
  "established T verify P \<longleftrightarrow>
     (\<forall>uri e w g w'. transport_get T uri e [] w = (g, w') \<longrightarrow>
        (\<forall>k d. P w k d \<longrightarrow> P w' k d)
        \<and> (\<forall>resp d. g = Inr resp \<longrightarrow> verify uri (dr_bytes resp) (dr_body resp) = Inr d \<longrightarrow> P w' uri d))"

definition cache_holds :: "('w \<Rightarrow> ustr \<Rightarrow> 'd \<Rightarrow> bool) \<Rightarrow> 'w \<Rightarrow> 'd etag_cache \<Rightarrow> bool" where
  "cache_holds P w c \<longleftrightarrow> (\<forall>uri e. map_of (ec_entries c) uri = Some e \<longrightarrow> P w uri (snd e))"

lemma resolve_holds:
  assumes est: "established T verify P" and "etagc.wf c" "cache_holds P w c"
    and "resolve T verify uri (Some c, w) = (r, (c', w'))"
  obtains c1 where "c' = Some c1" "etagc.wf c1" "cache_holds P w' c1" "ec_max c1 = ec_max c"
    "\<And>d. r = Inr d \<Longrightarrow> P w' uri d" "\<And>k d. P w k d \<Longrightarrow> P w' k d"
proof -
  obtain g w1 where get: "transport_get T uri (map_option fst (etag_get uri c)) [] w = (g, w1)" by fastforce
  have w1: "w' = w1"
    using assms(4) get by (auto simp: resolve_def Let_def split: sum.splits https_error.splits option.splits)
  have keep: "P w' k d" if "P w k d" for k d
    using est get that unfolding established_def w1 by blast
  then have holds: "cache_holds P w' c" using assms(3) by (auto simp: cache_holds_def)
  show ?thesis
  proof (cases g)
    case (Inl e)
    have "P w' uri d" if "r = Inr d" for d
      using that holds assms(4) get Inl
      by (auto simp: resolve_def Let_def etag_get_def cache_holds_def split: https_error.splits option.splits)
    moreover have "c' = Some c"
      using assms(4) get Inl by (auto simp: resolve_def Let_def split: https_error.splits option.splits)
    ultimately show ?thesis using that assms(2) holds keep by blast
  next
    case (Inr resp)
    show ?thesis
    proof (cases "verify uri (dr_bytes resp) (dr_body resp)")
      case (Inl x)
      with assms(4) get Inr have "c' = Some c" "\<And>d. r \<noteq> Inr d" by (auto simp: resolve_def Let_def)
      with that assms(2) holds keep show ?thesis by blast
    next
      case verify: (Inr d)
      have v: "P w' uri d" using est get Inr verify unfolding established_def w1 by blast
      have r: "r = Inr d" using assms(4) get Inr verify by (auto simp: resolve_def Let_def)
      show ?thesis
      proof (cases "dr_etag resp")
        case None
        with assms(4) get Inr verify have "c' = Some c" by (auto simp: resolve_def Let_def)
        with that assms(2) holds keep r v show ?thesis by blast
      next
        case (Some t)
        let ?c = "etag_put uri (t, d) c"
        have "c' = Some ?c" using assms(4) get Inr verify Some by (auto simp: resolve_def Let_def)
        moreover have "cache_holds P w' ?c"
          unfolding cache_holds_def
          using etagc.stored_invariant [OF assms(2) TrueI, where P = "\<lambda>k e. P w' k (snd e)"
              and k = uri and v = "(t, d)"] holds v
          unfolding cache_holds_def snd_conv by blast
        ultimately show ?thesis
          using that etagc.wf_store [OF assms(2) TrueI, of uri "(t, d)"] etagc.store_capacity r v keep by blast
      qed
    qed
  qed
qed

lemma resolve_all_holds:
  assumes "established T verify P" "etagc.wf c" "cache_holds P w c"
    and "resolve_all T verify uris (Some c, w) = (rs, (c', w'))"
  shows "(\<exists>c1. c' = Some c1 \<and> etagc.wf c1 \<and> ec_max c1 = ec_max c)
    \<and> list_all2 (\<lambda>uri r. \<forall>d. r = Inr d \<longrightarrow> P w' uri d) uris rs \<and> (\<forall>k d. P w k d \<longrightarrow> P w' k d)"
  using assms(2-4)
proof (induction uris arbitrary: c w rs)
  case (Cons uri uris)
  obtain r c1 w1 where r: "resolve T verify uri (Some c, w) = (r, (c1, w1))" by (metis surj_pair)
  then obtain c2 where c2: "c1 = Some c2" "etagc.wf c2" "cache_holds P w1 c2" "ec_max c2 = ec_max c"
    "\<And>d. r = Inr d \<Longrightarrow> P w1 uri d" "\<And>k d. P w k d \<Longrightarrow> P w1 k d"
    using resolve_holds [OF assms(1) Cons.prems(1,2)] by metis
  obtain rs1 where "resolve_all T verify uris (Some c2, w1) = (rs1, (c', w'))" "rs = r # rs1"
    using Cons.prems(3) r c2(1) by (auto split: prod.splits)
  with Cons.IH [OF c2(2,3)] c2(4,5,6) show ?case by auto
qed auto

lemma verified_established: "established T verify (\<lambda>_. verified T verify)"
  unfolding established_def verified_def
  using transport_get_accepts by (fastforce simp: accepted_response_def)

text \<open>
  \<open>served T verify calls uri d\<close>: among the calls logged there is one that served octets the verifier
  accepted \<open>d\<close> on, for \<open>uri\<close>.
\<close>

definition served ::
    "'w transport \<Rightarrow> (ustr \<Rightarrow> octets \<Rightarrow> (ustr \<times> pyval) list \<Rightarrow> 'x + 'd) \<Rightarrow> call_log \<Rightarrow> ustr \<Rightarrow> 'd \<Rightarrow> bool" where
  "served T verify calls uri d \<longleftrightarrow>
     (\<exists>rq x b body. (rq, Opened x) \<in> set calls \<and> serves T rq x b
        \<and> json_loads_bytes (t_text T) b = Inr (PDict body) \<and> verify uri b body = Inr d)"

lemma served_established: "established (recorded T) verify (\<lambda>w. served T verify (snd w))"
  unfolding established_def
proof (intro allI impI conjI)
  fix uri e w g w'
  assume get: "transport_get (recorded T) uri e [] w = (g, w')"
  obtain v sent v' sent' where w: "w = (v, sent)" "w' = (v', sent')" by fastforce
  from transport_get_recorded [OF get [unfolded w]] obtain calls where
    calls: "sent' = sent @ calls" "\<forall>resp. g = Inr resp \<longrightarrow> calls \<noteq> [] \<and> accepted_last T calls resp" by blast
  {
    fix k d assume "served T verify (snd w) k d"
    with calls(1) w show "served T verify (snd w') k d" by (auto simp: served_def)
  next
    fix resp d assume "g = Inr resp" "verify uri (dr_bytes resp) (dr_body resp) = Inr d"
    with calls obtain rq x where "calls \<noteq> []" "last calls = (rq, Opened x)" "serves T rq x (dr_bytes resp)"
      "json_loads_bytes (t_text T) (dr_bytes resp) = Inr (PDict (dr_body resp))"
      by (auto simp: accepted_last_def accepted_response_def)
    moreover from this have "(rq, Opened x) \<in> set calls" by (metis last_in_set)
    ultimately show "served T verify (snd w') uri d"
      using \<open>verify uri _ _ = Inr d\<close> calls(1) w unfolding served_def by auto
  }
qed

text \<open>Recording the calls changes nothing else.\<close>

lemma resolve_recorded:
  assumes "resolve (recorded T) verify uri (c, (w, sent)) = (r, (c', (w', sent')))"
  shows "resolve T verify uri (c, w) = (r, (c', w'))"
proof -
  let ?e = "map_option fst (case c of None \<Rightarrow> None | Some c \<Rightarrow> etag_get uri c)"
  obtain g w1 s1 where get: "transport_get (recorded T) uri ?e [] (w, sent) = (g, (w1, s1))" by (metis surj_pair)
  with transport_get_recorded [OF get] assms show ?thesis
    by (auto simp: resolve_def Let_def split: sum.splits https_error.splits option.splits)
qed

lemma resolve_all_recorded:
  assumes "resolve_all (recorded T) verify uris (c, (w, sent)) = (rs, (c', (w', sent')))"
  shows "resolve_all T verify uris (c, w) = (rs, (c', w'))"
  using assms
proof (induction uris arbitrary: c w sent rs)
  case (Cons uri uris)
  obtain r c1 w1 s1 where r: "resolve (recorded T) verify uri (c, (w, sent)) = (r, (c1, (w1, s1)))"
    by (metis surj_pair)
  obtain rs1 where "resolve_all (recorded T) verify uris (c1, (w1, s1)) = (rs1, (c', (w', sent')))" "rs = r # rs1"
    using Cons.prems r by (auto split: prod.splits)
  with Cons.IH resolve_recorded [OF r] show ?case by auto
qed auto

lemma new_cache_holds:
  assumes "new_etag_cache n = Inr c"
  shows "etagc.wf c" "ec_max c = nat n" "cache_holds P w c"
  using assms by (auto simp: new_etag_cache_def etagc.wf_def cache_holds_def split: if_splits)

text \<open>
  C22: The resolver returns verified documents only. In every sequence of calls with a new ETag
  cache, whatever the servers answer, each document returned (freshly fetched, or reused on a 304)
  is one the verifier accepted for that very URI on a JSON object within the size limit, and the
  cache stays within its bound.
\<close>

theorem resolver_verified:
  assumes "new_etag_cache n = Inr c" "resolve_all T verify uris (Some c, w) = (rs, (c', w'))"
  shows "list_all2 (\<lambda>uri r. \<forall>d. r = Inr d \<longrightarrow> verified T verify uri d) uris rs
    \<and> (\<exists>c1. c' = Some c1 \<and> length (ec_entries c1) \<le> nat n)"
proof -
  note c = new_cache_holds [OF assms(1)]
  show ?thesis
    using resolve_all_holds [OF verified_established c(1) c(3) assms(2)] c(2) etagc.wf_bound by metis
qed

section \<open>The default \<open>urlopen\<close>\<close>

text \<open>
  \<open>_default_urlopen\<close> is the \<open>urlopen\<close> of \<open>urllib.request\<close>, whose redirect handler follows redirects
  before the transport sees them. \<open>send\<close> is a single exchange; \<open>target\<close> is the handler's parsing of a
  \<open>Location\<close> against the URL of the request (\<open>None\<close> when the scheme is not http, https or ftp, or
  none); \<open>visited\<close> are the URLs it was sent to. It raises the response as an \<open>HTTPError\<close> at the
  fifth redirect to one URL or with ten URLs visited. (The obsolete \<open>URI\<close> header, which it reads
  where there is no \<open>Location\<close>, is not modelled.)
\<close>

definition content_headers :: "ustr list" where
  "content_headers = [u ''content-length'', u ''content-type'']"

fun urllib_open ::
    "unicode \<Rightarrow> (ustr \<Rightarrow> ustr \<Rightarrow> ustr option) \<Rightarrow> (http_request \<Rightarrow> 'w \<Rightarrow> open_result \<times> 'w) \<Rightarrow> nat
     \<Rightarrow> ustr list \<Rightarrow> http_request \<Rightarrow> 'w \<Rightarrow> (open_result \<times> 'w) option" where
  "urllib_open U target send 0 visited rq w = None"
| "urllib_open U target send (Suc fuel) visited rq w =
     (case send rq w of
        (HttpError status location etag, w') \<Rightarrow>
          (case (if is_redirect status then location else None) of
             None \<Rightarrow> Some (HttpError status location etag, w')
           | Some loc \<Rightarrow>
               (case target (rq_url rq) loc of
                  None \<Rightarrow> Some (HttpError status location etag, w')
                | Some url \<Rightarrow>
                    if 4 \<le> count_list visited url \<or> 10 \<le> card (set visited)
                    then Some (HttpError status location etag, w')
                    else urllib_open U target send fuel (visited @ [url])
                      \<lparr>rq_url = url,
                       rq_headers = filter (\<lambda>kv. py_lower U (fst kv) \<notin> set content_headers) (rq_headers rq)\<rparr> w'))
      | r \<Rightarrow> Some r)"

text \<open>
  The two limits allow at most forty redirects, so fuel 41 is never used up.
\<close>

definition visits_ok :: "ustr list \<Rightarrow> bool" where
  "visits_ok visited \<longleftrightarrow> (\<forall>x. count_list visited x \<le> 4) \<and> card (set visited) \<le> 10"

lemma visits_bounded:
  assumes "visits_ok visited"
  shows "length visited \<le> 40"
proof -
  have "length visited = sum (count_list visited) (set visited)"
    by (rule sum_count_set [symmetric]) auto
  also have "\<dots> \<le> of_nat (card (set visited)) * 4"
    using assms by (intro sum_bounded_above) (simp add: visits_ok_def)
  also have "\<dots> \<le> 40" using assms by (simp add: visits_ok_def)
  finally show ?thesis .
qed

lemma visits_next:
  assumes "visits_ok visited" "\<not> (4 \<le> count_list visited url \<or> 10 \<le> card (set visited))"
  shows "visits_ok (visited @ [url])"
  using assms by (auto simp: visits_ok_def count_list_append card_insert_if)

lemma urllib_open_ends:
  "visits_ok visited \<Longrightarrow> 40 < length visited + fuel \<Longrightarrow> urllib_open U target send fuel visited rq w \<noteq> None"
proof (induction fuel arbitrary: visited rq w)
  case 0
  with visits_bounded [OF 0(1)] show ?case by simp
next
  case (Suc fuel)
  have "urllib_open U target send fuel (visited @ [url]) rq' w' \<noteq> None"
    if "\<not> (4 \<le> count_list visited url \<or> 10 \<le> card (set visited))" for url rq' w'
    using Suc.prems by (intro Suc.IH visits_next [OF _ that]) auto
  then show ?case by (auto split: open_result.split option.split prod.split simp del: not_None_eq)
qed

definition default_urlopen ::
    "unicode \<Rightarrow> (ustr \<Rightarrow> ustr \<Rightarrow> ustr option) \<Rightarrow> (http_request \<Rightarrow> 'w \<Rightarrow> open_result \<times> 'w)
     \<Rightarrow> http_request \<Rightarrow> 'w \<Rightarrow> open_result \<times> 'w" where
  "default_urlopen U target send rq w = the (urllib_open U target send 41 [] rq w)"

lemma default_urlopen_returns:
  "urllib_open U target send 41 [] rq w = Some (default_urlopen U target send rq w)"
  using urllib_open_ends [of "[]" 41 U target send rq w] by (auto simp: default_urlopen_def visits_ok_def)

text \<open>
  With it one call may make further requests, also for an \<open>http://\<close> URL, and the response is taken for
  the URL of the call.
\<close>

lemma default_urlopen_follows_http:
  assumes "send rq w = (HttpError 302 (Some loc) etag, w1)" "target (rq_url rq) loc = Some url"
    and "send \<lparr>rq_url = url, rq_headers = filter (\<lambda>kv. py_lower U (fst kv) \<notin> set content_headers) (rq_headers rq)\<rparr> w1
      = (Opened x, w2)"
  shows "default_urlopen U target send rq w = (Opened x, w2)"
proof -
  have "urllib_open U target send 41 [] rq w = Some (Opened x, w2)"
    using assms by (simp add: numeral_eq_Suc is_redirect_def)
  then show ?thesis by (simp add: default_urlopen_def)
qed

lemma redirected_document_accepted:
  assumes "enforce_https (te_chars (t_text T)) url = Inr ()"
    and "t_open T = default_urlopen (te_chars (t_text T)) target send"
    and "send \<lparr>rq_url = url, rq_headers = build_headers T e extra\<rparr> w = (HttpError 302 (Some loc) etag, w1)"
    and "target url loc = Some (u ''http://b'')"
    and "send \<lparr>rq_url = u ''http://b'', rq_headers = filter (\<lambda>kv. py_lower (te_chars (t_text T)) (fst kv) \<notin> set content_headers)
        (build_headers T e extra)\<rparr> w1 = (Opened x, w2)"
    and "read_2xx T x url = Inr resp"
  shows "transport_get T url e extra w = (Inr resp, w2)"
  using assms default_urlopen_follows_http [of send "\<lparr>rq_url = url, rq_headers = build_headers T e extra\<rparr>"]
  by (simp add: transport_get_def fetch.simps)

section \<open>A concrete server\<close>

definition sample_text_env :: text_env where
  "sample_text_env = \<lparr>te_json = \<lparr>iso_other = (\<lambda>_. None), local_off = (\<lambda>_. 0), float_of = (\<lambda>_. FNan)\<rparr>,
     te_chars = \<lparr>lower_other = (\<lambda>s. s), digit_other = (\<lambda>_. None)\<rparr>, other_text = (\<lambda>_. Inl UnicodeDecodeErr)\<rparr>"

text \<open>
  It redirects \<open>https://a\<close> to \<open>HTTPS://b\<close>, and there answers with an empty object first and
  304 afterwards; the world is the number of documents served.
\<close>

definition sample_open :: "http_request \<Rightarrow> nat \<Rightarrow> open_result \<times> nat" where
  "sample_open rq w =
     (if rq_url rq = u ''https://a'' then (HttpError 302 (Some (u ''HTTPS://b'')) None, w)
      else if w = 0 then
        (Opened \<lparr>rs_status = Some 200, rs_getcode = None, rs_read = (\<lambda>n. RBytes (u ''{}'')),
           rs_headers = [(u ''ETag'', u ''e1''), (u ''Cache-Control'', u ''private, max-age=60'')]\<rparr>, 1)
      else (HttpError 304 None (Some (u ''e1'')), w + 1))"

definition sample_transport :: "nat transport" where
  "sample_transport = \<lparr>t_text = sample_text_env, max_body_bytes = 100, max_redirects = 1,
     user_agent = u ''wakir-runtime/0.1 (+v908)'', t_open = sample_open\<rparr>"

lemma sample_body: "json_loads_bytes sample_text_env (u ''{}'') = Inr (PDict [])"
proof -
  have "utf8_decode (u ''{}'') = Inr (u ''{}'')"
    by (rule utf8_decode_encode) (simp add: u_def encode_cp_def)
  then have "json_text sample_text_env (u ''{}'') = Inr (u ''{}'')"
    by (simp add: json_text_def has_bom_def u_def)
  moreover have "json_loads (te_json sample_text_env) (u ''{}'') = Inr (PDict [])"
    using loads_emit [of "PDict []" "\<lambda>k. k" "u ''{}''"] by (simp add: u_def)
  ultimately show ?thesis by (simp add: json_loads_bytes_def)
qed

lemma sample_https:
  "enforce_https (te_chars (t_text sample_transport)) (u ''https://a'') = Inr ()"
  "enforce_https (te_chars (t_text sample_transport)) (u ''HTTPS://b'') = Inr ()"
  by (simp_all add: enforce_https_def sample_transport_def sample_text_env_def u_def py_lower_def ascii_lower_def)

definition sample_etag_cache :: "nat etag_cache" where
  "sample_etag_cache = \<lparr>ec_max = 64, ec_entries = [], ec_order = []\<rparr>"

lemma sample_new_cache: "new_etag_cache 64 = Inr sample_etag_cache"
  by (simp add: new_etag_cache_def sample_etag_cache_def)

lemma sample_headers:
  "map_of (headers_to_mapping (te_chars sample_text_env)
      [(u ''ETag'', u ''e1''), (u ''Cache-Control'', u ''private, max-age=60'')]) (u ''etag'') = Some (u ''e1'')"
  by (simp add: headers_to_mapping_def py_lower_def ascii_lower_def u_def)

lemma sample_get:
  "\<exists>resp. transport_get sample_transport (u ''https://a'') e [] 0 = (Inr resp, 1)
     \<and> dr_bytes resp = u ''{}'' \<and> dr_body resp = [] \<and> dr_etag resp = Some (u ''e1'')"
proof -
  have "fetch sample_transport hs (u ''https://a'') 1 0 = fetch sample_transport hs (u ''HTTPS://b'') 0 0" for hs
    using sample_https(2)
    by (simp add: fetch.simps [of _ _ "u ''https://a''"] sample_transport_def sample_open_def is_redirect_def)
  moreover have "\<exists>resp. fetch sample_transport hs (u ''HTTPS://b'') 0 0 = (Inr resp, 1)
     \<and> dr_bytes resp = u ''{}'' \<and> dr_body resp = [] \<and> dr_etag resp = Some (u ''e1'')" for hs
    by (simp add: fetch.simps sample_transport_def sample_open_def read_2xx_def response_status_def
        sample_body sample_headers Let_def)
  ultimately show ?thesis
    using sample_https(1) by (simp add: transport_get_def sample_transport_def)
qed

lemma sample_get_again:
  "transport_get sample_transport (u ''https://a'') e [] 1 = (Inl (NotModified (u ''HTTPS://b'') (Some (u ''e1''))), 2)"
proof -
  have "fetch sample_transport hs (u ''https://a'') 1 1 = fetch sample_transport hs (u ''HTTPS://b'') 0 1" for hs
    using sample_https(2)
    by (simp add: fetch.simps [of _ _ "u ''https://a''"] sample_transport_def sample_open_def is_redirect_def)
  moreover have "fetch sample_transport hs (u ''HTTPS://b'') 0 1
     = (Inl (NotModified (u ''HTTPS://b'') (Some (u ''e1''))), 2)" for hs
    by (simp add: fetch.simps sample_transport_def sample_open_def is_redirect_def)
  ultimately show ?thesis
    using sample_https(1) by (simp add: transport_get_def sample_transport_def)
qed

lemma https_requests_witness:
  "\<exists>resp w' calls. transport_get (recorded sample_transport) (u ''https://a'') None [] (0, []) = (Inr resp, (w', calls))
     \<and> calls \<noteq> [] \<and> length calls \<le> 2 \<and> accepted_response sample_transport resp \<and> dr_bytes resp = u ''{}''"
proof -
  obtain r w' calls where run:
    "transport_get (recorded sample_transport) (u ''https://a'') None [] (0, []) = (r, (w', calls))"
    by (metis surj_pair)
  note facts = https_requests [OF run]
  from sample_get [of None] obtain resp where "transport_get sample_transport (u ''https://a'') None [] 0 = (Inr resp, 1)"
    "dr_bytes resp = u ''{}''" by blast
  with facts have r: "r = Inr resp" by simp
  moreover have "max_redirects sample_transport = 1" by (simp add: sample_transport_def)
  ultimately show ?thesis using facts run \<open>dr_bytes resp = _\<close> by auto
qed

text \<open>The second call is answered from the cache.\<close>

lemma resolver_verified_witness:
  "\<exists>c1 w. resolve_all sample_transport (\<lambda>uri b d. Inr (length b) :: unit + nat) [u ''https://a'', u ''https://a'']
       (Some sample_etag_cache, 0) = ([Inr 2, Inr 2], (Some c1, w))
     \<and> verified sample_transport (\<lambda>uri b d. Inr (length b) :: unit + nat) (u ''https://a'') 2
     \<and> length (ec_entries c1) \<le> 64"
proof -
  let ?v = "\<lambda>uri b d. Inr (length b) :: unit + nat"
  obtain resp where get: "transport_get sample_transport (u ''https://a'') None [] 0 = (Inr resp, 1)"
    "dr_bytes resp = u ''{}''" "dr_etag resp = Some (u ''e1'')"
    using sample_get [of None] by blast
  let ?c = "etag_put (u ''https://a'') (u ''e1'', 2) sample_etag_cache"
  have first: "resolve sample_transport ?v (u ''https://a'') (Some sample_etag_cache, 0) = (Inr 2, (Some ?c, 1))"
    using get by (simp add: resolve_def etag_get_def sample_etag_cache_def numeral_2_eq_2)
  have second: "resolve sample_transport ?v (u ''https://a'') (Some ?c, 1) = (Inr 2, (Some ?c, 2))"
    by (simp add: resolve_def etag_get_def etag_put_def sample_etag_cache_def
        sample_get_again [unfolded One_nat_def])
  have run: "resolve_all sample_transport ?v [u ''https://a'', u ''https://a''] (Some sample_etag_cache, 0)
      = ([Inr 2, Inr 2], (Some ?c, 2))"
    using first second by simp
  from resolver_verified [OF sample_new_cache run] run show ?thesis by auto
qed

end
