(* ===== verification/Pyeq.thy ===== *)
theory Pyeq
  imports Json
begin

text \<open>Python's \<open>==\<close> on the values of a JSON document.\<close>

section \<open>Equality of JSON values\<close>

text \<open>
  Python's \<open>==\<close>: booleans are the integers 0 and 1, numbers compare by value, dicts without order.
  \<open>float_int r\<close> is the integer that the finite nonzero double with the \<open>repr\<close> \<open>r\<close> equals, if any.
\<close>

type_synonym float_int = "ustr \<Rightarrow> int option"

fun number_of :: "float_int \<Rightarrow> pyval \<Rightarrow> int option" where
  "number_of F (PBool b) = Some (if b then 1 else 0)"
| "number_of F (PInt i) = Some i"
| "number_of F (PFloat (FZero neg)) = Some 0"
| "number_of F (PFloat (FFin r)) = F r"
| "number_of F v = None"

function py_eq :: "float_int \<Rightarrow> pyval \<Rightarrow> pyval \<Rightarrow> bool" where
  "py_eq F PNone w \<longleftrightarrow> w = PNone"
| "py_eq F (PStr s) w \<longleftrightarrow> w = PStr s"
| "py_eq F (PBool b) w \<longleftrightarrow> number_of F w = Some (if b then 1 else 0)"
| "py_eq F (PInt i) w \<longleftrightarrow> number_of F w = Some i"
| "py_eq F (PFloat f) w \<longleftrightarrow> (case f of
       FNan \<Rightarrow> False
     | FInf \<Rightarrow> w = PFloat FInf
     | FNegInf \<Rightarrow> w = PFloat FNegInf
     | FZero neg \<Rightarrow> number_of F w = Some 0
     | FFin r \<Rightarrow> (case F r of Some i \<Rightarrow> number_of F w = Some i | None \<Rightarrow> w = PFloat (FFin r)))"
| "py_eq F (PList vs) w \<longleftrightarrow> (case w of
       PList ws \<Rightarrow> length vs = length ws \<and> (\<forall>p \<in> set (zip vs ws). py_eq F (fst p) (snd p))
     | _ \<Rightarrow> False)"
| "py_eq F (PDict d) w \<longleftrightarrow> (case w of
       PDict e \<Rightarrow> length d = length e \<and>
         (\<forall>kv \<in> set d. case map_of e (fst kv) of None \<Rightarrow> False | Some x \<Rightarrow> py_eq F (snd kv) x)
     | _ \<Rightarrow> False)"
| "py_eq F PBadKeyDict w \<longleftrightarrow> False"
| "py_eq F POther w \<longleftrightarrow> False"
  by pat_completeness auto
termination
proof (relation "measure (\<lambda>(F, v, w). size v)", goal_cases)
  case (2 F vs w ws p)
  then have "fst p \<in> set vs" by (cases p) (auto dest: set_zip_leftD)
  then show ?case by (cases p) (auto dest: size_pyval_elem)
qed (auto dest: size_pyval_member)

lemma py_eq_str [simp]: "py_eq F v (PStr s) \<longleftrightarrow> v = PStr s"
  by (cases v) (auto split: pyfloat.split option.split)

text \<open>\<open>bool(v)\<close>.\<close>

fun py_truthy :: "pyval \<Rightarrow> bool" where
  "py_truthy PNone = False"
| "py_truthy (PBool b) = b"
| "py_truthy (PInt i) = (i \<noteq> 0)"
| "py_truthy (PFloat (FZero neg)) = False"
| "py_truthy (PFloat f) = True"
| "py_truthy (PStr s) = (s \<noteq> [])"
| "py_truthy (PList vs) = (vs \<noteq> [])"
| "py_truthy (PDict d) = (d \<noteq> [])"
| "py_truthy v = True"

end
