(* ===== verification/VerifyBridge.thy ===== *)
theory VerifyBridge
  imports KidResolver HttpsBackend Pyeq
begin

text \<open>
  The verification bridge, \<open>identity_substrate/verify_bridge.py\<close>: the pipeline from a fetched body
  to a verified document, its default key resolver, and the verifier it makes for the HTTPS
  resolver. The schema check (a loader and \<open>jsonschema\<close> or its fallback) is a parameter: it passes,
  fails with a \<open>ValidationError\<close>, or raises something else, which propagates.
\<close>

section \<open>The pipeline\<close>

datatype verify_kind =
  TransportFailed | JsonParseFailed | SchemaFailed | IdMismatch | SignatureFailed | HashMismatch

record verify_result =
  vr_ok :: bool
  vr_document :: "items option"
  vr_jcs_sha256 :: "ustr option"
  vr_source :: ustr
  vr_error :: "verify_kind option"

definition failed :: "ustr \<Rightarrow> verify_kind \<Rightarrow> verify_result" where
  "failed doc_id k = \<lparr>vr_ok = False, vr_document = None, vr_jcs_sha256 = None, vr_source = doc_id,
     vr_error = Some k\<rparr>"

text \<open>
  What \<open>transport.get\<close> gives: an exception, or a response with its \<open>body\<close> and \<open>body_bytes\<close>
  attributes, where it has them.
\<close>

datatype fetched = GetRaises | Response "pyval option" "octets option"

text \<open>The arguments of the pipeline: schema check, key resolver, signature verifier, expected hash.\<close>

record bridge_config =
  bc_sign :: sign_env
  bc_text :: text_env
  bc_schema :: "items \<Rightarrow> bool res"
  bc_resolver :: "items \<Rightarrow> octets res"
  bc_verifier :: "items \<Rightarrow> items \<Rightarrow> octets \<Rightarrow> bool res"
  bc_expected :: "ustr option"

text \<open>The parsed body, a failure of the pipeline, or an exception that propagates.\<close>

definition parse_body :: "text_env \<Rightarrow> pyval option \<Rightarrow> octets option \<Rightarrow> (verify_kind + items) res" where
  "parse_body T body body_bytes =
     (case body of
        Some (PDict d) \<Rightarrow> Inr (Inr d)
      | _ \<Rightarrow>
          (case body_bytes of
             None \<Rightarrow> Inr (Inl JsonParseFailed)
           | Some b \<Rightarrow>
               (case json_loads_bytes T b of
                  Inl e \<Rightarrow> if e = JsonDecodeErr \<or> e = UnicodeDecodeErr then Inr (Inl JsonParseFailed) else Inl e
                | Inr (PDict d) \<Rightarrow> Inr (Inr d)
                | Inr _ \<Rightarrow> Inr (Inl JsonParseFailed))))"

definition check_pin :: "bridge_config \<Rightarrow> ustr \<Rightarrow> items \<Rightarrow> verify_result res" where
  "check_pin B doc_id body =
     sbind (aip_payload (bc_sign B) body) (\<lambda>digest.
       if bc_expected B \<noteq> None \<and> bc_expected B \<noteq> Some (hexdigest digest)
       then Inr (failed doc_id HashMismatch)
       else Inr \<lparr>vr_ok = True, vr_document = Some body, vr_jcs_sha256 = Some (hexdigest digest),
         vr_source = doc_id, vr_error = None\<rparr>)"

definition check_signature :: "bridge_config \<Rightarrow> ustr \<Rightarrow> items \<Rightarrow> verify_result res" where
  "check_signature B doc_id body =
     (case get_item body ''document_signature'' of
        PDict sig_block \<Rightarrow>
          (case bc_resolver B body of
             Inl e \<Rightarrow> Inr (failed doc_id SignatureFailed)
           | Inr pubkey \<Rightarrow>
               (case bc_verifier B body sig_block pubkey of
                  Inl e \<Rightarrow> if is_value_error e \<or> e = TypeErr then Inr (failed doc_id SignatureFailed) else Inl e
                | Inr valid \<Rightarrow>
                    if valid then check_pin B doc_id body else Inr (failed doc_id SignatureFailed)))
      | _ \<Rightarrow> Inr (failed doc_id SignatureFailed))"

definition verify_from_transport :: "bridge_config \<Rightarrow> (ustr \<Rightarrow> fetched) \<Rightarrow> ustr \<Rightarrow> verify_result res" where
  "verify_from_transport B get doc_id =
     (case get doc_id of
        GetRaises \<Rightarrow> Inr (failed doc_id TransportFailed)
      | Response body_attr body_bytes \<Rightarrow>
          sbind (parse_body (bc_text B) body_attr body_bytes) (\<lambda>parsed.
            case parsed of
              Inl k \<Rightarrow> Inr (failed doc_id k)
            | Inr body \<Rightarrow>
                sbind (bc_schema B body) (\<lambda>schema_ok.
                  if \<not> schema_ok then Inr (failed doc_id SchemaFailed)
                  else if get_item body ''id'' \<noteq> PStr doc_id then Inr (failed doc_id IdMismatch)
                  else check_signature B doc_id body)))"

section \<open>The default key resolver\<close>

text \<open>
  The first entry whose \<open>kid\<close> is that of the signature block, else the first entry. A falsy
  \<open>document_signature\<close> counts as an empty dict; that makes no difference, for only a dict is asked
  for its \<open>kid\<close>.
\<close>

definition target_kid :: "items \<Rightarrow> pyval" where
  "target_kid body = (case get_item body ''document_signature'' of
       PDict b \<Rightarrow> get_item b ''kid''
     | _ \<Rightarrow> PNone)"

definition chosen_entry :: "float_int \<Rightarrow> pyval \<Rightarrow> pyval list \<Rightarrow> pyval" where
  "chosen_entry F kid pks =
     (if kid = PNone then hd pks
      else (case List.find (\<lambda>e. is_mapping e \<and> py_eq F (get_item (entry_items e) ''kid'') kid) pks of
          Some e \<Rightarrow> e
        | None \<Rightarrow> hd pks))"

definition default_pubkey_resolver :: "float_int \<Rightarrow> items \<Rightarrow> octets res" where
  "default_pubkey_resolver F body =
     (case get_item body ''public_keys'' of
        PList pks \<Rightarrow>
          if pks = [] then Inl ValueErr
          else (case chosen_entry F (target_kid body) pks of
              PDict e \<Rightarrow>
                (case get_item e ''key_hex'' of
                   PStr h \<Rightarrow> rethrow is_value_error ValueErr (fromhex h)
                 | _ \<Rightarrow> Inl ValueErr)
            | _ \<Rightarrow> Inl ValueErr)
      | _ \<Rightarrow> Inl ValueErr)"

section \<open>The verifier for the HTTPS resolver\<close>

datatype bridge_error = RuntimeError verify_kind | Propagated exc

definition make_https_aip_verify_fn ::
    "bridge_config \<Rightarrow> ustr \<Rightarrow> octets \<Rightarrow> items \<Rightarrow> bridge_error + items" where
  "make_https_aip_verify_fn B uri body_bytes body =
     (case verify_from_transport (B\<lparr>bc_expected := None\<rparr>)
             (\<lambda>uri. Response (Some (PDict body)) (Some body_bytes)) uri of
        Inl e \<Rightarrow> Inl (Propagated e)
      | Inr r \<Rightarrow>
          if \<not> vr_ok r then Inl (RuntimeError (the (vr_error r))) else Inr (the (vr_document r)))"


section \<open>What is verified\<close>

text \<open>The conditions under which a body is returned as the document \<open>doc_id\<close>.\<close>

definition authentic :: "bridge_config \<Rightarrow> ustr \<Rightarrow> items \<Rightarrow> bool" where
  "authentic B doc_id body \<longleftrightarrow>
     bc_schema B body = Inr True \<and> get_item body ''id'' = PStr doc_id
     \<and> (\<exists>block pubkey. get_item body ''document_signature'' = PDict block
          \<and> bc_resolver B body = Inr pubkey \<and> bc_verifier B body block pubkey = Inr True)"

lemma failed_simps [simp]:
  "\<not> vr_ok (failed d k)" "vr_document (failed d k) = None" "vr_error (failed d k) = Some k"
  "vr_source (failed d k) = d"
  by (simp_all add: failed_def)

text \<open>The result for a body that was parsed.\<close>

lemma check_pin_ok:
  "check_pin B doc_id body = Inr r \<Longrightarrow>
     vr_ok r \<longleftrightarrow> (\<exists>h. aip_payload (bc_sign B) body = Inr h
       \<and> (bc_expected B = None \<or> bc_expected B = Some (hexdigest h))
       \<and> vr_document r = Some body \<and> vr_jcs_sha256 r = Some (hexdigest h) \<and> vr_error r = None)"
  by (auto simp: check_pin_def failed_def split: if_splits)

lemma check_signature_ok:
  assumes "check_signature B doc_id body = Inr r"
  shows "vr_ok r \<longleftrightarrow> (\<exists>block pubkey h. get_item body ''document_signature'' = PDict block
      \<and> bc_resolver B body = Inr pubkey \<and> bc_verifier B body block pubkey = Inr True
      \<and> aip_payload (bc_sign B) body = Inr h
      \<and> (bc_expected B = None \<or> bc_expected B = Some (hexdigest h))
      \<and> vr_document r = Some body \<and> vr_jcs_sha256 r = Some (hexdigest h) \<and> vr_error r = None)"
proof (cases "\<exists>block pubkey. get_item body ''document_signature'' = PDict block
    \<and> bc_resolver B body = Inr pubkey \<and> bc_verifier B body block pubkey = Inr True")
  case True
  with assms have "check_pin B doc_id body = Inr r" by (auto simp: check_signature_def)
  from check_pin_ok [OF this] True show ?thesis by auto
next
  case False
  with assms have "\<not> vr_ok r"
    by (auto simp: check_signature_def split: pyval.splits sum.splits if_splits)
  with False show ?thesis by auto
qed

lemma verify_from_transport_ok:
  assumes "verify_from_transport B get doc_id = Inr r"
  shows "vr_ok r \<longleftrightarrow> (\<exists>body_attr bytes body h. get doc_id = Response body_attr bytes
      \<and> parse_body (bc_text B) body_attr bytes = Inr (Inr body) \<and> authentic B doc_id body
      \<and> aip_payload (bc_sign B) body = Inr h
      \<and> (bc_expected B = None \<or> bc_expected B = Some (hexdigest h))
      \<and> vr_document r = Some body \<and> vr_jcs_sha256 r = Some (hexdigest h) \<and> vr_error r = None)"
proof (cases "\<exists>body_attr bytes body. get doc_id = Response body_attr bytes
      \<and> parse_body (bc_text B) body_attr bytes = Inr (Inr body) \<and> bc_schema B body = Inr True
      \<and> get_item body ''id'' = PStr doc_id")
  case True
  then obtain body_attr bytes body where b: "get doc_id = Response body_attr bytes"
    "parse_body (bc_text B) body_attr bytes = Inr (Inr body)" "bc_schema B body = Inr True"
    "get_item body ''id'' = PStr doc_id" by blast
  with assms have "check_signature B doc_id body = Inr r" by (simp add: verify_from_transport_def)
  from check_signature_ok [OF this] b show ?thesis by (auto simp: authentic_def)
next
  case False
  have "\<not> vr_ok r"
  proof (cases "get doc_id")
    case (Response x y)
    with assms obtain parsed where p: "parse_body (bc_text B) x y = Inr parsed"
      by (auto simp: verify_from_transport_def)
    show ?thesis
    proof (cases parsed)
      case (Inl k)
      with assms Response p have "r = failed doc_id k" by (simp add: verify_from_transport_def)
      then show ?thesis by simp
    next
      case (Inr body)
      with assms Response p obtain ok where ok: "bc_schema B body = Inr ok"
        by (auto simp: verify_from_transport_def)
      with False Response p Inr have "\<not> ok \<or> get_item body ''id'' \<noteq> PStr doc_id"
        by (cases ok) auto
      with assms Response p Inr ok have "r = failed doc_id SchemaFailed \<or> r = failed doc_id IdMismatch"
        by (auto simp: verify_from_transport_def split: if_splits)
      then show ?thesis by auto
    qed
  qed (use assms in \<open>auto simp: verify_from_transport_def\<close>)
  with False show ?thesis by (auto simp: authentic_def)
qed

text \<open>
  C25: The bridge accepts exactly authentic documents. Its result is ok if and only if the response
  has a JSON object that passes the schema, carries the requested identifier, and whose signature
  block the verifier accepts under the resolved key, with the expected hash when one is pinned; the
  result then is that object and the hash of its canonical body.
\<close>

theorem bridge_ok_iff:
  assumes "verify_from_transport B get doc_id = Inr r"
  shows "vr_ok r \<longleftrightarrow> (\<exists>body_attr bytes body h. get doc_id = Response body_attr bytes
      \<and> parse_body (bc_text B) body_attr bytes = Inr (Inr body) \<and> authentic B doc_id body
      \<and> aip_payload (bc_sign B) body = Inr h
      \<and> (bc_expected B = None \<or> bc_expected B = Some (hexdigest h))
      \<and> vr_document r = Some body \<and> vr_jcs_sha256 r = Some (hexdigest h) \<and> vr_error r = None)"
  using assms by (rule verify_from_transport_ok)

lemma verify_fn_authentic:
  "make_https_aip_verify_fn B uri b body = Inr d \<Longrightarrow>
     d = body \<and> authentic (B\<lparr>bc_expected := None\<rparr>) uri body"
  by (auto simp: make_https_aip_verify_fn_def verify_from_transport_ok parse_body_def
      split: sum.splits if_splits)

lemma authentic_pin [simp]: "authentic (B\<lparr>bc_expected := e\<rparr>) uri body = authentic B uri body"
  by (simp add: authentic_def)

end
