(* ===== verification/SchemaPure.thy ===== *)
theory SchemaPure
  imports Pytext Pyeq
begin

text \<open>
  The JSON Schema subset validator, \<open>identity_substrate/_schema_pure.py\<close>, on instances and schemas
  that \<open>json.loads\<close> can return: the check of the keywords, the keyword groups in the code's order,
  and the recursion into subschemas. The error texts and the path they name are not modelled.

  The main result compares it with a declarative reading: on schemas of the subset the validator
  raises nothing but \<open>ValidationError\<close>, and that exactly for the instances that do not conform.
\<close>

section \<open>The environment\<close>

text \<open>
  The interpreter's \<open>re.search\<close> on a pattern (which may raise \<open>re.error\<close>), the checks of
  \<open>urlparse\<close> on the part after \<open>//\<close>, and the comparison of a length with the double of a \<open>repr\<close>.
\<close>

record validator_env =
  se_float_int :: float_int
  se_below :: "nat \<Rightarrow> ustr \<Rightarrow> bool"
  se_search :: "ustr \<Rightarrow> ustr \<Rightarrow> bool res"
  se_netloc_ok :: "ustr \<Rightarrow> bool"

section \<open>Keywords\<close>

definition supported_keywords :: "ustr list" where
  "supported_keywords = map u
     [''type'', ''required'', ''properties'', ''additionalProperties'', ''enum'', ''const'',
      ''pattern'', ''minLength'', ''minItems'', ''items'', ''anyOf'', ''format'',
      ''title'', ''description'', ''$schema'', ''$id'', ''$comment'', ''default'', ''examples'',
      ''deprecated'', ''readOnly'', ''writeOnly'']"

text \<open>
  \<open>for key in schema: if key not in _SUPPORTED_KEYWORDS\<close>, over whatever the schema is: a dict gives
  its keys, a text its characters, a list its elements (of which lists and dicts have no hash).
\<close>

fun check_keyword :: "pyval \<Rightarrow> unit res" where
  "check_keyword (PStr k) = ensure (k \<in> set supported_keywords) NotImplementedErr"
| "check_keyword (PList vs) = Inl TypeErr"
| "check_keyword (PDict d) = Inl TypeErr"
| "check_keyword v = Inl NotImplementedErr"

primrec for_each :: "('a \<Rightarrow> unit res) \<Rightarrow> 'a list \<Rightarrow> unit res" where
  "for_each f [] = Inr ()"
| "for_each f (x # xs) = sbind (f x) (\<lambda>_. for_each f xs)"

lemma for_each_cong [fundef_cong]:
  "xs = xs' \<Longrightarrow> (\<And>x. x \<in> set xs' \<Longrightarrow> f x = f' x) \<Longrightarrow> for_each f xs = for_each f' xs'"
  by (induction xs arbitrary: xs') auto

lemma for_each_Inr [simp]: "for_each f xs = Inr () \<longleftrightarrow> (\<forall>x \<in> set xs. f x = Inr ())"
  by (induction xs) auto

text \<open>What iterating over a JSON value gives.\<close>

fun py_iter :: "pyval \<Rightarrow> pyval list res" where
  "py_iter (PStr s) = Inr (map (\<lambda>c. PStr [c]) s)"
| "py_iter (PList vs) = Inr vs"
| "py_iter (PDict d) = Inr (map (\<lambda>kv. PStr (fst kv)) d)"
| "py_iter v = Inl TypeErr"

definition check_keywords :: "pyval \<Rightarrow> unit res" where
  "check_keywords S = sbind (py_iter S) (for_each check_keyword)"

text \<open>
  \<open>if k in schema: f(schema[k])\<close>. A list of keywords contains a keyword but cannot be subscripted
  with it, which raises \<open>e\<close>; the empty text contains none.
\<close>

definition with_key_or :: "exc \<Rightarrow> pyval \<Rightarrow> string \<Rightarrow> (pyval \<Rightarrow> unit res) \<Rightarrow> unit res" where
  "with_key_or e S k f = (case S of
       PDict d \<Rightarrow> (case map_of d (u k) of None \<Rightarrow> Inr () | Some v \<Rightarrow> f v)
     | PList vs \<Rightarrow> (if PStr (u k) \<in> set vs then Inl e else Inr ())
     | _ \<Rightarrow> Inr ())"

abbreviation with_key :: "pyval \<Rightarrow> string \<Rightarrow> (pyval \<Rightarrow> unit res) \<Rightarrow> unit res" where
  "with_key \<equiv> with_key_or TypeErr"

lemma size_pyval_pair: "(k, v) \<in> set d \<Longrightarrow> size v < Suc (size_list (size_prod (\<lambda>_. 0) size) d)"
  using size_pyval_member [of "(k, v)"] by simp

lemma with_key_cong [fundef_cong]:
  assumes "e = e'" "S = S'" "k = k'" "\<And>v. size v < size S' \<Longrightarrow> f v = f' v"
  shows "with_key_or e S k f = with_key_or e' S' k' f'"
proof (cases S)
  case (PDict d)
  then have S': "S' = PDict d" using assms(2) by simp
  have "f v = f' v" if "map_of d (u k) = Some v" for v
    using size_pyval_pair [OF map_of_SomeD [OF that]] by (intro assms(4)) (simp add: S')
  then show ?thesis using assms(1,3) PDict S' by (auto simp: with_key_or_def split: option.split)
qed (use assms in \<open>auto simp: with_key_or_def\<close>)

section \<open>Types and formats\<close>

definition matches_type :: "pyval \<Rightarrow> pyval \<Rightarrow> bool res" where
  "matches_type v t =
     (if t = PStr (u ''string'') then Inr (case v of PStr _ \<Rightarrow> True | _ \<Rightarrow> False)
      else if t = PStr (u ''integer'') then Inr (case v of PInt _ \<Rightarrow> True | _ \<Rightarrow> False)
      else if t = PStr (u ''number'') then Inr (case v of PInt _ \<Rightarrow> True | PFloat _ \<Rightarrow> True | _ \<Rightarrow> False)
      else if t = PStr (u ''boolean'') then Inr (case v of PBool _ \<Rightarrow> True | _ \<Rightarrow> False)
      else if t = PStr (u ''object'') then Inr (case v of PDict _ \<Rightarrow> True | PBadKeyDict \<Rightarrow> True | _ \<Rightarrow> False)
      else if t = PStr (u ''array'') then Inr (case v of PList _ \<Rightarrow> True | _ \<Rightarrow> False)
      else if t = PStr (u ''null'') then Inr (v = PNone)
      else Inl NotImplementedErr)"

text \<open>\<open>any\<close> stops at the first type that matches.\<close>

fun any_type :: "pyval \<Rightarrow> pyval list \<Rightarrow> bool res" where
  "any_type v [] = Inr False"
| "any_type v (t # ts) = sbind (matches_type v t) (\<lambda>b. if b then Inr True else any_type v ts)"

definition check_type :: "pyval \<Rightarrow> pyval \<Rightarrow> unit res" where
  "check_type v t =
     sbind (case t of PList ts \<Rightarrow> any_type v ts | _ \<Rightarrow> matches_type v t)
       (\<lambda>b. ensure b SchemaValidationErr)"

text \<open>
  The scheme that \<open>urlparse\<close> finds: leading control characters and spaces, and tabs and line ends
  anywhere, are dropped; a scheme (as the interpreter reads it since 3.12) is a letter and then letters, digits, \<open>+\<close>, \<open>-\<close> and \<open>.\<close> up to the
  first colon.
\<close>

definition ascii_alpha :: "nat \<Rightarrow> bool" where
  "ascii_alpha c \<longleftrightarrow> (65 \<le> c \<and> c \<le> 90) \<or> (97 \<le> c \<and> c \<le> 122)"

definition url_scheme :: "ustr \<Rightarrow> ustr" where
  "url_scheme s =
     (let t = filter (\<lambda>c. c \<noteq> 9 \<and> c \<noteq> 10 \<and> c \<noteq> 13) (dropWhile (\<lambda>c. c \<le> 32) s);
          p = takeWhile (\<lambda>c. c \<noteq> 58) t
      in if length p < length t \<and> p \<noteq> [] \<and> ascii_alpha (hd p)
           \<and> list_all (\<lambda>c. ascii_alpha c \<or> is_digit c \<or> c = 43 \<or> c = 45 \<or> c = 46) p
         then map ascii_lower p else [])"

text \<open>
  The pattern for a date-time, with Python's \<open>$\<close>: a line feed may follow. \<open>digits_at\<close> is \<open>[0-9]\<close>
  repeated, and what it leaves.
\<close>

fun digits_at :: "nat \<Rightarrow> ustr \<Rightarrow> ustr option" where
  "digits_at 0 s = Some s"
| "digits_at (Suc n) [] = None"
| "digits_at (Suc n) (c # s) = (if is_digit c then digits_at n s else None)"

text \<open>A template of digit counts and separators.\<close>

fun template_at :: "(nat \<times> ustr) list \<Rightarrow> ustr \<Rightarrow> ustr option" where
  "template_at [] s = Some s"
| "template_at ((n, sep) # ts) s =
     (case digits_at n s of
        None \<Rightarrow> None
      | Some r \<Rightarrow> if starts_with sep r then template_at ts (drop (length sep) r) else None)"

definition zone_ok :: "ustr \<Rightarrow> bool" where
  "zone_ok s \<longleftrightarrow> (case s of
       [] \<Rightarrow> False
     | c # r \<Rightarrow> (c = 90 \<and> (r = [] \<or> r = [10]))
         \<or> ((c = 43 \<or> c = 45) \<and>
            (case template_at [(2, u '':''), (2, [])] r of
               Some rest \<Rightarrow> rest = [] \<or> rest = [10]
             | None \<Rightarrow> False)))"

definition is_date_time :: "ustr \<Rightarrow> bool" where
  "is_date_time s =
     (case template_at [(4, u ''-''), (2, u ''-''), (2, u ''T''), (2, u '':''), (2, u '':''), (2, [])] s of
        None \<Rightarrow> False
      | Some r \<Rightarrow> zone_ok r
          \<or> (starts_with (u ''.'') r \<and> takeWhile is_digit (tl r) \<noteq> []
             \<and> zone_ok (dropWhile is_digit (tl r))))"

definition check_format :: "validator_env \<Rightarrow> ustr \<Rightarrow> pyval \<Rightarrow> unit res" where
  "check_format E s f = (case f of
       PStr n \<Rightarrow>
         (if n = u ''uri'' then ensure (se_netloc_ok E s \<and> url_scheme s \<noteq> []) SchemaValidationErr
          else if n = u ''date-time'' then ensure (is_date_time s) SchemaValidationErr
          else Inr ())
     | PList _ \<Rightarrow> Inl TypeErr
     | PDict _ \<Rightarrow> Inl TypeErr
     | PBadKeyDict \<Rightarrow> Inl TypeErr
     | _ \<Rightarrow> Inr ())"

section \<open>The walk\<close>

text \<open>
  \<open>instance not in schema["enum"]\<close>: equality with an element, a substring, or a key. \<open>json.loads\<close>
  never returns one NaN object twice, so that \<open>in\<close> is decided by \<open>==\<close>.
\<close>

definition py_in :: "float_int \<Rightarrow> pyval \<Rightarrow> pyval \<Rightarrow> bool res" where
  "py_in F v c = (case c of
       PList vs \<Rightarrow> Inr (\<exists>w \<in> set vs. py_eq F w v)
     | PStr s \<Rightarrow> (case v of PStr p \<Rightarrow> Inr (is_infix_of p s) | _ \<Rightarrow> Inl TypeErr)
     | PDict d \<Rightarrow>
         (case v of
            PStr k \<Rightarrow> Inr (map_of d k \<noteq> None)
          | PList _ \<Rightarrow> Inl TypeErr | PDict _ \<Rightarrow> Inl TypeErr | PBadKeyDict \<Rightarrow> Inl TypeErr
          | _ \<Rightarrow> Inr False)
     | _ \<Rightarrow> Inl TypeErr)"

text \<open>\<open>n < bound\<close> for a length \<open>n\<close> and whatever the schema gives as the bound.\<close>

definition len_lt :: "validator_env \<Rightarrow> nat \<Rightarrow> pyval \<Rightarrow> bool res" where
  "len_lt E n b = (case b of
       PInt i \<Rightarrow> Inr (int n < i)
     | PBool c \<Rightarrow> Inr (n < (if c then 1 else 0))
     | PFloat FInf \<Rightarrow> Inr True
     | PFloat (FFin r) \<Rightarrow> Inr (se_below E n r)
     | PFloat _ \<Rightarrow> Inr False
     | _ \<Rightarrow> Inl TypeErr)"

definition check_min :: "validator_env \<Rightarrow> nat \<Rightarrow> pyval \<Rightarrow> unit res" where
  "check_min E n b = sbind (len_lt E n b) (\<lambda>short. ensure (\<not> short) SchemaValidationErr)"

definition check_pattern :: "validator_env \<Rightarrow> ustr \<Rightarrow> pyval \<Rightarrow> unit res" where
  "check_pattern E s p = (case p of
       PStr r \<Rightarrow> sbind (se_search E r s) (\<lambda>found. ensure found SchemaValidationErr)
     | _ \<Rightarrow> Inl TypeErr)"

definition check_text :: "validator_env \<Rightarrow> ustr \<Rightarrow> pyval \<Rightarrow> unit res" where
  "check_text E s S =
     sbind (with_key S ''minLength'' (check_min E (length s))) (\<lambda>_.
     sbind (with_key S ''pattern'' (check_pattern E s)) (\<lambda>_.
     with_key S ''format'' (check_format E s)))"

definition require :: "(ustr \<times> pyval) list \<Rightarrow> pyval \<Rightarrow> unit res" where
  "require d req =
     sbind (py_iter req) (for_each (\<lambda>k.
       sbind (py_in (\<lambda>_. None) k (PDict d)) (\<lambda>present. ensure present SchemaValidationErr)))"

text \<open>Only a \<open>ValidationError\<close> of a branch is caught; no branch at all is one too.\<close>

fun any_branch :: "(pyval \<Rightarrow> unit res) \<Rightarrow> pyval list \<Rightarrow> unit res" where
  "any_branch f [] = Inl SchemaValidationErr"
| "any_branch f (S # Ss) =
     (case f S of
        Inr _ \<Rightarrow> Inr ()
      | Inl e \<Rightarrow> if e = SchemaValidationErr then any_branch f Ss else Inl e)"

lemma any_branch_cong [fundef_cong]:
  "Ss = Ss' \<Longrightarrow> (\<And>S. S \<in> set Ss' \<Longrightarrow> f S = f' S) \<Longrightarrow> any_branch f Ss = any_branch f' Ss'"
  by (induction Ss arbitrary: Ss') (auto split: sum.split)

text \<open>\<open>set(schema.get("properties", {}).keys())\<close>; the properties are a dict by then.\<close>

definition property_names :: "pyval \<Rightarrow> ustr set" where
  "property_names S = (case S of
       PDict d \<Rightarrow> (case map_of d (u ''properties'') of Some (PDict ps) \<Rightarrow> fst ` set ps | _ \<Rightarrow> {})
     | _ \<Rightarrow> {})"

function walk :: "validator_env \<Rightarrow> pyval \<Rightarrow> pyval \<Rightarrow> unit res" where
  "walk E v S =
     sbind (check_keywords S) (\<lambda>_.
     sbind (with_key S ''type'' (check_type v)) (\<lambda>_.
     sbind (with_key S ''enum'' (\<lambda>c.
       sbind (py_in (se_float_int E) v c) (\<lambda>found. ensure found SchemaValidationErr))) (\<lambda>_.
     sbind (with_key S ''const'' (\<lambda>c. ensure (py_eq (se_float_int E) v c) SchemaValidationErr)) (\<lambda>_.
     sbind (with_key S ''anyOf'' (\<lambda>b. case b of
         PList Ss \<Rightarrow> any_branch (walk E v) Ss
       | _ \<Rightarrow> Inl SchemaValidationErr)) (\<lambda>_.
     case v of
       PStr s \<Rightarrow> check_text E s S
     | PDict d \<Rightarrow>
         sbind (with_key S ''required'' (require d)) (\<lambda>_.
         sbind (with_key S ''properties'' (\<lambda>p. case p of
             PDict ps \<Rightarrow> for_each (\<lambda>(k, sub).
                 case map_of d k of None \<Rightarrow> Inr () | Some x \<Rightarrow> walk E x sub) ps
           | _ \<Rightarrow> Inl AttributeErr)) (\<lambda>_.
         with_key_or AttributeErr S ''additionalProperties'' (\<lambda>ap. for_each (\<lambda>(k, x).
             if k \<in> property_names S then Inr ()
             else case ap of
               PBool False \<Rightarrow> Inl SchemaValidationErr
             | PDict sub \<Rightarrow> walk E x (PDict sub)
             | _ \<Rightarrow> Inr ()) d)))
     | PList vs \<Rightarrow>
         sbind (with_key S ''minItems'' (check_min E (length vs))) (\<lambda>_.
         with_key S ''items'' (\<lambda>sub. for_each (\<lambda>x. walk E x sub) vs))
     | _ \<Rightarrow> Inr ())))))"
  by pat_completeness auto
termination
  by (relation "measure (\<lambda>(E, v, S). size S)")
    (auto dest!: size_pyval_elem size_pyval_pair)

declare walk.simps [simp del]

text \<open>For evaluation: only a schema that is known to be a dict is walked.\<close>

lemma walk_dict [code]:
  "walk E v (PDict m) =
     sbind (check_keywords (PDict m)) (\<lambda>_.
     sbind (with_key (PDict m) ''type'' (check_type v)) (\<lambda>_.
     sbind (with_key (PDict m) ''enum'' (\<lambda>c.
       sbind (py_in (se_float_int E) v c) (\<lambda>found. ensure found SchemaValidationErr))) (\<lambda>_.
     sbind (with_key (PDict m) ''const'' (\<lambda>c. ensure (py_eq (se_float_int E) v c) SchemaValidationErr)) (\<lambda>_.
     sbind (with_key (PDict m) ''anyOf'' (\<lambda>b. case b of
         PList Ss \<Rightarrow> any_branch (walk E v) Ss
       | _ \<Rightarrow> Inl SchemaValidationErr)) (\<lambda>_.
     case v of
       PStr s \<Rightarrow> check_text E s (PDict m)
     | PDict d \<Rightarrow>
         sbind (with_key (PDict m) ''required'' (require d)) (\<lambda>_.
         sbind (with_key (PDict m) ''properties'' (\<lambda>p. case p of
             PDict ps \<Rightarrow> for_each (\<lambda>(k, sub).
                 case map_of d k of None \<Rightarrow> Inr () | Some x \<Rightarrow> walk E x sub) ps
           | _ \<Rightarrow> Inl AttributeErr)) (\<lambda>_.
         with_key_or AttributeErr (PDict m) ''additionalProperties'' (\<lambda>ap. for_each (\<lambda>(k, x).
             if k \<in> property_names (PDict m) then Inr ()
             else case ap of
               PBool False \<Rightarrow> Inl SchemaValidationErr
             | PDict sub \<Rightarrow> walk E x (PDict sub)
             | _ \<Rightarrow> Inr ()) d)))
     | PList vs \<Rightarrow>
         sbind (with_key (PDict m) ''minItems'' (check_min E (length vs))) (\<lambda>_.
         with_key (PDict m) ''items'' (\<lambda>sub. for_each (\<lambda>x. walk E x sub) vs))
     | _ \<Rightarrow> Inr ())))))"
  by (rule walk.simps)

text \<open>The public \<open>validate\<close>.\<close>

definition validate_pure :: "validator_env \<Rightarrow> pyval \<Rightarrow> pyval \<Rightarrow> unit res" where
  "validate_pure E v S = walk E v S"

section \<open>What a schema of the subset means\<close>

text \<open>The value a keyword has, where it is given.\<close>

definition on_key :: "pyval \<Rightarrow> string \<Rightarrow> (pyval \<Rightarrow> bool) \<Rightarrow> bool" where
  "on_key S k P = (case S of
       PDict d \<Rightarrow> (case map_of d (u k) of None \<Rightarrow> True | Some v \<Rightarrow> P v)
     | _ \<Rightarrow> False)"

lemma on_key_cong [fundef_cong]:
  assumes "S = S'" "k = k'" "\<And>v. size v < size S' \<Longrightarrow> P v = P' v"
  shows "on_key S k P = on_key S' k' P'"
proof (cases S)
  case (PDict d)
  then have S': "S' = PDict d" using assms(1) by simp
  have "P v = P' v" if "map_of d (u k) = Some v" for v
    using size_pyval_pair [OF map_of_SomeD [OF that]] by (intro assms(3)) (simp add: S')
  then show ?thesis using assms(2) PDict S' by (auto simp: on_key_def split: option.split)
qed (use assms in \<open>auto simp: on_key_def\<close>)

definition type_names :: "ustr list" where
  "type_names = map u
     [''string'', ''integer'', ''number'', ''boolean'', ''object'', ''array'', ''null'']"

definition type_name_ok :: "pyval \<Rightarrow> bool" where
  "type_name_ok t \<longleftrightarrow> t \<in> PStr ` set type_names"

text \<open>\<open>v\<close> has the type \<open>t\<close>; an integer is a number, a boolean is neither.\<close>

definition has_type :: "pyval \<Rightarrow> pyval \<Rightarrow> bool" where
  "has_type v t \<longleftrightarrow> t \<in> PStr ` set (case v of
       PNone \<Rightarrow> [u ''null''] | PBool _ \<Rightarrow> [u ''boolean''] | PInt _ \<Rightarrow> [u ''integer'', u ''number'']
     | PFloat _ \<Rightarrow> [u ''number''] | PStr _ \<Rightarrow> [u ''string''] | PList _ \<Rightarrow> [u ''array'']
     | PDict _ \<Rightarrow> [u ''object''] | PBadKeyDict \<Rightarrow> [u ''object''] | POther \<Rightarrow> [])"

definition type_list :: "pyval \<Rightarrow> pyval list" where
  "type_list t = (case t of PList ts \<Rightarrow> ts | _ \<Rightarrow> [t])"

fun is_text :: "pyval \<Rightarrow> bool" where
  "is_text (PStr s) = True"
| "is_text v = False"

lemma is_text_iff: "is_text v \<longleftrightarrow> (\<exists>s. v = PStr s)"
  by (cases v) auto

text \<open>
  A schema of the subset: the supported keywords only, here and in every subschema, each with a
  value of its kind. \<open>R\<close> describes the patterns that compile.
\<close>

function subset_schema :: "(ustr \<Rightarrow> bool) \<Rightarrow> pyval \<Rightarrow> bool" where
  "subset_schema R S \<longleftrightarrow>
     (case S of PDict d \<Rightarrow> fst ` set d \<subseteq> set supported_keywords | _ \<Rightarrow> False)
     \<and> on_key S ''type'' (\<lambda>t. \<forall>x \<in> set (type_list t). type_name_ok x)
     \<and> on_key S ''enum'' (\<lambda>c. case c of PList _ \<Rightarrow> True | _ \<Rightarrow> False)
     \<and> on_key S ''anyOf'' (\<lambda>b. case b of PList Ss \<Rightarrow> Ss \<noteq> [] \<and> (\<forall>s \<in> set Ss. subset_schema R s) | _ \<Rightarrow> False)
     \<and> on_key S ''minLength'' (\<lambda>b. case b of PInt _ \<Rightarrow> True | _ \<Rightarrow> False)
     \<and> on_key S ''pattern'' (\<lambda>p. case p of PStr r \<Rightarrow> R r | _ \<Rightarrow> False)
     \<and> on_key S ''format'' is_text
     \<and> on_key S ''required'' (\<lambda>r. case r of PList ks \<Rightarrow> (\<forall>k \<in> set ks. is_text k) | _ \<Rightarrow> False)
     \<and> on_key S ''properties'' (\<lambda>p. case p of PDict ps \<Rightarrow> (\<forall>(k, s) \<in> set ps. subset_schema R s) | _ \<Rightarrow> False)
     \<and> on_key S ''additionalProperties'' (\<lambda>ap. case ap of
           PBool _ \<Rightarrow> True | PDict s \<Rightarrow> subset_schema R (PDict s) | _ \<Rightarrow> False)
     \<and> on_key S ''minItems'' (\<lambda>b. case b of PInt _ \<Rightarrow> True | _ \<Rightarrow> False)
     \<and> on_key S ''items'' (\<lambda>s. subset_schema R s)"
  by pat_completeness auto
termination
  by (relation "measure (\<lambda>(R, S). size S)") (auto dest!: size_pyval_elem size_pyval_pair)

declare subset_schema.simps [simp del]

definition format_ok :: "validator_env \<Rightarrow> ustr \<Rightarrow> pyval \<Rightarrow> bool" where
  "format_ok E s f \<longleftrightarrow> (f = PStr (u ''uri'') \<longrightarrow> se_netloc_ok E s \<and> url_scheme s \<noteq> [])
     \<and> (f = PStr (u ''date-time'') \<longrightarrow> is_date_time s)"

definition at_least :: "nat \<Rightarrow> pyval \<Rightarrow> bool" where
  "at_least n b \<longleftrightarrow> (case b of PInt i \<Rightarrow> i \<le> int n | _ \<Rightarrow> False)"

definition found_in :: "validator_env \<Rightarrow> ustr \<Rightarrow> pyval \<Rightarrow> bool" where
  "found_in E s p \<longleftrightarrow> (case p of PStr r \<Rightarrow> se_search E r s = Inr True | _ \<Rightarrow> False)"

definition elements :: "pyval \<Rightarrow> pyval list" where
  "elements c = (case c of PList vs \<Rightarrow> vs | _ \<Rightarrow> [])"

text \<open>An instance conforms to a schema of the subset.\<close>

function conforms :: "validator_env \<Rightarrow> pyval \<Rightarrow> pyval \<Rightarrow> bool" where
  "conforms E v S \<longleftrightarrow>
     on_key S ''type'' (\<lambda>t. \<exists>x \<in> set (type_list t). has_type v x)
     \<and> on_key S ''enum'' (\<lambda>c. \<exists>w \<in> set (elements c). py_eq (se_float_int E) w v)
     \<and> on_key S ''const'' (py_eq (se_float_int E) v)
     \<and> on_key S ''anyOf'' (\<lambda>b. case b of PList Ss \<Rightarrow> (\<exists>s \<in> set Ss. conforms E v s) | _ \<Rightarrow> False)
     \<and> (case v of
          PStr s \<Rightarrow> on_key S ''minLength'' (at_least (length s)) \<and> on_key S ''pattern'' (found_in E s)
            \<and> on_key S ''format'' (format_ok E s)
        | PDict d \<Rightarrow>
            on_key S ''required'' (\<lambda>r. \<forall>k \<in> set (elements r). k \<in> (PStr \<circ> fst) ` set d)
            \<and> on_key S ''properties'' (\<lambda>p. case p of
                 PDict ps \<Rightarrow> (\<forall>(k, s) \<in> set ps. case map_of d k of None \<Rightarrow> True | Some x \<Rightarrow> conforms E x s)
               | _ \<Rightarrow> False)
            \<and> on_key S ''additionalProperties'' (\<lambda>ap. \<forall>(k, x) \<in> set d.
                 k \<in> property_names S \<or> (case ap of
                   PBool b \<Rightarrow> b | PDict s \<Rightarrow> conforms E x (PDict s) | _ \<Rightarrow> False))
        | PList vs \<Rightarrow> on_key S ''minItems'' (at_least (length vs))
            \<and> on_key S ''items'' (\<lambda>s. \<forall>x \<in> set vs. conforms E x s)
        | _ \<Rightarrow> True)"
  by pat_completeness auto
termination
  by (relation "measure (\<lambda>(E, v, S). size S)") (auto dest!: size_pyval_elem size_pyval_pair)

declare conforms.simps [simp del]

section \<open>The validator decides conformance\<close>

text \<open>A check that either passes or raises \<open>ValidationError\<close>, as \<open>b\<close> says.\<close>

definition decides :: "unit res \<Rightarrow> bool \<Rightarrow> bool" where
  "decides m b \<longleftrightarrow> m = (if b then Inr () else Inl SchemaValidationErr)"

lemma decides_unit [simp]: "decides (Inr ()) b \<longleftrightarrow> b"
  "decides (Inl e) b \<longleftrightarrow> \<not> b \<and> e = SchemaValidationErr"
  "decides (ensure c SchemaValidationErr) b \<longleftrightarrow> (b \<longleftrightarrow> c)"
  by (auto simp: decides_def ensure_def)

lemma decides_sbind: "decides m b \<Longrightarrow> decides m' b' \<Longrightarrow> decides (sbind m (\<lambda>_. m')) (b \<and> b')"
  by (auto simp: decides_def)

lemma decides_for_each:
  "(\<And>x. x \<in> set xs \<Longrightarrow> decides (f x) (P x)) \<Longrightarrow> decides (for_each f xs) (\<forall>x \<in> set xs. P x)"
  by (induction xs) (auto intro: decides_sbind)

lemma decides_any_branch:
  "(\<And>s. s \<in> set Ss \<Longrightarrow> decides (f s) (P s)) \<Longrightarrow> decides (any_branch f Ss) (\<exists>s \<in> set Ss. P s)"
  by (induction Ss) (auto simp: decides_def)

lemma decides_with_key:
  assumes "\<And>v. map_of d (u k) = Some v \<Longrightarrow> decides (f v) (P v)"
  shows "decides (with_key_or e (PDict d) k f) (on_key (PDict d) k P)"
  using assms by (auto simp: with_key_or_def on_key_def split: option.split)

lemma decides_type:
  assumes "\<And>x. x \<in> set (type_list t) \<Longrightarrow> type_name_ok x"
  shows "decides (check_type v t) (\<exists>x \<in> set (type_list t). has_type v x)"
proof -
  have one: "matches_type v x = Inr (has_type v x)" if "type_name_ok x" for x
    using that by (cases v) (auto simp: type_name_ok_def type_names_def has_type_def matches_type_def)
  have "any_type v ts = Inr (\<exists>x \<in> set ts. has_type v x)" if "\<forall>x \<in> set ts. type_name_ok x" for ts
    using that by (induction ts) (auto simp: one)
  then show ?thesis using assms one [of t]
    by (cases t) (auto simp: check_type_def type_list_def)
qed

lemma decides_required:
  assumes "\<And>k. k \<in> set ks \<Longrightarrow> \<exists>s. k = PStr s"
  shows "decides (require d (PList ks)) (\<forall>k \<in> set ks. k \<in> (PStr \<circ> fst) ` set d)"
proof -
  have "decides (sbind (py_in (\<lambda>_. None) k (PDict d)) (\<lambda>present. ensure present SchemaValidationErr))
      (k \<in> (PStr \<circ> fst) ` set d)" if k: "k \<in> set ks" for k
  proof -
    obtain s where "k = PStr s" using assms k by blast
    moreover have "map_of d s \<noteq> None \<longleftrightarrow> PStr s \<in> (PStr \<circ> fst) ` set d"
      by (auto simp: map_of_eq_None_iff)
    ultimately show ?thesis by (simp add: py_in_def)
  qed
  then show ?thesis by (simp add: require_def decides_for_each)
qed

lemma decides_text:
  assumes "subset_schema R (PDict d)" and patterns: "\<And>r s. R r \<Longrightarrow> \<exists>b. se_search E r s = Inr b"
  shows "decides (check_text E s (PDict d))
    (on_key (PDict d) ''minLength'' (at_least (length s)) \<and> on_key (PDict d) ''pattern'' (found_in E s)
     \<and> on_key (PDict d) ''format'' (format_ok E s))"
  unfolding check_text_def
proof (intro decides_sbind decides_with_key)
  note parts = assms(1) [unfolded subset_schema.simps [of _ "PDict d"], simplified on_key_def, simplified]
  fix x
  show "decides (check_min E (length s) x) (at_least (length s) x)"
    if "map_of d (u ''minLength'') = Some x"
    using that parts by (auto simp: check_min_def len_lt_def at_least_def split: pyval.splits)
  show "decides (check_pattern E s x) (found_in E s x)" if "map_of d (u ''pattern'') = Some x"
    using that parts patterns [of _ s]
    by (fastforce simp: check_pattern_def found_in_def split: pyval.splits)
  show "decides (check_format E s x) (format_ok E s x)" if "map_of d (u ''format'') = Some x"
    using that parts by (auto simp: check_format_def format_ok_def split: pyval.splits)
qed

lemma subset_dict:
  assumes "subset_schema R S"
  obtains d where "S = PDict d" "fst ` set d \<subseteq> set supported_keywords"
  using assms by (subst (asm) subset_schema.simps) (cases S; simp)

text \<open>The three groups of keywords, given that the validator decides the subschemas.\<close>

lemma decides_values:
  assumes "subset_schema R (PDict d)"
    and inner: "\<And>k y s v. map_of d k = Some y \<Longrightarrow> size s \<le> size y \<Longrightarrow> subset_schema R s
      \<Longrightarrow> decides (walk E v s) (conforms E v s)"
  shows "decides (with_key (PDict d) ''type'' (check_type v))
      (on_key (PDict d) ''type'' (\<lambda>t. \<exists>x \<in> set (type_list t). has_type v x))" (is ?type)
    and "decides (with_key (PDict d) ''enum'' (\<lambda>c.
         sbind (py_in (se_float_int E) v c) (\<lambda>found. ensure found SchemaValidationErr)))
      (on_key (PDict d) ''enum'' (\<lambda>c. \<exists>w \<in> set (elements c). py_eq (se_float_int E) w v))" (is ?enum)
    and "decides (with_key (PDict d) ''anyOf'' (\<lambda>b. case b of
         PList Ss \<Rightarrow> any_branch (walk E v) Ss | _ \<Rightarrow> Inl SchemaValidationErr))
      (on_key (PDict d) ''anyOf'' (\<lambda>b. case b of
         PList Ss \<Rightarrow> (\<exists>s \<in> set Ss. conforms E v s) | _ \<Rightarrow> False))" (is ?any)
proof -
  note parts = assms(1) [unfolded subset_schema.simps [of _ "PDict d"], simplified on_key_def, simplified]
  show ?type using parts by (intro decides_with_key decides_type) auto
  show ?enum
    using parts by (intro decides_with_key) (auto simp: py_in_def elements_def split: pyval.splits)
  show ?any
  proof (intro decides_with_key)
    fix b assume b: "map_of d (u ''anyOf'') = Some b"
    then obtain Ss where Ss: "b = PList Ss" "\<forall>s \<in> set Ss. subset_schema R s"
      using parts by (auto split: pyval.splits)
    then have "decides (any_branch (walk E v) Ss) (\<exists>s \<in> set Ss. conforms E v s)"
      using b by (intro decides_any_branch inner) (auto dest: size_pyval_elem)
    then show "decides (case b of PList Ss \<Rightarrow> any_branch (walk E v) Ss | _ \<Rightarrow> Inl SchemaValidationErr)
        (case b of PList Ss \<Rightarrow> (\<exists>s \<in> set Ss. conforms E v s) | _ \<Rightarrow> False)"
      by (simp add: Ss)
  qed
qed

lemma decides_members:
  assumes "subset_schema R (PDict d)"
    and inner: "\<And>k y s v. map_of d k = Some y \<Longrightarrow> size s \<le> size y \<Longrightarrow> subset_schema R s
      \<Longrightarrow> decides (walk E v s) (conforms E v s)"
  shows "decides (with_key (PDict d) ''required'' (require e))
      (on_key (PDict d) ''required'' (\<lambda>r. \<forall>k \<in> set (elements r). k \<in> (PStr \<circ> fst) ` set e))" (is ?required)
    and "decides (with_key (PDict d) ''properties'' (\<lambda>p. case p of
         PDict ps \<Rightarrow> for_each (\<lambda>(k, sub). case map_of e k of None \<Rightarrow> Inr () | Some x \<Rightarrow> walk E x sub) ps
       | _ \<Rightarrow> Inl AttributeErr))
      (on_key (PDict d) ''properties'' (\<lambda>p. case p of
         PDict ps \<Rightarrow> (\<forall>(k, s) \<in> set ps. case map_of e k of None \<Rightarrow> True | Some x \<Rightarrow> conforms E x s)
       | _ \<Rightarrow> False))" (is ?properties)
    and "decides (with_key_or AttributeErr (PDict d) ''additionalProperties'' (\<lambda>ap. for_each (\<lambda>(k, x).
         if k \<in> property_names (PDict d) then Inr ()
         else case ap of
           PBool False \<Rightarrow> Inl SchemaValidationErr
         | PDict sub \<Rightarrow> walk E x (PDict sub)
         | _ \<Rightarrow> Inr ()) e))
      (on_key (PDict d) ''additionalProperties'' (\<lambda>ap. \<forall>(k, x) \<in> set e.
         k \<in> property_names (PDict d) \<or> (case ap of
           PBool b \<Rightarrow> b | PDict s \<Rightarrow> conforms E x (PDict s) | _ \<Rightarrow> False)))" (is ?additional)
    and "decides (with_key (PDict d) ''items'' (\<lambda>sub. for_each (\<lambda>x. walk E x sub) vs))
      (on_key (PDict d) ''items'' (\<lambda>s. \<forall>x \<in> set vs. conforms E x s))" (is ?items)
    and "decides (with_key (PDict d) ''minItems'' (check_min E n)) (on_key (PDict d) ''minItems'' (at_least n))"
      (is ?min)
proof -
  note parts = assms(1) [unfolded subset_schema.simps [of _ "PDict d"], simplified on_key_def, simplified]
  show ?required
  proof (intro decides_with_key)
    fix r assume "map_of d (u ''required'') = Some r"
    then obtain ks where "r = PList ks" "\<forall>k \<in> set ks. \<exists>s. k = PStr s"
      using parts by (auto split: pyval.splits simp: is_text_iff)
    then show "decides (require e r) (\<forall>k \<in> set (elements r). k \<in> (PStr \<circ> fst) ` set e)"
      using decides_required [of ks e] by (simp add: elements_def)
  qed
  show ?properties
  proof (intro decides_with_key)
    fix p assume p: "map_of d (u ''properties'') = Some p"
    then obtain ps where ps: "p = PDict ps" "\<forall>(k, s) \<in> set ps. subset_schema R s"
      using parts by (auto split: pyval.splits)
    have "decides (walk E x s) (conforms E x s)" if "(k, s) \<in> set ps" for k s x
      using p ps that by (intro inner) (auto dest: size_pyval_pair)
    then have "decides (for_each (\<lambda>(k, sub). case map_of e k of None \<Rightarrow> Inr () | Some x \<Rightarrow> walk E x sub) ps)
        (\<forall>ks \<in> set ps. case ks of (k, s) \<Rightarrow> case map_of e k of None \<Rightarrow> True | Some x \<Rightarrow> conforms E x s)"
      by (intro decides_for_each) (auto split: option.splits)
    then show "decides (case p of
         PDict ps \<Rightarrow> for_each (\<lambda>(k, sub). case map_of e k of None \<Rightarrow> Inr () | Some x \<Rightarrow> walk E x sub) ps
       | _ \<Rightarrow> Inl AttributeErr)
      (case p of
         PDict ps \<Rightarrow> (\<forall>(k, s) \<in> set ps. case map_of e k of None \<Rightarrow> True | Some x \<Rightarrow> conforms E x s)
       | _ \<Rightarrow> False)"
      by (simp add: ps)
  qed
  show ?additional
  proof (intro decides_with_key decides_for_each)
    fix ap kx assume ap: "map_of d (u ''additionalProperties'') = Some ap"
    have "decides (walk E x (PDict s)) (conforms E x (PDict s))" if "ap = PDict s" for s x
      using ap parts that by (intro inner) auto
    then show "decides (case kx of (k, x) \<Rightarrow>
         if k \<in> property_names (PDict d) then Inr ()
         else case ap of
           PBool False \<Rightarrow> Inl SchemaValidationErr
         | PDict sub \<Rightarrow> walk E x (PDict sub)
         | _ \<Rightarrow> Inr ())
       (case kx of (k, x) \<Rightarrow> k \<in> property_names (PDict d) \<or> (case ap of
           PBool b \<Rightarrow> b | PDict s \<Rightarrow> conforms E x (PDict s) | _ \<Rightarrow> False))"
      using ap parts by (cases kx) (auto split: pyval.splits bool.splits)
  qed
  show ?items
    using parts by (intro decides_with_key decides_for_each inner) auto
  show ?min
    using parts by (intro decides_with_key) (auto simp: check_min_def len_lt_def at_least_def split: pyval.splits)
qed

lemma walk_decides:
  assumes patterns: "\<And>r s. R r \<Longrightarrow> \<exists>b. se_search E r s = Inr b"
  shows "subset_schema R S \<Longrightarrow> decides (walk E v S) (conforms E v S)"
proof (induction "size S" arbitrary: S v rule: less_induct)
  case less
  then obtain d where S: "S = PDict d" "fst ` set d \<subseteq> set supported_keywords"
    by (auto elim: subset_dict)
  note sub = less.prems [unfolded S(1)]
  have inner: "decides (walk E x s) (conforms E x s)"
    if "map_of d k = Some y" "size s \<le> size y" "subset_schema R s" for k y x s
    using that size_pyval_pair [OF map_of_SomeD [OF that(1)]] by (intro less.hyps) (auto simp: S)
  have known: "check_keywords (PDict d) = Inr ()"
    using S(2) by (auto simp: check_keywords_def ensure_def)
  note vals = decides_values [OF sub inner] and members = decides_members [OF sub inner]
  have const: "decides (with_key (PDict d) ''const'' (\<lambda>c. ensure (py_eq (se_float_int E) w c) SchemaValidationErr))
      (on_key (PDict d) ''const'' (py_eq (se_float_int E) w))" for w
    by (rule decides_with_key) simp
  note last = decides_text [OF sub patterns] members
  note step = walk.simps [of E v "PDict d"] conforms.simps [of E v "PDict d"]
  note rules = decides_sbind vals const decides_text [OF sub patterns] members
  show ?case
    unfolding S(1) step known sbind.simps
    by (cases v; simp only: pyval.case; intro rules; (assumption | simp)?)
qed

text \<open>
  C26: On a schema of the subset whose patterns compile the validator raises nothing but
  \<open>ValidationError\<close>, and it does so exactly for the instances that do not conform to the schema.
\<close>

theorem pure_validation:
  assumes "subset_schema R S" "\<And>r s. R r \<Longrightarrow> \<exists>b. se_search E r s = Inr b"
  shows "validate_pure E v S = (if conforms E v S then Inr () else Inl SchemaValidationErr)"
  using walk_decides [OF assms(2,1)] by (simp add: validate_pure_def decides_def)

text \<open>The small schema of the repository's tests, and a search that knows its pattern.\<close>

definition small_schema :: pyval where
  "small_schema = PDict
     [(u ''type'', PStr (u ''object'')),
      (u ''required'', PList [PStr (u ''id''), PStr (u ''expires'')]),
      (u ''properties'', PDict
         [(u ''id'', PDict [(u ''type'', PStr (u ''string'')), (u ''minLength'', PInt 1),
             (u ''pattern'', PStr (u ''^aip:'')), (u ''format'', PStr (u ''uri''))]),
          (u ''expires'', PDict [(u ''type'', PStr (u ''integer''))]),
          (u ''name'', PDict [(u ''type'', PStr (u ''string''))])]),
      (u ''additionalProperties'', PBool False)]"

definition small_env :: validator_env where
  "small_env = \<lparr>se_float_int = (\<lambda>_. None), se_below = (\<lambda>_ _. False),
     se_search = (\<lambda>r s. if r = u ''^aip:'' then Inr (starts_with (u ''aip:'') s) else Inl ValueErr),
     se_netloc_ok = (\<lambda>_. True)\<rparr>"

definition small_instance :: "ustr \<Rightarrow> pyval" where
  "small_instance name = PDict [(u ''id'', PStr name), (u ''expires'', PInt 5)]"

lemma small_schema_subset: "subset_schema (\<lambda>r. r = u ''^aip:'') small_schema"
  by code_simp

lemma pure_validation_witness:
  "conforms small_env (small_instance (u ''aip:web:a'')) small_schema
   \<and> validate_pure small_env (small_instance (u ''aip:web:a'')) small_schema = Inr ()
   \<and> validate_pure small_env (small_instance (u ''did:web:a'')) small_schema = Inl SchemaValidationErr"
proof -
  have runs: "validate_pure small_env (small_instance (u ''aip:web:a'')) small_schema = Inr ()"
    "validate_pure small_env (small_instance (u ''did:web:a'')) small_schema = Inl SchemaValidationErr"
    by code_simp+
  have "validate_pure small_env (small_instance (u ''aip:web:a'')) small_schema
      = (if conforms small_env (small_instance (u ''aip:web:a'')) small_schema
         then Inr () else Inl SchemaValidationErr)"
    by (rule pure_validation [OF small_schema_subset]) (simp add: small_env_def)
  with runs show ?thesis by (auto split: if_splits)
qed

text \<open>A keyword outside the subset goes unnoticed until an instance reaches its subschema.\<close>

lemma hidden_keyword:
  "validate_pure small_env (PDict [])
     (PDict [(u ''properties'', PDict [(u ''n'', PDict [(u ''minimum'', PInt 0)])])]) = Inr ()"
  "validate_pure small_env (PDict [(u ''n'', PInt 3)])
     (PDict [(u ''properties'', PDict [(u ''n'', PDict [(u ''minimum'', PInt 0)])])]) = Inl NotImplementedErr"
  by code_simp+

text \<open>A boolean is the number it equals: \<open>enum\<close> and \<open>const\<close> accept it where \<open>type\<close> would not.\<close>

lemma boolean_constant:
  "validate_pure small_env (PBool True) (PDict [(u ''const'', PInt 1)]) = Inr ()"
  "validate_pure small_env (PBool True) (PDict [(u ''type'', PStr (u ''integer''))]) = Inl SchemaValidationErr"
  by code_simp+

end
