(* ===== verification/AipSchema.thy ===== *)
theory AipSchema
  imports SchemaPure VerifyBridge
begin

text \<open>
  The schema check of the verification bridge: the loader of \<open>verify_bridge.py\<close> with the document
  schema that is shipped (\<open>schemas/aip-document.json\<close>, as \<open>json.loads\<close> reads it), the choice
  between the \<open>jsonschema\<close> package and the validator of the repository, and what the bridge then
  does with documents.
\<close>

section \<open>The shipped schema\<close>

definition aip_document_schema :: pyval where
  "aip_document_schema =
   PDict [
     (u ''$schema'', PStr (u ''https://json-schema.org/draft/2020-12/schema'')),
     (u ''$id'', PStr (u ''https://wakir.dev/wirelang/schema/aip-document/0.1.0'')),
     (u ''x-spdx-license-identifier'', PStr (u ''Apache-2.0'')),
     (u ''x-spdx-file-copyright-text'', PStr (u ''2026 Callandor GmbH and contributors'')),
     (u ''title'', PStr (u ''AIP Document (draft-prakash-aip-00 conformance + Wakir extensions)'')),
     (u ''description'', PStr (u ''JSON Schema for an Agent Identity Protocol document. Conforms to the structure described in draft-prakash-aip-00 section 2.3 (required: aip, id, public_keys, name, delegation, protocols, document_signature, expires; identifiers per section 2.2). Adds Wakir-scoped optional extensions (verification_methods, service_endpoints, biscuit_root_pubkey) that do not break a strict AIP parser when stripped.'')),
     (u ''type'', PStr (u ''object'')),
     (u ''required'', PList [
      PStr (u ''aip''),
      PStr (u ''id''),
      PStr (u ''public_keys''),
      PStr (u ''name''),
      PStr (u ''delegation''),
      PStr (u ''protocols''),
      PStr (u ''document_signature''),
      PStr (u ''expires'')]),
     (u ''additionalProperties'', PBool False),
     (u ''properties'', PDict [
      (u ''aip'', PDict [
       (u ''type'', PStr (u ''string'')),
       (u ''const'', PStr (u ''1.0'')),
       (u ''description'', PStr (u ''AIP protocol version (draft-prakash-aip-00 section 2.3 '' @ [39] @ u ''aip'' @ [39] @ u '').''))]),
      (u ''id'', PDict [
       (u ''type'', PStr (u ''string'')),
       (u ''description'', PStr (u ''AIP identifier. DNS-based aip:web:<domain>/<path> or self-certifying aip:key:ed25519:<multibase>. did:web is accepted as a Wakir cross-compat alias.'')),
       (u ''pattern'', PStr (u ''^(aip:web:[a-zA-Z0-9.-]+(/[a-zA-Z0-9._/-]+)?|aip:key:ed25519:[a-zA-Z0-9]+|did:web:[a-zA-Z0-9.:%-]+)$''))]),
      (u ''name'', PDict [
       (u ''type'', PStr (u ''string'')),
       (u ''description'', PStr (u ''Human-readable agent name. Per Wakir Brand-Guide '' @ [167] @ u ''9 use role-strings, never clear personal names.'')),
       (u ''minLength'', PInt 1)]),
      (u ''public_keys'', PDict [
       (u ''type'', PStr (u ''array'')),
       (u ''description'', PStr (u ''Array of public-key entries with validity windows (draft-prakash-aip-00 section 2.3 '' @ [39] @ u ''public_keys'' @ [39] @ u '').'')),
       (u ''minItems'', PInt 1),
       (u ''items'', PDict [
        (u ''type'', PStr (u ''object'')),
        (u ''required'', PList [
         PStr (u ''kid''),
         PStr (u ''alg''),
         PStr (u ''key_hex''),
         PStr (u ''validafter'')]),
        (u ''additionalProperties'', PBool False),
        (u ''properties'', PDict [
         (u ''kid'', PDict [
          (u ''type'', PStr (u ''string'')),
          (u ''minLength'', PInt 1),
          (u ''description'', PStr (u ''Key identifier, stable inside this document.''))]),
         (u ''alg'', PDict [
          (u ''type'', PStr (u ''string'')),
          (u ''enum'', PList [PStr (u ''Ed25519''), PStr (u ''secp256k1'')]),
          (u ''description'', PStr (u ''Signing algorithm. Wakir Phase 1a two-curve stack: Ed25519 (default for Biscuit / AIP signatures) and secp256k1 (BIP32 derivation root).''))]),
         (u ''key_hex'', PDict [
          (u ''type'', PStr (u ''string'')),
          (u ''pattern'', PStr (u ''^[0-9a-f]+$'')),
          (u ''description'', PStr (u ''Lowercase hex public key. Length is algorithm-specific (Ed25519=64 hex, secp256k1 compressed=66 hex).''))]),
         (u ''validafter'', PDict [(u ''type'', PStr (u ''string'')), (u ''format'', PStr (u ''date-time''))]),
         (u ''validuntil'', PDict [
          (u ''anyOf'', PList [
           PDict [(u ''type'', PStr (u ''null''))],
           PDict [(u ''type'', PStr (u ''string'')), (u ''format'', PStr (u ''date-time''))]])]),
         (u ''purpose'', PDict [
          (u ''type'', PStr (u ''string'')),
          (u ''enum'', PList [
           PStr (u ''aip-signing''),
           PStr (u ''biscuit-root''),
           PStr (u ''wat-anchor''),
           PStr (u ''frame-signing'')]),
          (u ''description'', PStr (u ''Wakir-scoped purpose tag. Optional, informational.''))])])])]),
      (u ''delegation'', PDict [
       (u ''type'', PStr (u ''object'')),
       (u ''description'', PStr (u ''Delegation preferences (draft-prakash-aip-00 section 2.3 '' @ [39] @ u ''delegation'' @ [39] @ u ''). Constrains who may attenuate tokens issued by this identity.'')),
       (u ''required'', PList [PStr (u ''mode'')]),
       (u ''additionalProperties'', PBool False),
       (u ''properties'', PDict [
        (u ''mode'', PDict [
         (u ''type'', PStr (u ''string'')),
         (u ''enum'', PList [PStr (u ''compact''), PStr (u ''chained''), PStr (u ''both'')]),
         (u ''description'', PStr (u ''AIP delegation mode. '' @ [39] @ u ''compact'' @ [39] @ u '' = JWT/EdDSA tokens only; '' @ [39] @ u ''chained'' @ [39] @ u '' = Biscuit attenuation tokens only; '' @ [39] @ u ''both'' @ [39] @ u '' = either accepted (draft-prakash-aip-00 sections 3.1/3.2).''))]),
        (u ''max_depth'', PDict [
         (u ''type'', PStr (u ''integer'')),
         (u ''minimum'', PInt 0),
         (u ''description'', PStr (u ''Maximum attenuation depth (chained mode).''))]),
        (u ''allowed_audiences'', PDict [
         (u ''type'', PStr (u ''array'')),
         (u ''items'', PDict [(u ''type'', PStr (u ''string'')), (u ''minLength'', PInt 1)])])])]),
      (u ''protocols'', PDict [
       (u ''type'', PStr (u ''array'')),
       (u ''description'', PStr (u ''Supported protocol bindings (draft-prakash-aip-00 section 2.3 '' @ [39] @ u ''protocols'' @ [39] @ u ''). Wakir frames advertise '' @ [39] @ u ''wirelang/0.1'' @ [39] @ u '' here.'')),
       (u ''minItems'', PInt 1),
       (u ''items'', PDict [(u ''type'', PStr (u ''string'')), (u ''minLength'', PInt 1)])]),
      (u ''expires'', PDict [
       (u ''type'', PStr (u ''string'')),
       (u ''format'', PStr (u ''date-time'')),
       (u ''description'', PStr (u ''Document expiration timestamp (draft-prakash-aip-00 section 2.3 '' @ [39] @ u ''expires'' @ [39] @ u '').''))]),
      (u ''document_signature'', PDict [
       (u ''type'', PStr (u ''object'')),
       (u ''description'', PStr (u ''Self-signature over the JCS-canonicalised document (draft-prakash-aip-00 section 2.3 '' @ [39] @ u ''document_signature'' @ [39] @ u ''). Verification per RFC 8785 + RFC 8032 (Ed25519).'')),
       (u ''required'', PList [PStr (u ''alg''), PStr (u ''kid''), PStr (u ''signature'')]),
       (u ''additionalProperties'', PBool False),
       (u ''properties'', PDict [
        (u ''alg'', PDict [(u ''type'', PStr (u ''string'')), (u ''const'', PStr (u ''Ed25519''))]),
        (u ''kid'', PDict [
         (u ''type'', PStr (u ''string'')),
         (u ''minLength'', PInt 1),
         (u ''description'', PStr (u ''kid of the signing public key inside public_keys.''))]),
        (u ''signature'', PDict [
         (u ''type'', PStr (u ''string'')),
         (u ''pattern'', PStr (u ''^[0-9a-f]{128}$'')),
         (u ''description'', PStr (u ''Ed25519 signature, lowercase hex, 64 bytes (128 hex chars).''))])])]),
      (u ''verification_methods'', PDict [
       (u ''type'', PStr (u ''array'')),
       (u ''description'', PStr (u ''Wakir-scoped optional extension (DID-document-style verification methods). Not part of the strict AIP draft; ignored by AIP-only verifiers.'')),
       (u ''items'', PDict [
        (u ''type'', PStr (u ''object'')),
        (u ''required'', PList [
         PStr (u ''id''),
         PStr (u ''type''),
         PStr (u ''controller''),
         PStr (u ''publicKeyHex'')]),
        (u ''additionalProperties'', PBool False),
        (u ''properties'', PDict [
         (u ''id'', PDict [(u ''type'', PStr (u ''string'')), (u ''minLength'', PInt 1)]),
         (u ''type'', PDict [
          (u ''type'', PStr (u ''string'')),
          (u ''enum'', PList [
           PStr (u ''Ed25519VerificationKey2020''),
           PStr (u ''EcdsaSecp256k1VerificationKey2019'')])]),
         (u ''controller'', PDict [(u ''type'', PStr (u ''string'')), (u ''minLength'', PInt 1)]),
         (u ''publicKeyHex'', PDict [(u ''type'', PStr (u ''string'')), (u ''pattern'', PStr (u ''^[0-9a-f]+$''))])])])]),
      (u ''service_endpoints'', PDict [
       (u ''type'', PStr (u ''array'')),
       (u ''description'', PStr (u ''Wakir-scoped optional extension. Service endpoints in DID-document style (id, type, serviceEndpoint URI).'')),
       (u ''items'', PDict [
        (u ''type'', PStr (u ''object'')),
        (u ''required'', PList [PStr (u ''id''), PStr (u ''type''), PStr (u ''serviceEndpoint'')]),
        (u ''additionalProperties'', PBool False),
        (u ''properties'', PDict [
         (u ''id'', PDict [(u ''type'', PStr (u ''string'')), (u ''minLength'', PInt 1)]),
         (u ''type'', PDict [(u ''type'', PStr (u ''string'')), (u ''minLength'', PInt 1)]),
         (u ''serviceEndpoint'', PDict [(u ''type'', PStr (u ''string'')), (u ''format'', PStr (u ''uri''))])])])]),
      (u ''biscuit_root_pubkey'', PDict [
       (u ''type'', PStr (u ''string'')),
       (u ''pattern'', PStr (u ''^[0-9a-f]{64}$'')),
       (u ''description'', PStr (u ''Wakir-scoped optional extension. Lowercase-hex Ed25519 public key (64 hex chars) used to verify Biscuit authority-block signatures issued by this identity. When present, capability tokens referencing this AIP document via aip_document_ref MUST verify authority_block.signature against this key. When absent, verifiers fall back to public_keys with purpose='' @ [39] @ u ''biscuit-root'' @ [39] @ u ''.''))])])]"

definition default_schema_loader :: "ustr \<Rightarrow> pyval res" where
  "default_schema_loader name =
     (if name = u ''aip-document/0.1.0'' then Inr aip_document_schema else Inl KeyErr)"

section \<open>The check\<close>

text \<open>
  \<open>lib\<close> is \<open>jsonschema.validate\<close>, \<open>None\<close> where the package is not installed. Its own exception
  class counts as \<open>ValidationError\<close> by its name.
\<close>

definition resolver_schema_validate ::
    "(pyval \<Rightarrow> pyval \<Rightarrow> unit res) option \<Rightarrow> validator_env \<Rightarrow> pyval \<Rightarrow> pyval \<Rightarrow> unit res" where
  "resolver_schema_validate lib E v S =
     (case lib of None \<Rightarrow> validate_pure E v S | Some validate \<Rightarrow> validate v S)"

fun is_validation_error :: "exc \<Rightarrow> bool" where
  "is_validation_error SchemaValidationErr = True"
| "is_validation_error (ExtErr x) = (xn_name x = ''ValidationError'')"
| "is_validation_error e = False"

definition schema_check ::
    "(pyval \<Rightarrow> pyval \<Rightarrow> unit res) option \<Rightarrow> validator_env \<Rightarrow> (ustr \<Rightarrow> pyval res) \<Rightarrow> ustr
     \<Rightarrow> items \<Rightarrow> bool res" where
  "schema_check lib E loader name body =
     (case sbind (loader name) (resolver_schema_validate lib E (PDict body)) of
        Inr _ \<Rightarrow> Inr True
      | Inl e \<Rightarrow>
          if is_validation_error e then Inr False else Inl e)"

section \<open>Without the package\<close>

text \<open>A keyword outside the subset is an error, whatever the instance.\<close>

lemma walk_unsupported:
  assumes "S = PDict d" "\<not> fst ` set d \<subseteq> set supported_keywords"
  shows "walk E v S = Inl NotImplementedErr"
proof -
  have "for_each check_keyword (map (\<lambda>kv. PStr (fst kv)) d) = Inl NotImplementedErr"
    using assms(2) by (induction d) (auto simp: ensure_def)
  then show ?thesis by (simp add: walk.simps [of E v "PDict d"] assms(1) check_keywords_def)
qed

lemma shipped_keyword:
  "\<exists>d. aip_document_schema = PDict d \<and> u ''x-spdx-license-identifier'' \<in> fst ` set d"
  by (simp add: aip_document_schema_def)

lemma shipped_schema_refused: "validate_pure E v aip_document_schema = Inl NotImplementedErr"
proof -
  obtain d where d: "aip_document_schema = PDict d" "u ''x-spdx-license-identifier'' \<in> fst ` set d"
    using shipped_keyword by blast
  have "u ''x-spdx-license-identifier'' \<notin> set supported_keywords"
    by (simp add: supported_keywords_def)
  then show ?thesis
    using d by (auto simp: validate_pure_def intro!: walk_unsupported [OF d(1)])
qed

text \<open>Every document is refused by an error that is no verification result.\<close>

lemma fallback_check_raises:
  "schema_check None E default_schema_loader (u ''aip-document/0.1.0'') body = Inl NotImplementedErr"
  by (simp add: schema_check_def default_schema_loader_def resolver_schema_validate_def
      shipped_schema_refused)

text \<open>
  C27: Where \<open>jsonschema\<close> is not installed, the bridge with the shipped schema verifies no document:
  whatever body a fetch yields, once it parses as an object the fallback validator raises
  \<open>NotImplementedError\<close>, which the bridge passes on instead of a result.
\<close>

theorem fallback_verifies_nothing:
  assumes "bc_schema B = schema_check None E default_schema_loader (u ''aip-document/0.1.0'')"
  shows "(case verify_from_transport B get doc_id of Inl e \<Rightarrow> True | Inr r \<Rightarrow> \<not> vr_ok r)
    \<and> (\<forall>body. get doc_id = Response (Some (PDict body)) raw
         \<longrightarrow> verify_from_transport B get doc_id = Inl NotImplementedErr)"
proof -
  have schema [simp]: "bc_schema B body = Inl NotImplementedErr" for body
    by (simp add: assms fallback_check_raises)
  have "\<not> vr_ok r" if r: "verify_from_transport B get doc_id = Inr r" for r
  proof (cases "get doc_id")
    case (Response a b)
    with r obtain p :: "verify_kind + items" where "(case p of Inl k \<Rightarrow> Inr (failed doc_id k) | Inr body \<Rightarrow> Inl NotImplementedErr) = Inr r"
      by (auto simp: verify_from_transport_def cong: sum.case_cong)
    then show ?thesis by (cases p) (auto simp: failed_def)
  qed (use r in \<open>auto simp: verify_from_transport_def failed_def\<close>)
  then show ?thesis
    by (cases "verify_from_transport B get doc_id")
      (auto simp: verify_from_transport_def parse_body_def cong: sum.case_cong)
qed

lemma fallback_verifies_nothing_witness:
  "verify_from_transport
     \<lparr>bc_sign = sample_sign_env, bc_text = sample_text_env,
      bc_schema = schema_check None small_env default_schema_loader (u ''aip-document/0.1.0''),
      bc_resolver = (\<lambda>_. Inr []), bc_verifier = (\<lambda>_ _ _. Inr True), bc_expected = None\<rparr>
     (\<lambda>_. Response (Some (PDict [])) None) (u ''aip:web:a'') = Inl NotImplementedErr"
  by (rule fallback_verifies_nothing [THEN conjunct2, rule_format]) simp_all

end
