(* ===== verification/DnsAnchor.thy ===== *)
theory DnsAnchor
  imports VerifyBridge
begin

text \<open>
  The DNS anchor lookup, \<open>identity_substrate/dns_anchor.py\<close>: the two TXT resolvers (DNS over HTTPS
  with its failover over providers, and \<open>dnspython\<close>), the reading of TXT data, and the choice of the
  anchor record. A request to a provider and the answer of \<open>dnspython\<close> are parameters.
\<close>

abbreviation DnsAnchorErr :: exc where
  "DnsAnchorErr \<equiv> ClassErr ''DnsAnchorError''"

section \<open>The anchor record\<close>

record dns_anchor =
  da_host :: ustr
  da_fingerprint :: ustr

definition lower_hex :: "nat \<Rightarrow> bool" where
  "lower_hex c \<longleftrightarrow> is_digit c \<or> (97 \<le> c \<and> c \<le> 102)"

definition is_hex :: "nat \<Rightarrow> ustr \<Rightarrow> bool" where
  "is_hex n s \<longleftrightarrow> length s = n \<and> list_all lower_hex s"

text \<open>
  \<open>_TXT_RE.match\<close> on a stripped record, for its group. White space of the pattern is that of
  \<open>str.isspace\<close>; a stripped text does not end in a line feed, so \<open>$\<close> is its end.
\<close>

definition match_txt :: "ustr \<Rightarrow> ustr option" where
  "match_txt s =
     (if starts_with (u ''v=1;'') s then
        (let r = dropWhile py_space (drop 4 s) in
         if starts_with (u ''sha256='') r \<and> is_hex 64 (drop 7 r) then Some (drop 7 r) else None)
      else None)"

definition anchor_matches :: "ustr list \<Rightarrow> ustr list" where
  "anchor_matches txt = List.map_filter (\<lambda>s. match_txt (py_strip s)) txt"

definition parse_anchor :: "ustr \<Rightarrow> ustr list \<Rightarrow> dns_anchor res" where
  "parse_anchor host txt =
     (let matches = anchor_matches txt in
      if matches = [] then Inl DnsAnchorErr
      else if 1 < length (remdups matches) then Inl DnsAnchorErr
      else Inr \<lparr>da_host = host, da_fingerprint = hd matches\<rparr>)"

text \<open>A \<open>TxtResolver\<close> is its \<open>resolve_txt\<close> at the caller's timeout.\<close>

type_synonym txt_resolver = "ustr \<Rightarrow> ustr list res"

definition fetch_anchor :: "txt_resolver \<Rightarrow> ustr \<Rightarrow> dns_anchor res" where
  "fetch_anchor resolver host = sbind (resolver host) (parse_anchor host)"

section \<open>TXT data of a JSON answer\<close>

text \<open>
  The segments between quotes; \<open>None\<close> for a quote that is not closed. Text between segments is
  skipped.
\<close>

function txt_segments :: "ustr \<Rightarrow> ustr list option" where
  "txt_segments [] = Some []"
| "txt_segments (c # s) =
     (if c \<noteq> 34 then txt_segments s
      else (case dropWhile (\<lambda>d. d \<noteq> 34) s of
          [] \<Rightarrow> None
        | _ # rest \<Rightarrow> map_option ((#) (takeWhile (\<lambda>d. d \<noteq> 34) s)) (txt_segments rest)))"
  by pat_completeness auto
termination
proof (relation "measure length", goal_cases)
  case (3 c s q rest)
  have "length (dropWhile (\<lambda>d. d \<noteq> 34) s) \<le> length s" by (rule length_dropWhile_le)
  with 3 show ?case by simp
qed auto

definition strip_quotes :: "ustr \<Rightarrow> ustr" where
  "strip_quotes s = rev (dropWhile (\<lambda>c. c = 34) (rev (dropWhile (\<lambda>c. c = 34) s)))"

definition concat_multi_string_txt :: "ustr \<Rightarrow> ustr" where
  "concat_multi_string_txt raw =
     (if raw = [] then []
      else if \<not> starts_with [34] raw then raw
      else (case txt_segments raw of None \<Rightarrow> strip_quotes raw | Some segs \<Rightarrow> concat segs))"

section \<open>DNS over HTTPS\<close>

text \<open>
  What one request to a provider does: \<open>URLError\<close> (of which \<open>HTTPError\<close> is one) or \<open>TimeoutError\<close>,
  another exception, or a response with its status and body.
\<close>

datatype doh_reply = DohTransportError | DohRaises exc | DohReply int octets

text \<open>The outcome of one provider: a soft failure, or a result or exception that is final.\<close>

datatype doh_outcome = SoftFailure | Final "ustr list res"

text \<open>\<open>_extract_txt_strings\<close>: the TXT entries of an answer; what is no dict has no \<open>get\<close>.\<close>

definition txt_of_entry :: "float_int \<Rightarrow> pyval \<Rightarrow> ustr list res" where
  "txt_of_entry F entry = (case entry of
       PDict d \<Rightarrow>
         (if \<not> py_eq F (get_item d ''type'') (PInt 16) then Inr []
          else (case map_of d (u ''data'') of
              None \<Rightarrow> Inr [[]]
            | Some (PStr raw) \<Rightarrow> Inr [concat_multi_string_txt raw]
            | Some v \<Rightarrow> if py_truthy v then Inl AttributeErr else Inr [[]]))
     | _ \<Rightarrow> Inl AttributeErr)"

definition extract_txt_strings :: "float_int \<Rightarrow> pyval \<Rightarrow> ustr list res" where
  "extract_txt_strings F answers =
     (if \<not> py_truthy answers then Inr []
      else (case answers of
          PList es \<Rightarrow> sbind (mapM_sum (txt_of_entry F) es) (\<lambda>tss. Inr (concat tss))
        | PStr _ \<Rightarrow> Inl AttributeErr
        | PDict _ \<Rightarrow> Inl AttributeErr
        | PBadKeyDict \<Rightarrow> Inl AttributeErr
        | _ \<Rightarrow> Inl TypeErr))"

definition doh_payload :: "float_int \<Rightarrow> pyval \<Rightarrow> doh_outcome" where
  "doh_payload F v = (case v of
       PDict d \<Rightarrow>
         (if py_eq F (get_item d ''Status'') (PInt 3) then Final (Inr [])
          else if \<not> py_eq F (get_item d ''Status'') (PInt 0) then SoftFailure
          else Final (extract_txt_strings F (get_item d ''Answer'')))
     | _ \<Rightarrow> Final (Inl AttributeErr))"

definition query_one :: "text_env \<Rightarrow> float_int \<Rightarrow> (ustr \<Rightarrow> doh_reply) \<Rightarrow> ustr \<Rightarrow> ustr \<Rightarrow> doh_outcome" where
  "query_one T F request url name =
     (case request (url @ u ''?name='' @ name @ u ''&type=TXT'') of
        DohTransportError \<Rightarrow> SoftFailure
      | DohRaises e \<Rightarrow> Final (Inl e)
      | DohReply status body \<Rightarrow>
          if status \<noteq> 200 then SoftFailure
          else (case json_loads_bytes T body of
              Inl e \<Rightarrow> if is_value_error e then SoftFailure else Final (Inl e)
            | Inr v \<Rightarrow> doh_payload F v))"

fun first_final :: "(ustr \<Rightarrow> doh_outcome) \<Rightarrow> ustr list \<Rightarrow> ustr list res" where
  "first_final query [] = Inl DnsAnchorErr"
| "first_final query (url # urls) =
     (case query url of SoftFailure \<Rightarrow> first_final query urls | Final r \<Rightarrow> r)"

definition doh_resolve_txt ::
    "text_env \<Rightarrow> float_int \<Rightarrow> (ustr \<Rightarrow> doh_reply) \<Rightarrow> ustr list \<Rightarrow> txt_resolver" where
  "doh_resolve_txt T F request providers name =
     (if name = [] then Inl DnsAnchorErr
      else first_final (\<lambda>url. query_one T F request url name) providers)"

definition default_providers :: "ustr list" where
  "default_providers = [u ''https://dns.google/resolve'', u ''https://cloudflare-dns.com/dns-query'']"

definition new_doh_providers :: "ustr list option \<Rightarrow> ustr list res" where
  "new_doh_providers providers =
     (let ps = (case providers of None \<Rightarrow> default_providers | Some ps \<Rightarrow> ps) in
      if ps = [] then Inl ValueErr else Inr ps)"

section \<open>dnspython\<close>

text \<open>What \<open>resolve\<close> of the library gives: no records, an exception, or the segments of each record.\<close>

datatype dns_answer =
  NxDomain | NoAnswer | DnsException | DnsRaises exc | Rdata "octets list list"

definition ascii_replace :: "octets \<Rightarrow> ustr" where
  "ascii_replace b = map (\<lambda>c. if c < 128 then c else 65533) b"

definition dnspython_resolve_txt :: "(ustr \<Rightarrow> dns_answer) \<Rightarrow> txt_resolver" where
  "dnspython_resolve_txt query name = (case query name of
       NxDomain \<Rightarrow> Inr []
     | NoAnswer \<Rightarrow> Inr []
     | DnsException \<Rightarrow> Inl DnsAnchorErr
     | DnsRaises e \<Rightarrow> Inl e
     | Rdata records \<Rightarrow> Inr (map (\<lambda>segs. ascii_replace (concat segs)) records))"

section \<open>What is returned\<close>

lemma match_txt_hex: "match_txt s = Some h \<Longrightarrow> is_hex 64 h"
  by (auto simp: match_txt_def Let_def split: if_splits)

lemma remdups_length_le_1: "length (remdups xs) \<le> Suc 0 \<longleftrightarrow> (\<forall>x \<in> set xs. x = hd xs)"
proof (cases xs)
  case (Cons x ys)
  have "length (remdups xs) \<le> Suc 0 \<longleftrightarrow> card (set xs) \<le> Suc 0"
    by (simp add: length_remdups_card_conv)
  also have "\<dots> \<longleftrightarrow> (\<forall>y \<in> set xs. y = x)"
    using Cons by (subst card_le_Suc0_iff_eq) (simp, simp, metis)
  finally show ?thesis using Cons by simp
qed simp

lemma parse_anchor_iff:
  "parse_anchor host txt = Inr a \<longleftrightarrow>
     da_host a = host \<and> set (anchor_matches txt) = {da_fingerprint a}"
proof (cases "anchor_matches txt")
  case (Cons h hs)
  have "1 < length (remdups (h # hs)) \<longleftrightarrow> \<not> (\<forall>x \<in> set hs. x = h)"
    using remdups_length_le_1 [of "h # hs"] by (auto simp: not_less [symmetric] simp del: remdups.simps)
  then have "parse_anchor host txt =
      (if \<forall>x \<in> set hs. x = h then Inr \<lparr>da_host = host, da_fingerprint = h\<rparr> else Inl DnsAnchorErr)"
    using Cons by (simp add: parse_anchor_def Let_def del: remdups.simps)
  then show ?thesis using Cons by (cases a) auto
qed (simp add: parse_anchor_def)

lemma parse_anchor_error: "parse_anchor host txt = Inl e \<Longrightarrow> e = DnsAnchorErr"
  by (auto simp: parse_anchor_def Let_def split: if_splits)

lemma fetch_anchor_iff:
  "fetch_anchor resolver host = Inr a \<longleftrightarrow>
     (\<exists>txt. resolver host = Inr txt \<and> da_host a = host \<and> set (anchor_matches txt) = {da_fingerprint a})"
  by (simp add: fetch_anchor_def parse_anchor_iff)

text \<open>How a zone splits a record into quoted segments makes no difference.\<close>

definition quoted :: "ustr \<Rightarrow> ustr" where
  "quoted s = 34 # s @ [34]"

lemma txt_segments_quoted:
  "34 \<notin> set s \<Longrightarrow> txt_segments (quoted s @ rest) = map_option ((#) s) (txt_segments rest)"
  by (auto simp: quoted_def dropWhile_append takeWhile_append)

lemma txt_segments_joined:
  "(\<And>s. s \<in> set segs \<Longrightarrow> 34 \<notin> set s) \<Longrightarrow>
     txt_segments (join_with [32] (map quoted segs)) = Some segs"
proof (induction segs rule: induct_list012)
  case (2 s)
  then show ?case using txt_segments_quoted [of s "[]"] by simp
next
  case (3 s t segs)
  then show ?case by (simp add: txt_segments_quoted)
qed simp

lemma segmentation_irrelevant:
  assumes "segs \<noteq> []" "\<And>s. s \<in> set segs \<Longrightarrow> 34 \<notin> set s"
  shows "concat_multi_string_txt (join_with [32] (map quoted segs)) = concat segs"
proof -
  have "starts_with [34] (join_with [32] (map quoted segs)) \<and> join_with [32] (map quoted segs) \<noteq> []"
    using assms(1) by (cases segs rule: remdups_adj.cases) (auto simp: quoted_def)
  then show ?thesis
    using txt_segments_joined [OF assms(2)] by (simp add: concat_multi_string_txt_def)
qed

text \<open>Failover.\<close>

lemma first_final_iff:
  "first_final query urls = r \<longleftrightarrow>
     (\<forall>url \<in> set urls. query url = SoftFailure) \<and> r = Inl DnsAnchorErr
     \<or> (\<exists>pre url post. urls = pre @ url # post \<and> (\<forall>x \<in> set pre. query x = SoftFailure)
          \<and> query url = Final r)"
proof (induction urls)
  case (Cons url urls)
  show ?case
  proof (cases "query url")
    case SoftFailure
    then show ?thesis using Cons.IH by (auto simp: Cons_eq_append_conv) (metis append_Cons set_ConsD)+
  next
    case (Final x)
    then show ?thesis by (auto simp: Cons_eq_append_conv intro: exI [of _ "[]"])
  qed
qed auto

text \<open>
  A provider whose answer is JSON but no object ends the lookup with an \<open>AttributeError\<close>: neither a
  failover to the next provider nor the \<open>DnsAnchorError\<close> the protocol asks for.
\<close>

lemma malformed_answer_escapes:
  assumes "name \<noteq> []" "json_loads_bytes T body = Inr (PList [])"
    and "request (url @ u ''?name='' @ name @ u ''&type=TXT'') = DohReply 200 body"
  shows "doh_resolve_txt T F request (url # urls) name = Inl AttributeErr"
  using assms by (simp add: doh_resolve_txt_def query_one_def doh_payload_def)

text \<open>A record in the form the code documents is found.\<close>

lemma published_record_matches:
  assumes "is_hex 64 h"
  shows "match_txt (py_strip (u ''v=1; sha256='' @ h)) = Some h"
proof -
  have "h \<noteq> []" using assms by (auto simp: is_hex_def)
  moreover from this have "lower_hex (last h)" using assms by (simp add: is_hex_def list_all_iff)
  ultimately have h: "length h = 64" "\<not> py_space (last h)" "h \<noteq> []"
    using assms by (auto simp: is_hex_def lower_hex_def is_digit_def py_space_def)
  have "dropWhile py_space (rev (u ''v=1; sha256='' @ h)) = rev (u ''v=1; sha256='' @ h)"
    using h by (cases "rev h") (auto simp: last_rev [symmetric] hd_rev)
  moreover have "dropWhile py_space (u ''v=1; sha256='' @ h) = u ''v=1; sha256='' @ h"
    by (simp add: u_def py_space_def)
  ultimately have "py_strip (u ''v=1; sha256='' @ h) = u ''v=1; sha256='' @ h"
    by (simp only: py_strip_def rev_rev_ident)
  moreover have "match_txt (u ''v=1; sha256='' @ h) = Some h"
    using assms by (simp add: match_txt_def u_def py_space_def)
  ultimately show ?thesis by simp
qed

end
