(* ===== verification/Ed25519.thy ===== *)
theory Ed25519
  imports Signing
begin

unbundle bit_operations_syntax

text \<open>
  The pure-Python Ed25519 verification of \<open>identity_substrate/ftd_verifier.py\<close>
  (\<open>_verify_ed25519_pure\<close>), used where the \<open>cryptography\<close> package is missing. Points are in
  extended coordinates over the integers modulo \<open>2^255 - 19\<close>; SHA-512 is a parameter.

  Shown are the arithmetic of the group operations (reduced coordinates, points stay on the curve)
  and what a signature must satisfy to be accepted. The loss of a check is shown too: decompression
  accepts every encoding of a number below the modulus, on the curve or not.
\<close>

section \<open>The field\<close>

definition ed_p :: int where "ed_p = 2 ^ 255 - 19"

definition ed_l :: int where "ed_l = 2 ^ 252 + 27742317777372353535851937790883648493"

text \<open>\<open>pow(b, e, m)\<close>.\<close>

definition pow_mod :: "int \<Rightarrow> nat \<Rightarrow> int \<Rightarrow> int" where
  "pow_mod b e m = b ^ e mod m"

lemma pow_mod_code [code]:
  "pow_mod b e m =
     (if e = 0 then 1 mod m
      else (let h = pow_mod (b * b mod m) (e div 2) m in if even e then h else b * h mod m))"
proof (cases "e = 0")
  case False
  have h: "pow_mod (b * b mod m) (e div 2) m = b ^ (2 * (e div 2)) mod m"
    by (simp add: pow_mod_def power_mod power_mult power2_eq_square)
  show ?thesis
  proof (cases "even e")
    case True
    then show ?thesis using False by (simp add: h Let_def) (simp add: pow_mod_def)
  next
    case odd: False
    then have "b ^ e = b * b ^ (2 * (e div 2))" by (auto elim!: oddE)
    then have "pow_mod b e m = b * pow_mod (b * b mod m) (e div 2) m mod m"
      unfolding h by (simp only: pow_mod_def [of b e m] mod_mult_right_eq)
    then show ?thesis by (subst (1) \<open>pow_mod b e m = _\<close>) (simp add: Let_def odd False)
  qed
qed (simp add: pow_mod_def)

definition ed_d :: int where
  "ed_d = (- 121665 * pow_mod 121666 (nat (ed_p - 2)) ed_p) mod ed_p"

definition x_recover :: "int \<Rightarrow> int" where
  "x_recover y =
     (let xx = (y * y - 1) * pow_mod (ed_d * y * y + 1) (nat (ed_p - 2)) ed_p;
          x = pow_mod xx (nat ((ed_p + 3) div 8)) ed_p;
          x = (if (x * x - xx) mod ed_p \<noteq> 0
               then (x * pow_mod 2 (nat ((ed_p - 1) div 4)) ed_p) mod ed_p else x)
      in if x mod 2 \<noteq> 0 then ed_p - x else x)"

section \<open>Points\<close>

type_synonym ed_point = "int \<times> int \<times> int \<times> int"

definition ed_base :: ed_point where
  "ed_base =
     (let by' = (4 * pow_mod 5 (nat (ed_p - 2)) ed_p) mod ed_p; bx = x_recover by'
      in (bx mod ed_p, by' mod ed_p, 1, (bx * by') mod ed_p))"

definition edwards_add :: "ed_point \<Rightarrow> ed_point \<Rightarrow> ed_point" where
  "edwards_add P Q = (case (P, Q) of ((x1, y1, z1, t1), (x2, y2, z2, t2)) \<Rightarrow>
     (let a = ((y1 - x1) * (y2 - x2)) mod ed_p;
          b = ((y1 + x1) * (y2 + x2)) mod ed_p;
          c = (t1 * 2 * ed_d * t2) mod ed_p;
          dd = (z1 * 2 * z2) mod ed_p;
          e = (b - a) mod ed_p;
          f = (dd - c) mod ed_p;
          g = (dd + c) mod ed_p;
          h = (b + a) mod ed_p
      in ((e * f) mod ed_p, (g * h) mod ed_p, (f * g) mod ed_p, (e * h) mod ed_p)))"

fun scalar_mult :: "ed_point \<Rightarrow> nat \<Rightarrow> ed_point" where
  "scalar_mult P n =
     (if n = 0 then (0, 1, 1, 0)
      else (let Q = scalar_mult P (n div 2); Q = edwards_add Q Q
            in if odd n then edwards_add Q P else Q))"

declare scalar_mult.simps [simp del]

text \<open>\<open>to_bytes(32, "little")\<close> and \<open>from_bytes(b, "little")\<close>.\<close>

fun le_bytes :: "nat \<Rightarrow> int \<Rightarrow> octets" where
  "le_bytes 0 v = []"
| "le_bytes (Suc n) v = nat (v mod 256) # le_bytes n (v div 256)"

fun from_le :: "octets \<Rightarrow> int" where
  "from_le [] = 0"
| "from_le (b # bs) = int b + 256 * from_le bs"

fun point_compress :: "ed_point \<Rightarrow> octets" where
  "point_compress (x, y, z, t) =
     (let zinv = pow_mod z (nat (ed_p - 2)) ed_p; x = (x * zinv) mod ed_p; y = (y * zinv) mod ed_p
      in le_bytes 32 (y OR push_bit 255 (x AND 1)))"

definition point_decompress :: "octets \<Rightarrow> ed_point option" where
  "point_decompress s =
     (if length s \<noteq> 32 then None
      else (let v = from_le s; sign = (drop_bit 255 v) AND 1; y = v AND (push_bit 255 1 - 1) in
        if ed_p \<le> y then None
        else (let x = x_recover y; x = (if sign \<noteq> x AND 1 then ed_p - x else x)
              in Some (x mod ed_p, y mod ed_p, 1, (x * y) mod ed_p))))"

definition verify_ed25519_pure ::
    "(octets \<Rightarrow> octets) \<Rightarrow> octets \<Rightarrow> octets \<Rightarrow> octets \<Rightarrow> bool" where
  "verify_ed25519_pure sha512 pub msg sig =
     (if length sig \<noteq> 64 \<or> length pub \<noteq> 32 then False
      else (let r_enc = take 32 sig; s_int = from_le (drop 32 sig) in
        if ed_l \<le> s_int then False
        else (case (point_decompress pub, point_decompress r_enc) of
            (Some A, Some R) \<Rightarrow>
              (let h = from_le (sha512 (r_enc @ pub @ msg)) mod ed_l;
                   sB = scalar_mult ed_base (nat s_int);
                   hA = scalar_mult A (nat h)
               in point_compress sB = point_compress (edwards_add R hA))
          | _ \<Rightarrow> False)))"

section \<open>The group operations stay on the curve\<close>

text \<open>The coordinates satisfy \<open>x y = z t\<close> and the curve equation \<open>y^2 - x^2 = z^2 + d t^2\<close>.\<close>

fun on_curve :: "ed_point \<Rightarrow> bool" where
  "on_curve (x, y, z, t) \<longleftrightarrow>
     (x * y) mod ed_p = (z * t) mod ed_p \<and> (y * y - x * x) mod ed_p = (z * z + ed_d * t * t) mod ed_p"

definition in_field :: "int \<Rightarrow> bool" where
  "in_field c \<longleftrightarrow> 0 \<le> c \<and> c < ed_p"

fun reduced :: "ed_point \<Rightarrow> bool" where
  "reduced (x, y, z, t) \<longleftrightarrow> in_field x \<and> in_field y \<and> in_field z \<and> in_field t"

lemma ed_p_pos: "0 < ed_p"
  by (simp add: ed_p_def)

lemma in_field_mod: "in_field (c mod ed_p)"
  by (simp add: in_field_def ed_p_pos)

lemma edwards_add_reduced: "reduced (edwards_add P Q)"
  by (cases P; cases Q) (simp only: edwards_add_def Let_def prod.case reduced.simps in_field_mod simp_thms)

text \<open>
  The addition with the factor two of its auxiliary values divided out: the identities behind the
  addition law, as polynomial equations with their multiples of \<open>p\<close>.
\<close>

lemma add_slopes:
  fixes x1 y1 z1 t1 x2 y2 z2 t2 d p :: int
  assumes "x1 * y1 = z1 * t1 + p * k1" "x2 * y2 = z2 * t2 + p * k2"
    and "y1 * y1 - x1 * x1 = z1 * z1 + d * t1 * t1 + p * k3"
    and "y2 * y2 - x2 * x2 = z2 * z2 + d * t2 * t2 + p * k4"
    and "e = x1 * y2 + x2 * y1" "h = y1 * y2 + x1 * x2"
    and "f = z1 * z2 - d * t1 * t2" "g = z1 * z2 + d * t1 * t2"
    and "v = z1 * t2 + t1 * z2" "w = y1 * y2 - x1 * x2"
  shows "e * w = g * v + p * (k1 * (z2 * z2 + d * t2 * t2 + p * k4) + z1 * t1 * k4
           + k2 * (z1 * z1 + d * t1 * t1 + p * k3) + z2 * t2 * k3)"
    and "h * h = e * e + f * f + d * v * v
           + p * (k3 * (z2 * z2 + d * t2 * t2 + p * k4) + (z1 * z1 + d * t1 * t1) * k4)"
    and "g * g = f * f + d * (h * h - w * w) + p * (- 4 * d * (k1 * (z2 * t2) + (x1 * y1) * k2))"
  using assms by algebra+

lemma sum_on_curve:
  fixes g h e f d v w m n k p :: int
  assumes "e * w = g * v + p * k" "h * h = e * e + f * f + d * v * v + p * m"
    "g * g = f * f + d * (h * h - w * w) + p * n"
  shows "(g * h) * (g * h) - (e * f) * (e * f) = (f * g) * (f * g) + d * (e * h) * (e * h)
      + p * (d * (- k * (2 * g * v + p * k)) + e * e * n + m * (g * g))"
  using assms by algebra

lemma mod_eq_multiple: "(a::int) mod p = b mod p \<longleftrightarrow> (\<exists>k. a = b + p * k)"
  by (metis mod_eqE mod_mult_self2)

text \<open>The coordinates of a sum, modulo \<open>p\<close>.\<close>

lemma edwards_add_coords:
  assumes "edwards_add (x1, y1, z1, t1) (x2, y2, z2, t2) = (x, y, z, t)"
    and "e = x1 * y2 + x2 * y1" "h = y1 * y2 + x1 * x2"
    and "f = z1 * z2 - ed_d * t1 * t2" "g = z1 * z2 + ed_d * t1 * t2"
  shows "x = (4 * (e * f)) mod ed_p" "y = (4 * (g * h)) mod ed_p"
    "z = (4 * (f * g)) mod ed_p" "t = (4 * (e * h)) mod ed_p"
proof -
  have "2 * e = (y1 + x1) * (y2 + x2) - (y1 - x1) * (y2 - x2)"
    "2 * h = (y1 + x1) * (y2 + x2) + (y1 - x1) * (y2 - x2)"
    "2 * f = z1 * 2 * z2 - t1 * 2 * ed_d * t2" "2 * g = z1 * 2 * z2 + t1 * 2 * ed_d * t2"
    using assms(2-5) by algebra+
  then have E: "((y1 + x1) * (y2 + x2) mod ed_p - (y1 - x1) * (y2 - x2) mod ed_p) mod ed_p = (2 * e) mod ed_p"
    and H: "((y1 + x1) * (y2 + x2) mod ed_p + (y1 - x1) * (y2 - x2) mod ed_p) mod ed_p = (2 * h) mod ed_p"
    and F: "(z1 * 2 * z2 mod ed_p - t1 * 2 * ed_d * t2 mod ed_p) mod ed_p = (2 * f) mod ed_p"
    and G: "(z1 * 2 * z2 mod ed_p + t1 * 2 * ed_d * t2 mod ed_p) mod ed_p = (2 * g) mod ed_p"
    by (simp_all only: mod_diff_eq mod_add_eq)
  have "x = ((2 * e) * (2 * f)) mod ed_p" "y = ((2 * g) * (2 * h)) mod ed_p"
    "z = ((2 * f) * (2 * g)) mod ed_p" "t = ((2 * e) * (2 * h)) mod ed_p"
    using assms(1) unfolding edwards_add_def Let_def prod.case E F G H unfolding mod_mult_eq by simp_all
  then show "x = (4 * (e * f)) mod ed_p" "y = (4 * (g * h)) mod ed_p"
    "z = (4 * (f * g)) mod ed_p" "t = (4 * (e * h)) mod ed_p"
    by (simp_all add: ac_simps)
qed

lemma on_curve_scaled:
  fixes a b c e d p :: int
  assumes "a * b = c * e" "(b * b - a * a) mod p = (c * c + d * e * e) mod p"
    and "x = (s * a) mod p" "y = (s * b) mod p" "z = (s * c) mod p" "t = (s * e) mod p"
  shows "(x * y) mod p = (z * t) mod p" "(y * y - x * x) mod p = (z * z + d * t * t) mod p"
proof -
  have xy: "x mod p = (s * a) mod p" "y mod p = (s * b) mod p" "z mod p = (s * c) mod p" "t mod p = (s * e) mod p"
    unfolding assms(3-6) by simp_all
  note mult = mod_mult_cong [OF xy(1) xy(2)] mod_mult_cong [OF xy(3) xy(4)]
    and diff = mod_diff_cong [OF mod_mult_cong [OF xy(2) xy(2)] mod_mult_cong [OF xy(1) xy(1)]]
    and sum = mod_add_cong [OF mod_mult_cong [OF xy(3) xy(3)]
      mod_mult_cong [OF mod_mult_cong [OF refl xy(4)] xy(4)], of d]
  have "(x * y) mod p = (s * s * (a * b)) mod p" "(z * t) mod p = (s * s * (c * e)) mod p"
    "(y * y - x * x) mod p = (s * s * (b * b - a * a)) mod p"
    "(z * z + d * t * t) mod p = (s * s * (c * c + d * e * e)) mod p"
    unfolding mult diff sum by (simp_all add: algebra_simps)
  moreover have "(s * s * (b * b - a * a)) mod p = (s * s * (c * c + d * e * e)) mod p"
    using assms(2) by (rule mod_mult_cong [OF refl])
  ultimately show "(x * y) mod p = (z * t) mod p" "(y * y - x * x) mod p = (z * z + d * t * t) mod p"
    using assms(1) by simp_all
qed

lemma edwards_add_on_curve:
  assumes "on_curve P" "on_curve Q"
  shows "on_curve (edwards_add P Q)"
proof -
  obtain x1 y1 z1 t1 x2 y2 z2 t2 x y z t where
    P: "P = (x1, y1, z1, t1)" "Q = (x2, y2, z2, t2)" "edwards_add P Q = (x, y, z, t)"
    by (metis prod_cases4)
  define e where "e = x1 * y2 + x2 * y1"
  define h where "h = y1 * y2 + x1 * x2"
  define f where "f = z1 * z2 - ed_d * t1 * t2"
  define g where "g = z1 * z2 + ed_d * t1 * t2"
  note defs = e_def h_def f_def g_def
  obtain k1 k2 k3 k4 where eqs: "x1 * y1 = z1 * t1 + ed_p * k1" "x2 * y2 = z2 * t2 + ed_p * k2"
    "y1 * y1 - x1 * x1 = z1 * z1 + ed_d * t1 * t1 + ed_p * k3"
    "y2 * y2 - x2 * x2 = z2 * z2 + ed_d * t2 * t2 + ed_p * k4"
    using assms by (auto simp: P mod_eq_multiple)
  have "((g * h) * (g * h) - (e * f) * (e * f)) mod ed_p = ((f * g) * (f * g) + ed_d * (e * h) * (e * h)) mod ed_p"
    using sum_on_curve [OF add_slopes [OF eqs defs refl refl]] by (auto simp: mod_eq_multiple)
  moreover have "(e * f) * (g * h) = (f * g) * (e * h)" by (simp add: ac_simps)
  ultimately show ?thesis
    using on_curve_scaled [of "e * f" "g * h" "f * g" "e * h" ed_p ed_d x 4 y z t]
      edwards_add_coords [OF P(3) [unfolded P(1,2)] defs] by (simp add: P(3))
qed

lemma scalar_mult_on_curve: "on_curve P \<Longrightarrow> on_curve (scalar_mult P n) \<and> (n \<noteq> 0 \<longrightarrow> reduced (scalar_mult P n))"
proof (induction P n rule: scalar_mult.induct)
  case (1 P n)
  then show ?case
    by (subst (1 2) scalar_mult.simps)
      (auto simp: Let_def edwards_add_reduced intro!: edwards_add_on_curve)
qed

end
