(* ===== verification/FtdDocument.thy ===== *)
theory FtdDocument
  imports DnsAnchor Ed25519 Pyre
begin

text \<open>
  Federation trust documents, first part of \<open>identity_substrate/ftd_verifier.py\<close>: the structural
  validator, timestamps, the local canonicaliser, and the issuer keys that are valid at a time. The
  local canonicaliser is compared with the one of \<open>_jcs_pure.py\<close>.
\<close>

abbreviation FTDSchemaErr :: exc where "FTDSchemaErr \<equiv> ClassErr ''FTDSchemaError''"
abbreviation FTDSignatureErr :: exc where "FTDSignatureErr \<equiv> ClassErr ''FTDSignatureError''"
abbreviation FTDAnchorErr :: exc where "FTDAnchorErr \<equiv> ClassErr ''FTDAnchorError''"
abbreviation FTDExpiredErr :: exc where "FTDExpiredErr \<equiv> ClassErr ''FTDExpiredError''"
abbreviation FTDIssuerKeyErr :: exc where "FTDIssuerKeyErr \<equiv> ClassErr ''FTDIssuerKeyError''"
abbreviation FTDIDMismatchErr :: exc where "FTDIDMismatchErr \<equiv> ClassErr ''FTDIDMismatchError''"

section \<open>Timestamps and patterns\<close>

text \<open>A time without an offset is refused here.\<close>

definition ftd_parse_rfc3339 :: "pyenv \<Rightarrow> pyval \<Rightarrow> dt res" where
  "ftd_parse_rfc3339 P value = (case value of
       PStr s \<Rightarrow> sbind (fromisoformat P (replace_z s)) (\<lambda>d.
         if \<not> aware d then Inl ValueErr else astimezone_utc P d)
     | _ \<Rightarrow> Inl ValueErr)"

definition ascii_alnum :: "nat \<Rightarrow> bool" where
  "ascii_alnum c \<longleftrightarrow> is_digit c \<or> (65 \<le> c \<and> c \<le> 90) \<or> (97 \<le> c \<and> c \<le> 122)"

definition host_char :: "nat \<Rightarrow> bool" where
  "host_char c \<longleftrightarrow> ascii_alnum c \<or> c = 46 \<or> c = 45"

definition hex_match :: "nat \<Rightarrow> pyval \<Rightarrow> bool" where
  "hex_match n v = (case v of PStr s \<Rightarrow> dollar (is_hex n) s | _ \<Rightarrow> False)"

definition ftd_id_rx :: rx where
  "ftd_id_rx = RSeq (RLit (u ''did:web:'')) (RSeq (RPlus (RCls host_char))
     (RSeq (RStar (RSeq (RLit (u '':'')) (RPlus (RCls (\<lambda>c. host_char c \<or> c = 95)))))
       (RSeq (RLit (u '':ftd:v'')) (RPlus (RCls is_digit)))))"

definition ftd_anchor_host_rx :: rx where
  "ftd_anchor_host_rx = RSeq (RLit (u ''_wakir-ftd.'')) (RPlus (RCls host_char))"

definition str_match :: "rx \<Rightarrow> pyval \<Rightarrow> bool" where
  "str_match r v = (case v of PStr s \<Rightarrow> rx_match r s | _ \<Rightarrow> False)"

definition nonempty_str :: "pyval \<Rightarrow> bool" where
  "nonempty_str v = (case v of PStr s \<Rightarrow> s \<noteq> [] | _ \<Rightarrow> False)"

definition has_keys :: "items \<Rightarrow> string list \<Rightarrow> bool" where
  "has_keys d ks \<longleftrightarrow> list_all (\<lambda>k. map_of d (u k) \<noteq> None) ks"

text \<open>\<open>d[k]\<close>: of a missing key \<open>KeyError\<close>, of what is not a dict \<open>TypeError\<close>.\<close>

definition item_of :: "pyval \<Rightarrow> string \<Rightarrow> pyval res" where
  "item_of v k = (case v of
       PDict d \<Rightarrow> (case map_of d (u k) of None \<Rightarrow> Inl KeyErr | Some x \<Rightarrow> Inr x)
     | _ \<Rightarrow> Inl TypeErr)"

lemma item_of_keys: "has_keys d ks \<Longrightarrow> k \<in> set ks \<Longrightarrow> item_of (PDict d) k = Inr (get_item d k)"
  by (auto simp: item_of_def get_item_def has_keys_def list_all_iff)

lemma item_of_Inr: "item_of v k = Inr x \<Longrightarrow> get_item (entry_items v) k = x \<and> map_of (entry_items v) (u k) = Some x"
  by (auto simp: item_of_def get_item_def split: pyval.splits option.splits)

section \<open>The structural validator\<close>

definition check_stamp :: "pyenv \<Rightarrow> pyval \<Rightarrow> unit res" where
  "check_stamp P v = sbind (rethrow is_value_error FTDSchemaErr (ftd_parse_rfc3339 P v)) (\<lambda>_. Inr ())"

abbreviation schema_ensure :: "bool \<Rightarrow> unit res" where
  "schema_ensure b \<equiv> ensure b FTDSchemaErr"

definition check_item :: "pyval \<Rightarrow> string \<Rightarrow> (pyval \<Rightarrow> bool) \<Rightarrow> unit res" where
  "check_item v k test = sbind (item_of v k) (\<lambda>x. schema_ensure (test x))"

definition issuer_key_required :: "string list" where
  "issuer_key_required = [''kid'', ''alg'', ''public_key'', ''purpose'', ''valid_from'']"

definition validate_issuer_key :: "pyenv \<Rightarrow> pyval \<Rightarrow> unit res" where
  "validate_issuer_key P entry = (case entry of
       PDict e \<Rightarrow>
         sbind (schema_ensure (has_keys e issuer_key_required)) (\<lambda>_.
         sbind (check_item entry ''kid'' nonempty_str) (\<lambda>_.
         sbind (check_item entry ''alg'' (\<lambda>v. v = PStr (u ''Ed25519''))) (\<lambda>_.
         sbind (check_item entry ''public_key'' (hex_match 64)) (\<lambda>_.
         sbind (check_item entry ''purpose'' (\<lambda>v. v = PStr (u ''biscuit-root''))) (\<lambda>_.
         sbind (sbind (item_of entry ''valid_from'') (check_stamp P)) (\<lambda>_.
         if get_item e ''valid_until'' = PNone then Inr ()
         else sbind (item_of entry ''valid_until'') (check_stamp P)))))))
     | _ \<Rightarrow> Inl FTDSchemaErr)"

definition anchor_required :: "string list" where
  "anchor_required = [''kind'', ''host'', ''fingerprint_sha256'']"

definition validate_anchor :: "pyval \<Rightarrow> unit res" where
  "validate_anchor anchor = (case anchor of
       PDict a \<Rightarrow>
         sbind (schema_ensure (has_keys a anchor_required)) (\<lambda>_.
         sbind (check_item anchor ''kind'' (\<lambda>v. v = PStr (u ''dns-txt''))) (\<lambda>_.
         sbind (check_item anchor ''host'' (str_match ftd_anchor_host_rx)) (\<lambda>_.
         check_item anchor ''fingerprint_sha256'' (hex_match 64))))
     | _ \<Rightarrow> Inl FTDSchemaErr)"

definition signature_required :: "string list" where
  "signature_required = [''alg'', ''kid'', ''signature'']"

definition validate_signature :: "pyval \<Rightarrow> unit res" where
  "validate_signature sig = (case sig of
       PDict s \<Rightarrow>
         sbind (schema_ensure (has_keys s signature_required)) (\<lambda>_.
         sbind (check_item sig ''alg'' (\<lambda>v. v = PStr (u ''Ed25519''))) (\<lambda>_.
         sbind (check_item sig ''kid'' nonempty_str) (\<lambda>_.
         check_item sig ''signature'' (hex_match 128))))
     | _ \<Rightarrow> Inl FTDSchemaErr)"

definition validate_endpoint :: "pyval \<Rightarrow> unit res" where
  "validate_endpoint ep = (case ep of
       PDict e \<Rightarrow>
         sbind (schema_ensure (has_keys e [''rel''])) (\<lambda>_.
         sbind (check_item ep ''rel'' nonempty_str) (\<lambda>_.
         sbind (schema_ensure (has_keys e [''url''])) (\<lambda>_.
         check_item ep ''url'' nonempty_str)))
     | _ \<Rightarrow> Inl FTDSchemaErr)"

definition validate_endpoints :: "items \<Rightarrow> unit res" where
  "validate_endpoints d = (case map_of d (u ''endpoints'') of
       None \<Rightarrow> Inr ()
     | Some (PList eps) \<Rightarrow> sbind (mapM_sum validate_endpoint eps) (\<lambda>_. Inr ())
     | Some _ \<Rightarrow> Inl FTDSchemaErr)"

definition ftd_required :: "string list" where
  "ftd_required = [''wakir_ftd'', ''id'', ''domain'', ''issued_at'', ''expires'', ''ftd_root_pubkey'',
     ''issuer_keys'', ''anchor'', ''document_signature'']"

definition validate_issuer_keys :: "pyenv \<Rightarrow> pyval \<Rightarrow> unit res" where
  "validate_issuer_keys P v = (case v of
       PList (k # ks) \<Rightarrow> sbind (mapM_sum (validate_issuer_key P) (k # ks)) (\<lambda>_. Inr ())
     | _ \<Rightarrow> Inl FTDSchemaErr)"

definition structural_validate :: "pyenv \<Rightarrow> pyval \<Rightarrow> unit res" where
  "structural_validate P doc = (case doc of
       PDict d \<Rightarrow>
         sbind (schema_ensure (has_keys d ftd_required)) (\<lambda>_.
         sbind (check_item doc ''wakir_ftd'' (\<lambda>v. v = PStr (u ''0.1.0''))) (\<lambda>_.
         sbind (check_item doc ''id'' (str_match ftd_id_rx)) (\<lambda>_.
         sbind (sbind (item_of doc ''issued_at'') (check_stamp P)) (\<lambda>_.
         sbind (sbind (item_of doc ''expires'') (check_stamp P)) (\<lambda>_.
         sbind (check_item doc ''domain'' nonempty_str) (\<lambda>_.
         sbind (check_item doc ''ftd_root_pubkey'' (hex_match 64)) (\<lambda>_.
         sbind (sbind (item_of doc ''issuer_keys'') (validate_issuer_keys P)) (\<lambda>_.
         sbind (sbind (item_of doc ''anchor'') validate_anchor) (\<lambda>_.
         sbind (sbind (item_of doc ''document_signature'') validate_signature) (\<lambda>_.
         validate_endpoints d))))))))))
     | _ \<Rightarrow> Inl FTDSchemaErr)"

text \<open>Behind the check for the required members no lookup fails, and each step sees its member.\<close>

lemma validate_issuer_key_eq:
  "validate_issuer_key P (PDict e) =
     sbind (schema_ensure (has_keys e issuer_key_required)) (\<lambda>_.
     sbind (schema_ensure (nonempty_str (get_item e ''kid''))) (\<lambda>_.
     sbind (schema_ensure (get_item e ''alg'' = PStr (u ''Ed25519''))) (\<lambda>_.
     sbind (schema_ensure (hex_match 64 (get_item e ''public_key''))) (\<lambda>_.
     sbind (schema_ensure (get_item e ''purpose'' = PStr (u ''biscuit-root''))) (\<lambda>_.
     sbind (check_stamp P (get_item e ''valid_from'')) (\<lambda>_.
     if get_item e ''valid_until'' = PNone then Inr ()
     else check_stamp P (get_item e ''valid_until'')))))))"
proof (cases "has_keys e issuer_key_required")
  case True
  have "item_of (PDict e) ''valid_until'' = Inr (get_item e ''valid_until'')" if "get_item e ''valid_until'' \<noteq> PNone"
    using that by (auto simp: item_of_def get_item_def split: option.splits)
  then show ?thesis
    by (simp add: validate_issuer_key_def check_item_def item_of_keys [OF True] True issuer_key_required_def)
qed (simp add: validate_issuer_key_def)

lemma validate_anchor_eq:
  "validate_anchor (PDict a) =
     sbind (schema_ensure (has_keys a anchor_required)) (\<lambda>_.
     sbind (schema_ensure (get_item a ''kind'' = PStr (u ''dns-txt''))) (\<lambda>_.
     sbind (schema_ensure (str_match ftd_anchor_host_rx (get_item a ''host''))) (\<lambda>_.
     schema_ensure (hex_match 64 (get_item a ''fingerprint_sha256'')))))"
proof (cases "has_keys a anchor_required")
  case True
  then show ?thesis
    by (simp add: validate_anchor_def check_item_def item_of_keys [OF True] anchor_required_def)
qed (simp add: validate_anchor_def)

lemma validate_signature_eq:
  "validate_signature (PDict s) =
     sbind (schema_ensure (has_keys s signature_required)) (\<lambda>_.
     sbind (schema_ensure (get_item s ''alg'' = PStr (u ''Ed25519''))) (\<lambda>_.
     sbind (schema_ensure (nonempty_str (get_item s ''kid''))) (\<lambda>_.
     schema_ensure (hex_match 128 (get_item s ''signature'')))))"
proof (cases "has_keys s signature_required")
  case True
  then show ?thesis
    by (simp add: validate_signature_def check_item_def item_of_keys [OF True] signature_required_def)
qed (simp add: validate_signature_def)

lemma structural_validate_eq:
  "structural_validate P (PDict d) =
     sbind (schema_ensure (has_keys d ftd_required)) (\<lambda>_.
     sbind (schema_ensure (get_item d ''wakir_ftd'' = PStr (u ''0.1.0''))) (\<lambda>_.
     sbind (schema_ensure (str_match ftd_id_rx (get_item d ''id''))) (\<lambda>_.
     sbind (check_stamp P (get_item d ''issued_at'')) (\<lambda>_.
     sbind (check_stamp P (get_item d ''expires'')) (\<lambda>_.
     sbind (schema_ensure (nonempty_str (get_item d ''domain''))) (\<lambda>_.
     sbind (schema_ensure (hex_match 64 (get_item d ''ftd_root_pubkey''))) (\<lambda>_.
     sbind (validate_issuer_keys P (get_item d ''issuer_keys'')) (\<lambda>_.
     sbind (validate_anchor (get_item d ''anchor'')) (\<lambda>_.
     sbind (validate_signature (get_item d ''document_signature'')) (\<lambda>_.
     validate_endpoints d))))))))))"
proof (cases "has_keys d ftd_required")
  case True
  then show ?thesis
    by (simp add: structural_validate_def check_item_def item_of_keys [OF True] ftd_required_def)
qed (simp add: structural_validate_def)

lemma structural_dict: "structural_validate P doc = Inr () \<Longrightarrow> doc = PDict (entry_items doc)"
  by (cases doc) (auto simp: structural_validate_def)

text \<open>What a validated document is known to have.\<close>

lemma validated_key:
  "validate_issuer_key P v = Inr () \<Longrightarrow> \<exists>e. v = PDict e \<and> has_keys e issuer_key_required"
  by (cases v) (auto simp: validate_issuer_key_def split: if_splits)

lemma validated_keys:
  assumes "validate_issuer_keys P v = Inr ()"
  obtains raw where "v = PList raw" "\<And>x. x \<in> set raw \<Longrightarrow> \<exists>e. x = PDict e \<and> has_keys e issuer_key_required"
proof -
  obtain raw us where raw: "v = PList raw" "mapM_sum (validate_issuer_key P) raw = Inr us"
    using assms by (auto simp: validate_issuer_keys_def simp del: mapM_sum.simps split: pyval.splits list.splits)
  have "validate_issuer_key P x = Inr ()" if "x \<in> set raw" for x
    using raw(2) that by (auto simp: mapM_sum_Inr_iff list_all2_conv_all_nth in_set_conv_nth)
  with that raw(1) validated_key show ?thesis by blast
qed

lemma validated_members:
  assumes "structural_validate P (PDict d) = Inr ()"
  obtains raw a s where "has_keys d ftd_required" "get_item d ''issuer_keys'' = PList raw"
    "\<And>x. x \<in> set raw \<Longrightarrow> \<exists>e. x = PDict e \<and> has_keys e issuer_key_required"
    "get_item d ''anchor'' = PDict a" "has_keys a anchor_required"
    "get_item d ''document_signature'' = PDict s" "has_keys s signature_required"
proof -
  have v: "has_keys d ftd_required" "validate_issuer_keys P (get_item d ''issuer_keys'') = Inr ()"
    "validate_anchor (get_item d ''anchor'') = Inr ()" "validate_signature (get_item d ''document_signature'') = Inr ()"
    using assms by (auto simp: structural_validate_eq)
  obtain a where "get_item d ''anchor'' = PDict a" "has_keys a anchor_required"
    using v(3) by (cases "get_item d ''anchor''") (auto simp: validate_anchor_def)
  moreover obtain s where "get_item d ''document_signature'' = PDict s" "has_keys s signature_required"
    using v(4) by (cases "get_item d ''document_signature''") (auto simp: validate_signature_def)
  ultimately show ?thesis using validated_keys [OF v(2)] that [OF v(1)] by metis
qed

section \<open>The local canonicaliser\<close>

function local_jcs_impl :: "pyval \<Rightarrow> ustr res" where
  "local_jcs_impl PNone = Inr (u ''null'')"
| "local_jcs_impl (PBool b) = Inr (if b then u ''true'' else u ''false'')"
| "local_jcs_impl (PStr s) = Inr (json_string s)"
| "local_jcs_impl (PInt i) = int_repr i"
| "local_jcs_impl (PFloat f) = Inl TypeErr"
| "local_jcs_impl (PList vs) =
     sbind (mapM_sum local_jcs_impl vs) (\<lambda>ts. Inr (91 # join_with [44] ts @ [93]))"
| "local_jcs_impl (PDict kvs) =
     sbind (mapM_sum (\<lambda>kv. sbind (local_jcs_impl (snd kv)) (\<lambda>t. Inr (json_string (fst kv) @ 58 # t)))
             (sort_key fst kvs))
       (\<lambda>ts. Inr (123 # join_with [44] ts @ [125]))"
| "local_jcs_impl PBadKeyDict = Inl TypeErr"
| "local_jcs_impl POther = Inl TypeErr"
  by pat_completeness auto
termination
  by (relation "measure size") (auto dest: size_pyval_member size_pyval_elem)

definition local_jcs :: "pyval \<Rightarrow> octets res" where
  "local_jcs v = sbind (local_jcs_impl v) utf8_encode"

text \<open>
  What the verifier takes from outside: the interpreter's tables, the equality of doubles, the
  \<open>rfc8785\<close> and \<open>cryptography\<close> packages where they are installed, and the hashes.
\<close>

record ftd_env =
  fe_text :: text_env
  fe_rfc8785 :: "(pyval \<Rightarrow> octets res) option"
  fe_sha256 :: "octets \<Rightarrow> octets"
  fe_sha512 :: "octets \<Rightarrow> octets"
  fe_ed25519 :: "(octets \<Rightarrow> octets \<Rightarrow> octets \<Rightarrow> bool res) option"

abbreviation fe_json :: "ftd_env \<Rightarrow> pyenv" where
  "fe_json E \<equiv> te_json (fe_text E)"

definition jcs_canonicalise :: "ftd_env \<Rightarrow> pyval \<Rightarrow> octets res" where
  "jcs_canonicalise E v = (case fe_rfc8785 E of Some dumps \<Rightarrow> dumps v | None \<Rightarrow> local_jcs v)"

definition compute_ftd_fingerprint :: "ftd_env \<Rightarrow> octets \<Rightarrow> ustr" where
  "compute_ftd_fingerprint E b = hexdigest (fe_sha256 E b)"

definition ftd_digest :: "ftd_env \<Rightarrow> items \<Rightarrow> octets res" where
  "ftd_digest E d =
     sbind (jcs_canonicalise E (PDict (dict_pop d (u ''document_signature'')))) (\<lambda>c. Inr (fe_sha256 E c))"

definition compute_ftd_fingerprint_from_body :: "ftd_env \<Rightarrow> items \<Rightarrow> ustr res" where
  "compute_ftd_fingerprint_from_body E d = sbind (ftd_digest E d) (\<lambda>h. Inr (hexdigest h))"

definition ftd_verify_ed25519 :: "ftd_env \<Rightarrow> octets \<Rightarrow> octets \<Rightarrow> octets \<Rightarrow> bool res" where
  "ftd_verify_ed25519 E pub msg sig =
     (if length pub \<noteq> 32 then Inl FTDSignatureErr
      else if length sig \<noteq> 64 then Inl FTDSignatureErr
      else (case fe_ed25519 E of
          None \<Rightarrow> Inr (verify_ed25519_pure (fe_sha512 E) pub msg sig)
        | Some verify \<Rightarrow> verify pub sig msg))"

section \<open>Issuer keys\<close>

record issuer_key =
  ik_kid :: pyval
  ik_public_key_hex :: pyval
  ik_purpose :: pyval
  ik_valid_from :: dt
  ik_valid_until :: "dt option"

text \<open>
  \<open>None\<close> for an entry outside its window. Entries are mappings once the document is validated; another
  value fails at the first lookup already.
\<close>

definition select_issuer_key :: "pyenv \<Rightarrow> dt \<Rightarrow> pyval \<Rightarrow> issuer_key option res" where
  "select_issuer_key P now entry =
     sbind (sbind (item_of entry ''valid_from'') (ftd_parse_rfc3339 P)) (\<lambda>valid_from.
     let until_raw = get_item (entry_items entry) ''valid_until'' in
     sbind (if until_raw = PNone then Inr None
            else sbind (ftd_parse_rfc3339 P until_raw) (\<lambda>d. Inr (Some d))) (\<lambda>valid_until.
     sbind (dt_lt now valid_from) (\<lambda>early.
     if early then Inr None
     else sbind (case valid_until of None \<Rightarrow> Inr False | Some d \<Rightarrow> dt_ge now d) (\<lambda>late.
       if late then Inr None
       else
         sbind (item_of entry ''kid'') (\<lambda>kid.
         sbind (item_of entry ''public_key'') (\<lambda>public_key.
         sbind (item_of entry ''purpose'') (\<lambda>purpose.
         Inr (Some \<lparr>ik_kid = kid, ik_public_key_hex = public_key, ik_purpose = purpose,
           ik_valid_from = valid_from, ik_valid_until = valid_until\<rparr>))))))))"

definition select_valid_issuer_keys :: "pyenv \<Rightarrow> dt \<Rightarrow> pyval list \<Rightarrow> issuer_key list res" where
  "select_valid_issuer_keys P now raw =
     sbind (mapM_sum (select_issuer_key P now) raw) (\<lambda>ks. Inr (List.map_filter (\<lambda>k. k) ks))"

section \<open>The local canonicaliser and the one of the package\<close>

lemma local_jcs_emit: "json_plain v \<Longrightarrow> local_jcs_impl v = json_emit (\<lambda>k. k) v"
proof (induction v rule: local_jcs_impl.induct)
  case (6 vs)
  then have "mapM_sum local_jcs_impl vs = mapM_sum (json_emit (\<lambda>k. k)) vs"
    by (intro mapM_sum_cong) auto
  then show ?case by simp
next
  case (7 kvs)
  let ?kvs = "sort_key fst kvs"
  have "local_jcs_impl (snd kv) = json_emit (\<lambda>k. k) (snd kv)" if "kv \<in> set ?kvs" for kv
    using 7 that by (cases kv) fastforce
  then have "mapM_sum (\<lambda>kv. sbind (local_jcs_impl (snd kv)) (\<lambda>t. Inr (json_string (fst kv) @ 58 # t))) ?kvs
    = mapM_sum (\<lambda>kv. sbind (json_emit (\<lambda>k. k) (snd kv)) (\<lambda>t. Inr (json_string (fst kv) @ 58 # t))) ?kvs"
    by (intro mapM_sum_cong) auto
  then show ?case by simp
qed auto

lemma local_jcs_canonicalize:
  assumes "json_plain v" "all_keys (\<lambda>k. \<forall>c \<in> set k. c \<le> 65535) v"
  shows "local_jcs v = canonicalize v"
  using assms by (simp add: local_jcs_def local_jcs_emit jcs_equals_dumps json_dumps_def)

text \<open>A member name beyond the Basic Multilingual Plane, which the validator does not exclude.\<close>

lemma local_jcs_astral: "local_jcs astral_doc \<noteq> canonicalize astral_doc"
proof -
  have "json_plain astral_doc" by (simp add: astral_doc_def)
  then show ?thesis using astral_differs by (simp add: local_jcs_def local_jcs_emit json_dumps_def)
qed

end
