(* ===== verification/FtdVerifier.thy ===== *)
theory FtdVerifier
  imports FtdDocument
begin

text \<open>
  Federation trust documents, second part of \<open>identity_substrate/ftd_verifier.py\<close>: the cache with
  its refresh margin and pin poisoning, and the verification pipeline. Times are arguments: the
  caller's \<open>now\<close>, and what the cache's clock reads on a lookup and on an insertion.
\<close>

section \<open>The cache\<close>

record ftd_result =
  fr_ftd_id :: ustr
  fr_ftd_doc :: items
  fr_fingerprint :: ustr
  fr_keys :: "issuer_key list"
  fr_anchor_host :: ustr
  fr_verified_at :: dt

record ftd_cache =
  fc_entries :: "(ustr \<times> (ftd_result \<times> dt)) list"
  fc_refresh_margin_s :: int

definition ftd_cache_get :: "dt \<Rightarrow> ustr \<Rightarrow> (ftd_cache, ftd_result option) io" where
  "ftd_cache_get now ftd_id c =
     (case map_of (fc_entries c) ftd_id of
        None \<Rightarrow> (Inr None, c)
      | Some (r, cache_until) \<Rightarrow>
          (case dt_ge now cache_until of
             Inl e \<Rightarrow> (Inl e, c)
           | Inr expired \<Rightarrow>
               if expired then (Inr None, c\<lparr>fc_entries := dict_pop (fc_entries c) ftd_id\<rparr>)
               else (Inr (Some r), c)))"

text \<open>
  \<open>expires - margin\<close>; a time before year 1 makes \<open>fromtimestamp\<close> raise. The seconds are exact here.
\<close>

definition cache_until :: "int \<Rightarrow> dt \<Rightarrow> dt res" where
  "cache_until margin expires =
     (if margin \<le> 0 then Inr expires
      else (let w = instant expires - margin * 1000000 in
        if w < 0 then Inl ValueErr else Inr (Dt w (Some 0))))"

definition ftd_cache_put :: "pyenv \<Rightarrow> dt \<Rightarrow> ftd_result \<Rightarrow> (ftd_cache, unit) io" where
  "ftd_cache_put P now r c =
     (case sbind (item_of (PDict (fr_ftd_doc r)) ''expires'') (\<lambda>v.
             sbind (ftd_parse_rfc3339 P v) (cache_until (fc_refresh_margin_s c))) of
        Inl e \<Rightarrow> (Inl e, c)
      | Inr until \<Rightarrow>
          (case dt_ge now until of
             Inl e \<Rightarrow> (Inl e, c)
           | Inr past \<Rightarrow>
               if past then (Inr (), c)
               else (Inr (), c\<lparr>fc_entries := dict_set (fc_entries c) (fr_ftd_id r) (r, until)\<rparr>)))"

definition ftd_cache_poison :: "ustr \<Rightarrow> ftd_cache \<Rightarrow> ftd_cache" where
  "ftd_cache_poison ftd_id c = c\<lparr>fc_entries := dict_pop (fc_entries c) ftd_id\<rparr>"

definition new_ftd_cache :: "int \<Rightarrow> ftd_cache" where
  "new_ftd_cache margin = \<lparr>fc_entries = [], fc_refresh_margin_s = margin\<rparr>"

definition ftd_cache_len :: "ftd_cache \<Rightarrow> nat" where
  "ftd_cache_len c = length (fc_entries c)"

section \<open>The pipeline\<close>

definition parse_ftd :: "ftd_env \<Rightarrow> octets \<Rightarrow> pyval res" where
  "parse_ftd E b =
     rethrow (\<lambda>e. e = UnicodeDecodeErr \<or> e = JsonDecodeErr) FTDSchemaErr
       (sbind (utf8_decode b) (json_loads (fe_json E)))"

definition ftd_anchor_check :: "ftd_env \<Rightarrow> txt_resolver \<Rightarrow> items \<Rightarrow> (ustr \<times> ustr) res" where
  "ftd_anchor_check E resolver d =
     sbind (compute_ftd_fingerprint_from_body E d) (\<lambda>fingerprint.
     sbind (sbind (item_of (PDict d) ''anchor'') (\<lambda>a. item_of a ''host'')) (\<lambda>v. case v of
       PStr host \<Rightarrow>
         sbind (rethrow (\<lambda>e. e = DnsAnchorErr) FTDAnchorErr (fetch_anchor resolver host)) (\<lambda>a.
         if da_fingerprint a \<noteq> fingerprint then Inl FTDAnchorErr else Inr (fingerprint, host))
     | _ \<Rightarrow> Inl TypeErr))"

definition ftd_signature_check :: "ftd_env \<Rightarrow> items \<Rightarrow> unit res" where
  "ftd_signature_check E d =
     sbind (rethrow is_value_error FTDSignatureErr
         (sbind (sbind (item_of (PDict d) ''document_signature'') (\<lambda>s. item_of s ''signature'')) (\<lambda>v.
          hex_arg (Some v)))) (\<lambda>sig.
     sbind (rethrow is_value_error FTDSignatureErr
         (sbind (item_of (PDict d) ''ftd_root_pubkey'') (\<lambda>v. hex_arg (Some v)))) (\<lambda>root.
     sbind (ftd_digest E d) (\<lambda>digest.
     sbind (ftd_verify_ed25519 E root digest sig) (\<lambda>valid. ensure valid FTDSignatureErr))))"

text \<open>Steps 2 to 7 on the parsed document; the structural check makes it a dict.\<close>

definition check_ftd :: "ftd_env \<Rightarrow> txt_resolver \<Rightarrow> dt \<Rightarrow> ustr \<Rightarrow> pyval \<Rightarrow> ftd_result res" where
  "check_ftd E resolver now ftd_id doc =
     sbind (structural_validate (fe_json E) doc) (\<lambda>_.
     let d = entry_items doc in
     sbind (sbind (item_of doc ''id'') (\<lambda>v. ensure (v = PStr ftd_id) FTDIDMismatchErr)) (\<lambda>_.
     sbind (sbind (item_of doc ''expires'') (ftd_parse_rfc3339 (fe_json E))) (\<lambda>expires.
     sbind (dt_ge now expires) (\<lambda>expired.
     sbind (ensure (\<not> expired) FTDExpiredErr) (\<lambda>_.
     sbind (ftd_anchor_check E resolver d) (\<lambda>(fingerprint, host).
     sbind (sbind (item_of doc ''issuer_keys'') (\<lambda>v. case v of
         PList raw \<Rightarrow> select_valid_issuer_keys (fe_json E) now raw
       | _ \<Rightarrow> Inl TypeErr)) (\<lambda>keys.
     sbind (ensure (keys \<noteq> []) FTDIssuerKeyErr) (\<lambda>_.
     sbind (ftd_signature_check E d) (\<lambda>_.
     Inr \<lparr>fr_ftd_id = ftd_id, fr_ftd_doc = d, fr_fingerprint = fingerprint, fr_keys = keys,
       fr_anchor_host = host, fr_verified_at = now\<rparr>)))))))))"

definition verify_fresh :: "ftd_env \<Rightarrow> txt_resolver \<Rightarrow> dt \<Rightarrow> octets \<Rightarrow> ustr \<Rightarrow> ftd_result res" where
  "verify_fresh E resolver now b ftd_id = sbind (parse_ftd E b) (check_ftd E resolver now ftd_id)"

definition verify_ftd_document ::
    "ftd_env \<Rightarrow> txt_resolver \<Rightarrow> dt \<Rightarrow> dt \<Rightarrow> dt \<Rightarrow> octets \<Rightarrow> ustr \<Rightarrow> (ftd_cache option, ftd_result) io" where
  "verify_ftd_document E resolver now t_get t_put b ftd_id cache =
     (case cache of
        None \<Rightarrow> (verify_fresh E resolver now b ftd_id, None)
      | Some c \<Rightarrow>
          (case ftd_cache_get t_get ftd_id c of
             (Inl e, c') \<Rightarrow> (Inl e, Some c')
           | (Inr (Some r), c') \<Rightarrow> (Inr r, Some c')
           | (Inr None, c') \<Rightarrow>
               (case verify_fresh E resolver now b ftd_id of
                  Inl e \<Rightarrow> (Inl e, Some c')
                | Inr r \<Rightarrow>
                    (case ftd_cache_put (fe_json E) t_put r c' of
                       (Inl e, c'') \<Rightarrow> (Inl e, Some c'')
                     | (Inr _, c'') \<Rightarrow> (Inr r, Some c'')))))"

section \<open>What a verified document satisfies\<close>

definition digest_of :: "ftd_env \<Rightarrow> items \<Rightarrow> octets \<Rightarrow> bool" where
  "digest_of E d h \<longleftrightarrow> (\<exists>c. jcs_canonicalise E (PDict (dict_pop d (u ''document_signature''))) = Inr c
     \<and> h = fe_sha256 E c)"

lemma ftd_digest_iff: "ftd_digest E d = Inr h \<longleftrightarrow> digest_of E d h"
  by (auto simp: ftd_digest_def digest_of_def)

definition key_valid_at :: "pyenv \<Rightarrow> dt \<Rightarrow> items \<Rightarrow> issuer_key \<Rightarrow> bool" where
  "key_valid_at P now e k \<longleftrightarrow>
     ik_kid k = get_item e ''kid'' \<and> ik_public_key_hex k = get_item e ''public_key''
     \<and> ik_purpose k = get_item e ''purpose''
     \<and> ftd_parse_rfc3339 P (get_item e ''valid_from'') = Inr (ik_valid_from k)
     \<and> dt_lt now (ik_valid_from k) = Inr False
     \<and> (case ik_valid_until k of
          None \<Rightarrow> get_item e ''valid_until'' = PNone
        | Some d \<Rightarrow> ftd_parse_rfc3339 P (get_item e ''valid_until'') = Inr d \<and> dt_ge now d = Inr False)"

lemma select_issuer_key_valid:
  "select_issuer_key P now v = Inr (Some k) \<Longrightarrow> key_valid_at P now (entry_items v) k"
  by (auto simp: select_issuer_key_def key_valid_at_def Let_def dest!: item_of_Inr split: if_splits)

lemma select_valid_keys_valid:
  assumes "select_valid_issuer_keys P now raw = Inr ks" "k \<in> set ks"
  shows "\<exists>v \<in> set raw. key_valid_at P now (entry_items v) k"
proof -
  obtain os where os: "list_all2 (\<lambda>v k. select_issuer_key P now v = Inr k) raw os"
    "ks = List.map_filter (\<lambda>k. k) os"
    using assms(1) by (auto simp: select_valid_issuer_keys_def mapM_sum_Inr_iff)
  from os(2) assms(2) have "Some k \<in> set os" by (auto simp: List.map_filter_def)
  with os(1) obtain v where "v \<in> set raw" "select_issuer_key P now v = Inr (Some k)"
    by (auto simp: list_all2_conv_all_nth in_set_conv_nth) (metis nth_mem)
  then show ?thesis using select_issuer_key_valid by blast
qed

lemma value_case_Inr:
  "(case v of PStr s \<Rightarrow> f s | _ \<Rightarrow> Inl e) = Inr x \<longleftrightarrow> (\<exists>s. v = PStr s \<and> f s = Inr x)"
  "(case v of PList vs \<Rightarrow> g vs | _ \<Rightarrow> Inl e) = Inr x \<longleftrightarrow> (\<exists>vs. v = PList vs \<and> g vs = Inr x)"
  by (cases v; simp)+

lemma anchor_check_Inr:
  assumes "ftd_anchor_check E resolver d = Inr (fingerprint, host)"
  shows "\<exists>h txt. digest_of E d h \<and> fingerprint = hexdigest h
    \<and> get_item (entry_items (get_item d ''anchor'')) ''host'' = PStr host
    \<and> resolver host = Inr txt \<and> set (anchor_matches txt) = {fingerprint}"
  using assms
  by (auto simp: ftd_anchor_check_def compute_ftd_fingerprint_from_body_def ftd_digest_iff fetch_anchor_iff
      value_case_Inr dest!: item_of_Inr split: if_splits)

lemma signature_check_Inr:
  assumes "ftd_signature_check E d = Inr ()"
  shows "\<exists>sig root h. hex_arg (map_of (entry_items (get_item d ''document_signature'')) (u ''signature'')) = Inr sig
    \<and> hex_arg (map_of d (u ''ftd_root_pubkey'')) = Inr root \<and> digest_of E d h
    \<and> length root = 32 \<and> length sig = 64 \<and> ftd_verify_ed25519 E root h sig = Inr True"
  using assms
  by (auto simp: ftd_signature_check_def ftd_digest_iff ftd_verify_ed25519_def dest!: item_of_Inr
      simp del: map_of_eq_Some_iff split: if_splits)

lemma check_ftd_Inr:
  assumes "check_ftd E resolver now ftd_id doc = Inr r"
  shows "structural_validate (fe_json E) doc = Inr ()" "doc = PDict (fr_ftd_doc r)"
    "fr_ftd_id r = ftd_id" "get_item (fr_ftd_doc r) ''id'' = PStr ftd_id" "fr_verified_at r = now"
    "\<exists>ex. ftd_parse_rfc3339 (fe_json E) (get_item (fr_ftd_doc r) ''expires'') = Inr ex \<and> dt_ge now ex = Inr False"
    "ftd_anchor_check E resolver (fr_ftd_doc r) = Inr (fr_fingerprint r, fr_anchor_host r)"
    "\<exists>raw. get_item (fr_ftd_doc r) ''issuer_keys'' = PList raw
      \<and> select_valid_issuer_keys (fe_json E) now raw = Inr (fr_keys r)"
    "fr_keys r \<noteq> []" "ftd_signature_check E (fr_ftd_doc r) = Inr ()"
  using assms structural_dict [of "fe_json E" doc]
  by (auto simp: check_ftd_def Let_def value_case_Inr dest!: item_of_Inr split: prod.splits)

text \<open>
  C36: A document that verifies is the JSON object in the given bytes, passes the structural check,
  carries the requested identifier and has not expired; the DNS zone of the host that its own
  \<open>anchor\<close> names publishes exactly the hash of its canonical form without the signature; the
  signature that its \<open>document_signature\<close> carries is one of its root key on that hash; and the keys
  returned, at least one, are entries of the document whose window contains the time.
\<close>

theorem ftd_verified:
  assumes "verify_fresh E resolver now b ftd_id = Inr r"
  shows "parse_ftd E b = Inr (PDict (fr_ftd_doc r))
    \<and> structural_validate (fe_json E) (PDict (fr_ftd_doc r)) = Inr ()
    \<and> fr_ftd_id r = ftd_id \<and> get_item (fr_ftd_doc r) ''id'' = PStr ftd_id
    \<and> (\<exists>ex. ftd_parse_rfc3339 (fe_json E) (get_item (fr_ftd_doc r) ''expires'') = Inr ex
          \<and> dt_ge now ex = Inr False)
    \<and> get_item (entry_items (get_item (fr_ftd_doc r) ''anchor'')) ''host'' = PStr (fr_anchor_host r)
    \<and> (\<exists>h txt sig root. digest_of E (fr_ftd_doc r) h \<and> fr_fingerprint r = hexdigest h
          \<and> resolver (fr_anchor_host r) = Inr txt \<and> set (anchor_matches txt) = {fr_fingerprint r}
          \<and> hex_arg (map_of (fr_ftd_doc r) (u ''ftd_root_pubkey'')) = Inr root \<and> length root = 32
          \<and> hex_arg (map_of (entry_items (get_item (fr_ftd_doc r) ''document_signature'')) (u ''signature'')) = Inr sig
          \<and> length sig = 64 \<and> ftd_verify_ed25519 E root h sig = Inr True)
    \<and> fr_keys r \<noteq> []
    \<and> (\<forall>k \<in> set (fr_keys r). \<exists>raw e. get_item (fr_ftd_doc r) ''issuer_keys'' = PList raw
          \<and> e \<in> set raw \<and> key_valid_at (fe_json E) now (entry_items e) k)"
proof -
  from assms obtain doc where doc: "parse_ftd E b = Inr doc" "check_ftd E resolver now ftd_id doc = Inr r"
    by (auto simp: verify_fresh_def)
  note parts = check_ftd_Inr [OF doc(2)]
  have "digest_of E (fr_ftd_doc r) h \<Longrightarrow> digest_of E (fr_ftd_doc r) h' \<Longrightarrow> h = h'" for h h'
    by (auto simp: digest_of_def)
  with anchor_check_Inr [OF parts(7)] signature_check_Inr [OF parts(10)]
  have "\<exists>h txt sig root. digest_of E (fr_ftd_doc r) h \<and> fr_fingerprint r = hexdigest h
      \<and> resolver (fr_anchor_host r) = Inr txt \<and> set (anchor_matches txt) = {fr_fingerprint r}
      \<and> hex_arg (map_of (fr_ftd_doc r) (u ''ftd_root_pubkey'')) = Inr root \<and> length root = 32
      \<and> hex_arg (map_of (entry_items (get_item (fr_ftd_doc r) ''document_signature'')) (u ''signature'')) = Inr sig
      \<and> length sig = 64 \<and> ftd_verify_ed25519 E root h sig = Inr True" by metis
  moreover have "get_item (entry_items (get_item (fr_ftd_doc r) ''anchor'')) ''host'' = PStr (fr_anchor_host r)"
    using anchor_check_Inr [OF parts(7)] by blast
  moreover have "\<forall>k \<in> set (fr_keys r). \<exists>raw e. get_item (fr_ftd_doc r) ''issuer_keys'' = PList raw
      \<and> e \<in> set raw \<and> key_valid_at (fe_json E) now (entry_items e) k"
    using parts(8) select_valid_keys_valid by blast
  ultimately show ?thesis using doc(1) parts(1-6,9) by simp
qed

section \<open>The cache over a history of calls\<close>

text \<open>A call with everything it sees of the world, or a poisoning.\<close>

datatype ftd_event =
    FtdCall txt_resolver dt dt dt octets ustr
  | FtdPoison ustr

inductive ftd_history :: "ftd_env \<Rightarrow> int \<Rightarrow> ftd_event list \<Rightarrow> ftd_cache \<Rightarrow> bool" for E margin where
  start: "ftd_history E margin [] (new_ftd_cache margin)"
| call: "ftd_history E margin evs c \<Longrightarrow>
    verify_ftd_document E resolver now t_get t_put b ftd_id (Some c) = (res, Some c') \<Longrightarrow>
    ftd_history E margin (evs @ [FtdCall resolver now t_get t_put b ftd_id]) c'"
| poison: "ftd_history E margin evs c \<Longrightarrow>
    ftd_history E margin (evs @ [FtdPoison ftd_id]) (ftd_cache_poison ftd_id c)"

text \<open>The last events verified \<open>r\<close> afresh for \<open>ftd_id\<close>, and nobody has poisoned it since.\<close>

definition verified_since :: "ftd_env \<Rightarrow> ftd_event list \<Rightarrow> ustr \<Rightarrow> ftd_result \<Rightarrow> bool" where
  "verified_since E evs ftd_id r \<longleftrightarrow> (\<exists>pre resolver now t_get t_put b post.
     evs = pre @ FtdCall resolver now t_get t_put b ftd_id # post \<and> FtdPoison ftd_id \<notin> set post
     \<and> verify_fresh E resolver now b ftd_id = Inr r)"

lemma verified_since_more:
  assumes "verified_since E evs i r" "x \<noteq> FtdPoison i"
  shows "verified_since E (evs @ [x]) i r"
proof -
  obtain pre resolver now t_get t_put b post where
    "evs = pre @ FtdCall resolver now t_get t_put b i # post" "FtdPoison i \<notin> set post"
    "verify_fresh E resolver now b i = Inr r"
    using assms(1) by (auto simp: verified_since_def)
  then have "evs @ [x] = pre @ FtdCall resolver now t_get t_put b i # (post @ [x])
      \<and> FtdPoison i \<notin> set (post @ [x]) \<and> verify_fresh E resolver now b i = Inr r"
    using assms(2) by auto
  then show ?thesis unfolding verified_since_def by blast
qed

lemma verified_since_now:
  "verify_fresh E res now b i = Inr r \<Longrightarrow> verified_since E (evs @ [FtdCall res now tg tp b i]) i r"
  unfolding verified_since_def by (metis empty_iff list.set(1))

definition refresh_bound :: "ftd_env \<Rightarrow> int \<Rightarrow> ftd_result \<Rightarrow> dt \<Rightarrow> bool" where
  "refresh_bound E margin r until \<longleftrightarrow> (\<exists>ex.
     ftd_parse_rfc3339 (fe_json E) (get_item (fr_ftd_doc r) ''expires'') = Inr ex \<and> cache_until margin ex = Inr until)"

definition ftd_cache_ok :: "ftd_env \<Rightarrow> int \<Rightarrow> ftd_event list \<Rightarrow> ftd_cache \<Rightarrow> bool" where
  "ftd_cache_ok E margin evs c \<longleftrightarrow> fc_refresh_margin_s c = margin
     \<and> distinct (map fst (fc_entries c))
     \<and> (\<forall>i r until. map_of (fc_entries c) i = Some (r, until) \<longrightarrow>
          fr_ftd_id r = i \<and> verified_since E evs i r \<and> refresh_bound E margin r until)"

lemma fresh_id: "verify_fresh E resolver now b i = Inr r \<Longrightarrow> fr_ftd_id r = i"
  by (auto simp: verify_fresh_def dest: check_ftd_Inr(3))

lemma get_keeps:
  assumes "ftd_cache_get t i c = (res, c')"
  shows "fc_refresh_margin_s c' = fc_refresh_margin_s c \<and> (map_of (fc_entries c')) \<subseteq>\<^sub>m map_of (fc_entries c)
    \<and> (distinct (map fst (fc_entries c)) \<longrightarrow> distinct (map fst (fc_entries c')))
    \<and> (\<forall>r. res = Inr (Some r) \<longrightarrow> (\<exists>until. map_of (fc_entries c) i = Some (r, until) \<and> dt_ge t until = Inr False))"
  using assms distinct_dict_pop [of "fc_entries c" i]
  by (auto simp: ftd_cache_get_def map_le_def simp del: map_of_eq_Some_iff split: option.splits sum.splits if_splits)

lemma put_adds:
  assumes "ftd_cache_put (fe_json E) t r c = (res, c')"
  shows "fc_refresh_margin_s c' = fc_refresh_margin_s c
    \<and> (distinct (map fst (fc_entries c)) \<longrightarrow> distinct (map fst (fc_entries c')))
    \<and> (c' = c \<or> (\<exists>until. map_of (fc_entries c') = (map_of (fc_entries c))(fr_ftd_id r \<mapsto> (r, until))
          \<and> refresh_bound E (fc_refresh_margin_s c) r until))"
  using assms
  by (auto simp: ftd_cache_put_def refresh_bound_def dest!: item_of_Inr split: sum.splits if_splits)

lemma ftd_history_ok: "ftd_history E margin evs c \<Longrightarrow> ftd_cache_ok E margin evs c"
proof (induction rule: ftd_history.induct)
  case start
  then show ?case by (simp add: ftd_cache_ok_def new_ftd_cache_def)
next
  case (poison evs c j)
  then show ?case
    by (auto simp: ftd_cache_ok_def ftd_cache_poison_def intro!: verified_since_more simp del: map_of_eq_Some_iff
        split: if_splits)
next
  case (call evs c resolver now t_get t_put b i res c')
  let ?evs = "evs @ [FtdCall resolver now t_get t_put b i]"
  obtain g c1 where g: "ftd_cache_get t_get i c = (g, c1)" by fastforce
  have ok1: "ftd_cache_ok E margin ?evs c1"
    using call.IH get_keeps [OF g] verified_since_more
    unfolding ftd_cache_ok_def map_le_def by (metis domI ftd_event.distinct(1))
  show ?case
  proof (cases "g = Inr None \<and> (\<exists>r. verify_fresh E resolver now b i = Inr r)")
    case False
    then have "c' = c1" using call.hyps(2) g
      by (auto simp: verify_ftd_document_def split: sum.splits option.splits)
    with ok1 show ?thesis by simp
  next
    case True
    then obtain r where r: "verify_fresh E resolver now b i = Inr r" by blast
    obtain p c2 where p: "ftd_cache_put (fe_json E) t_put r c1 = (p, c2)" by fastforce
    have "c' = c2" using call.hyps(2) g r p True
      by (auto simp: verify_ftd_document_def split: sum.splits)
    moreover have "ftd_cache_ok E margin ?evs c2"
      using ok1 put_adds [OF p] fresh_id [OF r] verified_since_now [OF r, of evs t_get t_put]
      by (auto simp: ftd_cache_ok_def simp del: map_of_eq_Some_iff split: if_splits)
    ultimately show ?thesis by simp
  qed
qed

text \<open>
  C37: Whatever a call with a cache returns was verified afresh for that identifier, by this call or
  by an earlier one after which the identifier was not poisoned; a result from the cache is returned
  only before the refresh bound, its expiry less the margin.
\<close>

theorem ftd_cache_sound:
  assumes "ftd_history E margin evs c"
    and "verify_ftd_document E resolver now t_get t_put b ftd_id (Some c) = (Inr r, c')"
  shows "verify_fresh E resolver now b ftd_id = Inr r
    \<or> verified_since E evs ftd_id r \<and> (\<exists>until. refresh_bound E margin r until \<and> dt_ge t_get until = Inr False)"
proof -
  obtain g c1 where g: "ftd_cache_get t_get ftd_id c = (g, c1)" by fastforce
  note ok = ftd_history_ok [OF assms(1), unfolded ftd_cache_ok_def] and hit = get_keeps [OF g]
  show ?thesis
  proof (cases "g = Inr (Some r)")
    case True
    then obtain until where "map_of (fc_entries c) ftd_id = Some (r, until)" "dt_ge t_get until = Inr False"
      using hit by blast
    with ok show ?thesis by blast
  next
    case False
    then show ?thesis using assms(2) g
      by (auto simp: verify_ftd_document_def split: sum.splits option.splits prod.splits)
  qed
qed

lemma poisoned_is_gone: "ftd_cache_get t i (ftd_cache_poison i c) = (Inr None, ftd_cache_poison i c)"
  by (simp add: ftd_cache_get_def ftd_cache_poison_def)

section \<open>A document that verifies\<close>

text \<open>The times are counted in days.\<close>

definition sample_day :: "int \<Rightarrow> pyval" where
  "sample_day n = PStr (isoformat_utc (us_day * n))"

definition sample_ftd_key :: items where
  "sample_ftd_key = [(u ''alg'', PStr (u ''Ed25519'')), (u ''kid'', PStr (u ''k'')),
     (u ''public_key'', PStr (hexdigest (replicate 32 2))), (u ''purpose'', PStr (u ''biscuit-root'')),
     (u ''valid_from'', sample_day 10)]"

definition sample_ftd :: items where
  "sample_ftd =
     [(u ''anchor'', PDict [(u ''fingerprint_sha256'', PStr (hexdigest (replicate 32 7))),
          (u ''host'', PStr (u ''_wakir-ftd.a'')), (u ''kind'', PStr (u ''dns-txt''))]),
      (u ''document_signature'', PDict [(u ''alg'', PStr (u ''Ed25519'')), (u ''kid'', PStr (u ''r'')),
          (u ''signature'', PStr (hexdigest (replicate 64 7)))]),
      (u ''domain'', PStr (u ''a'')),
      (u ''expires'', sample_day 30),
      (u ''ftd_root_pubkey'', PStr (hexdigest (replicate 32 3))),
      (u ''id'', PStr (u ''did:web:a:ftd:v1'')),
      (u ''issued_at'', sample_day 10),
      (u ''issuer_keys'', PList [PDict sample_ftd_key]),
      (u ''wakir_ftd'', PStr (u ''0.1.0''))]"

text \<open>A hash with one value, and a scheme in which the signature repeats the message.\<close>

definition sample_ftd_env :: ftd_env where
  "sample_ftd_env = \<lparr>fe_text = sample_text_env, fe_rfc8785 = None, fe_sha256 = (\<lambda>_. replicate 32 7),
     fe_sha512 = (\<lambda>b. b), fe_ed25519 = Some (\<lambda>pub sig msg. Inr (pub = replicate 32 3 \<and> sig = msg @ msg))\<rparr>"

definition sample_txt :: txt_resolver where
  "sample_txt host = Inr [u ''v=spf1'', u ''v=1; sha256='' @ hexdigest (replicate 32 7)]"

definition sample_now :: dt where
  "sample_now = Dt (us_day * 20) (Some 0)"

lemma sample_day_parses:
  assumes "0 \<le> n" "n < 1000"
  shows "ftd_parse_rfc3339 P (sample_day n) = Inr (Dt (us_day * n) (Some 0))"
proof -
  have w: "0 \<le> us_day * n" "us_day * n < max_us" using assms by (auto simp: us_day_def max_us_def)
  have "\<not> ends_with (u ''Z'') (isoformat_utc (us_day * n))"
    by (simp add: isoformat_utc_def u_def ends_with_def)
  then show ?thesis
    using w by (simp add: ftd_parse_rfc3339_def sample_day_def replace_z_def isoformat_utc_Z aware_def astimezone_utc_def)
qed

lemma hexdigest_is_hex:
  assumes "octets_ok b"
  shows "is_hex (2 * length b) (hexdigest b)"
proof -
  have "lower_hex (hex_digit k)" if "k < 16" for k
    using that by (auto simp: lower_hex_def hex_digit_def is_digit_def)
  then show ?thesis using assms by (induction b) (auto simp: is_hex_def)
qed

lemma hex_match_digest: "octets_ok b \<Longrightarrow> length b = n \<Longrightarrow> hex_match (2 * n) (PStr (hexdigest b))"
  using hexdigest_is_hex [of b] by (simp add: hex_match_def dollar_def)

lemma sample_octets: "octets_ok (replicate n 3)" "octets_ok (replicate n 2)" "octets_ok (replicate n 7)"
  by (induction n) auto

lemmas sample_hex = hex_match_digest [of "replicate 32 _" 32, simplified] hex_match_digest [of "replicate 64 _" 64, simplified]

lemma sample_matches: "str_match ftd_id_rx (PStr (u ''did:web:a:ftd:v1''))"
  "str_match ftd_anchor_host_rx (PStr (u ''_wakir-ftd.a''))"
  by code_simp+

lemma sample_items: "get_item ((k', v) # d) k = (if k' = u k then v else get_item d k)" "get_item [] k = PNone"
  by (auto simp: get_item_def)

lemmas required_defs = ftd_required_def issuer_key_required_def anchor_required_def signature_required_def

lemma sample_lookup:
  "item_of (PDict ((k', v) # d)) k = (if k' = u k then Inr v else item_of (PDict d) k)"
  by (simp add: item_of_def)

lemma sample_structure: "structural_validate P (PDict sample_ftd) = Inr ()"
  by (simp add: structural_validate_eq sample_ftd_def sample_ftd_key_def has_keys_def required_defs sample_items
     check_stamp_def sample_day_parses validate_issuer_keys_def validate_issuer_key_eq validate_anchor_eq
     validate_signature_eq validate_endpoints_def sample_hex sample_octets sample_matches nonempty_str_def)

lemma sample_plain: "json_plain (PDict sample_ftd)" "jcs_ok (PDict sample_ftd)"
  "json_canon utf16_codeunits (PDict sample_ftd) = PDict sample_ftd"
proof -
  have hex: "str_ok (hexdigest b)" if "octets_ok b" for b
    using hexdigest_graph [OF that] by (fastforce simp: is_scalar_def is_surrogate_def)
  show "json_plain (PDict sample_ftd)" by (simp add: sample_ftd_def sample_ftd_key_def sample_day_def u_def)
  show "jcs_ok (PDict sample_ftd)"
    using isoformat_ok u_ok hex [OF sample_octets(1)] hex [OF sample_octets(2)] hex [OF sample_octets(3)]
    by (simp add: sample_ftd_def sample_ftd_key_def sample_day_def)
  show "json_canon utf16_codeunits (PDict sample_ftd) = PDict sample_ftd"
    by (simp add: sample_ftd_def sample_ftd_key_def sample_day_def u_def)
qed

lemma sample_ftd_digest: "ftd_digest sample_ftd_env sample_ftd = Inr (replicate 32 7)"
proof -
  let ?v = "PDict (dict_pop sample_ftd (u ''document_signature''))"
  have "set (dict_pop sample_ftd (u ''document_signature'')) \<subseteq> set sample_ftd"
    by (simp add: dict_pop_def)
  moreover have "distinct (map fst (dict_pop sample_ftd (u ''document_signature'')))"
    using sample_plain(1) by (simp add: distinct_dict_pop)
  ultimately have "json_plain ?v" "jcs_ok ?v" using sample_plain(1,2) by (auto simp only: json_plain.simps jcs_ok.simps)
  moreover have "all_keys (\<lambda>k. \<forall>c \<in> set k. c \<le> 65535) ?v"
    by (simp add: sample_ftd_def sample_ftd_key_def sample_day_def dict_pop_def u_def)
  ultimately have "local_jcs ?v = canonicalize ?v" "\<exists>c. canonicalize ?v = Inr c"
    using local_jcs_canonicalize jcs_accepts by blast+
  then obtain c where "local_jcs ?v = Inr c" by auto
  then show ?thesis by (simp add: ftd_digest_def jcs_canonicalise_def sample_ftd_env_def)
qed

lemma parse_ftd_emit:
  assumes "json_plain v" "jcs_ok v" "json_canon utf16_codeunits v = v"
  obtains b where "parse_ftd E b = Inr v"
proof -
  obtain b where b: "canonicalize v = Inr b" using assms(2) jcs_accepts by blast
  with assms(1) obtain t where t: "json_emit utf16_codeunits v = Inr t" "utf8_encode t = Inr b"
    by (rule canonicalize_text)
  have "parse_ftd E b = Inr v"
    using utf8_decode_encode [OF t(2)] loads_emit [OF assms(1) t(1)] assms(3) by (simp add: parse_ftd_def)
  then show ?thesis by (rule that)
qed

lemma sample_anchor: "anchor_matches [u ''v=spf1'', u ''v=1; sha256='' @ hexdigest (replicate 32 7)] = [hexdigest (replicate 32 7)]"
proof -
  have "match_txt (py_strip (u ''v=spf1'')) = None" by code_simp
  moreover have "match_txt (py_strip (u ''v=1; sha256='' @ hexdigest (replicate 32 7))) = Some (hexdigest (replicate 32 7))"
    using hexdigest_is_hex [OF sample_octets(3), of 32] by (intro published_record_matches) simp
  ultimately show ?thesis by (simp add: anchor_matches_def List.map_filter_simps)
qed

definition sample_ftd_result :: ftd_result where
  "sample_ftd_result = \<lparr>fr_ftd_id = u ''did:web:a:ftd:v1'', fr_ftd_doc = sample_ftd,
     fr_fingerprint = hexdigest (replicate 32 7),
     fr_keys = [\<lparr>ik_kid = PStr (u ''k''), ik_public_key_hex = PStr (hexdigest (replicate 32 2)),
        ik_purpose = PStr (u ''biscuit-root''), ik_valid_from = Dt (us_day * 10) (Some 0), ik_valid_until = None\<rparr>],
     fr_anchor_host = u ''_wakir-ftd.a'', fr_verified_at = sample_now\<rparr>"

lemma sample_keys:
  "select_valid_issuer_keys P sample_now [PDict sample_ftd_key] = Inr (fr_keys sample_ftd_result)"
  by (simp add: select_valid_issuer_keys_def select_issuer_key_def sample_ftd_key_def sample_items
      sample_lookup sample_day_parses sample_now_def sample_ftd_result_def dt_lt_def aware_def instant_def us_day_def
      List.map_filter_def)

lemma sample_check:
  "check_ftd sample_ftd_env sample_txt sample_now (u ''did:web:a:ftd:v1'') (PDict sample_ftd) = Inr sample_ftd_result"
proof -
  have items: "item_of (PDict sample_ftd) ''id'' = Inr (PStr (u ''did:web:a:ftd:v1''))"
    "item_of (PDict sample_ftd) ''expires'' = Inr (sample_day 30)"
    "item_of (PDict sample_ftd) ''issuer_keys'' = Inr (PList [PDict sample_ftd_key])"
    "sbind (item_of (PDict sample_ftd) ''anchor'') (\<lambda>a. item_of a ''host'') = Inr (PStr (u ''_wakir-ftd.a''))"
    "item_of (PDict sample_ftd) ''ftd_root_pubkey'' = Inr (PStr (hexdigest (replicate 32 3)))"
    "sbind (item_of (PDict sample_ftd) ''document_signature'') (\<lambda>a. item_of a ''signature'')
       = Inr (PStr (hexdigest (replicate 64 7)))"
    by (simp_all add: sample_ftd_def sample_lookup)
  have "parse_anchor (u ''_wakir-ftd.a'') [u ''v=spf1'', u ''v=1; sha256='' @ hexdigest (replicate 32 7)]
      = Inr \<lparr>da_host = u ''_wakir-ftd.a'', da_fingerprint = hexdigest (replicate 32 7)\<rparr>"
    by (simp add: parse_anchor_iff sample_anchor)
  then have anchor: "ftd_anchor_check sample_ftd_env sample_txt sample_ftd
      = Inr (hexdigest (replicate 32 7), u ''_wakir-ftd.a'')"
    by (simp add: ftd_anchor_check_def compute_ftd_fingerprint_from_body_def sample_ftd_digest items
        fetch_anchor_def sample_txt_def)
  have "replicate 64 (7::nat) = replicate 32 7 @ replicate 32 7" by (simp add: replicate_add [symmetric])
  then have "ftd_signature_check sample_ftd_env sample_ftd = Inr ()"
    by (simp add: ftd_signature_check_def items hex_arg_def sample_octets sample_ftd_digest ftd_verify_ed25519_def
        sample_ftd_env_def [THEN arg_cong [of _ _ fe_ed25519]] ensure_def)
  then show ?thesis
    by (simp add: check_ftd_def Let_def sample_structure items sample_day_parses dt_ge_def sample_now_def aware_def
        instant_def us_day_def anchor sample_keys [unfolded sample_now_def us_day_def, simplified])
      (simp add: sample_ftd_result_def sample_now_def us_day_def)
qed

lemma sample_verified:
  obtains b where "verify_fresh sample_ftd_env sample_txt sample_now b (u ''did:web:a:ftd:v1'') = Inr sample_ftd_result"
proof -
  obtain b where "parse_ftd sample_ftd_env b = Inr (PDict sample_ftd)" by (rule parse_ftd_emit [OF sample_plain])
  then have "verify_fresh sample_ftd_env sample_txt sample_now b (u ''did:web:a:ftd:v1'') = Inr sample_ftd_result"
    by (simp add: verify_fresh_def sample_check)
  then show ?thesis by (rule that)
qed

lemma ftd_verified_witness:
  "\<exists>b. verify_fresh sample_ftd_env sample_txt sample_now b (u ''did:web:a:ftd:v1'') = Inr sample_ftd_result
     \<and> parse_ftd sample_ftd_env b = Inr (PDict sample_ftd)
     \<and> (\<exists>txt. sample_txt (u ''_wakir-ftd.a'') = Inr txt \<and> set (anchor_matches txt) = {hexdigest (replicate 32 7)})"
proof -
  obtain b where b: "verify_fresh sample_ftd_env sample_txt sample_now b (u ''did:web:a:ftd:v1'') = Inr sample_ftd_result"
    by (rule sample_verified)
  from ftd_verified [OF this] b show ?thesis by (auto simp: sample_ftd_result_def)
qed

definition sample_ftd_cache :: ftd_cache where
  "sample_ftd_cache = \<lparr>fc_entries = [(u ''did:web:a:ftd:v1'',
     (sample_ftd_result, Dt (us_day * 30 - 3600000000) (Some 0)))], fc_refresh_margin_s = 3600\<rparr>"

lemma sample_stored:
  assumes "verify_fresh sample_ftd_env sample_txt sample_now b (u ''did:web:a:ftd:v1'') = Inr sample_ftd_result"
  shows "verify_ftd_document sample_ftd_env sample_txt sample_now sample_now sample_now b (u ''did:web:a:ftd:v1'')
      (Some (new_ftd_cache 3600)) = (Inr sample_ftd_result, Some sample_ftd_cache)"
proof -
  have "item_of (PDict (fr_ftd_doc sample_ftd_result)) ''expires'' = Inr (sample_day 30)"
    by (simp add: sample_ftd_result_def sample_ftd_def sample_lookup)
  then have "ftd_cache_put (fe_json sample_ftd_env) sample_now sample_ftd_result (new_ftd_cache 3600)
      = (Inr (), sample_ftd_cache)"
    by (simp add: ftd_cache_put_def sample_day_parses cache_until_def new_ftd_cache_def instant_def us_day_def
        dt_ge_def aware_def sample_now_def sample_ftd_cache_def) (simp add: sample_ftd_result_def)
  then show ?thesis using assms
    by (simp add: verify_ftd_document_def ftd_cache_get_def) (simp add: new_ftd_cache_def)
qed

text \<open>A second call in the same minute, with no bytes and no working resolver, is served by the cache.\<close>

lemma sample_hit:
  "verify_ftd_document sample_ftd_env (\<lambda>_. Inl DnsAnchorErr) sample_now sample_now sample_now [] (u ''did:web:a:ftd:v1'')
     (Some sample_ftd_cache) = (Inr sample_ftd_result, Some sample_ftd_cache)"
  by (simp add: verify_ftd_document_def ftd_cache_get_def sample_ftd_cache_def dt_ge_def aware_def sample_now_def
      instant_def us_day_def)

lemma no_bytes: "verify_fresh sample_ftd_env resolver now [] i \<noteq> Inr r"
proof -
  have "json_loads P [] = Inl JsonDecodeErr" for P
    by (simp add: json_loads_def skip_ws_def numeral_2_eq_2)
  then show ?thesis by (simp add: verify_fresh_def parse_ftd_def)
qed

lemma ftd_cache_sound_witness:
  "\<exists>evs. ftd_history sample_ftd_env 3600 evs sample_ftd_cache
     \<and> verified_since sample_ftd_env evs (u ''did:web:a:ftd:v1'') sample_ftd_result"
proof -
  obtain b where b: "verify_fresh sample_ftd_env sample_txt sample_now b (u ''did:web:a:ftd:v1'') = Inr sample_ftd_result"
    by (rule sample_verified)
  note history = ftd_history.call [OF ftd_history.start sample_stored [OF b]]
  from ftd_cache_sound [OF history sample_hit] no_bytes history show ?thesis by blast
qed

text \<open>
  A hit does not look at the time the caller gives: a key whose window has closed since is returned
  as valid, for the document of the sample at a time after its expiry as for any other.
\<close>

lemma hit_ignores_now:
  "verify_ftd_document sample_ftd_env resolver now sample_now t b (u ''did:web:a:ftd:v1'') (Some sample_ftd_cache)
     = (Inr sample_ftd_result, Some sample_ftd_cache)"
  by (simp add: verify_ftd_document_def ftd_cache_get_def sample_ftd_cache_def dt_ge_def aware_def sample_now_def
      instant_def us_day_def)

section \<open>Errors\<close>

definition raises_in :: "'a res \<Rightarrow> exc set \<Rightarrow> bool" where
  "raises_in m A \<longleftrightarrow> (\<forall>e. m = Inl e \<longrightarrow> e \<in> A)"

lemma raises_in_simps [simp]:
  "raises_in (Inr a) A" "raises_in (Inl e) A \<longleftrightarrow> e \<in> A" "raises_in (ensure b e) A \<longleftrightarrow> b \<or> e \<in> A"
  by (auto simp: raises_in_def)

lemma raises_in_sbind [intro]:
  "raises_in m A \<Longrightarrow> (\<And>a. m = Inr a \<Longrightarrow> raises_in (f a) A) \<Longrightarrow> raises_in (sbind m f) A"
  by (cases m) auto

lemma raises_in_rethrow: "raises_in m B \<Longrightarrow> x \<in> A \<Longrightarrow> {e \<in> B. \<not> c e} \<subseteq> A \<Longrightarrow> raises_in (rethrow c x m) A"
  by (cases m) (auto simp: raises_in_def)

lemma raises_in_mapM: "(\<And>x. x \<in> set xs \<Longrightarrow> raises_in (f x) A) \<Longrightarrow> raises_in (mapM_sum f xs) A"
  using mapM_sum_Inl by (fastforce simp: raises_in_def)

lemma stamp_raises: "raises_in (ftd_parse_rfc3339 P v) {ValueErr, OverflowErr}"
  by (cases v) (auto simp: ftd_parse_rfc3339_def fromisoformat_def astimezone_utc_def Let_def
      split: option.splits intro!: raises_in_sbind)

lemma check_stamp_raises: "raises_in (check_stamp P v) {FTDSchemaErr, OverflowErr}"
  unfolding check_stamp_def
  by (intro raises_in_sbind raises_in_rethrow [OF stamp_raises]) auto

lemma check_item_raises:
  "has_keys e [k] \<Longrightarrow> FTDSchemaErr \<in> A \<Longrightarrow> raises_in (check_item (PDict e) k test) A"
  by (simp add: check_item_def item_of_keys [of e "[k]"])

lemma structural_raises: "raises_in (structural_validate P doc) {FTDSchemaErr, OverflowErr}"
proof -
  have key: "raises_in (validate_issuer_key P v) {FTDSchemaErr, OverflowErr}" for v
  proof (cases v)
    case (PDict e)
    show ?thesis unfolding PDict validate_issuer_key_eq
      by (auto intro!: raises_in_sbind check_stamp_raises)
  qed (simp_all add: validate_issuer_key_def)
  have anchor: "raises_in (validate_anchor v) {FTDSchemaErr, OverflowErr}" for v
  proof (cases v)
    case (PDict a)
    show ?thesis unfolding PDict validate_anchor_eq by (auto intro!: raises_in_sbind)
  qed (simp_all add: validate_anchor_def)
  have sig: "raises_in (validate_signature v) {FTDSchemaErr, OverflowErr}" for v
  proof (cases v)
    case (PDict s)
    show ?thesis unfolding PDict validate_signature_eq by (auto intro!: raises_in_sbind)
  qed (simp_all add: validate_signature_def)
  have ep: "raises_in (validate_endpoint v) {FTDSchemaErr, OverflowErr}" for v
    by (cases v) (auto simp: validate_endpoint_def intro!: raises_in_sbind check_item_raises)
  have eps: "raises_in (validate_endpoints d) {FTDSchemaErr, OverflowErr}" for d
    by (auto simp: validate_endpoints_def intro!: raises_in_sbind raises_in_mapM ep split: option.split pyval.split)
  have keys: "raises_in (validate_issuer_keys P v) {FTDSchemaErr, OverflowErr}" for v
    by (cases v) (auto simp: validate_issuer_keys_def split: list.split simp del: mapM_sum.simps
        intro!: raises_in_sbind raises_in_mapM key)
  show ?thesis
  proof (cases doc)
    case (PDict d)
    show ?thesis unfolding PDict structural_validate_eq
      by (auto intro!: raises_in_sbind check_stamp_raises anchor sig eps keys)
  qed (simp_all add: structural_validate_def)
qed

lemma local_jcs_raises: "raises_in (local_jcs v) {TypeErr, ValueErr, UnicodeEncodeErr}"
proof -
  have "raises_in (local_jcs_impl v) {TypeErr, ValueErr, UnicodeEncodeErr}"
  proof (induction v rule: local_jcs_impl.induct)
    case (7 kvs)
    then show ?case by (auto intro!: raises_in_sbind raises_in_mapM)
  qed (auto simp: int_repr_def Let_def intro!: raises_in_sbind raises_in_mapM)
  moreover have "raises_in (utf8_encode s) {TypeErr, ValueErr, UnicodeEncodeErr}" for s
    using utf8_encode_err by (auto simp: raises_in_def)
  ultimately show ?thesis by (auto simp: local_jcs_def intro!: raises_in_sbind)
qed

text \<open>What the module documents, and what passes through it.\<close>

definition ftd_errors :: "exc set" where
  "ftd_errors = {FTDSchemaErr, FTDIDMismatchErr, FTDExpiredErr, FTDAnchorErr, FTDIssuerKeyErr, FTDSignatureErr}"

definition ftd_escapes :: "exc set" where
  "ftd_escapes = {ValueErr, OverflowErr, TypeErr, UnicodeEncodeErr}"

definition ftd_env_regular :: "ftd_env \<Rightarrow> txt_resolver \<Rightarrow> bool" where
  "ftd_env_regular E resolver \<longleftrightarrow> fe_rfc8785 E = None \<and> (\<forall>h. raises_in (resolver h) {DnsAnchorErr})
     \<and> (\<forall>verify pub sig msg. fe_ed25519 E = Some verify \<longrightarrow> (\<exists>b. verify pub sig msg = Inr b))"

lemma raises_in_mono: "raises_in m A \<Longrightarrow> A \<subseteq> B \<Longrightarrow> raises_in m B"
  by (auto simp: raises_in_def)

lemma parse_ftd_raises: "raises_in (parse_ftd E b) {FTDSchemaErr, ValueErr}"
  unfolding parse_ftd_def
proof (rule raises_in_rethrow)
  show "raises_in (sbind (utf8_decode b) (json_loads (fe_json E))) {UnicodeDecodeErr, JsonDecodeErr, ValueErr}"
    using json_loads_errs utf8_decode_err by (intro raises_in_sbind) (fastforce simp: raises_in_def)+
qed auto

lemma item_raises: "has_keys d ks \<Longrightarrow> k \<in> set ks \<Longrightarrow> raises_in (item_of (PDict d) k) A"
  by (simp add: item_of_keys)

lemma hex_arg_raises: "raises_in (hex_arg v) {ValueErr, TypeErr}"
proof -
  have "raises_in (fromhex s) {ValueErr, TypeErr}" for s
    by (induction s rule: fromhex.induct) (auto split: option.split)
  then show ?thesis by (auto simp: hex_arg_def split: option.split pyval.split)
qed

text \<open>The steps after the structural check, on a document that has passed it: no lookup fails.\<close>

lemma digest_raises:
  assumes "ftd_env_regular E resolver"
  shows "raises_in (ftd_digest E d) (ftd_errors \<union> ftd_escapes)"
  using assms raises_in_mono [OF local_jcs_raises]
  by (auto simp: ftd_digest_def jcs_canonicalise_def ftd_env_regular_def ftd_escapes_def intro!: raises_in_sbind)

lemma anchor_check_raises:
  assumes "ftd_env_regular E resolver" "has_keys d ftd_required"
    and "get_item d ''anchor'' = PDict a" "has_keys a anchor_required"
  shows "raises_in (ftd_anchor_check E resolver d) (ftd_errors \<union> ftd_escapes)"
proof -
  have fetch: "raises_in (fetch_anchor resolver h) {DnsAnchorErr}" for h
    using assms(1) parse_anchor_error
    by (auto simp: fetch_anchor_def ftd_env_regular_def raises_in_def sbind_Inl)
  have host: "sbind (item_of (PDict d) ''anchor'') (\<lambda>a. item_of a ''host'') = Inr (get_item a ''host'')"
    using item_of_keys [OF assms(2)] item_of_keys [OF assms(4)] assms(3)
    by (simp add: ftd_required_def anchor_required_def)
  show ?thesis
    unfolding ftd_anchor_check_def compute_ftd_fingerprint_from_body_def host
    using digest_raises [OF assms(1), unfolded ftd_errors_def ftd_escapes_def]
    by (auto intro!: raises_in_sbind raises_in_rethrow [OF fetch] simp: ftd_errors_def ftd_escapes_def
        split: pyval.split)
qed

lemma signature_check_raises:
  assumes "ftd_env_regular E resolver" "has_keys d ftd_required"
    and "get_item d ''document_signature'' = PDict s" "has_keys s signature_required"
  shows "raises_in (ftd_signature_check E d) (ftd_errors \<union> ftd_escapes)"
proof -
  have ed: "raises_in (ftd_verify_ed25519 E pub m sig) (ftd_errors \<union> ftd_escapes)" for pub m sig
    using assms(1) by (auto simp: ftd_verify_ed25519_def ftd_errors_def ftd_env_regular_def raises_in_def
        split: option.splits if_splits) (metis sum.distinct(1))+
  have sig: "sbind (item_of (PDict d) ''document_signature'') (\<lambda>s. item_of s ''signature'') = Inr (get_item s ''signature'')"
    using item_of_keys [OF assms(2)] item_of_keys [OF assms(4)] assms(3)
    by (simp add: ftd_required_def signature_required_def)
  have root: "item_of (PDict d) ''ftd_root_pubkey'' = Inr (get_item d ''ftd_root_pubkey'')"
    using item_of_keys [OF assms(2)] by (simp add: ftd_required_def)
  show ?thesis
    unfolding ftd_signature_check_def sig root sbind.simps
    by (intro raises_in_sbind digest_raises [OF assms(1)] ed raises_in_rethrow [OF hex_arg_raises])
      (auto simp: ftd_errors_def ftd_escapes_def)
qed

lemma parsed_compares:
  assumes "aware now" "ftd_parse_rfc3339 P v = Inr d"
  shows "raises_in (dt_ge now d) A" "raises_in (dt_lt now d) A"
proof -
  have "aware d"
    using assms(2) by (cases v) (auto simp: ftd_parse_rfc3339_def astimezone_utc_def aware_def Let_def split: if_splits)
  with assms(1) show "raises_in (dt_ge now d) A" "raises_in (dt_lt now d) A"
    by (simp_all add: dt_ge_def dt_lt_def)
qed

lemma select_key_raises:
  assumes "aware now" "has_keys e issuer_key_required"
  shows "raises_in (select_issuer_key P now (PDict e)) (ftd_errors \<union> ftd_escapes)"
proof -
  have stamp: "raises_in (ftd_parse_rfc3339 P v) (ftd_errors \<union> ftd_escapes)" for P v
    by (rule raises_in_mono [OF stamp_raises]) (auto simp: ftd_escapes_def)
  have item: "k \<in> set issuer_key_required \<Longrightarrow> raises_in (item_of (PDict e) k) A" for k and A :: "exc set"
    by (rule item_raises [OF assms(2)])
  show ?thesis
    unfolding select_issuer_key_def Let_def
    by (intro raises_in_sbind stamp item)
      (auto intro!: raises_in_sbind stamp item parsed_compares [OF assms(1)] simp: issuer_key_required_def
        split: option.split if_splits)
qed

lemma check_ftd_raises:
  assumes "aware now" "ftd_env_regular E resolver"
  shows "raises_in (check_ftd E resolver now i doc) (ftd_errors \<union> ftd_escapes)"
proof (cases "structural_validate (fe_json E) doc")
  case (Inl e)
  with structural_raises [of "fe_json E" doc] show ?thesis
    by (auto simp: check_ftd_def raises_in_def ftd_errors_def ftd_escapes_def)
next
  case (Inr x)
  then obtain d where doc: "doc = PDict d" "structural_validate (fe_json E) (PDict d) = Inr ()"
    using structural_dict [of "fe_json E" doc] by (cases doc) auto
  obtain raw a s where m: "has_keys d ftd_required" "get_item d ''issuer_keys'' = PList raw"
    "\<And>x. x \<in> set raw \<Longrightarrow> \<exists>e. x = PDict e \<and> has_keys e issuer_key_required"
    "get_item d ''anchor'' = PDict a" "has_keys a anchor_required"
    "get_item d ''document_signature'' = PDict s" "has_keys s signature_required"
    using validated_members [OF doc(2)] by blast
  have item: "k \<in> set ftd_required \<Longrightarrow> item_of (PDict d) k = Inr (get_item d k)" for k
    by (rule item_of_keys [OF m(1)])
  have stamp: "raises_in (ftd_parse_rfc3339 P v) (ftd_errors \<union> ftd_escapes)" for P v
    by (rule raises_in_mono [OF stamp_raises]) (auto simp: ftd_escapes_def)
  have keys: "raises_in (select_valid_issuer_keys P now raw) (ftd_errors \<union> ftd_escapes)" for P
    unfolding select_valid_issuer_keys_def
    using m(3) select_key_raises [OF assms(1)] by (intro raises_in_sbind raises_in_mapM) force+
  have own: "FTDIDMismatchErr \<in> ftd_errors \<union> ftd_escapes" "FTDExpiredErr \<in> ftd_errors \<union> ftd_escapes"
    "FTDIssuerKeyErr \<in> ftd_errors \<union> ftd_escapes"
    by (simp_all add: ftd_errors_def)
  show ?thesis
    unfolding check_ftd_def Let_def doc(1) doc(2) entry_items.simps
    using item [of "''id''"] item [of "''expires''"] item [of "''issuer_keys''"] own
    by (auto simp: m(2) ftd_required_def intro!: raises_in_sbind stamp keys parsed_compares [OF assms(1)]
        anchor_check_raises [OF assms(2) m(1,4,5)] signature_check_raises [OF assms(2) m(1,6,7)])
qed

text \<open>
  C39: For a resolver that raises nothing but \<open>DnsAnchorError\<close> (the one shipped for DNS over HTTPS can
  raise more, \<open>malformed_answer_escapes\<close>), the local canonicaliser, a signature backend that answers
  and a time with an offset: whatever the bytes, a verification raises one of the module's own errors or
  one of four that pass through: \<open>OverflowError\<close> of a timestamp beyond the calendar, \<open>ValueError\<close> of a
  long integer, \<open>TypeError\<close> of a float and \<open>UnicodeEncodeError\<close> of a lone surrogate; so no lookup of a
  missing member fails, \<open>KeyError\<close> among them. Of any value, the structural validator raises its own
  error or the first of the four, although it promises only the former.
\<close>

theorem ftd_errors_confined:
  assumes "aware now" "ftd_env_regular E resolver"
  shows "raises_in (verify_fresh E resolver now b ftd_id) (ftd_errors \<union> ftd_escapes)
    \<and> raises_in (structural_validate (fe_json E) doc) {FTDSchemaErr, OverflowErr}"
proof
  show "raises_in (verify_fresh E resolver now b ftd_id) (ftd_errors \<union> ftd_escapes)"
    unfolding verify_fresh_def
    by (intro raises_in_sbind check_ftd_raises assms raises_in_mono [OF parse_ftd_raises])
      (auto simp: ftd_errors_def ftd_escapes_def)
qed (rule structural_raises)

text \<open>The sample document with an expiry one hour past the year 1 in a zone a day ahead.\<close>

definition early_ftd :: items where
  "early_ftd = dict_set sample_ftd (u ''expires'') (PStr (u ''0001-01-01T01:00:00+23:00''))"

definition early_env :: pyenv where
  "early_env = \<lparr>iso_other = (\<lambda>s. if s = u ''0001-01-01T01:00:00+23:00''
      then Some (Dt 3600000000 (Some 82800000000)) else None),
    local_off = (\<lambda>_. 0), float_of = (\<lambda>_. FNan)\<rparr>"

lemma early_overflows: "structural_validate early_env (PDict early_ftd) = Inl OverflowErr"
proof -
  have "ftd_parse_rfc3339 early_env (PStr (u ''0001-01-01T01:00:00+23:00'')) = Inl OverflowErr"
    by code_simp
  then show ?thesis
    by (simp add: structural_validate_eq early_ftd_def sample_ftd_def has_keys_def ftd_required_def sample_items
     check_stamp_def sample_day_parses sample_matches)
qed

lemma ftd_errors_confined_witness:
  "\<exists>b. raises_in (verify_fresh sample_ftd_env sample_txt sample_now b (u ''did:web:a:ftd:v1'')) (ftd_errors \<union> ftd_escapes)
    \<and> verify_fresh sample_ftd_env sample_txt sample_now b (u ''did:web:b'') = Inl FTDIDMismatchErr"
proof -
  have regular: "aware sample_now" "ftd_env_regular sample_ftd_env sample_txt"
    by (simp_all add: sample_now_def aware_def ftd_env_regular_def sample_ftd_env_def sample_txt_def)
  obtain b where b: "parse_ftd sample_ftd_env b = Inr (PDict sample_ftd)" by (rule parse_ftd_emit [OF sample_plain])
  have "item_of (PDict sample_ftd) ''id'' = Inr (PStr (u ''did:web:a:ftd:v1''))"
    by (simp add: sample_ftd_def sample_lookup)
  with b have "verify_fresh sample_ftd_env sample_txt sample_now b (u ''did:web:b'') = Inl FTDIDMismatchErr"
    by (simp add: verify_fresh_def check_ftd_def sample_structure ensure_def)
  with ftd_errors_confined [OF regular] show ?thesis by blast
qed

text \<open>A member the JSON Schema of the document forbids passes the structural check.\<close>

lemma extra_member_accepted: "structural_validate P (PDict (dict_set sample_ftd (u ''x'') PNone)) = Inr ()"
  by (simp add: structural_validate_eq sample_ftd_def sample_ftd_key_def has_keys_def required_defs sample_items
     check_stamp_def sample_day_parses validate_issuer_keys_def validate_issuer_key_eq validate_anchor_eq
     validate_signature_eq validate_endpoints_def sample_hex sample_octets sample_matches nonempty_str_def)

end
