(* ===== verification/TransportFetch.thy ===== *)
theory TransportFetch
  imports FtdVerifier
begin

text \<open>
  Fetching an AIP document with its DNS anchor, \<open>identity_substrate/aip_document_transport_fetch.py\<close>:
  the URL of an identifier, the fetch over the HTTPS transport, the hash of the body and its
  comparison with the anchor record, required or best effort.
\<close>

section \<open>Identifier and URL\<close>

datatype aip_fetch_error =
    AipUrlSchemeError
  | AnchorMismatch ustr ustr "ustr option"
  | FromTransport https_error
  | FetchRaises exc

definition well_known_aip_prefix :: ustr where
  "well_known_aip_prefix = u ''/.well-known/aip/''"

definition dns_anchor_prefix :: ustr where
  "dns_anchor_prefix = u ''_wakir-aip.''"

text \<open>The part before the first slash, and the part after it where there is one.\<close>

definition split_slash :: "ustr \<Rightarrow> ustr \<times> ustr option" where
  "split_slash s =
     (takeWhile (\<lambda>c. c \<noteq> 47) s,
      case dropWhile (\<lambda>c. c \<noteq> 47) s of [] \<Rightarrow> None | _ # r \<Rightarrow> Some r)"

definition persona_path :: "ustr option \<Rightarrow> ustr" where
  "persona_path rest =
     (let p = (case rest of None \<Rightarrow> u ''index'' | Some r \<Rightarrow> if r = [] then u ''index'' else r)
      in if ends_with (u ''.json'') p then take (length p - 5) p else p)"

definition aip_web_to_https_url :: "unicode \<Rightarrow> ustr \<Rightarrow> aip_fetch_error + ustr \<times> ustr" where
  "aip_web_to_https_url U aip_id =
     (if aip_id = [] then Inl AipUrlSchemeError
      else if starts_with (u ''aip:web:'') aip_id then
        (let (host, rest) = split_slash (drop 8 aip_id) in
         if host = [] then Inl AipUrlSchemeError
         else (let h = py_lower U host in
           Inr (u ''https://'' @ h @ well_known_aip_prefix @ persona_path rest @ u ''.json'', h)))
      else if starts_with (u ''https://'') aip_id then
        (let (host, rest) = split_slash (drop 8 aip_id) in
         if host = [] then Inl AipUrlSchemeError else Inr (aip_id, py_lower U host))
      else Inl AipUrlSchemeError)"

section \<open>The fetch\<close>

record aip_fetch_result =
  af_aip_id :: ustr
  af_url :: ustr
  af_host :: ustr
  af_doc :: items
  af_bytes :: octets
  af_jcs_sha256 :: ustr
  af_anchor :: "dns_anchor option"
  af_matched :: bool

definition jcs_anchor_hex :: "sign_env \<Rightarrow> items \<Rightarrow> ustr res" where
  "jcs_anchor_hex E doc = sbind (aip_payload E doc) (\<lambda>h. Inr (hexdigest h))"

text \<open>The comparison with the anchor: the record found, and whether it matches.\<close>

definition anchor_cross_check ::
    "txt_resolver option \<Rightarrow> bool \<Rightarrow> ustr \<Rightarrow> ustr \<Rightarrow> aip_fetch_error + dns_anchor option \<times> bool" where
  "anchor_cross_check resolver required host jcs_hex =
     (case resolver of
        None \<Rightarrow> if required then Inl (AnchorMismatch host jcs_hex None) else Inr (None, False)
      | Some r \<Rightarrow>
          (case fetch_anchor r (dns_anchor_prefix @ host) of
             Inl e \<Rightarrow>
               if e = DnsAnchorErr then
                 (if required then Inl (AnchorMismatch host jcs_hex None) else Inr (None, False))
               else Inl (FetchRaises e)
           | Inr a \<Rightarrow>
               if da_fingerprint a = jcs_hex then Inr (Some a, True)
               else if required then Inl (AnchorMismatch host jcs_hex (Some (da_fingerprint a)))
               else Inr (Some a, False)))"

definition fetch_aip_document ::
    "sign_env \<Rightarrow> 'w transport \<Rightarrow> txt_resolver option \<Rightarrow> bool \<Rightarrow> ustr \<Rightarrow> 'w
     \<Rightarrow> (aip_fetch_error + aip_fetch_result) \<times> 'w" where
  "fetch_aip_document E T resolver required aip_id w =
     (case aip_web_to_https_url (te_chars (t_text T)) aip_id of
        Inl e \<Rightarrow> (Inl e, w)
      | Inr (url, host) \<Rightarrow>
          (case transport_get T url None [] w of
             (Inl e, w') \<Rightarrow> (Inl (FromTransport e), w')
           | (Inr resp, w') \<Rightarrow>
               (case jcs_anchor_hex E (dr_body resp) of
                  Inl e \<Rightarrow> (Inl (FetchRaises e), w')
                | Inr jcs_hex \<Rightarrow>
                    (case anchor_cross_check resolver required host jcs_hex of
                       Inl e \<Rightarrow> (Inl e, w')
                     | Inr (anchor, matched) \<Rightarrow>
                         (Inr \<lparr>af_aip_id = aip_id, af_url = url, af_host = host, af_doc = dr_body resp,
                            af_bytes = dr_bytes resp, af_jcs_sha256 = jcs_hex, af_anchor = anchor,
                            af_matched = matched\<rparr>, w')))))"

section \<open>The URL of an identifier\<close>

lemma https_prefix_ok: "enforce_https U (u ''https://'' @ s) = Inr ()"
  by (simp add: enforce_https_def u_def py_lower_def ascii_lower_def)

lemma split_slash_host: "split_slash s = (host, rest) \<Longrightarrow> 47 \<notin> set host \<and>
    s = host @ (case rest of None \<Rightarrow> [] | Some r \<Rightarrow> 47 # r)"
proof -
  assume a: "split_slash s = (host, rest)"
  then have host: "host = takeWhile (\<lambda>c. c \<noteq> 47) s" by (simp add: split_slash_def)
  show ?thesis
  proof (cases "dropWhile (\<lambda>c. c \<noteq> 47) s")
    case Nil
    then have "takeWhile (\<lambda>c. c \<noteq> 47) s = s" by (metis append.right_neutral takeWhile_dropWhile_id)
    with a host Nil show ?thesis by (auto simp: split_slash_def dest: set_takeWhileD)
  next
    case (Cons x r)
    then have "x = 47" using hd_dropWhile [of "\<lambda>c. c \<noteq> 47" s] by simp
    moreover have "s = host @ x # r" using takeWhile_dropWhile_id [of "\<lambda>c. c \<noteq> 47" s] host Cons by simp
    moreover have "rest = Some r" using a Cons by (simp add: split_slash_def)
    moreover have "47 \<notin> set host" using host by (auto dest: set_takeWhileD)
    ultimately show ?thesis by simp
  qed
qed

lemma web_url:
  assumes "aip_web_to_https_url U aip_id = Inr (url, host)"
  shows "enforce_https U url = Inr () \<and> (\<exists>h. h \<noteq> [] \<and> 47 \<notin> set h \<and> host = py_lower U h
     \<and> (url = aip_id \<and> starts_with (u ''https://'' @ h) aip_id
        \<or> starts_with (u ''aip:web:'' @ h) aip_id
          \<and> (\<exists>p. url = u ''https://'' @ host @ well_known_aip_prefix @ p @ u ''.json'')))"
proof -
  obtain h rest where s: "split_slash (drop 8 aip_id) = (h, rest)" by (metis surj_pair)
  note parts = split_slash_host [OF s]
  have whole: "starts_with (p @ h) aip_id" if "starts_with p aip_id" "length p = 8" for p
  proof -
    obtain r where "aip_id = p @ r" using \<open>starts_with p aip_id\<close> by (auto simp: starts_with_iff)
    with that(2) have "aip_id = p @ drop 8 aip_id" by simp
    with parts show ?thesis by (metis append_assoc starts_with_iff)
  qed
  have lens: "length (u ''aip:web:'') = 8" "length (u ''https://'') = 8" by (simp_all add: u_def)
  show ?thesis
  proof (cases "starts_with (u ''aip:web:'') aip_id")
    case True
    with assms s parts whole [OF True lens(1)] https_prefix_ok [of U] show ?thesis
      by (auto simp: aip_web_to_https_url_def Let_def split: if_splits)
  next
    case False
    with assms s have h: "starts_with (u ''https://'') aip_id" "h \<noteq> []" "url = aip_id" "host = py_lower U h"
      by (auto simp: aip_web_to_https_url_def split: if_splits)
    then obtain r where "aip_id = u ''https://'' @ r" by (auto simp: starts_with_iff)
    with h parts whole [OF h(1) lens(2)] https_prefix_ok [of U r] show ?thesis by auto
  qed
qed

section \<open>What a fetch returns\<close>

lemma cross_check_Inr:
  assumes "anchor_cross_check resolver required host hx = Inr (anchor, matched)"
  shows "(matched \<longleftrightarrow> (\<exists>a. anchor = Some a \<and> da_fingerprint a = hx)) \<and> (required \<longrightarrow> matched)
    \<and> (\<forall>a. anchor = Some a \<longleftrightarrow> (\<exists>rv. resolver = Some rv \<and> fetch_anchor rv (dns_anchor_prefix @ host) = Inr a))"
  using assms by (auto simp: anchor_cross_check_def split: option.splits sum.splits if_splits)

text \<open>The resolver answers the name, and the one fingerprint its records carry is \<open>fp\<close>.\<close>

definition only_record :: "txt_resolver option \<Rightarrow> ustr \<Rightarrow> ustr \<Rightarrow> bool" where
  "only_record resolver name fp \<longleftrightarrow>
     (\<exists>rv txt. resolver = Some rv \<and> rv name = Inr txt \<and> set (anchor_matches txt) = {fp})"

lemma only_record_iff:
  "only_record resolver name fp \<longleftrightarrow>
     (\<exists>rv a. resolver = Some rv \<and> fetch_anchor rv name = Inr a \<and> da_fingerprint a = fp)"
proof
  assume "only_record resolver name fp"
  then obtain rv ans where "resolver = Some rv" "rv name = Inr ans" "set (anchor_matches ans) = {fp}"
    by (auto simp: only_record_def)
  then show "\<exists>rv a. resolver = Some rv \<and> fetch_anchor rv name = Inr a \<and> da_fingerprint a = fp"
    by (intro exI [of _ rv] exI [of _ "\<lparr>da_host = name, da_fingerprint = fp\<rparr>"]) (simp add: fetch_anchor_iff)
qed (auto simp: only_record_def fetch_anchor_iff)

lemma fetch_parts:
  assumes "fetch_aip_document E T resolver required aip_id w = (Inr r, w')"
  obtains resp where "aip_web_to_https_url (te_chars (t_text T)) aip_id = Inr (af_url r, af_host r)"
    and "transport_get T (af_url r) None [] w = (Inr resp, w')"
    and "af_doc r = dr_body resp" "af_bytes r = dr_bytes resp"
    and "jcs_anchor_hex E (af_doc r) = Inr (af_jcs_sha256 r)"
    and "anchor_cross_check resolver required (af_host r) (af_jcs_sha256 r) = Inr (af_anchor r, af_matched r)"
  using assms by (auto simp: fetch_aip_document_def split: sum.splits prod.splits)

text \<open>
  C38: A fetch that returns asked the \<open>https://\<close> URL it was given, or the well-known one at the host
  that an \<open>aip:web:\<close> identifier names, where the host part ends at the first slash, and
  returns the body of a response the transport accepts with the hash of its canonical form without
  the signature. It returns an anchor exactly when the zone of \<open>_wakir-aip.\<close> and the host publishes
  one record and no other, and says that the document is anchored exactly when that one record is
  the hash, in either mode; a required anchor is always matched.
\<close>

theorem fetched_document:
  assumes "fetch_aip_document E T resolver required aip_id w = (Inr r, w')"
  shows "aip_web_to_https_url (te_chars (t_text T)) aip_id = Inr (af_url r, af_host r)
     \<and> enforce_https (te_chars (t_text T)) (af_url r) = Inr ()
     \<and> (\<exists>h. h \<noteq> [] \<and> 47 \<notin> set h \<and> af_host r = py_lower (te_chars (t_text T)) h
          \<and> (af_url r = aip_id \<and> starts_with (u ''https://'' @ h) aip_id
             \<or> starts_with (u ''aip:web:'' @ h) aip_id
               \<and> (\<exists>p. af_url r = u ''https://'' @ af_host r @ well_known_aip_prefix @ p @ u ''.json'')))
     \<and> (\<exists>resp. transport_get T (af_url r) None [] w = (Inr resp, w') \<and> accepted_response T resp
          \<and> af_doc r = dr_body resp \<and> af_bytes r = dr_bytes resp)
     \<and> jcs_anchor_hex E (af_doc r) = Inr (af_jcs_sha256 r)
     \<and> (\<forall>fp. map_option da_fingerprint (af_anchor r) = Some fp \<longleftrightarrow>
          only_record resolver (dns_anchor_prefix @ af_host r) fp)
     \<and> (af_matched r \<longleftrightarrow> only_record resolver (dns_anchor_prefix @ af_host r) (af_jcs_sha256 r))
     \<and> (required \<longrightarrow> af_matched r)"
proof -
  obtain resp where p: "aip_web_to_https_url (te_chars (t_text T)) aip_id = Inr (af_url r, af_host r)"
    "transport_get T (af_url r) None [] w = (Inr resp, w')"
    "af_doc r = dr_body resp" "af_bytes r = dr_bytes resp"
    "jcs_anchor_hex E (af_doc r) = Inr (af_jcs_sha256 r)"
    "anchor_cross_check resolver required (af_host r) (af_jcs_sha256 r) = Inr (af_anchor r, af_matched r)"
    using fetch_parts [OF assms] by metis
  note flag = cross_check_Inr [OF p(6)]
  have anchor: "map_option da_fingerprint (af_anchor r) = Some fp \<longleftrightarrow>
      only_record resolver (dns_anchor_prefix @ af_host r) fp" for fp
    using flag by (fastforce simp: only_record_iff)
  have matched: "af_matched r \<longleftrightarrow> only_record resolver (dns_anchor_prefix @ af_host r) (af_jcs_sha256 r)"
    using flag anchor [of "af_jcs_sha256 r"] by auto
  have host: "\<exists>h. h \<noteq> [] \<and> 47 \<notin> set h \<and> af_host r = py_lower (te_chars (t_text T)) h
      \<and> (af_url r = aip_id \<and> starts_with (u ''https://'' @ h) aip_id
         \<or> starts_with (u ''aip:web:'' @ h) aip_id
           \<and> (\<exists>p. af_url r = u ''https://'' @ af_host r @ well_known_aip_prefix @ p @ u ''.json''))"
    using web_url [OF p(1)] by blast
  have resp: "\<exists>resp. transport_get T (af_url r) None [] w = (Inr resp, w') \<and> accepted_response T resp
      \<and> af_doc r = dr_body resp \<and> af_bytes r = dr_bytes resp"
    using p(2-4) transport_get_accepts [OF p(2)] by blast
  note url = web_url [OF p(1), THEN conjunct1]
  show ?thesis
    by (intro conjI allI p(1,5) url host resp anchor matched flag [THEN conjunct2, THEN conjunct1])
qed

text \<open>
  With an anchor required, whatever the identifier is fetched from, the hash of the document is the
  one the zone publishes: two fetches of a host agree on it.
\<close>

lemma required_anchor_pins:
  assumes "fetch_aip_document E T (Some resolver) True i w = (Inr r, w')"
  shows "\<exists>a. fetch_anchor resolver (dns_anchor_prefix @ af_host r) = Inr a \<and> da_fingerprint a = af_jcs_sha256 r"
proof -
  have "anchor_cross_check (Some resolver) True (af_host r) (af_jcs_sha256 r) = Inr (af_anchor r, af_matched r)"
    by (rule fetch_parts [OF assms])
  from cross_check_Inr [OF this] show ?thesis by auto
qed

lemma required_anchor_fixes_hash:
  assumes "fetch_aip_document E T (Some resolver) True i w = (Inr r, w1)"
    and "fetch_aip_document E' T' (Some resolver) True i' v = (Inr r', v1)" and "af_host r = af_host r'"
  shows "af_jcs_sha256 r = af_jcs_sha256 r'"
  using required_anchor_pins [OF assms(1)] required_anchor_pins [OF assms(2)] assms(3) by auto

section \<open>A sample fetch\<close>

definition sample_fetch_env :: sign_env where
  "sample_fetch_env = sample_sign_env\<lparr>sha256 := (\<lambda>_. replicate 32 7)\<rparr>"

lemma sample_fetch:
  "\<exists>r. fetch_aip_document sample_fetch_env sample_transport (Some sample_txt) True (u ''https://a'') 0 = (Inr r, 1)
     \<and> af_jcs_sha256 r = hexdigest (replicate 32 7)"
proof -
  obtain resp where resp: "transport_get sample_transport (u ''https://a'') None [] 0 = (Inr resp, 1)" "dr_body resp = []"
    using sample_get [of None] by blast
  have "aip_web_to_https_url (te_chars (t_text sample_transport)) (u ''https://a'') = Inr (u ''https://a'', u ''a'')"
    by (simp add: aip_web_to_https_url_def sample_transport_def sample_text_env_def split_slash_def u_def
        py_lower_def ascii_lower_def)
  moreover have "canonicalize (PDict []) = Inr (u ''{}'')" by code_simp
  then have "jcs_anchor_hex sample_fetch_env [] = Inr (hexdigest (replicate 32 7))"
    by (auto simp: jcs_anchor_hex_def aip_payload_def sample_fetch_env_def sample_sign_env_def jcs_canonicalize_def
        dict_pop_def)
  moreover have "fetch_anchor sample_txt (dns_anchor_prefix @ u ''a'')
      = Inr \<lparr>da_host = dns_anchor_prefix @ u ''a'', da_fingerprint = hexdigest (replicate 32 7)\<rparr>"
    by (simp add: fetch_anchor_def sample_txt_def parse_anchor_iff sample_anchor)
  ultimately show ?thesis using resp by (simp add: fetch_aip_document_def anchor_cross_check_def)
qed

lemma fetched_document_witness:
  "\<exists>r. fetch_aip_document sample_fetch_env sample_transport (Some sample_txt) True (u ''https://a'') 0 = (Inr r, 1)
     \<and> af_matched r \<and> accepted_response sample_transport (\<lparr>dr_url = u ''HTTPS://b'', dr_body = af_doc r,
         dr_bytes = af_bytes r, dr_status = 200, dr_etag = None, dr_cache_control = None, dr_max_age = None,
         dr_content_type = None\<rparr>)"
proof -
  obtain r where r: "fetch_aip_document sample_fetch_env sample_transport (Some sample_txt) True (u ''https://a'') 0 = (Inr r, 1)"
    using sample_fetch by blast
  from fetched_document [OF this] have f: "af_matched r" "\<exists>resp. accepted_response sample_transport resp
     \<and> af_doc r = dr_body resp \<and> af_bytes r = dr_bytes resp" by blast+
  then show ?thesis using r sample_https(2) by (auto simp: accepted_response_def)
qed

end
