(* ===== verification/SchemaEnvelope.thy ===== *)
theory SchemaEnvelope
  imports PolicyEnvelope Signing Pyeq
begin

text \<open>
  The entries of the schema registry, \<open>schemas/registry_nats_kv_backend.py\<close> up to its in-memory
  view: the keys, the entry with its stored JSON form, the gates every write passes, and the
  registry a verifier reads. The decoder checks the type of no field but the body and the time, so
  a field is any JSON value here; \<open>entry_typed\<close> says when they are what the class declares.

  The module \<open>canonical/jcs.py\<close> that the hash of a body prefers is not part of the repository; the
  import fails and the hash is that of \<open>json.dumps\<close> with sorted keys, always.
\<close>

abbreviation SchemaEnvelopeErr :: exc where
  "SchemaEnvelopeErr \<equiv> ClassErr ''SchemaRegistryEnvelopeError''"

abbreviation SchemaGateErr :: exc where
  "SchemaGateErr \<equiv> ClassErr ''SchemaRegistryValidationError''"

section \<open>Keys\<close>

definition schemas_prefix :: ustr where
  "schemas_prefix = u ''schemas/''"

definition recognised_layers :: "ustr list" where
  "recognised_layers = [u ''identity'', u ''wire'', u ''federation'']"

definition triple_component :: "pyval \<Rightarrow> ustr res" where
  "triple_component v = (case v of
       PStr s \<Rightarrow> if s = [] then Inl ValueErr else if 47 \<in> set s then Inl ValueErr else Inr s
     | _ \<Rightarrow> Inl ValueErr)"

definition key_for_triple :: "pyval \<Rightarrow> pyval \<Rightarrow> pyval \<Rightarrow> ustr res" where
  "key_for_triple layer name version =
     sbind (triple_component layer) (\<lambda>l.
     sbind (triple_component name) (\<lambda>n.
     sbind (triple_component version) (\<lambda>v.
       if l \<notin> set recognised_layers then Inl ValueErr
       else Inr (schemas_prefix @ l @ [47] @ n @ [47] @ v))))"

definition triple_for_key :: "ustr \<Rightarrow> (ustr \<times> ustr \<times> ustr) res" where
  "triple_for_key key =
     (if \<not> starts_with schemas_prefix key then Inl ValueErr
      else (case split_on 47 (drop (length schemas_prefix) key) of
          [layer, name, version] \<Rightarrow>
            if layer \<noteq> [] \<and> name \<noteq> [] \<and> version \<noteq> [] then Inr (layer, name, version) else Inl ValueErr
        | _ \<Rightarrow> Inl ValueErr))"

section \<open>Entries\<close>

record registry_entry =
  se_layer :: pyval
  se_name :: pyval
  se_version :: pyval
  se_schema_id :: pyval
  se_body :: items
  se_sha256 :: pyval
  se_registered_at :: dt
  se_registered_by :: pyval
  se_supersedes :: pyval

definition entry_key :: "registry_entry \<Rightarrow> ustr res" where
  "entry_key e = key_for_triple (se_layer e) (se_name e) (se_version e)"

definition schema_jcs :: "pyval \<Rightarrow> octets res" where
  "schema_jcs v = sbind (json_dumps v) utf8_encode"

definition body_sha256 :: "(octets \<Rightarrow> octets) \<Rightarrow> items \<Rightarrow> ustr res" where
  "body_sha256 H body = sbind (schema_jcs (PDict body)) (\<lambda>c. Inr (hexdigest (H c)))"

section \<open>The stored form\<close>

definition entry_schema :: ustr where
  "entry_schema = u ''wakir.wirelang.schema-registry-entry/1''"

definition entry_payload :: "pyenv \<Rightarrow> registry_entry \<Rightarrow> items res" where
  "entry_payload E e =
     sbind (dt_to_rfc3339 E (se_registered_at e)) (\<lambda>at.
     Inr [(u ''schema'', PStr entry_schema),
          (u ''layer'', se_layer e),
          (u ''name'', se_name e),
          (u ''version'', se_version e),
          (u ''schema_id'', se_schema_id e),
          (u ''schema_body'', PDict (se_body e)),
          (u ''schema_body_sha256'', se_sha256 e),
          (u ''registered_at'', PStr at),
          (u ''registered_by'', se_registered_by e),
          (u ''supersedes'', se_supersedes e)])"

definition entry_to_envelope :: "pyenv \<Rightarrow> registry_entry \<Rightarrow> octets res" where
  "entry_to_envelope E e =
     sbind (entry_payload E e) (\<lambda>doc. sbind (json_dumps (PDict doc)) utf8_encode)"

definition entry_fields :: "string list" where
  "entry_fields = [''layer'', ''name'', ''version'', ''schema_id'', ''schema_body'',
     ''schema_body_sha256'', ''registered_at'', ''registered_by'']"

definition payload_to_entry :: "pyenv \<Rightarrow> items \<Rightarrow> registry_entry res" where
  "payload_to_entry E doc =
     (if dget doc ''schema'' \<noteq> PStr entry_schema then Inl SchemaEnvelopeErr
      else if \<not> list_all (\<lambda>k. map_of doc (u k) \<noteq> None) entry_fields then Inl SchemaEnvelopeErr
      else (case dget doc ''schema_body'' of
          PDict body \<Rightarrow>
            sbind (rethrow is_value_error SchemaEnvelopeErr (rfc3339_to_dt E (dget doc ''registered_at'')))
              (\<lambda>at. Inr \<lparr>se_layer = dget doc ''layer'', se_name = dget doc ''name'',
                 se_version = dget doc ''version'', se_schema_id = dget doc ''schema_id'',
                 se_body = body, se_sha256 = dget doc ''schema_body_sha256'',
                 se_registered_at = at, se_registered_by = dget doc ''registered_by'',
                 se_supersedes = dget doc ''supersedes''\<rparr>)
        | _ \<Rightarrow> Inl SchemaEnvelopeErr))"

definition envelope_to_entry :: "pyenv \<Rightarrow> octets \<Rightarrow> registry_entry res" where
  "envelope_to_entry E blob =
     sbind (rethrow (\<lambda>e. e = UnicodeDecodeErr) SchemaEnvelopeErr (utf8_decode blob)) (\<lambda>text.
     sbind (rethrow (\<lambda>e. e = JsonDecodeErr) SchemaEnvelopeErr (json_loads E text)) (\<lambda>doc.
     case doc of
       PDict d \<Rightarrow> payload_to_entry E d
     | _ \<Rightarrow> Inl SchemaEnvelopeErr))"

section \<open>The gates of a write\<close>

definition write_gates :: "float_int \<Rightarrow> (octets \<Rightarrow> octets) \<Rightarrow> registry_entry \<Rightarrow> unit res" where
  "write_gates F H e =
     (if \<not> py_eq F (dget (se_body e) ''$id'') (se_schema_id e) then Inl SchemaGateErr
      else sbind (body_sha256 H (se_body e)) (\<lambda>recomputed.
        if se_sha256 e \<noteq> PStr recomputed then Inl SchemaGateErr else Inr ()))"

section \<open>The in-memory registry\<close>

type_synonym schema_registry = "(ustr \<times> registry_entry) list"

definition sreg_add :: "schema_registry \<Rightarrow> registry_entry \<Rightarrow> schema_registry res" where
  "sreg_add reg e = sbind (entry_key e) (\<lambda>k. Inr (dict_set reg k e))"

definition sreg_lookup :: "schema_registry \<Rightarrow> ustr \<Rightarrow> registry_entry option" where
  "sreg_lookup reg key = map_of reg key"

definition lookup_by_triple ::
    "schema_registry \<Rightarrow> pyval \<Rightarrow> pyval \<Rightarrow> pyval \<Rightarrow> registry_entry option res" where
  "lookup_by_triple reg layer name version =
     (case key_for_triple layer name version of
        Inl e \<Rightarrow> if is_value_error e then Inr None else Inl e
      | Inr key \<Rightarrow> Inr (map_of reg key))"

definition keys_sorted :: "schema_registry \<Rightarrow> ustr list" where
  "keys_sorted reg = sort (map fst reg)"

section \<open>Keys and triples\<close>

lemma triple_component_Inr: "triple_component v = Inr s \<longleftrightarrow> v = PStr s \<and> s \<noteq> [] \<and> 47 \<notin> set s"
  by (auto simp: triple_component_def split: pyval.splits if_splits)

lemma triple_component_Inl: "triple_component v = Inl e \<Longrightarrow> e = ValueErr"
  by (auto simp: triple_component_def split: pyval.splits if_splits)

lemma key_for_triple_Inr:
  "key_for_triple l n v = Inr k \<longleftrightarrow> (\<exists>ls ns vs. l = PStr ls \<and> n = PStr ns \<and> v = PStr vs
     \<and> ls \<in> set recognised_layers \<and> ns \<noteq> [] \<and> vs \<noteq> [] \<and> 47 \<notin> set ns \<and> 47 \<notin> set vs
     \<and> k = schemas_prefix @ ls @ [47] @ ns @ [47] @ vs)"
proof -
  have "ls \<noteq> [] \<and> 47 \<notin> set ls" if "ls \<in> set recognised_layers" for ls
    using that by (auto simp: recognised_layers_def u_def)
  then show ?thesis
    by (auto simp: key_for_triple_def triple_component_Inr)
qed

lemma key_for_triple_Inl: "key_for_triple l n v = Inl e \<Longrightarrow> e = ValueErr"
  by (auto simp: key_for_triple_def sbind_Inl dest: triple_component_Inl split: if_splits)

lemma key_triple:
  assumes "key_for_triple l n v = Inr k"
  shows "\<exists>ls ns vs. l = PStr ls \<and> n = PStr ns \<and> v = PStr vs \<and> triple_for_key k = Inr (ls, ns, vs)"
proof -
  from assms obtain ls ns vs where t: "l = PStr ls" "n = PStr ns" "v = PStr vs"
    "ls \<in> set recognised_layers" "ns \<noteq> []" "vs \<noteq> []" "47 \<notin> set ns" "47 \<notin> set vs"
    "k = schemas_prefix @ ls @ [47] @ ns @ [47] @ vs"
    unfolding key_for_triple_Inr by blast
  have "ls \<noteq> []" "47 \<notin> set ls" using t(4) by (auto simp: recognised_layers_def u_def)
  then have "split_on 47 (ls @ 47 # ns @ 47 # vs) = [ls, ns, vs]"
    using t(7,8) by (simp add: split_on_app split_on_free)
  with t \<open>ls \<noteq> []\<close> show ?thesis by (simp add: triple_for_key_def)
qed

lemma triple_key:
  assumes "triple_for_key k = Inr (l, n, v)" "l \<in> set recognised_layers"
  shows "key_for_triple (PStr l) (PStr n) (PStr v) = Inr k"
proof -
  let ?r = "drop (length schemas_prefix) k"
  from assms(1) have p: "starts_with schemas_prefix k" "split_on 47 ?r = [l, n, v]" "n \<noteq> []" "v \<noteq> []"
    by (auto simp: triple_for_key_def split: if_splits list.splits)
  have free: "47 \<notin> set n" "47 \<notin> set v"
    using split_on_parts_free [of n 47 ?r] split_on_parts_free [of v 47 ?r] p(2) by auto
  from p(1) have "k = schemas_prefix @ ?r" by (auto simp: starts_with_iff)
  also have "?r = l @ [47] @ n @ [47] @ v"
    using join_split [of 47 ?r] p(2) by simp
  finally show ?thesis
    using assms(2) p(3,4) free unfolding key_for_triple_Inr by blast
qed

lemma entry_key_ne: "entry_key e = Inr k \<Longrightarrow> k \<noteq> []"
  by (auto simp: entry_key_def key_for_triple_Inr schemas_prefix_def u_def)

section \<open>What is read back\<close>

text \<open>An entry as it is decoded: the members of every object in order, the time in UTC.\<close>

abbreviation canon :: "pyval \<Rightarrow> pyval" where
  "canon \<equiv> json_canon (\<lambda>k. k)"

definition items_canon :: "items \<Rightarrow> items" where
  "items_canon d = map (\<lambda>kv. (fst kv, canon (snd kv))) (sort_key fst d)"

definition entry_stored :: "registry_entry \<Rightarrow> registry_entry" where
  "entry_stored e = \<lparr>se_layer = canon (se_layer e), se_name = canon (se_name e),
     se_version = canon (se_version e), se_schema_id = canon (se_schema_id e),
     se_body = items_canon (se_body e), se_sha256 = canon (se_sha256 e),
     se_registered_at = utc_of (se_registered_at e), se_registered_by = canon (se_registered_by e),
     se_supersedes = canon (se_supersedes e)\<rparr>"

definition entry_plain :: "registry_entry \<Rightarrow> bool" where
  "entry_plain e \<longleftrightarrow> json_plain (se_layer e) \<and> json_plain (se_name e) \<and> json_plain (se_version e)
     \<and> json_plain (se_schema_id e) \<and> json_plain (PDict (se_body e)) \<and> json_plain (se_sha256 e)
     \<and> json_plain (se_registered_by e) \<and> json_plain (se_supersedes e)"

lemma canon_items: "canon (PDict d) = PDict (items_canon d)"
  by (simp add: items_canon_def)

lemma canon_str [simp]: "canon v = PStr s \<longleftrightarrow> v = PStr s"
  by (cases v) auto

lemma dget_items_canon: "distinct (map fst d) \<Longrightarrow> dget (items_canon d) k = canon (dget d k)"
  using dget_canon(1) [OF _ canon_items] by blast

lemma body_sha256_canon: "body_sha256 H (items_canon d) = body_sha256 H d"
  using emit_canon [of "\<lambda>k. k" "PDict d"]
  by (simp only: body_sha256_def schema_jcs_def json_dumps_def canon_items)

lemma emit_members:
  "json_emit f (PDict (map (\<lambda>kv. (fst kv, json_canon f (snd kv))) kvs)) = json_emit f (PDict kvs)"
proof -
  let ?k = "\<lambda>kv :: ustr \<times> pyval. f (fst kv)"
  have "sort_key ?k (sort_key ?k xs) = sort_key ?k xs" for xs
    by (rule sort_key_id_if_sorted) simp
  then show ?thesis
    using emit_canon [of f "PDict kvs"] by (simp only: canon_dict emit_obj_unfold)
qed

lemma payload_stored:
  assumes "entry_payload E e = Inr d"
  shows "entry_payload E (entry_stored e) = Inr (map (\<lambda>kv. (fst kv, canon (snd kv))) d)"
proof -
  from assms obtain at where at: "dt_to_rfc3339 E (se_registered_at e) = Inr at"
    by (auto simp: entry_payload_def)
  with assms dt_to_rfc3339_read(3) [OF at] show ?thesis
    by (auto simp: entry_payload_def entry_stored_def items_canon_def)
qed

lemma entry_stored_bytes:
  assumes "entry_to_envelope E e = Inr b"
  shows "entry_to_envelope E (entry_stored e) = Inr b"
proof -
  from assms obtain d where d: "entry_payload E e = Inr d" by (auto simp: entry_to_envelope_def)
  with assms payload_stored [OF d] emit_members [of "\<lambda>k. k" d] show ?thesis
    by (simp add: entry_to_envelope_def json_dumps_def)
qed

text \<open>The payload of an entry, with any further members, is read back.\<close>

lemma payload_reads:
  assumes "entry_payload E e = Inr d0" "distinct (map fst (d0 @ extra))"
  shows "payload_to_entry E (items_canon (d0 @ extra)) = Inr (entry_stored e)"
proof -
  let ?d = "d0 @ extra"
  from assms(1) obtain at where at: "dt_to_rfc3339 E (se_registered_at e) = Inr at" and d_eq: "d0 =
     [(u ''schema'', PStr entry_schema), (u ''layer'', se_layer e), (u ''name'', se_name e),
      (u ''version'', se_version e), (u ''schema_id'', se_schema_id e), (u ''schema_body'', PDict (se_body e)),
      (u ''schema_body_sha256'', se_sha256 e), (u ''registered_at'', PStr at),
      (u ''registered_by'', se_registered_by e), (u ''supersedes'', se_supersedes e)]"
    by (auto simp: entry_payload_def)
  note g = dget_items_canon [OF assms(2)]
  have fields: "dget (items_canon ?d) ''schema'' = PStr entry_schema"
    "dget (items_canon ?d) ''layer'' = canon (se_layer e)" "dget (items_canon ?d) ''name'' = canon (se_name e)"
    "dget (items_canon ?d) ''version'' = canon (se_version e)"
    "dget (items_canon ?d) ''schema_id'' = canon (se_schema_id e)"
    "dget (items_canon ?d) ''schema_body'' = PDict (items_canon (se_body e))"
    "dget (items_canon ?d) ''schema_body_sha256'' = canon (se_sha256 e)"
    "dget (items_canon ?d) ''registered_at'' = PStr at"
    "dget (items_canon ?d) ''registered_by'' = canon (se_registered_by e)"
    "dget (items_canon ?d) ''supersedes'' = canon (se_supersedes e)"
    unfolding g canon_items [symmetric] by (simp_all add: d_eq dget_def)
  have "list_all (\<lambda>k. map_of (items_canon ?d) (u k) \<noteq> None) entry_fields"
    using dget_canon(2) [OF assms(2) canon_items, of entry_fields]
    by (simp add: require_keys_def entry_fields_def d_eq del: not_None_eq)
  then show ?thesis
    using dt_to_rfc3339_read(2) [OF at] by (simp add: payload_to_entry_def fields entry_stored_def)
qed

lemma payload_keys:
  "entry_payload E e = Inr d \<Longrightarrow> map fst d = map u [''schema'', ''layer'', ''name'', ''version'', ''schema_id'',
     ''schema_body'', ''schema_body_sha256'', ''registered_at'', ''registered_by'', ''supersedes'']"
  by (auto simp: entry_payload_def)

lemma payload_plain: "entry_plain e \<Longrightarrow> entry_payload E e = Inr d \<Longrightarrow> json_plain (PDict d)"
  by (auto simp: entry_payload_def entry_plain_def)

lemma envelope_reads_entry:
  assumes "entry_plain e" "entry_to_envelope E e = Inr b"
  shows "envelope_to_entry E b = Inr (entry_stored e)"
proof -
  from assms(2) obtain d t where d: "entry_payload E e = Inr d" and t: "json_emit (\<lambda>k. k) (PDict d) = Inr t"
    and b: "utf8_encode t = Inr b"
    by (auto simp: entry_to_envelope_def json_dumps_def)
  note plain = payload_plain [OF assms(1) d]
  show ?thesis
    using utf8_decode_encode [OF b] loads_emit [OF plain t, of E, unfolded canon_items]
      payload_reads [OF d, of "[]"] plain
    by (simp add: envelope_to_entry_def)
qed

text \<open>
  A stored entry is read back as it was written: decoding the bytes an entry was encoded to gives
  the entry with the members of its objects in order and its time in UTC, that entry encodes to the
  same bytes, and its body has the same hash.
\<close>

lemma schema_envelope_roundtrip:
  assumes "entry_plain e" "entry_to_envelope E e = Inr b"
  shows "envelope_to_entry E b = Inr (entry_stored e) \<and> entry_to_envelope E (entry_stored e) = Inr b
    \<and> body_sha256 H (se_body (entry_stored e)) = body_sha256 H (se_body e)"
  using envelope_reads_entry [OF assms] entry_stored_bytes [OF assms(2)]
  by (simp add: entry_stored_def body_sha256_canon)

section \<open>Errors of the decoder\<close>

lemma payload_to_entry_Inl:
  "payload_to_entry E d = Inl e \<Longrightarrow>
     e = SchemaEnvelopeErr \<or> e = OverflowErr \<and> rfc3339_to_dt E (dget d ''registered_at'') = Inl OverflowErr"
  using rfc3339_to_dt_errs
  by (fastforce simp: payload_to_entry_def sbind_Inl rethrow_Inl split: if_splits pyval.splits)

text \<open>
  Besides the envelope error the decoder raises two exceptions only: the plain \<open>ValueError\<close> of
  \<open>json.loads\<close> (an integer of more than 4300 digits) and the \<open>OverflowError\<close> of a registration time
  outside the years 1 to 9999 in UTC.
\<close>

lemma schema_envelope_errors:
  assumes "envelope_to_entry E b = Inl e"
  shows "e = SchemaEnvelopeErr
    \<or> (e = ValueErr \<and> (\<exists>t. utf8_decode b = Inr t \<and> json_loads E t = Inl ValueErr))
    \<or> (e = OverflowErr \<and> (\<exists>t d. utf8_decode b = Inr t \<and> json_loads E t = Inr (PDict d)
         \<and> rfc3339_to_dt E (dget d ''registered_at'') = Inl OverflowErr))"
proof (cases "utf8_decode b")
  case (Inl e')
  with assms utf8_decode_err [OF Inl] show ?thesis by (simp add: envelope_to_entry_def)
next
  case t: (Inr t)
  show ?thesis
  proof (cases "json_loads E t")
    case (Inl e')
    with assms t json_loads_errs [OF Inl] show ?thesis by (auto simp: envelope_to_entry_def)
  next
    case (Inr v)
    with assms t payload_to_entry_Inl show ?thesis
      by (cases v) (auto simp: envelope_to_entry_def)
  qed
qed

section \<open>Entries of the declared types\<close>

text \<open>Texts where the class declares \<open>str\<close>; the body is a document without floats.\<close>

definition is_text :: "pyval \<Rightarrow> bool" where
  "is_text v \<longleftrightarrow> (\<exists>s. v = PStr s)"

definition entry_typed :: "registry_entry \<Rightarrow> bool" where
  "entry_typed e \<longleftrightarrow> is_text (se_layer e) \<and> is_text (se_name e) \<and> is_text (se_version e)
     \<and> is_text (se_schema_id e) \<and> is_text (se_sha256 e) \<and> is_text (se_registered_by e)
     \<and> (se_supersedes e = PNone \<or> is_text (se_supersedes e)) \<and> json_plain (PDict (se_body e))"

lemma text_plain: "is_text v \<Longrightarrow> json_plain v" "is_text v \<Longrightarrow> canon v = v"
  by (auto simp: is_text_def)

lemma typed_plain: "entry_typed e \<Longrightarrow> entry_plain e"
  by (auto simp: entry_typed_def entry_plain_def text_plain)

text \<open>A typed entry is read back with the same fields, but for the order in its body and UTC.\<close>

lemma typed_stored:
  "entry_typed e \<Longrightarrow>
     entry_stored e = e\<lparr>se_body := items_canon (se_body e), se_registered_at := utc_of (se_registered_at e)\<rparr>"
  by (auto simp: entry_typed_def entry_stored_def text_plain)

lemma stored_typed: "entry_typed e \<Longrightarrow> entry_typed (entry_stored e)"
  using json_plain_canon [of "PDict (se_body e)" "\<lambda>k. k"]
  by (simp only: typed_stored) (simp add: entry_typed_def canon_items del: json_plain.simps json_canon.simps)

lemma stored_key: "entry_typed e \<Longrightarrow> entry_key (entry_stored e) = entry_key e"
  by (simp add: typed_stored entry_key_def)

lemma stored_gates:
  assumes "entry_typed e"
  shows "write_gates F H (entry_stored e) = write_gates F H e"
proof -
  from assms obtain i where "se_schema_id e = PStr i" "distinct (map fst (se_body e))"
    by (auto simp: entry_typed_def is_text_def)
  then show ?thesis
    using assms by (simp add: typed_stored write_gates_def body_sha256_canon dget_items_canon)
qed

lemma write_gates_Inr:
  "write_gates F H e = Inr x \<longleftrightarrow> py_eq F (dget (se_body e) ''$id'') (se_schema_id e)
     \<and> (\<exists>h. body_sha256 H (se_body e) = Inr h \<and> se_sha256 e = PStr h)"
  by (auto simp: write_gates_def split: if_splits)

end
