(* ===== verification/SchemaRegistry.thy ===== *)
theory SchemaRegistry
  imports SchemaEnvelope PolicyWatch
begin

text \<open>
  \<open>NatsKvSchemaRegistry\<close> (\<open>schemas/registry_nats_kv_backend.py\<close>): reading, writing, pinned writing,
  deleting and listing schema entries over a key-value handle, the snapshot for verifiers, the watch
  stream and the live snapshot it feeds. The adapter shims of the module are those of the policy
  backend with exceptions of their own; what is the same code is used from there.

  The registry keys its entries by their own triple, not by the key they were stored at, and \<open>get\<close>
  does not check the gates again. \<open>registry_stays_sound\<close> shows that this is enough as long as every
  writer goes through the backend: each value in the bucket then decodes to an entry that passes the
  gates and belongs to its key. The other theorems rest on that invariant.
\<close>

abbreviation SchemaBackendErr :: exc where
  "SchemaBackendErr \<equiv> ClassErr ''SchemaRegistryBackendError''"

section \<open>Reading\<close>

fun schema_field_bytes :: "kv_field \<Rightarrow> octets res" where
  "schema_field_bytes VNone = Inl SchemaEnvelopeErr"
| "schema_field_bytes (VStr s) = utf8_encode s"
| "schema_field_bytes (VBytes b) = Inr b"

fun schema_value_bytes :: "kv_entry \<Rightarrow> octets res" where
  "schema_value_bytes KNone = Inl SchemaEnvelopeErr"
| "schema_value_bytes (KBytes b) = Inr b"
| "schema_value_bytes (KObj v r) = schema_field_bytes v"
| "schema_value_bytes (KMap v r) = schema_field_bytes v"

definition decode_kv_entry :: "pyenv \<Rightarrow> kv_entry \<Rightarrow> registry_entry option res" where
  "decode_kv_entry E kve =
     (if kve = KNone then Inr None
      else sbind (schema_value_bytes kve) (\<lambda>b. sbind (envelope_to_entry E b) (\<lambda>e. Inr (Some e))))"

definition schema_get :: "pyenv \<Rightarrow> 's kv_ops \<Rightarrow> ustr \<Rightarrow> ('s, registry_entry option) io" where
  "schema_get E kv key = io_bind (fetch_entry kv key) (\<lambda>kve. io_res (decode_kv_entry E kve))"

definition get_by_triple ::
    "pyenv \<Rightarrow> 's kv_ops \<Rightarrow> pyval \<Rightarrow> pyval \<Rightarrow> pyval \<Rightarrow> ('s, registry_entry option) io" where
  "get_by_triple E kv layer name version =
     (case key_for_triple layer name version of
        Inr key \<Rightarrow> schema_get E kv key
      | Inl e \<Rightarrow> if is_value_error e then io_ret None else io_raise e)"

definition schema_get_with_revision ::
    "pyenv \<Rightarrow> 's kv_ops \<Rightarrow> ustr \<Rightarrow> ('s, (registry_entry \<times> int) option) io" where
  "schema_get_with_revision E kv key =
     io_bind (fetch_entry kv key) (\<lambda>kve.
     io_res (sbind (decode_kv_entry E kve) (\<lambda>e.
       Inr (map_option (\<lambda>e. (e, coerce_revision_from_entry kve)) e))))"

section \<open>Writing\<close>

record schema_env =
  sv_py :: pyenv
  sv_float :: float_int
  sv_sha256 :: "octets \<Rightarrow> octets"

definition schema_put :: "schema_env \<Rightarrow> 's kv_ops \<Rightarrow> registry_entry \<Rightarrow> ('s, int) io" where
  "schema_put V kv e =
     io_bind (io_res (write_gates (sv_float V) (sv_sha256 V) e)) (\<lambda>_.
     io_bind (io_res (entry_key e)) (\<lambda>key.
     io_bind (io_res (entry_to_envelope (sv_py V) e)) (\<lambda>blob.
     io_bind (kv_put kv key blob) (\<lambda>rv. io_ret (coerce_revision rv)))))"

definition schema_conflict :: "ustr \<Rightarrow> int \<Rightarrow> exc \<Rightarrow> exc" where
  "schema_conflict key n e =
     (if is_conflict_exception e then SchemaConflictErr key n (extract_actual_revision e) else e)"

definition schema_update_with_revision ::
    "'s kv_ops \<Rightarrow> ustr \<Rightarrow> octets \<Rightarrow> int \<Rightarrow> ('s, kv_ret) io" where
  "schema_update_with_revision kv key blob n =
     (case kv_update kv of
        Some (upd, pos) \<Rightarrow>
          io_catch
            (io_catch (upd key blob n) (\<lambda>e. if is_type_error e then pos key blob n else io_raise e))
            (\<lambda>e. io_raise (schema_conflict key n e))
      | None \<Rightarrow>
          io_catch (kv_put_expected kv key blob n)
            (\<lambda>e. io_raise (if is_type_error e then SchemaBackendErr else schema_conflict key n e)))"

definition schema_put_with_revision ::
    "schema_env \<Rightarrow> 's kv_ops \<Rightarrow> registry_entry \<Rightarrow> int \<Rightarrow> ('s, int) io" where
  "schema_put_with_revision V kv e n =
     (if n < 0 then io_raise ValueErr
      else
        io_bind (io_res (write_gates (sv_float V) (sv_sha256 V) e)) (\<lambda>_.
        io_bind (io_res (entry_key e)) (\<lambda>key.
        io_bind (io_res (entry_to_envelope (sv_py V) e)) (\<lambda>blob.
        io_bind (schema_update_with_revision kv key blob n) (\<lambda>rv. io_ret (coerce_revision rv))))))"

definition schema_delete :: "'s kv_ops \<Rightarrow> ustr \<Rightarrow> ('s, unit) io" where
  "schema_delete kv key =
     (if key = [] then io_raise ValueErr
      else io_catch (kv_delete kv key) (\<lambda>e. if is_missing e then io_ret () else io_raise e))"

section \<open>Snapshots\<close>

definition schema_list_keys :: "'s kv_ops \<Rightarrow> ('s, ustr list) io" where
  "schema_list_keys kv = (case kv_keys kv of Some op \<Rightarrow> op | None \<Rightarrow> io_raise SchemaBackendErr)"

fun collect_entries ::
    "pyenv \<Rightarrow> 's kv_ops \<Rightarrow> ustr list \<Rightarrow> schema_registry \<Rightarrow> ('s, schema_registry) io" where
  "collect_entries E kv [] reg = io_ret reg"
| "collect_entries E kv (k # ks) reg =
     io_bind (schema_get E kv k) (\<lambda>x.
       case x of
         None \<Rightarrow> collect_entries E kv ks reg
       | Some e \<Rightarrow> io_bind (io_res (sreg_add reg e)) (collect_entries E kv ks))"

definition schema_snapshot :: "pyenv \<Rightarrow> 's kv_ops \<Rightarrow> ('s, schema_registry) io" where
  "schema_snapshot E kv = io_bind (schema_list_keys kv) (\<lambda>ks. collect_entries E kv ks [])"

section \<open>The watch stream and the live snapshot\<close>

record schema_event =
  sev_op :: watch_op
  sev_key :: ustr
  sev_entry :: "registry_entry option"
  sev_revision :: int

definition schema_op :: "ustr \<Rightarrow> watch_op res" where
  "schema_op n =
     (if n = u ''PUT'' then Inr PUT
      else if n = u ''DELETE'' then Inr DELETE
      else if n = u ''PURGE'' then Inr PURGE
      else Inl SchemaEnvelopeErr)"

definition decode_schema_update :: "pyenv \<Rightarrow> watch_update \<Rightarrow> schema_event res" where
  "decode_schema_update E upd =
     (case upd_operation upd of
        None \<Rightarrow> Inl SchemaEnvelopeErr
      | Some raw \<Rightarrow>
          sbind (schema_op (upper (op_name raw))) (\<lambda>op.
          sbind (as_str SchemaEnvelopeErr (upd_key upd)) (\<lambda>key.
          let revision = (case upd_revision upd of None \<Rightarrow> 0 | Some n \<Rightarrow> n) in
          if op = PUT then
            sbind (schema_value_bytes (upd_entry upd)) (\<lambda>blob.
            sbind (envelope_to_entry E blob) (\<lambda>e.
            Inr \<lparr>sev_op = op, sev_key = key, sev_entry = Some e, sev_revision = revision\<rparr>))
          else Inr \<lparr>sev_op = op, sev_key = key, sev_entry = None, sev_revision = revision\<rparr>)))"

fun schema_stream_next ::
    "pyenv \<Rightarrow> watcher \<Rightarrow> watch_update option list \<Rightarrow> schema_event option res \<times> watch_update option list" where
  "schema_stream_next E NoInterface us = (Inl SchemaBackendErr, us)"
| "schema_stream_next E AsyncIterator [] = (Inr None, [])"
| "schema_stream_next E AsyncIterator (None # us) = schema_stream_next E AsyncIterator us"
| "schema_stream_next E AsyncIterator (Some upd # us) =
     (sbind (decode_schema_update E upd) (\<lambda>ev. Inr (Some ev)), us)"
| "schema_stream_next E UpdatesMethod [] = (Inr None, [])"
| "schema_stream_next E UpdatesMethod (None # us) = (Inr None, us)"
| "schema_stream_next E UpdatesMethod (Some upd # us) =
     (sbind (decode_schema_update E upd) (\<lambda>ev. Inr (Some ev)), us)"

record live_schema =
  ls_live :: schema_registry
  ls_revision :: int

text \<open>A copy of a registry: its entries are added one after the other to an empty one.\<close>

fun add_entries :: "registry_entry list \<Rightarrow> schema_registry \<Rightarrow> schema_registry res" where
  "add_entries [] reg = Inr reg"
| "add_entries (e # es) reg = sbind (sreg_add reg e) (add_entries es)"

definition live_schema_init :: "schema_registry \<Rightarrow> int \<Rightarrow> live_schema res" where
  "live_schema_init initial n =
     sbind (add_entries (map snd initial) []) (\<lambda>d. Inr \<lparr>ls_live = d, ls_revision = n\<rparr>)"

definition live_schema_apply :: "schema_event \<Rightarrow> live_schema \<Rightarrow> live_schema res" where
  "live_schema_apply ev L =
     sbind (if sev_op ev = PUT then
              (case sev_entry ev of
                 None \<Rightarrow> Inl SchemaEnvelopeErr
               | Some e \<Rightarrow> sreg_add (ls_live L) e)
            else Inr (dict_pop (ls_live L) (sev_key ev))) (\<lambda>d.
     Inr \<lparr>ls_live = d,
       ls_revision = (if sev_revision ev > ls_revision L then sev_revision ev else ls_revision L)\<rparr>)"

definition live_schema_registry :: "live_schema \<Rightarrow> schema_registry res" where
  "live_schema_registry L = add_entries (map snd (ls_live L)) []"

definition live_schema_from_backend :: "pyenv \<Rightarrow> 's kv_ops \<Rightarrow> ('s, live_schema) io" where
  "live_schema_from_backend E kv =
     io_bind (schema_snapshot E kv) (\<lambda>initial. io_res (live_schema_init initial 0))"

section \<open>The operations over a lawful bucket\<close>

definition live_entry :: "pyenv \<Rightarrow> (octets \<times> int) option \<Rightarrow> registry_entry option res" where
  "live_entry E x = (case x of None \<Rightarrow> Inr None
     | Some (b, n) \<Rightarrow> sbind (envelope_to_entry E b) (\<lambda>e. Inr (Some e)))"

abbreviation gates :: "schema_env \<Rightarrow> registry_entry \<Rightarrow> unit res" where
  "gates V \<equiv> write_gates (sv_float V) (sv_sha256 V)"

lemma schema_value_bytes_Inr: "coerce_value_bytes e = Inr b \<Longrightarrow> schema_value_bytes e = Inr b"
proof -
  have "coerce_field v = Inr b \<Longrightarrow> schema_field_bytes v = Inr b" for v
    by (cases v) auto
  then show "coerce_value_bytes e = Inr b \<Longrightarrow> schema_value_bytes e = Inr b"
    by (cases e) auto
qed

lemma schema_delete_eq: "schema_delete kv key = policy_delete kv key"
  by (simp add: schema_delete_def policy_delete_def)

context kv_bucket
begin

lemma schema_get_live:
  assumes "inv s" "k \<noteq> []"
  shows "schema_get E kv k s = (live_entry E (view s k), s)"
  using fetch_live [OF assms] schema_value_bytes_Inr
  by (auto simp: schema_get_def io_bind_def decode_kv_entry_def live_entry_def split: option.splits)

lemma schema_get_with_revision_live:
  assumes "inv s" "k \<noteq> []"
  shows "schema_get_with_revision E kv k s =
    (sbind (live_entry E (view s k)) (\<lambda>e. Inr (map_option (\<lambda>e. (e, live_rev (view s k))) e)), s)"
  using fetch_live [OF assms] schema_value_bytes_Inr
  by (auto simp: schema_get_with_revision_def io_bind_def decode_kv_entry_def live_entry_def live_rev_def
      split: option.splits)

lemma schema_put_result:
  assumes "inv s" "schema_put V kv e s = (x, s')"
  shows "inv s' \<and> seq s \<le> seq s' \<and>
    (case x of
       Inl _ \<Rightarrow> s' = s
     | Inr m \<Rightarrow> gates V e = Inr () \<and> seq s < m \<and> seq s' = m
         \<and> (\<exists>k b. entry_key e = Inr k \<and> entry_to_envelope (sv_py V) e = Inr b
              \<and> view s' = (view s)(k \<mapsto> (b, m))))"
proof (cases "\<exists>k b. gates V e = Inr () \<and> entry_key e = Inr k \<and> entry_to_envelope (sv_py V) e = Inr b")
  case True
  then obtain k b where "gates V e = Inr ()" "entry_key e = Inr k" "entry_to_envelope (sv_py V) e = Inr b"
    by blast
  with put_writes [OF assms(1), of k b] assms(2) show ?thesis
    by (auto simp: schema_put_def io_bind_def)
next
  case False
  then have "\<exists>x. schema_put V kv e s = (Inl x, s)"
    by (cases "gates V e"; cases "entry_key e"; cases "entry_to_envelope (sv_py V) e") (auto simp: schema_put_def)
  with assms show ?thesis by auto
qed

lemma schema_update_result:
  assumes "inv s"
  shows "(\<exists>r s'. schema_update_with_revision kv k b n s = (Inr r, s') \<and> live_rev (view s k) = n \<and> inv s'
           \<and> seq s < coerce_revision r \<and> seq s' = coerce_revision r
           \<and> view s' = (view s)(k \<mapsto> (b, coerce_revision r)))
       \<or> (\<exists>a. schema_update_with_revision kv k b n s = (Inl (SchemaConflictErr k n a), s)
           \<and> (view s k = None \<or> live_rev (view s k) \<noteq> n))"
proof -
  obtain upd pos where u: "kv_update kv = Some (upd, pos)"
    using update_ops by blast
  obtain x s' where x: "upd k b n s = (x, s')"
    by (cases "upd k b n s")
  show ?thesis
  proof (cases x)
    case (Inr r)
    with update_writes [OF assms u] x u show ?thesis
      by (auto simp: schema_update_with_revision_def io_catch_def)
  next
    case (Inl e)
    with update_refuses [OF assms u] x have "s' = s" "is_conflict_exception e" "\<not> is_type_error e"
      "view s k = None \<or> live_rev (view s k) \<noteq> n" by blast+
    with x u Inl show ?thesis
      by (auto simp: schema_update_with_revision_def io_catch_def schema_conflict_def)
  qed
qed

lemma schema_pinned_result:
  assumes "inv s" "schema_put_with_revision V kv e n s = (x, s')"
  shows "inv s' \<and> seq s \<le> seq s' \<and>
    (case x of
       Inl _ \<Rightarrow> s' = s
     | Inr m \<Rightarrow> 0 \<le> n \<and> gates V e = Inr () \<and> seq s < m \<and> seq s' = m
         \<and> (\<exists>k b. entry_key e = Inr k \<and> entry_to_envelope (sv_py V) e = Inr b
              \<and> live_rev (view s k) = n \<and> view s' = (view s)(k \<mapsto> (b, m))))"
proof (cases "\<exists>k b. 0 \<le> n \<and> gates V e = Inr () \<and> entry_key e = Inr k \<and> entry_to_envelope (sv_py V) e = Inr b")
  case True
  then obtain k b where "0 \<le> n" "gates V e = Inr ()" "entry_key e = Inr k" "entry_to_envelope (sv_py V) e = Inr b"
    by blast
  with schema_update_result [OF assms(1), of k b n] assms show ?thesis
    by (auto simp: schema_put_with_revision_def io_bind_def)
next
  case False
  then have "\<exists>x. schema_put_with_revision V kv e n s = (Inl x, s)"
    by (cases "gates V e"; cases "entry_key e"; cases "entry_to_envelope (sv_py V) e")
      (auto simp: schema_put_with_revision_def)
  with assms show ?thesis by auto
qed

end

text \<open>
  An entry that fails a gate is refused by both write paths before the handle is touched,
  whatever the handle does; the two paths report the same error.
\<close>

lemma gates_before_write:
  assumes "gates V e = Inl x"
  shows "schema_put V kv e s = (Inl x, s) \<and> (0 \<le> n \<longrightarrow> schema_put_with_revision V kv e n s = (Inl x, s))"
  using assms by (simp add: schema_put_def schema_put_with_revision_def)

section \<open>A bucket written through the backend\<close>

definition sound_value :: "schema_env \<Rightarrow> ustr \<Rightarrow> octets \<Rightarrow> bool" where
  "sound_value V k b \<longleftrightarrow> (\<exists>e. envelope_to_entry (sv_py V) b = Inr e \<and> entry_typed e
     \<and> gates V e = Inr () \<and> entry_key e = Inr k)"

definition sound_bucket :: "schema_env \<Rightarrow> ('s \<Rightarrow> ustr \<Rightarrow> (octets \<times> int) option) \<Rightarrow> 's \<Rightarrow> bool" where
  "sound_bucket V view s \<longleftrightarrow> (\<forall>k b n. view s k = Some (b, n) \<longrightarrow> sound_value V k b)"

lemma written_sound:
  assumes "entry_typed e" "gates V e = Inr ()" "entry_key e = Inr k" "entry_to_envelope (sv_py V) e = Inr b"
  shows "sound_value V k b"
  unfolding sound_value_def
  using assms envelope_reads_entry [OF typed_plain assms(4)] stored_typed stored_gates stored_key
  by (intro exI [of _ "entry_stored e"]) simp

lemma sound_live:
  assumes "sound_bucket V view s"
  shows "view s k = None \<and> live_entry (sv_py V) (view s k) = Inr None
    \<or> (\<exists>e. live_entry (sv_py V) (view s k) = Inr (Some e) \<and> view s k \<noteq> None \<and> entry_typed e
         \<and> gates V e = Inr () \<and> entry_key e = Inr k)"
  using assms
  by (cases "view s k") (fastforce simp: sound_bucket_def sound_value_def live_entry_def)+

text \<open>
  The histories of a bucket whose writers use the backend, with the updates they emit: puts and
  pinned puts of typed entries, those that fail, and removals.
\<close>

definition schema_writes :: "schema_env \<Rightarrow> 's kv_ops \<Rightarrow> registry_entry \<Rightarrow> 's \<Rightarrow> int res \<Rightarrow> 's \<Rightarrow> bool" where
  "schema_writes V kv e s x s' \<longleftrightarrow> schema_put V kv e s = (x, s')
     \<or> (\<exists>n. schema_put_with_revision V kv e n s = (x, s'))"

inductive schema_history :: "schema_env \<Rightarrow> 's kv_ops \<Rightarrow> 's \<Rightarrow> watch_update list \<Rightarrow> 's \<Rightarrow> bool" for V kv where
  schema_start: "schema_history V kv s [] s"
| schema_write: "schema_history V kv s us s1 \<Longrightarrow> entry_typed e \<Longrightarrow> schema_writes V kv e s1 (Inr m) s2 \<Longrightarrow>
    entry_key e = Inr k \<Longrightarrow> entry_to_envelope (sv_py V) e = Inr b \<Longrightarrow>
    schema_history V kv s (us @ [put_update k b m]) s2"
| schema_refused: "schema_history V kv s us s1 \<Longrightarrow> schema_writes V kv e s1 (Inl x) s2 \<Longrightarrow>
    schema_history V kv s us s2"
| schema_remove: "schema_history V kv s us s1 \<Longrightarrow> schema_delete kv k s1 = (Inr (), s2) \<Longrightarrow>
    op = u ''DELETE'' \<or> op = u ''PURGE'' \<Longrightarrow>
    schema_history V kv s (us @ [removal_update op k m]) s2"

fun follow_schema :: "pyenv \<Rightarrow> watch_update list \<Rightarrow> live_schema \<Rightarrow> live_schema res" where
  "follow_schema E [] L = Inr L"
| "follow_schema E (upd # us) L =
     sbind (decode_schema_update E upd) (\<lambda>ev. sbind (live_schema_apply ev L) (follow_schema E us))"

lemma follow_schema_append: "follow_schema E (us @ vs) L = sbind (follow_schema E us L) (follow_schema E vs)"
proof (induction E us L rule: follow_schema.induct)
  case (2 E upd us L)
  then show ?case
    by (cases "decode_schema_update E upd"; cases "live_schema_apply (projr (decode_schema_update E upd)) L") auto
qed simp

lemma decode_schema_put:
  assumes "envelope_to_entry E b = Inr e" "k \<noteq> []"
  shows "decode_schema_update E (put_update k b m)
    = Inr \<lparr>sev_op = PUT, sev_key = k, sev_entry = Some e, sev_revision = m\<rparr>"
  using assms by (simp add: decode_schema_update_def put_update_def op_name_def schema_op_def upper_def u_def)

lemma decode_schema_removal:
  assumes "op = u ''DELETE'' \<or> op = u ''PURGE''" "k \<noteq> []"
  shows "\<exists>w. w \<noteq> PUT \<and> decode_schema_update E (removal_update op k m)
    = Inr \<lparr>sev_op = w, sev_key = k, sev_entry = None, sev_revision = m\<rparr>"
  using assms
  by (auto simp: decode_schema_update_def removal_update_def op_name_def schema_op_def upper_def u_def)

text \<open>A registry that mirrors the bucket: one entry per live key, under its own key.\<close>

definition mirrors :: "schema_env \<Rightarrow> ('s \<Rightarrow> ustr \<Rightarrow> (octets \<times> int) option) \<Rightarrow> 's \<Rightarrow> schema_registry \<Rightarrow> bool" where
  "mirrors V view s reg \<longleftrightarrow> distinct (map fst reg)
     \<and> (\<forall>k. live_entry (sv_py V) (view s k) = Inr (map_of reg k))
     \<and> (\<forall>k e. map_of reg k = Some e \<longrightarrow> entry_key e = Inr k)"

lemma add_entries_keyed:
  assumes "\<forall>(k, e) \<in> set kes. entry_key e = Inr k"
  shows "add_entries (map snd kes) reg = Inr (foldl (\<lambda>d ke. dict_set d (fst ke) (snd ke)) reg kes)"
  using assms by (induction kes arbitrary: reg) (auto simp: sreg_add_def)

lemma dict_set_new: "k \<notin> fst ` set d \<Longrightarrow> dict_set d k v = d @ [(k, v)]"
  by (induction d k v rule: dict_set.induct) auto

lemma refold: "distinct (map fst (d @ kes)) \<Longrightarrow> foldl (\<lambda>d ke. dict_set d (fst ke) (snd ke)) d kes = d @ kes"
proof (induction kes arbitrary: d)
  case (Cons ke kes)
  have new: "fst ke \<notin> fst ` set d" using Cons.prems by auto
  have "distinct (map fst ((d @ [ke]) @ kes))" using Cons.prems by simp
  from Cons.IH [OF this] show ?case by (simp add: dict_set_new [OF new])
qed simp

text \<open>Copying a registry whose entries stand under their own keys gives the same registry.\<close>

lemma copy_registry:
  "mirrors V view s reg \<Longrightarrow> add_entries (map snd reg) [] = Inr reg"
  using refold [of "[]" reg] by (subst add_entries_keyed) (auto simp: mirrors_def)

lemma mirrors_put:
  assumes "mirrors V view s reg" "view s' = (view s)(k \<mapsto> (b, m))"
    and "envelope_to_entry (sv_py V) b = Inr e" "entry_key e = Inr k"
  shows "mirrors V view s' (dict_set reg k e)"
  using assms by (auto simp: mirrors_def live_entry_def)

lemma mirrors_remove:
  assumes "mirrors V view s reg" "view s' = (view s)(k := None)"
  shows "mirrors V view s' (dict_pop reg k)"
  using assms by (auto simp: mirrors_def live_entry_def)

lemma mirrors_live: "mirrors V view s reg \<Longrightarrow> map_of reg k \<noteq> None \<longleftrightarrow> view s k \<noteq> None"
  by (force simp: mirrors_def live_entry_def split: option.splits)

context kv_bucket
begin

lemma schema_writes_result:
  assumes "inv s" "schema_writes V kv e s x s'"
  shows "inv s' \<and> (case x of
       Inl _ \<Rightarrow> s' = s
     | Inr m \<Rightarrow> gates V e = Inr () \<and> (\<exists>k b. entry_key e = Inr k \<and> entry_to_envelope (sv_py V) e = Inr b
         \<and> view s' = (view s)(k \<mapsto> (b, m))))"
  using assms schema_put_result [OF assms(1)] schema_pinned_result [OF assms(1)]
  by (cases x) (fastforce simp: schema_writes_def)+

lemma history_sound:
  assumes "schema_history V kv s us s'" "inv s" "sound_bucket V view s"
  shows "inv s' \<and> sound_bucket V view s'"
  using assms
proof induction
  case (schema_write s us s1 e m s2 k b)
  then have ih: "inv s1" "sound_bucket V view s1" by auto
  from schema_writes_result [OF ih(1) schema_write(3)] schema_write(4,5)
  have w: "inv s2" "gates V e = Inr ()" "view s2 = (view s1)(k \<mapsto> (b, m))" by auto
  from written_sound [OF schema_write(2) w(2) schema_write(4,5)] ih(2) w show ?case
    by (auto simp: sound_bucket_def)
next
  case (schema_refused s us s1 e x s2)
  then have ih: "inv s1" "sound_bucket V view s1" by auto
  from schema_writes_result [OF ih(1) schema_refused(2)] ih show ?case by auto
next
  case (schema_remove s us s1 k s2 op m)
  then have ih: "inv s1" "sound_bucket V view s1" by auto
  from delete_result [OF ih(1) schema_remove(2) [unfolded schema_delete_eq]] ih(2) show ?case
    by (auto simp: sound_bucket_def split: if_splits)
qed auto

lemma collect_sound:
  assumes "inv s" "sound_bucket V view s" "\<forall>k \<in> set ks. view s k \<noteq> None" "distinct (map fst reg)"
  shows "\<exists>reg'. collect_entries (sv_py V) kv ks reg s = (Inr reg', s) \<and> distinct (map fst reg')
    \<and> map_of reg' = (\<lambda>k. if k \<in> set ks then projr (live_entry (sv_py V) (view s k)) else map_of reg k)"
  using assms(3,4)
proof (induction ks arbitrary: reg)
  case (Cons k ks)
  from sound_live [OF assms(2), of k] Cons.prems(1) obtain e where
    e: "live_entry (sv_py V) (view s k) = Inr (Some e)" "entry_key e = Inr k" by auto
  from Cons.IH [of "dict_set reg k e"] Cons.prems obtain reg' where
    "collect_entries (sv_py V) kv ks (dict_set reg k e) s = (Inr reg', s)" "distinct (map fst reg')"
    "map_of reg' = (\<lambda>j. if j \<in> set ks then projr (live_entry (sv_py V) (view s j)) else map_of (dict_set reg k e) j)"
    by auto
  moreover have "schema_get (sv_py V) kv k s = (Inr (Some e), s)"
    using schema_get_live [OF assms(1) entry_key_ne [OF e(2)], of "sv_py V"] e(1) by simp
  ultimately show ?case
    using e by (auto simp: io_bind_def sreg_add_def fun_eq_iff)
qed auto

lemma snapshot_mirrors:
  assumes "inv s" "sound_bucket V view s"
  obtains reg where "schema_snapshot (sv_py V) kv s = (Inr reg, s)" "mirrors V view s reg"
proof -
  from keys_live [OF assms(1)] obtain op ks where ks: "kv_keys kv = Some op" "op s = (Inr ks, s)"
    "set ks = {k. view s k \<noteq> None}" by blast
  have "\<forall>k \<in> set ks. view s k \<noteq> None" using ks(3) by blast
  from collect_sound [OF assms this, of "[]"] obtain reg where
    c: "collect_entries (sv_py V) kv ks [] s = (Inr reg, s)" "distinct (map fst reg)"
    "map_of reg = (\<lambda>k. if k \<in> set ks then projr (live_entry (sv_py V) (view s k)) else map_of [] k)"
    by (auto simp del: map_of.simps(1))
  have "mirrors V view s reg"
    unfolding mirrors_def
  proof (intro conjI allI impI)
    show "live_entry (sv_py V) (view s k) = Inr (map_of reg k)" for k
      using c(3) ks(3) sound_live [OF assms(2), of k] by auto
    show "entry_key e = Inr k" if "map_of reg k = Some e" for k e
      using that c(3) ks(3) sound_live [OF assms(2), of k] by (auto split: if_splits)
  qed (rule c(2))
  moreover have "schema_snapshot (sv_py V) kv s = (Inr reg, s)"
    using ks(1,2) c(1) by (simp add: schema_snapshot_def schema_list_keys_def io_bind_def)
  ultimately show ?thesis by (rule that [rotated])
qed

lemma history_follows:
  assumes "schema_history V kv s us s'" "inv s" "sound_bucket V view s" "mirrors V view s (ls_live L)"
  shows "\<exists>L'. follow_schema (sv_py V) us L = Inr L' \<and> mirrors V view s' (ls_live L')"
  using assms
proof induction
  case (schema_write s us s1 e m s2 k b)
  then obtain L1 where L1: "follow_schema (sv_py V) us L = Inr L1" "mirrors V view s1 (ls_live L1)" by blast
  from history_sound [OF schema_write(1)] schema_write.prems have "inv s1" by blast
  from schema_writes_result [OF this schema_write(3)] schema_write(4,5)
  have s2: "view s2 = (view s1)(k \<mapsto> (b, m))" by auto
  note r = envelope_reads_entry [OF typed_plain [OF schema_write(2)] schema_write(5)]
  have key: "entry_key (entry_stored e) = Inr k"
    using schema_write(2,4) by (simp add: stored_key)
  from mirrors_put [OF L1(2) s2 r key] show ?case
    by (simp add: follow_schema_append L1(1) decode_schema_put [OF r entry_key_ne [OF key]]
        live_schema_apply_def sreg_add_def key)
next
  case (schema_refused s us s1 e x s2)
  then obtain L1 where L1: "follow_schema (sv_py V) us L = Inr L1" "mirrors V view s1 (ls_live L1)" by blast
  from history_sound [OF schema_refused(1)] schema_refused.prems have "inv s1" by blast
  from schema_writes_result [OF this schema_refused(2)] L1 show ?case by auto
next
  case (schema_remove s us s1 k s2 op m)
  then obtain L1 where L1: "follow_schema (sv_py V) us L = Inr L1" "mirrors V view s1 (ls_live L1)" by blast
  from history_sound [OF schema_remove(1)] schema_remove.prems have "inv s1" by blast
  from delete_result [OF this schema_remove(2) [unfolded schema_delete_eq]]
  have s2: "view s2 = (view s1)(k := None)" by blast
  have "k \<noteq> []" using schema_remove(2) by (auto simp: schema_delete_def)
  from decode_schema_removal [OF schema_remove(3) this, of "sv_py V" m] obtain w where
    w: "w \<noteq> PUT" "decode_schema_update (sv_py V) (removal_update op k m)
      = Inr \<lparr>sev_op = w, sev_key = k, sev_entry = None, sev_revision = m\<rparr>" by blast
  have "\<exists>L2. live_schema_apply \<lparr>sev_op = w, sev_key = k, sev_entry = None, sev_revision = m\<rparr> L1 = Inr L2
      \<and> ls_live L2 = dict_pop (ls_live L1) k"
    using w(1) by (simp add: live_schema_apply_def)
  then obtain L2 where "follow_schema (sv_py V) (us @ [removal_update op k m]) L = Inr L2"
    "ls_live L2 = dict_pop (ls_live L1) k"
    by (auto simp: follow_schema_append L1(1) w(2))
  with mirrors_remove [OF L1(2) s2] show ?case by auto
qed auto

end

section \<open>The registry's contract\<close>

text \<open>
  C31: The registry stays sound. From a sound bucket (an empty one, say), after any history of puts,
  pinned puts, refused writes and removals through the backend, every key reads without an error,
  and an entry that is read belongs to its key and passes the gates: its identifier is that of its
  body and its hash is the hash of its body.
\<close>

theorem registry_stays_sound:
  assumes "kv_bucket kv view seq I" "I s" "sound_bucket V view s" "schema_history V kv s us s'"
  shows "sound_bucket V view s' \<and> (\<forall>k. k \<noteq> [] \<longrightarrow>
    (\<exists>x. schema_get (sv_py V) kv k s' = (Inr x, s')
      \<and> (\<forall>e. x = Some e \<longrightarrow> entry_key e = Inr k
           \<and> dget (se_body e) ''$id'' = se_schema_id e
           \<and> (\<exists>h. body_sha256 (sv_sha256 V) (se_body e) = Inr h \<and> se_sha256 e = PStr h))))"
proof -
  from kv_bucket.history_sound [OF assms(1,4,2,3)] have s': "I s'" "sound_bucket V view s'" by blast+
  have "\<exists>x. schema_get (sv_py V) kv k s' = (Inr x, s')
      \<and> (\<forall>e. x = Some e \<longrightarrow> entry_key e = Inr k \<and> dget (se_body e) ''$id'' = se_schema_id e
           \<and> (\<exists>h. body_sha256 (sv_sha256 V) (se_body e) = Inr h \<and> se_sha256 e = PStr h))"
    if "k \<noteq> []" for k
    using sound_live [OF s'(2), of k] kv_bucket.schema_get_live [OF assms(1) s'(1) that, of "sv_py V"]
    by (auto simp: write_gates_Inr entry_typed_def is_text_def)
  with s'(2) show ?thesis by blast
qed

text \<open>
  C32: The live snapshot of the schema registry follows the bucket. Started from the backend of a
  sound bucket and fed the updates of any history through the backend, it never fails and its frozen
  registry answers every key as the bucket does and lists the keys of a full snapshot.
\<close>

theorem live_schema_follows:
  assumes "kv_bucket kv view seq I" "I s" "sound_bucket V view s"
    and "live_schema_from_backend (sv_py V) kv s = (Inr L, s0)" "schema_history V kv s us s'"
  shows "\<exists>L' reg snap. follow_schema (sv_py V) us L = Inr L' \<and> live_schema_registry L' = Inr reg
    \<and> schema_snapshot (sv_py V) kv s' = (Inr snap, s') \<and> keys_sorted reg = keys_sorted snap
    \<and> (\<forall>k. k \<noteq> [] \<longrightarrow> schema_get (sv_py V) kv k s' = (Inr (sreg_lookup reg k), s')
             \<and> sreg_lookup snap k = sreg_lookup reg k)"
proof -
  from kv_bucket.snapshot_mirrors [OF assms(1-3)] obtain r0 where
    r0: "schema_snapshot (sv_py V) kv s = (Inr r0, s)" "mirrors V view s r0" .
  with assms(4) copy_registry [OF r0(2)] have "mirrors V view s (ls_live L)"
    by (auto simp: live_schema_from_backend_def live_schema_init_def io_bind_def)
  from kv_bucket.history_follows [OF assms(1,5,2,3) this] obtain L' where
    L': "follow_schema (sv_py V) us L = Inr L'" "mirrors V view s' (ls_live L')" by blast
  from kv_bucket.history_sound [OF assms(1,5,2,3)] have s': "I s'" "sound_bucket V view s'" by blast+
  from kv_bucket.snapshot_mirrors [OF assms(1) s'] obtain snap where
    snap: "schema_snapshot (sv_py V) kv s' = (Inr snap, s')" "mirrors V view s' snap" .
  have eq: "map_of snap = map_of (ls_live L')"
    using snap(2) L'(2) by (auto simp: mirrors_def fun_eq_iff)
  have "set (map fst snap) = set (map fst (ls_live L'))"
    using eq by (metis dom_map_of_conv_image_fst list.set_map)
  then have "keys_sorted (ls_live L') = keys_sorted snap"
    unfolding keys_sorted_def using snap(2) L'(2)
    by (intro sorted_key_list_unique) (auto simp: mirrors_def)
  moreover have "schema_get (sv_py V) kv k s' = (Inr (sreg_lookup (ls_live L') k), s')" if "k \<noteq> []" for k
    using kv_bucket.schema_get_live [OF assms(1) s'(1) that, of "sv_py V"] L'(2)
    by (simp add: mirrors_def sreg_lookup_def)
  ultimately show ?thesis
    using L'(1) copy_registry [OF L'(2)] snap(1) eq
    by (simp add: live_schema_registry_def sreg_lookup_def)
qed

text \<open>
  No schema update is lost. A put entry is what its key reads next, with the returned revision; a
  pinned write that succeeds was pinned to the live revision; after it, whatever other writers do, a
  second write pinned to the same positive revision fails and leaves the bucket as it was.
\<close>

lemma schema_pinned_write:
  assumes "kv_bucket kv view seq I" "I s" "schema_put_with_revision V kv e n s = (Inr m, s1)"
    and "entry_typed e" "0 < n" "kv_run kv s1 s2" "entry_key e2 = entry_key e"
  shows "(\<exists>k. entry_key e = Inr k \<and> live_rev (view s k) = n \<and> n < m
      \<and> schema_get_with_revision (sv_py V) kv k s1 = (Inr (Some (entry_stored e, m)), s1))
    \<and> (\<exists>x. schema_put_with_revision V kv e2 n s2 = (Inl x, s2))"
proof -
  note pinned = kv_bucket.schema_pinned_result [OF assms(1)]
  from pinned [OF assms(2,3)] obtain k b where s1: "I s1" "seq s < m" "seq s1 = m" "entry_key e = Inr k"
    "entry_to_envelope (sv_py V) e = Inr b" "live_rev (view s k) = n" "view s1 = (view s)(k \<mapsto> (b, m))"
    by auto
  from s1(6) assms(5) obtain c where c: "view s k = Some (c, n)"
    by (auto simp: live_rev_def split: option.splits)
  from kv_bucket.view_seq [OF assms(1,2) this] have n: "n \<le> seq s" by simp
  have read: "schema_get_with_revision (sv_py V) kv k s1 = (Inr (Some (entry_stored e, m)), s1)"
    using kv_bucket.schema_get_with_revision_live [OF assms(1) s1(1) entry_key_ne [OF s1(4)], of "sv_py V"]
      envelope_reads_entry [OF typed_plain [OF assms(4)] s1(5)]
    by (simp add: s1(7) live_entry_def live_rev_def)
  obtain x s3 where w: "schema_put_with_revision V kv e2 n s2 = (x, s3)" by force
  from kv_bucket.run_stable [OF assms(1,6) s1(1)] have s2: "I s2" by blast
  have "\<exists>y. x = Inl y"
  proof (rule ccontr)
    assume "\<nexists>y. x = Inl y"
    then obtain m' where "x = Inr m'" by (cases x) auto
    with pinned [OF s2 w] assms(7) s1(4) have "live_rev (view s2 k) = n" by auto
    with assms(5) obtain c' where "view s2 k = Some (c', n)"
      by (auto simp: live_rev_def split: option.splits)
    from kv_bucket.run_same_revision [OF assms(1,6) s1(1) _ this] n s1 show False by simp
  qed
  with pinned [OF s2 w] w s1 n read show ?thesis by auto
qed

section \<open>A concrete registry\<close>

definition sample_schema_env :: schema_env where
  "sample_schema_env = \<lparr>sv_py = sample_env, sv_float = (\<lambda>_. None), sv_sha256 = (\<lambda>b. [length b mod 256])\<rparr>"

definition sample_body :: items where
  "sample_body = [(u ''$id'', PStr (u ''urn:s'')), (u ''type'', PStr (u ''object''))]"

definition sample_schema :: registry_entry where
  "sample_schema = \<lparr>se_layer = PStr (u ''wire''), se_name = PStr (u ''frame''), se_version = PStr (u ''1.0.0''),
     se_schema_id = PStr (u ''urn:s''), se_body = sample_body,
     se_sha256 = PStr (case body_sha256 (sv_sha256 sample_schema_env) sample_body of Inr h \<Rightarrow> h | Inl _ \<Rightarrow> []),
     se_registered_at = Dt 5 (Some 0), se_registered_by = PStr (u ''ops''), se_supersedes = PNone\<rparr>"

definition schema_key :: ustr where
  "schema_key = u ''schemas/wire/frame/1.0.0''"

lemma sample_typed: "entry_typed sample_schema"
  by (simp add: entry_typed_def sample_schema_def is_text_def sample_body_def)

lemma sample_schema_key: "entry_key sample_schema = Inr schema_key"
  by (simp add: entry_key_def key_for_triple_def triple_component_def sample_schema_def schema_key_def
      recognised_layers_def schemas_prefix_def u_def)

lemma sample_body_hash:
  obtains h where "body_sha256 (sv_sha256 sample_schema_env) sample_body = Inr h" "str_ok h"
proof -
  have "json_encodable (PDict sample_body)"
    using u_ok by (simp add: sample_body_def)
  from json_bytes_ok [OF this] obtain c where "schema_jcs (PDict sample_body) = Inr c"
    by (auto simp: schema_jcs_def)
  moreover have "str_ok (hexdigest [length c mod 256])"
    using hexdigest_graph [of "[length c mod 256]"] by (fastforce intro: scalar_ascii)
  ultimately show ?thesis
    using that by (simp add: body_sha256_def sample_schema_env_def)
qed

lemma sample_gates: "gates sample_schema_env sample_schema = Inr ()"
proof -
  obtain h where "body_sha256 (sv_sha256 sample_schema_env) sample_body = Inr h" by (rule sample_body_hash)
  then show ?thesis
    by (simp add: write_gates_Inr sample_schema_def) (simp add: sample_body_def dget_def)
qed

lemma sample_envelope: obtains b where "entry_to_envelope sample_env sample_schema = Inr b"
proof -
  obtain h where h: "body_sha256 (sv_sha256 sample_schema_env) sample_body = Inr h" "str_ok h"
    by (rule sample_body_hash)
  obtain at where at: "dt_to_rfc3339 sample_env (Dt 5 (Some 0)) = Inr at" "str_ok at"
    using dt_to_rfc3339_ok [of "Dt 5 (Some 0)" sample_env]
    by (auto simp: dt_ok_def aware_def instant_def max_us_def us_day_def)
  then obtain d where "entry_payload sample_env sample_schema = Inr d" "json_encodable (PDict d)"
    using h u_ok by (simp add: entry_payload_def sample_schema_def sample_body_def entry_schema_def)
  with json_bytes_ok [OF this(2)] show ?thesis
    using that by (auto simp: entry_to_envelope_def)
qed

text \<open>The in-memory bucket after the entry was put, and after it was written again at revision 1.\<close>

lemma schema_stored:
  obtains s1 s2 where "schema_put sample_schema_env mock_ops sample_schema mock_empty = (Inr 1, s1)"
    "mock_inv s1"
    "schema_put_with_revision sample_schema_env mock_ops sample_schema 1 s1 = (Inr 2, s2)"
proof -
  obtain b where b: "entry_to_envelope sample_env sample_schema = Inr b" by (rule sample_envelope)
  define s1 where "s1 = \<lparr>store = [(schema_key, b, 1)], revision = (1::int)\<rparr>"
  define s2 where "s2 = \<lparr>store = [(schema_key, b, 2)], revision = (2::int)\<rparr>"
  have e: "entry_to_envelope (sv_py sample_schema_env) sample_schema = Inr b"
    using b by (simp add: sample_schema_env_def)
  have "schema_put sample_schema_env mock_ops sample_schema mock_empty = (Inr 1, s1)"
    by (simp add: schema_put_def sample_gates sample_schema_key e mock_ops_def mock_write_def
        mock_empty_def Let_def io_bind_def s1_def)
  moreover have "mock_inv s1" by (simp add: s1_def mock_inv_def)
  moreover have "schema_put_with_revision sample_schema_env mock_ops sample_schema 1 s1 = (Inr 2, s2)"
    by (simp add: schema_put_with_revision_def sample_gates sample_schema_key e s1_def s2_def io_bind_def
        schema_update_with_revision_def mock_ops_def io_catch_def mock_update_def mock_write_def Let_def)
  ultimately show ?thesis by (rule that)
qed

lemma empty_sound: "sound_bucket V mock_view mock_empty"
  by (simp add: sound_bucket_def mock_view_def mock_empty_def)

lemma sample_registry_history:
  obtains s1 b where "schema_history sample_schema_env mock_ops mock_empty [put_update schema_key b 1] s1"
    "entry_to_envelope sample_env sample_schema = Inr b" "mock_inv s1" "mock_view s1 schema_key = Some (b, 1)"
proof -
  obtain s1 s2 where s: "schema_put sample_schema_env mock_ops sample_schema mock_empty = (Inr 1, s1)"
    "mock_inv s1" by (rule schema_stored)
  obtain b where b: "entry_to_envelope sample_env sample_schema = Inr b" by (rule sample_envelope)
  have "schema_history sample_schema_env mock_ops mock_empty ([] @ [put_update schema_key b 1]) s1"
    by (rule schema_write [OF schema_start sample_typed _ sample_schema_key])
      (use s(1) b in \<open>auto simp: schema_writes_def sample_schema_env_def\<close>)
  moreover have "mock_view s1 schema_key = Some (b, 1)"
    using mock.schema_put_result [OF mock_inv_empty s(1)] b
    by (auto simp: sample_schema_key sample_schema_env_def)
  ultimately show ?thesis using that b s(2) by simp
qed

lemma registry_stays_sound_witness:
  "\<exists>s1 e. schema_get sample_env mock_ops schema_key s1 = (Inr (Some e), s1) \<and> entry_key e = Inr schema_key
     \<and> dget (se_body e) ''$id'' = se_schema_id e"
proof -
  obtain s1 b where h: "schema_history sample_schema_env mock_ops mock_empty [put_update schema_key b 1] s1"
    "entry_to_envelope sample_env sample_schema = Inr b" "mock_inv s1" "mock_view s1 schema_key = Some (b, 1)"
    by (rule sample_registry_history)
  have py: "sv_py sample_schema_env = sample_env" by (simp add: sample_schema_env_def)
  have ne: "schema_key \<noteq> []" by (simp add: schema_key_def)
  have "schema_get sample_env mock_ops schema_key s1 = (Inr (Some (entry_stored sample_schema)), s1)"
    using mock.schema_get_live [OF h(3) ne, of sample_env] envelope_reads_entry [OF typed_plain [OF sample_typed] h(2)]
    by (simp add: h(4) live_entry_def)
  with registry_stays_sound [OF mock.kv_bucket_axioms mock_inv_empty empty_sound h(1)] ne
  show ?thesis unfolding py by fastforce
qed

lemma live_schema_follows_witness:
  "\<exists>L b L' reg. live_schema_from_backend sample_env mock_ops mock_empty = (Inr L, mock_empty)
     \<and> follow_schema sample_env [put_update schema_key b 1] L = Inr L'
     \<and> live_schema_registry L' = Inr reg \<and> sreg_lookup reg schema_key \<noteq> None"
proof -
  obtain s1 b where h: "schema_history sample_schema_env mock_ops mock_empty [put_update schema_key b 1] s1"
    "entry_to_envelope sample_env sample_schema = Inr b" "mock_inv s1" "mock_view s1 schema_key = Some (b, 1)"
    by (rule sample_registry_history)
  have py: "sv_py sample_schema_env = sample_env" by (simp add: sample_schema_env_def)
  have ne: "schema_key \<noteq> []" by (simp add: schema_key_def)
  have get: "schema_get sample_env mock_ops schema_key s1 = (Inr (Some (entry_stored sample_schema)), s1)"
    using mock.schema_get_live [OF h(3) ne, of sample_env] envelope_reads_entry [OF typed_plain [OF sample_typed] h(2)]
    by (simp add: h(4) live_entry_def)
  have start: "live_schema_from_backend sample_env mock_ops mock_empty
      = (Inr \<lparr>ls_live = [], ls_revision = 0\<rparr>, mock_empty)"
    by (simp add: live_schema_from_backend_def schema_snapshot_def schema_list_keys_def mock_ops_def
        mock_keys_def mock_empty_def io_bind_def live_schema_init_def)
  obtain L' reg where "follow_schema sample_env [put_update schema_key b 1] \<lparr>ls_live = [], ls_revision = 0\<rparr> = Inr L'"
    "live_schema_registry L' = Inr reg"
    "schema_get sample_env mock_ops schema_key s1 = (Inr (sreg_lookup reg schema_key), s1)"
    using live_schema_follows [OF mock.kv_bucket_axioms mock_inv_empty empty_sound start [folded py] h(1)] ne
    unfolding py by (metis prod.inject)
  with get start show ?thesis by fastforce
qed

lemma schema_pinned_write_witness:
  "\<exists>s2 x. schema_put_with_revision sample_schema_env mock_ops sample_schema 1 s2 = (Inl x, s2)"
proof -
  obtain s1 s2 where s: "mock_inv s1"
    "schema_put_with_revision sample_schema_env mock_ops sample_schema 1 s1 = (Inr 2, s2)"
    by (rule schema_stored)
  from schema_pinned_write [OF mock.kv_bucket_axioms s sample_typed _ run_refl refl] show ?thesis
    by auto
qed

lemma schema_envelope_roundtrip_witness:
  "\<exists>b. envelope_to_entry sample_env b = Inr (entry_stored sample_schema)"
proof -
  obtain b where b: "entry_to_envelope sample_env sample_schema = Inr b" by (rule sample_envelope)
  from schema_envelope_roundtrip [OF typed_plain [OF sample_typed] b] show ?thesis by blast
qed

text \<open>
  A value that another writer stored under a key that is not its own is served by \<open>get\<close> under that
  key, but by every snapshot under the key of its triple.
\<close>

lemma misfiled_entry:
  assumes "entry_to_envelope sample_env sample_schema = Inr b"
  shows "schema_get sample_env mock_ops (u ''k'') \<lparr>store = [(u ''k'', b, 1)], revision = 1\<rparr>
      = (Inr (Some (entry_stored sample_schema)), \<lparr>store = [(u ''k'', b, 1)], revision = 1\<rparr>)"
    "schema_snapshot sample_env mock_ops \<lparr>store = [(u ''k'', b, 1)], revision = 1\<rparr>
      = (Inr [(schema_key, entry_stored sample_schema)], \<lparr>store = [(u ''k'', b, 1)], revision = 1\<rparr>)"
proof -
  note r = envelope_reads_entry [OF typed_plain [OF sample_typed] assms]
  show get: "schema_get sample_env mock_ops (u ''k'') \<lparr>store = [(u ''k'', b, 1)], revision = 1\<rparr>
      = (Inr (Some (entry_stored sample_schema)), \<lparr>store = [(u ''k'', b, 1)], revision = 1\<rparr>)"
    by (simp add: schema_get_def fetch_entry_def io_catch_def mock_ops_def mock_get_def io_bind_def
        decode_kv_entry_def r)
  show "schema_snapshot sample_env mock_ops \<lparr>store = [(u ''k'', b, 1)], revision = 1\<rparr>
      = (Inr [(schema_key, entry_stored sample_schema)], \<lparr>store = [(u ''k'', b, 1)], revision = 1\<rparr>)"
    using get stored_key [OF sample_typed] sample_schema_key
    by (simp add: schema_snapshot_def schema_list_keys_def mock_ops_def mock_keys_def io_bind_def sreg_add_def)
qed

end
