(* ===== verification/EntrySigning.thy ===== *)
theory EntrySigning
  imports SchemaRegistry
begin

text \<open>
  Signatures of schema entries, \<open>schemas/entry_signing.py\<close>: the shape of a signature block, signing
  and verifying under the two modes, and the stored form with the optional \<open>signature\<close> slot. The
  signed payload is the stored form without that slot, canonicalised by RFC 8785, so the scheme
  interprets the locale \<open>signed_document\<close>.
\<close>

abbreviation EntrySignatureErr :: exc where
  "EntrySignatureErr \<equiv> ClassErr ''SchemaRegistrySignatureError''"

section \<open>The code\<close>

datatype verify_mode = PERMISSIVE | STRICT

definition check_block_shape :: "pyval \<Rightarrow> unit res" where
  "check_block_shape v = (case v of
       PDict block \<Rightarrow>
         if map_of block (u ''alg'') = None \<or> map_of block (u ''kid'') = None
            \<or> map_of block (u ''signature'') = None then Inl EntrySignatureErr
         else if map_of block (u ''alg'') \<noteq> Some (PStr (u ''Ed25519'')) then Inl EntrySignatureErr
         else (case (map_of block (u ''kid''), map_of block (u ''signature'')) of
             (Some (PStr kid), Some (PStr sig_hex)) \<Rightarrow>
               if kid = [] then Inl EntrySignatureErr
               else if length sig_hex \<noteq> 128 then Inl EntrySignatureErr
               else sbind (rethrow is_value_error EntrySignatureErr (fromhex sig_hex)) (\<lambda>sig.
                 ensure (length sig = 64) EntrySignatureErr)
           | _ \<Rightarrow> Inl EntrySignatureErr)
     | _ \<Rightarrow> Inl EntrySignatureErr)"

record signed_registry_entry =
  sg_entry :: registry_entry
  sg_signature :: items

definition mk_signed :: "registry_entry \<Rightarrow> items \<Rightarrow> signed_registry_entry res" where
  "mk_signed e block =
     sbind (check_block_shape (PDict block)) (\<lambda>_. Inr \<lparr>sg_entry = e, sg_signature = block\<rparr>)"

text \<open>The payload of an entry is \<open>entry_payload\<close>: the two functions of the code agree field for field.\<close>

definition payload_digest :: "sign_env \<Rightarrow> items \<Rightarrow> octets res" where
  "payload_digest E p =
     sbind (jcs_canonicalize E (PDict (dict_pop p (u ''signature'')))) (\<lambda>c. Inr (sha256 E c))"

definition entry_digest :: "pyenv \<Rightarrow> sign_env \<Rightarrow> registry_entry \<Rightarrow> octets res" where
  "entry_digest T E e = sbind (entry_payload T e) (payload_digest E)"

definition sign_entry ::
    "pyenv \<Rightarrow> sign_env \<Rightarrow> registry_entry \<Rightarrow> octets \<Rightarrow> ustr \<Rightarrow> signed_registry_entry res" where
  "sign_entry T E e priv kid =
     (if length priv \<noteq> 32 then Inl EntrySignatureErr
      else if kid = [] then Inl EntrySignatureErr
      else sbind (entry_digest T E e) (\<lambda>digest.
        mk_signed e [(u ''alg'', PStr (u ''Ed25519'')), (u ''kid'', PStr kid),
          (u ''signature'', PStr (hexdigest (ed_sign E priv digest)))]))"

datatype maybe_signed = Signed signed_registry_entry | Bare registry_entry

fun entry_of :: "maybe_signed \<Rightarrow> registry_entry" where
  "entry_of (Signed s) = sg_entry s"
| "entry_of (Bare e) = e"

text \<open>
  The block that is verified, \<open>None\<close> for an unsigned entry; \<open>arg\<close> is the argument \<open>signature_block\<close>,
  which is \<open>None\<close> when it is left out or when a \<open>null\<close> is passed for it.
\<close>

fun block_of :: "maybe_signed \<Rightarrow> pyval option \<Rightarrow> pyval option" where
  "block_of (Signed s) arg = Some (PDict (sg_signature s))"
| "block_of (Bare e) arg = (if arg = Some PNone then None else arg)"

fun block_items :: "pyval \<Rightarrow> items" where
  "block_items (PDict d) = d"
| "block_items v = []"

definition verify_entry_signature ::
    "pyenv \<Rightarrow> sign_env \<Rightarrow> maybe_signed \<Rightarrow> octets option \<Rightarrow> verify_mode \<Rightarrow> pyval option \<Rightarrow> bool res" where
  "verify_entry_signature T E signed pub mode block_arg =
     (case block_of signed block_arg of
        None \<Rightarrow> (case mode of PERMISSIVE \<Rightarrow> Inr True | STRICT \<Rightarrow> Inl EntrySignatureErr)
      | Some block \<Rightarrow>
          sbind (check_block_shape block) (\<lambda>_.
          case pub of
            None \<Rightarrow> Inl EntrySignatureErr
          | Some pk \<Rightarrow>
              if length pk \<noteq> 32 then Inl EntrySignatureErr
              else sbind (entry_digest T E (entry_of signed)) (\<lambda>digest.
                   sbind (hex_arg (map_of (block_items block) (u ''signature''))) (\<lambda>sig.
                     ed_verify E pk sig digest))))"

definition envelope_with_signature :: "pyenv \<Rightarrow> signed_registry_entry \<Rightarrow> octets res" where
  "envelope_with_signature T s =
     sbind (entry_payload T (sg_entry s)) (\<lambda>p.
     sbind (json_dumps (PDict (dict_set p (u ''signature'') (PDict (sg_signature s))))) utf8_encode)"

definition envelope_to_signed_entry :: "pyenv \<Rightarrow> octets \<Rightarrow> maybe_signed res" where
  "envelope_to_signed_entry T blob =
     sbind (envelope_to_entry T blob) (\<lambda>e.
     sbind (rethrow (\<lambda>x. x = UnicodeDecodeErr \<or> x = JsonDecodeErr) SchemaEnvelopeErr
              (sbind (utf8_decode blob) (json_loads T))) (\<lambda>v.
     case v of
       PDict d \<Rightarrow>
         (case map_of d (u ''signature'') of
            None \<Rightarrow> Inr (Bare e)
          | Some block \<Rightarrow>
              sbind (check_block_shape block) (\<lambda>_.
                Inr (Signed \<lparr>sg_entry = e, sg_signature = block_items block\<rparr>)))
     | _ \<Rightarrow> Inl SchemaEnvelopeErr))"

section \<open>The scheme as a signed document\<close>

definition verify_payload :: "sign_env \<Rightarrow> items \<Rightarrow> items \<Rightarrow> octets \<Rightarrow> bool res" where
  "verify_payload E p block pub =
     sbind (check_block_shape (PDict block)) (\<lambda>_.
       if length pub \<noteq> 32 then Inl EntrySignatureErr
       else sbind (payload_digest E p) (\<lambda>digest.
            sbind (hex_arg (map_of block (u ''signature''))) (\<lambda>sig. ed_verify E pub sig digest)))"

definition entry_accepts :: "sign_env \<Rightarrow> items \<Rightarrow> octets \<Rightarrow> octets \<Rightarrow> bool" where
  "entry_accepts E b p m \<longleftrightarrow> check_block_shape (PDict b) = Inr () \<and> length p = 32
     \<and> (\<exists>h sig. map_of b (u ''signature'') = Some (PStr h) \<and> fromhex h = Inr sig
          \<and> ed_verify E p sig m = Inr True)"

interpretation entry: signed_document "u ''signature''" payload_digest entry_accepts verify_payload
proof unfold_locales
  show "payload_digest E d =
      sbind (jcs_canonicalize E (PDict (dict_pop d (u ''signature'')))) (\<lambda>c. Inr (sha256 E c))" for E d
    by (simp add: payload_digest_def)
  show "payload_digest E d = payload_digest E d' \<Longrightarrow> verify_payload E d b p = verify_payload E d' b p"
    for E d d' b p
    by (simp only: verify_payload_def)
  show "verify_payload E d b p = Inr True \<longleftrightarrow> (\<exists>m. payload_digest E d = Inr m \<and> entry_accepts E b p m)"
    for E d b p
    by (auto simp: verify_payload_def entry_accepts_def hex_arg_Inr)
qed

lemma block_shape_items: "check_block_shape v = Inr x \<Longrightarrow> v = PDict (block_items v)"
  by (cases v) (auto simp: check_block_shape_def)

text \<open>Verification of an entry is verification of its payload, or the unsigned case.\<close>

lemma verify_entry_True:
  "verify_entry_signature T E signed pub mode arg = Inr True \<longleftrightarrow>
     (block_of signed arg = None \<and> mode = PERMISSIVE)
     \<or> (\<exists>block pk p. block_of signed arg = Some (PDict block) \<and> pub = Some pk
          \<and> entry_payload T (entry_of signed) = Inr p \<and> verify_payload E p block pk = Inr True)"
proof (cases "block_of signed arg")
  case None
  then show ?thesis by (cases mode) (auto simp: verify_entry_signature_def)
next
  case (Some v)
  show ?thesis
  proof (cases "check_block_shape v")
    case (Inl e)
    with Some show ?thesis by (auto simp: verify_entry_signature_def verify_payload_def)
  next
    case (Inr y)
    note v = block_shape_items [OF Inr]
    with Some Inr have "block_of signed arg = Some (PDict (block_items v))"
      "check_block_shape (PDict (block_items v)) = Inr ()" by simp_all
    then show ?thesis
      by (cases pub) (auto simp: verify_entry_signature_def verify_payload_def entry_digest_def)
  qed
qed

section \<open>Signing, storing and verifying\<close>

lemma members_denote:
  assumes "json_plain (PDict d)"
  shows "json_denote (PDict (map (\<lambda>kv. (fst kv, canon (snd kv))) d)) = json_denote (PDict d)"
proof -
  have dist: "distinct (map fst d)" using assms by simp
  have m: "map_of (map (\<lambda>kv. (fst kv, canon (snd kv))) d) k = map_option canon (map_of d k)" for k
    by (induction d) auto
  have "map_option json_denote (map_option canon (map_of d k)) = map_option json_denote (map_of d k)" for k
    using assms by (cases "map_of d k") (auto simp: denote_canon dest!: map_of_SomeD)
  with dist m show ?thesis by (subst denote_dict_iff) (simp_all add: comp_def)
qed

lemma payload_unsigned: "entry_payload T e = Inr p \<Longrightarrow> dict_pop p (u ''signature'') = p"
  by (auto simp: entry_payload_def dict_pop_def)

text \<open>A verification does not depend on the form in which the entry was stored.\<close>

lemma stored_verifies:
  assumes "rfc8785_dumps E = None" "entry_plain e" "entry_payload T e = Inr p"
    and "verify_payload E p block pub = Inr True"
  shows "\<exists>p'. entry_payload T (entry_stored e) = Inr p' \<and> verify_payload E p' block pub = Inr True"
proof -
  let ?p = "map (\<lambda>kv. (fst kv, canon (snd kv))) p"
  note p' = payload_stored [OF assms(3)]
  have plain: "json_plain (PDict p)" by (rule payload_plain [OF assms(2,3)])
  then have "json_plain (PDict ?p)"
    using json_plain_canon [of _ "\<lambda>k. k"] by (auto simp: comp_def)
  with entry.verify_denote [unfolded entry.body_def, OF assms(1) _ _ assms(4), of ?p] plain
    payload_unsigned [OF assms(3)] payload_unsigned [OF p'] members_denote [OF plain] p'
  show ?thesis by simp
qed

lemma signed_payload:
  assumes "length pub = 32"
    and "\<And>m. octets_ok (ed_sign E priv m) \<and> length (ed_sign E priv m) = 64
           \<and> ed_verify E pub (ed_sign E priv m) m = Inr True"
    and "sign_entry T E e priv kid = Inr s"
  shows "\<exists>p sig. sg_entry s = e \<and> entry_payload T e = Inr p \<and> verify_payload E p (sg_signature s) pub = Inr True
    \<and> sg_signature s = [(u ''alg'', PStr (u ''Ed25519'')), (u ''kid'', PStr kid),
          (u ''signature'', PStr (hexdigest sig))]
    \<and> check_block_shape (PDict (sg_signature s)) = Inr ()"
proof -
  from assms(3) obtain p m where p: "entry_payload T e = Inr p" "payload_digest E p = Inr m"
    and s: "check_block_shape (PDict (sg_signature s)) = Inr ()" "sg_entry s = e"
    and block: "sg_signature s = [(u ''alg'', PStr (u ''Ed25519'')), (u ''kid'', PStr kid),
          (u ''signature'', PStr (hexdigest (ed_sign E priv m)))]"
    by (auto simp: sign_entry_def entry_digest_def mk_signed_def split: if_splits)
  have "entry_accepts E (sg_signature s) pub m"
    using s(1) assms(1,2) by (simp add: entry_accepts_def block)
  with p s block show ?thesis by (auto simp: entry.verify_True)
qed

lemma signed_roundtrip:
  assumes "length pub = 32"
    and "\<And>m. octets_ok (ed_sign E priv m) \<and> length (ed_sign E priv m) = 64
           \<and> ed_verify E pub (ed_sign E priv m) m = Inr True"
    and "rfc8785_dumps E = None" "entry_plain e"
    and "sign_entry T E e priv kid = Inr s" "envelope_with_signature T s = Inr b"
  shows "verify_entry_signature T E (Signed s) (Some pub) mode None = Inr True
    \<and> (\<exists>s'. envelope_to_signed_entry T b = Inr (Signed s') \<and> sg_entry s' = entry_stored e
         \<and> sg_signature s' = sg_signature s
         \<and> verify_entry_signature T E (Signed s') (Some pub) mode None = Inr True)"
proof -
  from signed_payload [OF assms(1,2,5)] obtain p sig where s: "sg_entry s = e"
    "entry_payload T e = Inr p" "verify_payload E p (sg_signature s) pub = Inr True"
    "sg_signature s = [(u ''alg'', PStr (u ''Ed25519'')), (u ''kid'', PStr kid),
          (u ''signature'', PStr (hexdigest sig))]"
    "check_block_shape (PDict (sg_signature s)) = Inr ()"
    by blast
  let ?extra = "[(u ''signature'', PDict (sg_signature s))]"
  have keys: "u ''signature'' \<notin> fst ` set p" "distinct (map fst (p @ ?extra))"
    using payload_keys [OF s(2)] by (auto simp: entry_payload_def simp flip: list.set_map)
  have plain: "json_plain (PDict (p @ ?extra))"
    using payload_plain [OF assms(4) s(2)] keys(2) by (auto simp: s(4))
  from assms(6) s(1,2) obtain t where t: "json_emit (\<lambda>k. k) (PDict (p @ ?extra)) = Inr t" "utf8_encode t = Inr b"
    by (auto simp: envelope_with_signature_def json_dumps_def dict_set_new [OF keys(1)])
  have loads: "json_loads T t = Inr (PDict (items_canon (p @ ?extra)))"
    using loads_emit [OF plain t(1), of T] by (simp only: canon_items)
  have dec: "utf8_decode b = Inr t" by (rule utf8_decode_encode [OF t(2)])
  have entry: "envelope_to_entry T b = Inr (entry_stored e)"
    using dec loads payload_reads [OF s(2) keys(2)] by (simp add: envelope_to_entry_def)
  have block_canon: "canon (PDict (sg_signature s)) = PDict (sg_signature s)"
    by (simp add: s(4) u_def)
  have slot: "map_of (items_canon (p @ ?extra)) (u ''signature'') = Some (PDict (sg_signature s))"
  proof -
    have "dget (p @ ?extra) ''signature'' = PDict (sg_signature s)"
      using keys(1) by (auto simp: dget_def map_add_def map_of_eq_None_iff [symmetric] split: option.splits)
    with dget_items_canon [OF keys(2), of "''signature''"] block_canon
    show ?thesis by (auto simp: dget_def split: option.splits)
  qed
  have read: "envelope_to_signed_entry T b
      = Inr (Signed \<lparr>sg_entry = entry_stored e, sg_signature = sg_signature s\<rparr>)"
    by (simp add: envelope_to_signed_entry_def entry dec loads slot s(5))
  from stored_verifies [OF assms(3,4) s(2,3)] s(1-3) read show ?thesis
    by (auto simp: verify_entry_True)
qed

text \<open>
  C33: A signed entry survives its publication. What \<open>sign_entry\<close> returns verifies under either
  mode; serialised with its signature and read back it is the same entry, as it is stored, with the
  same block, and still verifies.
\<close>

theorem signed_entry_roundtrip:
  assumes "length pub = 32"
    and "\<And>m. octets_ok (ed_sign E priv m) \<and> length (ed_sign E priv m) = 64
           \<and> ed_verify E pub (ed_sign E priv m) m = Inr True"
    and "rfc8785_dumps E = None" "entry_plain e"
    and "sign_entry T E e priv kid = Inr s" "envelope_with_signature T s = Inr b"
  shows "verify_entry_signature T E (Signed s) (Some pub) mode None = Inr True
    \<and> (\<exists>s'. envelope_to_signed_entry T b = Inr (Signed s') \<and> sg_entry s' = entry_stored e
         \<and> sg_signature s' = sg_signature s
         \<and> verify_entry_signature T E (Signed s') (Some pub) mode None = Inr True)"
  using assms by (rule signed_roundtrip)

lemma payload_denote_fields:
  assumes "entry_typed e" "entry_typed e'" "entry_payload T e = Inr p" "entry_payload T e' = Inr p'"
    and "json_denote (PDict p) = json_denote (PDict p')"
  shows "e'\<lparr>se_body := se_body e, se_registered_at := se_registered_at e\<rparr> = e
    \<and> json_denote (PDict (se_body e')) = json_denote (PDict (se_body e))
    \<and> utc_of (se_registered_at e') = utc_of (se_registered_at e)"
proof -
  from assms(3) obtain at where at: "dt_to_rfc3339 T (se_registered_at e) = Inr at" and p: "p =
     [(u ''schema'', PStr entry_schema), (u ''layer'', se_layer e), (u ''name'', se_name e),
      (u ''version'', se_version e), (u ''schema_id'', se_schema_id e), (u ''schema_body'', PDict (se_body e)),
      (u ''schema_body_sha256'', se_sha256 e), (u ''registered_at'', PStr at),
      (u ''registered_by'', se_registered_by e), (u ''supersedes'', se_supersedes e)]"
    by (auto simp: entry_payload_def)
  from assms(4) obtain at' where at': "dt_to_rfc3339 T (se_registered_at e') = Inr at'" and p': "p' =
     [(u ''schema'', PStr entry_schema), (u ''layer'', se_layer e'), (u ''name'', se_name e'),
      (u ''version'', se_version e'), (u ''schema_id'', se_schema_id e'), (u ''schema_body'', PDict (se_body e')),
      (u ''schema_body_sha256'', se_sha256 e'), (u ''registered_at'', PStr at'),
      (u ''registered_by'', se_registered_by e'), (u ''supersedes'', se_supersedes e')]"
    by (auto simp: entry_payload_def)
  have "distinct (map fst p)" "distinct (map fst p')" by (simp_all add: p p')
  from denote_dict_iff [OF this] assms(5)
  have eq: "map_option json_denote (map_of p (u k)) = map_option json_denote (map_of p' (u k))" for k by blast
  have text_eq: "v = w" if "is_text v" "is_text w" "json_denote v = json_denote w" for v w
    using that by (auto simp: is_text_def)
  have opt_eq: "v = w" if "v = PNone \<or> is_text v" "w = PNone \<or> is_text w" "json_denote v = json_denote w" for v w
    using that by (auto simp: is_text_def)
  have "at = at'" using eq [of "''registered_at''"] by (simp add: p p')
  with dt_to_rfc3339_read(2) [OF at] dt_to_rfc3339_read(2) [OF at']
  have "utc_of (se_registered_at e') = utc_of (se_registered_at e)" by simp
  moreover have "json_denote (PDict (se_body e')) = json_denote (PDict (se_body e))"
    using eq [of "''schema_body''"] by (simp add: p p' del: json_denote.simps)
  moreover have "se_layer e' = se_layer e" "se_name e' = se_name e" "se_version e' = se_version e"
    "se_schema_id e' = se_schema_id e" "se_sha256 e' = se_sha256 e" "se_registered_by e' = se_registered_by e"
    using eq [of "''layer''"] eq [of "''name''"] eq [of "''version''"] eq [of "''schema_id''"]
      eq [of "''schema_body_sha256''"] eq [of "''registered_by''"] assms(1,2)
    by (auto simp: p p' entry_typed_def intro!: text_eq)
  moreover have "se_supersedes e' = se_supersedes e"
    using eq [of "''supersedes''"] assms(1,2) by (auto simp: p p' entry_typed_def intro!: opt_eq)
  ultimately show ?thesis by simp
qed

text \<open>
  C34: A signature binds every field of an entry. If one block verifies under one key for two typed
  entries, the key accepts the signature in it for one message only and SHA-256 does not collide on
  the two payloads, then the entries agree in every field, their bodies up to the order of members
  and their times up to the zone.
\<close>

theorem entry_signature_binds:
  assumes "rfc8785_dumps E = None" "entry_typed e" "entry_typed e'"
    and "entry_payload T e = Inr p" "entry_payload T e' = Inr p'"
    and "map_of block (u ''signature'') = Some (PStr h)" "fromhex h = Inr sig"
    and "\<And>m m'. ed_verify E pub sig m = Inr True \<Longrightarrow> ed_verify E pub sig m' = Inr True \<Longrightarrow> m = m'"
    and "\<And>c c'. canonicalize (PDict p) = Inr c \<Longrightarrow> canonicalize (PDict p') = Inr c' \<Longrightarrow>
           sha256 E c = sha256 E c' \<Longrightarrow> c = c'"
    and "verify_entry_signature T E (Bare e) (Some pub) mode (Some (PDict block)) = Inr True"
    and "verify_entry_signature T E (Bare e') (Some pub) mode' (Some (PDict block)) = Inr True"
  shows "e'\<lparr>se_body := se_body e, se_registered_at := se_registered_at e\<rparr> = e
    \<and> json_denote (PDict (se_body e')) = json_denote (PDict (se_body e))
    \<and> utc_of (se_registered_at e') = utc_of (se_registered_at e)"
proof -
  note plain = payload_plain [OF typed_plain [OF assms(2)] assms(4)]
    payload_plain [OF typed_plain [OF assms(3)] assms(5)]
  from assms(4,5,10,11) have v: "verify_payload E p block pub = Inr True" "verify_payload E p' block pub = Inr True"
    by (auto simp: verify_entry_True)
  have one: "m = m'" if "entry_accepts E block pub m" "entry_accepts E block pub m'" for m m'
    using that assms(6-8) by (auto simp: entry_accepts_def)
  have "json_denote (PDict p) = json_denote (PDict p')"
    by (rule entry.binds_body [where d = p and d' = p', unfolded entry.body_def
          payload_unsigned [OF assms(4)] payload_unsigned [OF assms(5)], OF assms(1) plain one assms(9) v])
  then show ?thesis by (rule payload_denote_fields [OF assms(2-5)])
qed

text \<open>
  C35: What verification accepts. An unsigned entry is accepted under the permissive mode only. With a
  block, in either mode, an entry is accepted exactly when the block has the required shape and the
  Ed25519 signature in it verifies, under a key of 32 octets, for the digest of the entry's payload.
\<close>

theorem entry_accepted_iff:
  "verify_entry_signature T E signed pub mode arg = Inr True \<longleftrightarrow>
     (case block_of signed arg of
        None \<Rightarrow> mode = PERMISSIVE
      | Some v \<Rightarrow> check_block_shape v = Inr () \<and> (\<exists>pk digest h sig. pub = Some pk \<and> length pk = 32
          \<and> entry_digest T E (entry_of signed) = Inr digest
          \<and> map_of (block_items v) (u ''signature'') = Some (PStr h) \<and> fromhex h = Inr sig
          \<and> ed_verify E pk sig digest = Inr True))"
proof (cases "block_of signed arg")
  case (Some v)
  then show ?thesis
    by (cases "check_block_shape v"; cases pub)
      (auto simp: verify_entry_signature_def hex_arg_Inr)
qed (cases mode, auto simp: verify_entry_signature_def)

section \<open>A concrete signed entry\<close>

definition signed_sample :: "octets \<Rightarrow> items" where
  "signed_sample m = [(u ''alg'', PStr (u ''Ed25519'')), (u ''kid'', PStr (u ''k1'')),
     (u ''signature'', PStr (hexdigest (pad64 m)))]"

lemma length_hexdigest: "length (hexdigest b) = 2 * length b"
  by (induction b) auto

lemma sample_block_shape: "check_block_shape (PDict (signed_sample m)) = Inr ()"
  by (simp add: check_block_shape_def signed_sample_def length_hexdigest)

lemma sample_payload:
  obtains p m where "entry_payload sample_env sample_schema = Inr p" "payload_digest sample_sign_env p = Inr m"
    "json_encodable (PDict p)"
proof -
  obtain h where h: "body_sha256 (sv_sha256 sample_schema_env) sample_body = Inr h" "str_ok h"
    by (rule sample_body_hash)
  obtain at where at: "dt_to_rfc3339 sample_env (Dt 5 (Some 0)) = Inr at" "str_ok at"
    using dt_to_rfc3339_ok [of "Dt 5 (Some 0)" sample_env]
    by (auto simp: dt_ok_def aware_def instant_def max_us_def us_day_def)
  then obtain p where p: "entry_payload sample_env sample_schema = Inr p" "json_encodable (PDict p)" "jcs_ok (PDict p)"
    using h u_ok by (simp add: entry_payload_def sample_schema_def sample_body_def entry_schema_def)
  then obtain c where "canonicalize (PDict p) = Inr c" using jcs_accepts by blast
  with p(1) have "payload_digest sample_sign_env p = Inr c"
    by (simp add: payload_digest_def payload_unsigned jcs_canonicalize_def sample_sign_env_def)
  with p that show ?thesis by blast
qed

lemma sample_signed_entry:
  obtains s m b where "sign_entry sample_env sample_sign_env sample_schema (replicate 32 1) (u ''k1'') = Inr s"
    "s = \<lparr>sg_entry = sample_schema, sg_signature = signed_sample m\<rparr>"
    "envelope_with_signature sample_env s = Inr b" "entry_digest sample_env sample_sign_env sample_schema = Inr m"
proof -
  obtain p m where p: "entry_payload sample_env sample_schema = Inr p" "payload_digest sample_sign_env p = Inr m"
    "json_encodable (PDict p)" by (rule sample_payload)
  let ?s = "\<lparr>sg_entry = sample_schema, sg_signature = signed_sample m\<rparr>"
  have "sign_entry sample_env sample_sign_env sample_schema (replicate 32 1) (u ''k1'') = Inr ?s"
    using p sample_block_shape [of m]
    by (simp add: sign_entry_def entry_digest_def mk_signed_def signed_sample_def sample_sign_env_def)
  moreover have "str_ok (hexdigest (pad64 m))"
    using hexdigest_graph [of "pad64 m"] by (fastforce intro: scalar_ascii)
  then have "json_encodable (PDict (dict_set p (u ''signature'') (PDict (signed_sample m))))"
    using p(1,3) u_ok by (auto simp: entry_payload_def signed_sample_def)
  from json_bytes_ok [OF this] obtain b where "envelope_with_signature sample_env ?s = Inr b"
    by (auto simp: envelope_with_signature_def p(1))
  ultimately show ?thesis using that p by (simp add: entry_digest_def)
qed

lemma signed_entry_roundtrip_witness:
  "\<exists>s b s'. sign_entry sample_env sample_sign_env sample_schema (replicate 32 1) (u ''k1'') = Inr s
     \<and> envelope_with_signature sample_env s = Inr b \<and> envelope_to_signed_entry sample_env b = Inr (Signed s')
     \<and> verify_entry_signature sample_env sample_sign_env (Signed s') (Some (replicate 32 2)) STRICT None = Inr True"
proof -
  obtain s m b where s: "sign_entry sample_env sample_sign_env sample_schema (replicate 32 1) (u ''k1'') = Inr s"
    "envelope_with_signature sample_env s = Inr b" by (rule sample_signed_entry)
  have "rfc8785_dumps sample_sign_env = None" by (simp add: sample_sign_env_def)
  from signed_entry_roundtrip [OF _ _ this typed_plain [OF sample_typed] s, of "replicate 32 2" STRICT] s show ?thesis
    by (auto simp: sample_sign_env_def)
qed

lemma entry_signature_binds_witness:
  "\<exists>E block. verify_entry_signature sample_env E (Bare sample_schema) (Some (replicate 32 2)) STRICT
        (Some (PDict block)) = Inr True
     \<and> verify_entry_signature sample_env E (Bare (entry_stored sample_schema)) (Some (replicate 32 2)) STRICT
        (Some (PDict block)) = Inr True
     \<and> json_denote (PDict (se_body (entry_stored sample_schema))) = json_denote (PDict (se_body sample_schema))"
proof -
  obtain p m where p: "entry_payload sample_env sample_schema = Inr p" "payload_digest sample_sign_env p = Inr m"
    by (rule sample_payload)
  let ?E = "sample_sign_env\<lparr>ed_verify := \<lambda>k s m'. Inr (m' = m)\<rparr>"
  let ?b = "signed_sample m" and ?k = "replicate 32 (2::nat)"
  have E: "rfc8785_dumps ?E = None" "sha256 ?E c = c" for c by (simp_all add: sample_sign_env_def)
  have "payload_digest ?E p = Inr m"
    using p(2) by (simp add: payload_digest_def jcs_canonicalize_def sample_sign_env_def)
  moreover have slot: "map_of ?b (u ''signature'') = Some (PStr (hexdigest (pad64 m)))"
    by (simp add: signed_sample_def)
  ultimately have v: "verify_payload ?E p ?b ?k = Inr True"
    unfolding entry.verify_True by (auto simp: entry_accepts_def sample_block_shape)
  from stored_verifies [OF E(1) typed_plain [OF sample_typed] p(1) v] obtain p' where
    p': "entry_payload sample_env (entry_stored sample_schema) = Inr p'" "verify_payload ?E p' ?b ?k = Inr True"
    by blast
  have ok: "verify_entry_signature sample_env ?E (Bare sample_schema) (Some ?k) STRICT (Some (PDict ?b)) = Inr True"
    "verify_entry_signature sample_env ?E (Bare (entry_stored sample_schema)) (Some ?k) STRICT (Some (PDict ?b)) = Inr True"
    using p(1) v p' by (auto simp: verify_entry_True)
  have "m1 = m2" if "ed_verify ?E ?k s m1 = Inr True" "ed_verify ?E ?k s m2 = Inr True" for s m1 m2
    using that by simp
  moreover have "c = c'" if "sha256 ?E c = sha256 ?E c'" for c c'
    using that by (simp only: E(2))
  ultimately have "json_denote (PDict (se_body (entry_stored sample_schema)))
      = json_denote (PDict (se_body sample_schema))"
    by (intro entry_signature_binds [OF E(1) sample_typed stored_typed [OF sample_typed] p(1) p'(1) slot
        fromhex_hexdigest [OF pad64_ok(1)] _ _ ok, THEN conjunct2, THEN conjunct1])
  with ok show ?thesis by (intro exI conjI)
qed

lemma signed_reads_entry:
  assumes "envelope_to_signed_entry T b = Inr (Signed s)"
  shows "envelope_to_entry T b = Inr (sg_entry s)"
proof -
  from assms obtain e v where "envelope_to_entry T b = Inr e"
    "(case v of PDict d \<Rightarrow> (case map_of d (u ''signature'') of
         None \<Rightarrow> Inr (Bare e)
       | Some block \<Rightarrow> sbind (check_block_shape block) (\<lambda>_. Inr (Signed \<lparr>sg_entry = e, sg_signature = block_items block\<rparr>)))
     | _ \<Rightarrow> Inl SchemaEnvelopeErr) = Inr (Signed s)"
    by (auto simp: envelope_to_signed_entry_def)
  then show ?thesis by (cases v) (auto split: option.splits)
qed

text \<open>
  The registry's decoder drops the signature: \<open>get\<close> on a signed envelope returns a bare entry, which
  the permissive mode accepts and the strict mode rejects.
\<close>

lemma signature_dropped:
  obtains b where "envelope_to_entry sample_env b = Inr (entry_stored sample_schema)"
    "\<exists>s. envelope_to_signed_entry sample_env b = Inr (Signed s)"
    "verify_entry_signature sample_env E (Bare (entry_stored sample_schema)) pub STRICT None = Inl EntrySignatureErr"
    "verify_entry_signature sample_env E (Bare (entry_stored sample_schema)) pub PERMISSIVE None = Inr True"
proof -
  obtain s m b where s: "sign_entry sample_env sample_sign_env sample_schema (replicate 32 1) (u ''k1'') = Inr s"
    "envelope_with_signature sample_env s = Inr b" by (rule sample_signed_entry)
  have "rfc8785_dumps sample_sign_env = None" by (simp add: sample_sign_env_def)
  from signed_roundtrip [OF _ _ this typed_plain [OF sample_typed] s, of "replicate 32 2"]
  obtain s' where "envelope_to_signed_entry sample_env b = Inr (Signed s')" "sg_entry s' = entry_stored sample_schema"
    by (auto simp: sample_sign_env_def)
  moreover from this have "envelope_to_entry sample_env b = Inr (entry_stored sample_schema)"
    using signed_reads_entry by metis
  ultimately show ?thesis
    using that by (simp add: verify_entry_signature_def)
qed

end
