(* ===== verification/SchemaReplication.thy ===== *)
theory SchemaReplication
  imports SchemaRegistry PolicyReplication
begin

text \<open>
  One-way replication of the schema registry, \<open>schemas/replication.py\<close>: the bootstrap pass, the
  handling of a live event under either conflict policy, and the run loop. As in the replication of
  policies the state is the target bucket with the metrics object, the source is its snapshot and
  the updates its watcher hands out, and the filter is a pure function whose answer \<open>None\<close> stands
  for something that is not a decision. \<open>schema_replication_mirrors\<close> says what a run achieves.
\<close>

section \<open>Configuration and metrics\<close>

record schema_metrics =
  sm_boot_applied :: nat
  sm_boot_filtered :: nat
  sm_boot_idempotent :: nat
  sm_put :: nat
  sm_delete :: nat
  sm_filtered :: nat
  sm_conflicts :: nat
  sm_envelope_errors :: nat

type_synonym schema_filter = "schema_event \<Rightarrow> replication_decision option"

definition accept_all_schemas :: schema_filter where
  "accept_all_schemas ev = Some APPLY"

record schema_replicator =
  sr_mode :: conflict_policy
  sr_filter :: schema_filter
  sr_halt_envelope :: bool
  sr_halt_conflict :: bool

type_synonym ('t, 'a) srepl = "('t \<times> schema_metrics, 'a) io"

definition on_schemas :: "('t, 'a) io \<Rightarrow> ('t, 'a) srepl" where
  "on_schemas m = (\<lambda>(s, me). case m s of (x, s') \<Rightarrow> (x, (s', me)))"

definition tick :: "(schema_metrics \<Rightarrow> schema_metrics) \<Rightarrow> ('t, unit) srepl" where
  "tick f = (\<lambda>(s, me). (Inr (), (s, f me)))"

definition tick_then_raise :: "(schema_metrics \<Rightarrow> schema_metrics) \<Rightarrow> bool \<Rightarrow> exc \<Rightarrow> ('t, unit) srepl" where
  "tick_then_raise f halt e = io_bind (tick f) (\<lambda>_. if halt then io_raise e else io_ret ())"

section \<open>Bootstrap\<close>

definition entries_byte_equal :: "pyenv \<Rightarrow> registry_entry option \<Rightarrow> registry_entry option \<Rightarrow> bool" where
  "entries_byte_equal E a b =
     (case (a, b) of
        (Some x, Some y) \<Rightarrow>
          (case (entry_to_envelope E x, entry_to_envelope E y) of (Inr p, Inr q) \<Rightarrow> p = q | _ \<Rightarrow> False)
      | _ \<Rightarrow> False)"

definition bootstrap_entry ::
    "schema_env \<Rightarrow> 't kv_ops \<Rightarrow> schema_filter \<Rightarrow> ustr \<Rightarrow> registry_entry \<Rightarrow> ('t, unit) srepl" where
  "bootstrap_entry V tgt flt key e =
     (case flt \<lparr>sev_op = PUT, sev_key = key, sev_entry = Some e, sev_revision = 0\<rparr> of
        None \<Rightarrow> io_raise TypeErr
      | Some SKIP \<Rightarrow> tick (\<lambda>m. m\<lparr>sm_boot_filtered := Suc (sm_boot_filtered m)\<rparr>)
      | Some APPLY \<Rightarrow>
          io_bind (on_schemas (schema_get (sv_py V) tgt key)) (\<lambda>target_entry.
          if entries_byte_equal (sv_py V) (Some e) target_entry then
            tick (\<lambda>m. m\<lparr>sm_boot_idempotent := Suc (sm_boot_idempotent m)\<rparr>)
          else
            io_bind (on_schemas (schema_put V tgt e)) (\<lambda>_.
            tick (\<lambda>m. m\<lparr>sm_boot_applied := Suc (sm_boot_applied m)\<rparr>))))"

fun bootstrap_keys ::
    "schema_env \<Rightarrow> 't kv_ops \<Rightarrow> schema_filter \<Rightarrow> schema_registry \<Rightarrow> ustr list \<Rightarrow> ('t, unit) srepl" where
  "bootstrap_keys V tgt flt reg [] = io_ret ()"
| "bootstrap_keys V tgt flt reg (k # ks) =
     io_bind (case sreg_lookup reg k of None \<Rightarrow> io_ret () | Some e \<Rightarrow> bootstrap_entry V tgt flt k e) (\<lambda>_.
     bootstrap_keys V tgt flt reg ks)"

definition bootstrap_schemas ::
    "schema_env \<Rightarrow> 't kv_ops \<Rightarrow> schema_filter \<Rightarrow> schema_registry res \<Rightarrow> ('t, unit) srepl" where
  "bootstrap_schemas V tgt flt snap =
     io_bind (io_res snap) (\<lambda>reg. bootstrap_keys V tgt flt reg (keys_sorted reg))"

section \<open>Live events\<close>

abbreviation count_put :: "schema_metrics \<Rightarrow> schema_metrics" where
  "count_put m \<equiv> m\<lparr>sm_put := Suc (sm_put m)\<rparr>"

fun is_schema_conflict :: "exc \<Rightarrow> bool" where
  "is_schema_conflict (SchemaConflictErr k n a) = True"
| "is_schema_conflict e = False"

definition apply_schema_put :: "schema_env \<Rightarrow> 't kv_ops \<Rightarrow> schema_replicator \<Rightarrow> schema_event \<Rightarrow> ('t, unit) srepl" where
  "apply_schema_put V tgt R ev =
     (case sev_entry ev of
        None \<Rightarrow> io_raise SchemaEnvelopeErr
      | Some e \<Rightarrow>
          if sr_mode R = SOURCE_WINS then
            io_bind (on_schemas (schema_put V tgt e)) (\<lambda>_. tick count_put)
          else
            io_bind (on_schemas (schema_get_with_revision (sv_py V) tgt (sev_key ev))) (\<lambda>existing.
            case existing of
              None \<Rightarrow> io_bind (on_schemas (schema_put V tgt e)) (\<lambda>_. tick count_put)
            | Some (_, observed) \<Rightarrow>
                io_catch
                  (io_bind (on_schemas (schema_put_with_revision V tgt e observed)) (\<lambda>_. tick count_put))
                  (\<lambda>x. if is_schema_conflict x then
                         tick_then_raise (\<lambda>m. m\<lparr>sm_conflicts := Suc (sm_conflicts m)\<rparr>) (sr_halt_conflict R) x
                       else io_raise x)))"

definition apply_schema_delete :: "'t kv_ops \<Rightarrow> schema_event \<Rightarrow> ('t, unit) srepl" where
  "apply_schema_delete tgt ev =
     io_bind (on_schemas (schema_delete tgt (sev_key ev))) (\<lambda>_.
     tick (\<lambda>m. m\<lparr>sm_delete := Suc (sm_delete m)\<rparr>))"

definition consume_schema_event ::
    "schema_env \<Rightarrow> 't kv_ops \<Rightarrow> schema_replicator \<Rightarrow> schema_event \<Rightarrow> ('t, unit) srepl" where
  "consume_schema_event V tgt R ev =
     (case sr_filter R ev of
        None \<Rightarrow> io_raise TypeErr
      | Some SKIP \<Rightarrow> tick (\<lambda>m. m\<lparr>sm_filtered := Suc (sm_filtered m)\<rparr>)
      | Some APPLY \<Rightarrow> if sev_op ev = PUT then apply_schema_put V tgt R ev else apply_schema_delete tgt ev)"

section \<open>The run loop\<close>

lemma schema_stream_shorter:
  "schema_stream_next E w us = (Inr (Some ev), us') \<Longrightarrow> length us' < length us"
  by (induction E w us rule: schema_stream_next.induct) auto

function schema_stream_events ::
    "pyenv \<Rightarrow> watcher \<Rightarrow> watch_update option list \<Rightarrow> schema_event list \<times> exc option" where
  "schema_stream_events E w us =
     (case schema_stream_next E w us of
        (Inl e, _) \<Rightarrow> ([], Some e)
      | (Inr None, _) \<Rightarrow> ([], None)
      | (Inr (Some ev), us') \<Rightarrow> (let (evs, e) = schema_stream_events E w us' in (ev # evs, e)))"
  by pat_completeness auto
termination
  by (relation "measure (\<lambda>(E, w, us). length us)") (auto dest!: sym [THEN schema_stream_shorter])

declare schema_stream_events.simps [simp del]

abbreviation count_envelope :: "schema_metrics \<Rightarrow> schema_metrics" where
  "count_envelope m \<equiv> m\<lparr>sm_envelope_errors := Suc (sm_envelope_errors m)\<rparr>"

text \<open>An error that the inner clause raises again is caught, and counted, by the outer one too.\<close>

fun consume_schemas ::
    "schema_env \<Rightarrow> 't kv_ops \<Rightarrow> schema_replicator \<Rightarrow> schema_event list \<Rightarrow> exc option \<Rightarrow> ('t, unit) srepl" where
  "consume_schemas V tgt R [] None = io_ret ()"
| "consume_schemas V tgt R [] (Some e) = io_raise e"
| "consume_schemas V tgt R (ev # evs) end =
     io_bind
       (io_catch (consume_schema_event V tgt R ev)
         (\<lambda>e. if e = SchemaEnvelopeErr then tick_then_raise count_envelope (sr_halt_envelope R) e
              else io_raise e))
       (\<lambda>_. consume_schemas V tgt R evs end)"

definition run_schema_stream ::
    "schema_env \<Rightarrow> 't kv_ops \<Rightarrow> schema_replicator \<Rightarrow> schema_event list \<times> exc option \<Rightarrow> ('t, unit) srepl" where
  "run_schema_stream V tgt R stream =
     io_catch (consume_schemas V tgt R (fst stream) (snd stream))
       (\<lambda>e. if e = SchemaEnvelopeErr then tick_then_raise count_envelope (sr_halt_envelope R) e
            else io_raise e)"

definition schema_replicator_run ::
    "schema_env \<Rightarrow> 't kv_ops \<Rightarrow> schema_replicator \<Rightarrow> bool \<Rightarrow> schema_registry res \<Rightarrow> watcher
     \<Rightarrow> watch_update option list \<Rightarrow> ('t, unit) srepl" where
  "schema_replicator_run V tgt R bootstrap snap w us =
     io_bind (if bootstrap then bootstrap_schemas V tgt (sr_filter R) snap else io_ret ()) (\<lambda>_.
     run_schema_stream V tgt R (schema_stream_events (sv_py V) w us))"

section \<open>Buckets written by the backend\<close>

text \<open>Each value is the envelope of an entry of the declared types that passed the gates.\<close>

definition written_value :: "schema_env \<Rightarrow> ustr \<Rightarrow> octets \<Rightarrow> bool" where
  "written_value V k b \<longleftrightarrow> (\<exists>e. entry_typed e \<and> gates V e = Inr () \<and> entry_key e = Inr k
     \<and> entry_to_envelope (sv_py V) e = Inr b)"

definition written_bucket :: "schema_env \<Rightarrow> ('s \<Rightarrow> ustr \<Rightarrow> (octets \<times> int) option) \<Rightarrow> 's \<Rightarrow> bool" where
  "written_bucket V view s \<longleftrightarrow> (\<forall>k b n. view s k = Some (b, n) \<longrightarrow> written_value V k b)"

lemma written_bucket_sound: "written_bucket V view s \<Longrightarrow> sound_bucket V view s"
  using written_sound by (fastforce simp: written_bucket_def sound_bucket_def written_value_def)

text \<open>What is decoded from such a value is written back as the same bytes.\<close>

lemma written_reads:
  assumes "written_value V k b"
  shows "\<exists>e. envelope_to_entry (sv_py V) b = Inr e \<and> entry_to_envelope (sv_py V) e = Inr b
    \<and> entry_typed e \<and> gates V e = Inr () \<and> entry_key e = Inr k"
proof -
  from assms obtain e where e: "entry_typed e" "gates V e = Inr ()" "entry_key e = Inr k"
    "entry_to_envelope (sv_py V) e = Inr b"
    by (auto simp: written_value_def)
  then show ?thesis
    using envelope_reads_entry [OF typed_plain [OF e(1)] e(4)] entry_stored_bytes [OF e(4)] stored_typed [OF e(1)]
    by (intro exI [of _ "entry_stored e"]) (simp add: stored_gates stored_key)
qed

text \<open>Two buckets with the same values, under whatever revisions.\<close>

definition same_values :: "('k \<Rightarrow> ('b \<times> int) option) \<Rightarrow> ('k \<Rightarrow> ('b \<times> int) option) \<Rightarrow> bool" where
  "same_values f g \<longleftrightarrow> (\<forall>k. map_option fst (f k) = map_option fst (g k))"

lemma same_values_upd [simp]: "same_values f g \<Longrightarrow> same_values (f(k \<mapsto> (b, m))) (g(k \<mapsto> (b, n)))"
  by (simp add: same_values_def)

lemma same_values_remove [simp]: "same_values f g \<Longrightarrow> same_values (f(k := None)) (g(k := None))"
  by (simp add: same_values_def)

section \<open>One step on a lawful target\<close>

lemma on_schemas_apply [simp]: "on_schemas m (s, me) = (fst (m s), (snd (m s), me))"
  by (simp add: on_schemas_def split: prod.split)

lemma tick_apply [simp]: "tick f (s, me) = (Inr (), (s, f me))"
  by (simp add: tick_def)

text \<open>An entry that every write path of the backend accepts, with its key and its bytes.\<close>

definition storable :: "schema_env \<Rightarrow> ustr \<Rightarrow> registry_entry \<Rightarrow> octets \<Rightarrow> bool" where
  "storable V k e b \<longleftrightarrow> entry_typed e \<and> gates V e = Inr () \<and> entry_key e = Inr k
     \<and> entry_to_envelope (sv_py V) e = Inr b"

lemma storable_written: "storable V k e b \<Longrightarrow> written_value V k b"
  by (auto simp: storable_def written_value_def)

lemma written_decodes:
  assumes "written_bucket V view t" "view t k = Some (c, n)"
  shows "\<exists>e. envelope_to_entry (sv_py V) c = Inr e \<and> storable V k e c"
proof -
  from assms have "written_value V k c" by (auto simp: written_bucket_def)
  from written_reads [OF this] show ?thesis by (auto simp: storable_def)
qed

context kv_bucket
begin

lemma put_storable:
  assumes "inv t" "storable V k e b"
  shows "\<exists>t' m. schema_put V kv e t = (Inr m, t') \<and> inv t' \<and> view t' = (view t)(k \<mapsto> (b, m))"
  using put_writes [OF assms(1), of k b] assms(2) by (auto simp: storable_def schema_put_def io_bind_def)

lemma pinned_storable:
  assumes "inv t" "storable V k e b" "view t k = Some (c, n)"
  shows "\<exists>t' m. schema_put_with_revision V kv e n t = (Inr m, t') \<and> inv t' \<and> view t' = (view t)(k \<mapsto> (b, m))"
  using schema_update_result [OF assms(1), of k b n] assms(2,3) view_seq [OF assms(1,3)]
  by (auto simp: storable_def schema_put_with_revision_def io_bind_def live_rev_def)

lemma written_put:
  "written_bucket V view t \<Longrightarrow> storable V k e b \<Longrightarrow> view t' = (view t)(k \<mapsto> (b, m)) \<Longrightarrow> written_bucket V view t'"
  using storable_written by (auto simp: written_bucket_def)

lemma apply_put_storable:
  assumes "inv t" "written_bucket V view t" "storable V k e b" "sev_key ev = k" "sev_entry ev = Some e"
  shows "\<exists>t' m. apply_schema_put V kv R ev (t, me) = (Inr (), (t', count_put me)) \<and> inv t'
    \<and> view t' = (view t)(k \<mapsto> (b, m))"
proof -
  obtain t1 m1 where put: "schema_put V kv e t = (Inr m1, t1)" "inv t1" "view t1 = (view t)(k \<mapsto> (b, m1))"
    using put_storable [OF assms(1,3)] by blast
  show ?thesis
  proof (cases "sr_mode R = SOURCE_WINS")
    case True
    with put assms(5) show ?thesis
      by (auto simp: apply_schema_put_def io_bind_def)
  next
    case False
    have "k \<noteq> []" using assms(3) entry_key_ne by (auto simp: storable_def)
    note get = schema_get_with_revision_live [OF assms(1) this, of "sv_py V"]
    show ?thesis
    proof (cases "view t k")
      case None
      with get have "schema_get_with_revision (sv_py V) kv k t = (Inr None, t)"
        by (simp add: live_entry_def)
      with False put assms(4,5) show ?thesis
        by (auto simp: apply_schema_put_def io_bind_def)
    next
      case (Some bn)
      obtain c n where c: "view t k = Some (c, n)" using Some by (cases bn) auto
      from written_decodes [OF assms(2) c] obtain e0 where "envelope_to_entry (sv_py V) c = Inr e0" by blast
      with get c have g: "schema_get_with_revision (sv_py V) kv k t = (Inr (Some (e0, n)), t)"
        by (simp add: live_entry_def live_rev_def)
      obtain t2 m2 where w: "schema_put_with_revision V kv e n t = (Inr m2, t2)" "inv t2"
        "view t2 = (view t)(k \<mapsto> (b, m2))"
        using pinned_storable [OF assms(1,3) c] by blast
      with False g assms(4,5) show ?thesis
        by (auto simp add: apply_schema_put_def io_bind_def io_catch_def
           )
    qed
  qed
qed

lemma apply_delete_total:
  assumes "inv t" "sev_key ev \<noteq> []"
  shows "\<exists>t'. apply_schema_delete kv ev (t, me) = (Inr (), (t', me\<lparr>sm_delete := Suc (sm_delete me)\<rparr>)) \<and> inv t'
    \<and> view t' = (view t)(sev_key ev := None)"
proof -
  have "\<exists>t'. schema_delete kv (sev_key ev) t = (Inr (), t') \<and> inv t' \<and> view t' = (view t)(sev_key ev := None)"
  proof (cases "view t (sev_key ev)")
    case None
    from delete_absent [OF assms(1) None] obtain x t' where "kv_delete kv (sev_key ev) t = (x, t')" "inv t'"
      "view t' = view t" "case x of Inl e \<Rightarrow> is_missing e | Inr _ \<Rightarrow> True" by blast
    with assms(2) None show ?thesis
      by (cases x) (auto simp: schema_delete_def io_catch_def fun_upd_idem)
  next
    case (Some x)
    with delete_removes [OF assms(1)] assms(2) show ?thesis
      by (fastforce simp: schema_delete_def io_catch_def)
  qed
  then show ?thesis
    by (auto simp: apply_schema_delete_def io_bind_def)
qed

lemma bootstrap_storable:
  assumes "inv t" "written_bucket V view t" "storable V k e b"
  shows "\<exists>t' me'. bootstrap_entry V kv accept_all_schemas k e (t, me) = (Inr (), (t', me')) \<and> inv t'
    \<and> written_bucket V view t' \<and> same_values (view t') ((view t)(k \<mapsto> (b, 0)))
    \<and> sm_boot_applied me' + sm_boot_idempotent me' = Suc (sm_boot_applied me + sm_boot_idempotent me)
    \<and> sm_put me' = sm_put me \<and> sm_delete me' = sm_delete me"
proof -
  have "k \<noteq> []" using assms(3) entry_key_ne by (auto simp: storable_def)
  note get = schema_get_live [OF assms(1) this, of "sv_py V"]
  from assms(3) have b: "entry_to_envelope (sv_py V) e = Inr b" by (simp add: storable_def)
  obtain x where x: "live_entry (sv_py V) (view t k) = Inr x"
    "entries_byte_equal (sv_py V) (Some e) x \<longleftrightarrow> map_option fst (view t k) = Some b"
  proof (cases "view t k")
    case None
    then show ?thesis using that [of None] by (simp add: live_entry_def entries_byte_equal_def)
  next
    case (Some cn)
    obtain c n where c: "view t k = Some (c, n)" using Some by (cases cn) auto
    from written_decodes [OF assms(2) c] obtain e0 where "envelope_to_entry (sv_py V) c = Inr e0"
      "entry_to_envelope (sv_py V) e0 = Inr c" by (auto simp: storable_def)
    with c b that [of "Some e0"] show ?thesis by (auto simp: live_entry_def entries_byte_equal_def)
  qed
  have g: "on_schemas (schema_get (sv_py V) kv k) (t, me) = (Inr x, (t, me))"
    using get x(1) by simp
  show ?thesis
  proof (cases "map_option fst (view t k) = Some b")
    case True
    with g x(2) assms(1,2) show ?thesis
      by (auto simp: bootstrap_entry_def accept_all_schemas_def io_bind_def tick_def same_values_def)
  next
    case False
    obtain t1 m1 where put: "schema_put V kv e t = (Inr m1, t1)" "inv t1" "view t1 = (view t)(k \<mapsto> (b, m1))"
      using put_storable [OF assms(1,3)] by blast
    have "same_values (view t1) ((view t)(k \<mapsto> (b, 0)))" by (simp add: put(3) same_values_def)
    with False g x(2) put written_put [OF assms(2,3) put(3)] show ?thesis
      by (simp add: bootstrap_entry_def accept_all_schemas_def io_bind_def)
  qed
qed

lemma bootstrap_keys_storable:
  assumes "inv t" "written_bucket V view t"
    and "\<forall>k \<in> set ks. \<exists>e. map_of reg k = Some e \<and> storable V k e (val k)"
  shows "\<exists>t' me'. bootstrap_keys V kv accept_all_schemas reg ks (t, me) = (Inr (), (t', me')) \<and> inv t'
    \<and> written_bucket V view t'
    \<and> (\<forall>k. map_option fst (view t' k) = (if k \<in> set ks then Some (val k) else map_option fst (view t k)))
    \<and> sm_boot_applied me' + sm_boot_idempotent me' = sm_boot_applied me + sm_boot_idempotent me + length ks
    \<and> sm_put me' = sm_put me \<and> sm_delete me' = sm_delete me"
  using assms
proof (induction ks arbitrary: t me)
  case (Cons k ks)
  from Cons.prems(3) obtain e where e: "map_of reg k = Some e" "storable V k e (val k)" by auto
  from bootstrap_storable [OF Cons.prems(1,2) e(2), of me] obtain t1 me1 where
    s1: "bootstrap_entry V kv accept_all_schemas k e (t, me) = (Inr (), (t1, me1))" "inv t1"
    "written_bucket V view t1" "same_values (view t1) ((view t)(k \<mapsto> (val k, 0)))"
    "sm_boot_applied me1 + sm_boot_idempotent me1 = Suc (sm_boot_applied me + sm_boot_idempotent me)"
    "sm_put me1 = sm_put me" "sm_delete me1 = sm_delete me" by blast
  from Cons.IH [OF s1(2,3), of me1] Cons.prems(3) obtain t2 me2 where
    s2: "bootstrap_keys V kv accept_all_schemas reg ks (t1, me1) = (Inr (), (t2, me2))" "inv t2"
    "written_bucket V view t2"
    "\<forall>k. map_option fst (view t2 k) = (if k \<in> set ks then Some (val k) else map_option fst (view t1 k))"
    "sm_boot_applied me2 + sm_boot_idempotent me2 = sm_boot_applied me1 + sm_boot_idempotent me1 + length ks"
    "sm_put me2 = sm_put me1" "sm_delete me2 = sm_delete me1" by auto
  have "bootstrap_keys V kv accept_all_schemas reg (k # ks) (t, me) = (Inr (), (t2, me2))"
    using s1(1) s2(1) e(1) by (simp add: sreg_lookup_def io_bind_def)
  moreover have "map_option fst (view t2 j) = (if j \<in> set (k # ks) then Some (val j) else map_option fst (view t j))" for j
    using s2(4) s1(4) by (auto simp: same_values_def)
  ultimately show ?case using s1(5-7) s2(2,3,5-7) by auto
qed auto

end

section \<open>A run mirrors the source\<close>

lemma consume_schemas_append:
  "consume_schemas V tgt R (evs1 @ evs2) None st =
     (case consume_schemas V tgt R evs1 None st of
        (Inl e, st') \<Rightarrow> (Inl e, st')
      | (Inr _, st') \<Rightarrow> consume_schemas V tgt R evs2 None st')"
proof (induction evs1 arbitrary: st)
  case (Cons ev evs1)
  then show ?case by (simp add: io_bind_def split: prod.split sum.split)
qed simp

lemma stream_of_updates:
  "mapM_sum (decode_schema_update E) us = Inr evs \<Longrightarrow>
     schema_stream_events E AsyncIterator (map Some us) = (evs, None)"
  by (induction us arbitrary: evs) (auto simp: schema_stream_events.simps)

lemma consume_one:
  assumes "sr_filter R = accept_all_schemas"
    and "(if sev_op ev = PUT then apply_schema_put V tgt R ev else apply_schema_delete tgt ev) st = (Inr (), st')"
  shows "consume_schemas V tgt R [ev] None st = (Inr (), st')"
  using assms
  by (auto simp: consume_schema_event_def accept_all_schemas_def io_bind_def io_catch_def split: if_splits)

text \<open>The updates that a history of the source emits, consumed on a target that mirrored it before.\<close>

lemma history_mirrored:
  assumes "kv_bucket src vs qs Is" "kv_bucket tgt vt qt It"
    and "schema_history V src s us s'" "Is s" "written_bucket V vs s"
    and "It t" "written_bucket V vt t" "same_values (vt t) (vs s)" "sr_filter R = accept_all_schemas"
  shows "Is s' \<and> (\<exists>evs t' me'. mapM_sum (decode_schema_update (sv_py V)) us = Inr evs
    \<and> consume_schemas V tgt R evs None (t, me) = (Inr (), (t', me'))
    \<and> It t' \<and> written_bucket V vt t' \<and> same_values (vt t') (vs s')
    \<and> sm_put me' + sm_delete me' = sm_put me + sm_delete me + length us)"
  using assms(3-5,8)
proof induction
  case (schema_start s)
  with assms(6,7) show ?case by auto
next
  case (schema_write s us s1 e m s2 k b)
  then obtain evs t1 me1 where ih: "Is s1" "mapM_sum (decode_schema_update (sv_py V)) us = Inr evs"
    "consume_schemas V tgt R evs None (t, me) = (Inr (), (t1, me1))" "It t1" "written_bucket V vt t1"
    "same_values (vt t1) (vs s1)" "sm_put me1 + sm_delete me1 = sm_put me + sm_delete me + length us"
    by blast
  from kv_bucket.schema_writes_result [OF assms(1) ih(1) schema_write(3)] schema_write(4,5)
  have s2: "Is s2" "gates V e = Inr ()" "vs s2 = (vs s1)(k \<mapsto> (b, m))" by auto
  let ?e = "entry_stored e"
  have st: "storable V k ?e b"
    using schema_write(2,4,5) s2(2) entry_stored_bytes
    by (simp add: storable_def stored_typed stored_gates stored_key)
  note r = envelope_reads_entry [OF typed_plain [OF schema_write(2)] schema_write(5)]
  let ?ev = "\<lparr>sev_op = PUT, sev_key = k, sev_entry = Some ?e, sev_revision = m\<rparr>"
  have dec: "decode_schema_update (sv_py V) (put_update k b m) = Inr ?ev"
    using decode_schema_put [OF r entry_key_ne [OF schema_write(4)]] .
  obtain t2 m2 where t2: "apply_schema_put V tgt R ?ev (t1, me1) = (Inr (), (t2, count_put me1))" "It t2"
    "vt t2 = (vt t1)(k \<mapsto> (b, m2))"
    using kv_bucket.apply_put_storable [OF assms(2) ih(4,5) st, of ?ev R me1] by auto
  have "consume_schemas V tgt R [?ev] None (t1, me1) = (Inr (), (t2, count_put me1))"
    by (rule consume_one [OF assms(9)]) (simp add: t2(1))
  with ih(3) have "consume_schemas V tgt R (evs @ [?ev]) None (t, me) = (Inr (), (t2, count_put me1))"
    by (simp only: consume_schemas_append) simp
  moreover have "mapM_sum (decode_schema_update (sv_py V)) (us @ [put_update k b m]) = Inr (evs @ [?ev])"
    using ih(2) dec by (simp add: mapM_sum_Inr_iff list_all2_appendI)
  moreover have "same_values (vt t2) (vs s2)" using ih(6) by (simp add: t2(3) s2(3))
  ultimately show ?case
    using s2(1) t2(2) kv_bucket.written_put [OF assms(2) ih(5) st t2(3)] ih(7)
    by (intro conjI exI [of _ "evs @ [?ev]"] exI [of _ t2] exI [of _ "count_put me1"]) simp_all
next
  case (schema_refused s us s1 e x s2)
  then have "Is s1" by blast
  from kv_bucket.schema_writes_result [OF assms(1) this schema_refused(2)] schema_refused show ?case by simp
next
  case (schema_remove s us s1 k s2 op m)
  then obtain evs t1 me1 where ih: "Is s1" "mapM_sum (decode_schema_update (sv_py V)) us = Inr evs"
    "consume_schemas V tgt R evs None (t, me) = (Inr (), (t1, me1))" "It t1" "written_bucket V vt t1"
    "same_values (vt t1) (vs s1)" "sm_put me1 + sm_delete me1 = sm_put me + sm_delete me + length us"
    by blast
  from kv_bucket.delete_result [OF assms(1) ih(1) schema_remove(2) [unfolded schema_delete_eq]]
  have s2: "Is s2" "vs s2 = (vs s1)(k := None)" by auto
  have ne: "k \<noteq> []" using schema_remove(2) by (auto simp: schema_delete_def)
  from decode_schema_removal [OF schema_remove(3) ne, of "sv_py V" m] obtain w where
    dec: "w \<noteq> PUT" "decode_schema_update (sv_py V) (removal_update op k m)
      = Inr \<lparr>sev_op = w, sev_key = k, sev_entry = None, sev_revision = m\<rparr>" by blast
  let ?ev = "\<lparr>sev_op = w, sev_key = k, sev_entry = None, sev_revision = m\<rparr>"
  let ?me = "me1\<lparr>sm_delete := Suc (sm_delete me1)\<rparr>"
  obtain t2 where t2: "apply_schema_delete tgt ?ev (t1, me1) = (Inr (), (t2, ?me))" "It t2"
    "vt t2 = (vt t1)(k := None)"
    using kv_bucket.apply_delete_total [OF assms(2) ih(4), of ?ev me1] ne by auto
  have "consume_schemas V tgt R [?ev] None (t1, me1) = (Inr (), (t2, ?me))"
    by (rule consume_one [OF assms(9)]) (simp add: t2(1) dec(1))
  with ih(3) have "consume_schemas V tgt R (evs @ [?ev]) None (t, me) = (Inr (), (t2, ?me))"
    by (simp only: consume_schemas_append) simp
  moreover have "mapM_sum (decode_schema_update (sv_py V)) (us @ [removal_update op k m]) = Inr (evs @ [?ev])"
    using ih(2) dec(2) by (simp add: mapM_sum_Inr_iff list_all2_appendI)
  moreover have "same_values (vt t2) (vs s2)" using ih(6) by (simp add: t2(3) s2(2))
  moreover have "written_bucket V vt t2" using ih(5) by (auto simp: written_bucket_def t2(3) split: if_splits)
  ultimately show ?case
    using s2(1) t2(2) ih(7)
    by (intro conjI exI [of _ "evs @ [?ev]"] exI [of _ t2] exI [of _ ?me]) simp_all
qed

lemma same_values_live: "same_values f g \<Longrightarrow> live_entry E (f k) = live_entry E (g k)"
  unfolding same_values_def live_entry_def
  by (drule spec [of _ k]) (cases "f k"; cases "g k"; auto)

text \<open>
  C30: Replication mirrors the source. A run over two lawful buckets written by the backend, the
  target holding no key the source lacks, bootstrapped from a snapshot and fed the updates of any
  later history of the source, returns without error under either conflict policy; the target then
  holds exactly the bytes of the source, every key reads the same on both, and each update was
  counted once.
\<close>

theorem schema_replication_mirrors:
  assumes "kv_bucket src vs qs Is" "kv_bucket tgt vt qt It"
    and "Is s" "written_bucket V vs s" "It t" "written_bucket V vt t"
    and "\<forall>k. vt t k \<noteq> None \<longrightarrow> vs s k \<noteq> None"
    and "sr_filter R = accept_all_schemas"
    and "schema_snapshot (sv_py V) src s = (snap, s0)" "schema_history V src s us s'"
  shows "\<exists>t' me'. schema_replicator_run V tgt R True snap AsyncIterator (map Some us) (t, me) = (Inr (), (t', me'))
    \<and> same_values (vt t') (vs s')
    \<and> (\<forall>k. k \<noteq> [] \<longrightarrow> fst (schema_get (sv_py V) tgt k t') = fst (schema_get (sv_py V) src k s'))
    \<and> sm_put me' + sm_delete me' = sm_put me + sm_delete me + length us"
proof -
  from kv_bucket.snapshot_mirrors [OF assms(1,3) written_bucket_sound [OF assms(4)]] assms(9)
  obtain reg where reg: "snap = Inr reg" "mirrors V vs s reg" by (metis prod.inject)
  define val where "val k = fst (the (vs s k))" for k
  have keys: "\<forall>k \<in> set (keys_sorted reg). \<exists>e. map_of reg k = Some e \<and> storable V k e (val k)"
  proof
    fix k assume "k \<in> set (keys_sorted reg)"
    then obtain e where e: "map_of reg k = Some e"
      by (metis keys_sorted_def list.set_map map_of_eq_None_iff not_None_eq set_sort)
    with mirrors_live [OF reg(2), of k] obtain c n where c: "vs s k = Some (c, n)" by fastforce
    from written_decodes [OF assms(4) c] obtain e' where e': "envelope_to_entry (sv_py V) c = Inr e'"
      "storable V k e' c" by blast
    with c reg(2) e have "e' = e" by (auto simp: mirrors_def live_entry_def dest: spec [of _ k])
    with e e' c show "\<exists>e. map_of reg k = Some e \<and> storable V k e (val k)" by (simp add: val_def)
  qed
  have live: "k \<in> set (keys_sorted reg) \<longleftrightarrow> vs s k \<noteq> None" for k
    using mirrors_live [OF reg(2), of k] by (simp add: keys_sorted_def map_of_eq_None_iff)
  from kv_bucket.bootstrap_keys_storable [OF assms(2,5,6) keys, of me] obtain t1 me1 where
    t1: "bootstrap_keys V tgt accept_all_schemas reg (keys_sorted reg) (t, me) = (Inr (), (t1, me1))"
    "It t1" "written_bucket V vt t1"
    "\<forall>k. map_option fst (vt t1 k) = (if k \<in> set (keys_sorted reg) then Some (val k) else map_option fst (vt t k))"
    "sm_put me1 = sm_put me" "sm_delete me1 = sm_delete me" by blast
  have "map_option fst (vt t1 k) = map_option fst (vs s k)" for k
  proof (cases "vs s k")
    case None
    with live [of k] have "k \<notin> set (keys_sorted reg)" by simp
    with t1(4) assms(7) None show ?thesis by (metis option.map_disc_iff)
  next
    case (Some cn)
    with t1(4) live [of k] show ?thesis by (simp add: val_def)
  qed
  then have "same_values (vt t1) (vs s)" by (simp add: same_values_def)
  from history_mirrored [OF assms(1,2,10,3,4) t1(2,3) this assms(8), of me1] obtain evs t' me' where
    h: "Is s'" "mapM_sum (decode_schema_update (sv_py V)) us = Inr evs"
    "consume_schemas V tgt R evs None (t1, me1) = (Inr (), (t', me'))" "It t'"
    "same_values (vt t') (vs s')" "sm_put me' + sm_delete me' = sm_put me1 + sm_delete me1 + length us"
    by blast
  have "schema_replicator_run V tgt R True snap AsyncIterator (map Some us) (t, me) = (Inr (), (t', me'))"
    by (simp add: schema_replicator_run_def bootstrap_schemas_def reg(1) assms(8) t1(1) io_bind_def
        run_schema_stream_def stream_of_updates [OF h(2)] io_catch_def h(3))
  moreover have "fst (schema_get (sv_py V) tgt k t') = fst (schema_get (sv_py V) src k s')" if "k \<noteq> []" for k
    using kv_bucket.schema_get_live [OF assms(1) h(1) that] kv_bucket.schema_get_live [OF assms(2) h(4) that]
      same_values_live [OF h(5)] by simp
  ultimately show ?thesis using h(5,6) t1(5,6) by auto
qed

text \<open>Without a history to follow, a run is a bootstrap; running it again writes nothing.\<close>

text \<open>
  An envelope error that arises while an event is applied is counted twice when the replicator
  halts on it, a poisoned update of the stream once.
\<close>

lemma envelope_counted_twice:
  assumes "sr_halt_envelope R" "consume_schema_event V tgt R ev (t, me) = (Inl SchemaEnvelopeErr, (t', me))"
  shows "run_schema_stream V tgt R (ev # evs, end) (t, me)
      = (Inl SchemaEnvelopeErr, (t', me\<lparr>sm_envelope_errors := sm_envelope_errors me + 2\<rparr>))"
    "run_schema_stream V tgt R ([], Some SchemaEnvelopeErr) (t, me)
      = (Inl SchemaEnvelopeErr, (t, me\<lparr>sm_envelope_errors := sm_envelope_errors me + 1\<rparr>))"
  using assms by (simp_all add: run_schema_stream_def io_catch_def io_bind_def tick_then_raise_def)

section \<open>A concrete replication\<close>

lemma empty_written: "written_bucket V mock_view mock_empty"
  by (simp add: written_bucket_def mock_view_def mock_empty_def)

definition sample_schema_replicator :: schema_replicator where
  "sample_schema_replicator = \<lparr>sr_mode = CAS_PIN, sr_filter = accept_all_schemas, sr_halt_envelope = True,
     sr_halt_conflict = True\<rparr>"

definition no_schema_metrics :: schema_metrics where
  "no_schema_metrics = \<lparr>sm_boot_applied = 0, sm_boot_filtered = 0, sm_boot_idempotent = 0, sm_put = 0,
     sm_delete = 0, sm_filtered = 0, sm_conflicts = 0, sm_envelope_errors = 0\<rparr>"

lemma schema_replication_mirrors_witness:
  "\<exists>b s1 t' me'. schema_history sample_schema_env mock_ops mock_empty [put_update schema_key b 1] s1
     \<and> schema_replicator_run sample_schema_env mock_ops sample_schema_replicator True (Inr []) AsyncIterator
         (map Some [put_update schema_key b 1]) (mock_empty, no_schema_metrics) = (Inr (), (t', me'))
     \<and> map_option fst (mock_view t' schema_key) = Some b \<and> sm_put me' + sm_delete me' = 1"
proof -
  obtain s1 b where h: "schema_history sample_schema_env mock_ops mock_empty [put_update schema_key b 1] s1"
    "mock_view s1 schema_key = Some (b, 1)" by (rule sample_registry_history)
  have snap: "schema_snapshot (sv_py sample_schema_env) mock_ops mock_empty = (Inr [], mock_empty)"
    by (simp add: schema_snapshot_def schema_list_keys_def mock_ops_def mock_keys_def mock_empty_def io_bind_def)
  have "\<forall>k. mock_view mock_empty k \<noteq> None \<longrightarrow> mock_view mock_empty k \<noteq> None" by simp
  from schema_replication_mirrors [OF mock.kv_bucket_axioms mock.kv_bucket_axioms mock_inv_empty empty_written
      mock_inv_empty empty_written this _ snap h(1), of sample_schema_replicator no_schema_metrics]
  obtain t' me' where "schema_replicator_run sample_schema_env mock_ops sample_schema_replicator True (Inr [])
      AsyncIterator (map Some [put_update schema_key b 1]) (mock_empty, no_schema_metrics) = (Inr (), (t', me'))"
    "same_values (mock_view t') (mock_view s1)"
    "sm_put me' + sm_delete me' = sm_put no_schema_metrics + sm_delete no_schema_metrics + 1"
    by (auto simp: sample_schema_replicator_def)
  moreover from this(2) have "map_option fst (mock_view t' schema_key) = map_option fst (mock_view s1 schema_key)"
    by (simp add: same_values_def)
  then have "map_option fst (mock_view t' schema_key) = Some b" by (simp add: h(2))
  moreover have "sm_put no_schema_metrics + sm_delete no_schema_metrics + 1 = 1" by (simp add: no_schema_metrics_def)
  ultimately show ?thesis using h(1) by metis
qed

end
