(* ===== verification/PublisherInput.thy ===== *)
theory PublisherInput
  imports EntrySigning KidResolver Pytext
begin

text \<open>
  The inputs of the publisher command line, \<open>schemas/publisher_cli.py\<close> up to \<open>_build_entry\<close>: the
  flags of the four subcommands as \<open>argparse\<close> is told about them, the values they parse to, and what
  the loaders make of files and texts. File contents, the clock and the connections are fields of an
  environment; message texts are left out.
\<close>

section \<open>Exit codes\<close>

datatype exit_code =
    EXIT_OK | USAGE_ERROR | INPUT_ERROR | VALIDATION_ERROR | CAS_CONFLICT | BACKEND_ERROR
  | CAPABILITY_DENY | REVOCATION_CONFLICT | REVOKE_TARGET_NOT_FOUND | UNREVOKE_TARGET_NOT_REVOKED

fun exit_value :: "exit_code \<Rightarrow> nat" where
  "exit_value EXIT_OK = 0"
| "exit_value USAGE_ERROR = 2"
| "exit_value INPUT_ERROR = 3"
| "exit_value VALIDATION_ERROR = 4"
| "exit_value CAS_CONFLICT = 5"
| "exit_value BACKEND_ERROR = 6"
| "exit_value CAPABILITY_DENY = 7"
| "exit_value REVOCATION_CONFLICT = 8"
| "exit_value REVOKE_TARGET_NOT_FOUND = 9"
| "exit_value UNREVOKE_TARGET_NOT_REVOKED = 10"

lemma exit_value_inj: "exit_value a = exit_value b \<Longrightarrow> a = b"
  by (cases a; cases b) auto

section \<open>Flags\<close>

text \<open>
  A flag is declared with the attribute it sets, the kind of its value, whether it is required, and
  its default. A switch is \<open>False\<close> unless given.
\<close>

datatype arg_value = ANone | AStr ustr | AInt int | ABool bool

datatype flag_kind = Text | Choice "ustr list" | Number | Switch

record flag =
  fl_dest :: string
  fl_kind :: flag_kind
  fl_required :: bool
  fl_default :: arg_value

abbreviation required_text :: "string \<Rightarrow> flag" where
  "required_text d \<equiv> \<lparr>fl_dest = d, fl_kind = Text, fl_required = True, fl_default = ANone\<rparr>"

abbreviation optional_text :: "string \<Rightarrow> flag" where
  "optional_text d \<equiv> \<lparr>fl_dest = d, fl_kind = Text, fl_required = False, fl_default = ANone\<rparr>"

abbreviation optional_number :: "string \<Rightarrow> flag" where
  "optional_number d \<equiv> \<lparr>fl_dest = d, fl_kind = Number, fl_required = False, fl_default = ANone\<rparr>"

abbreviation switch_flag :: "string \<Rightarrow> flag" where
  "switch_flag d \<equiv> \<lparr>fl_dest = d, fl_kind = Switch, fl_required = False, fl_default = ABool False\<rparr>"

definition default_url :: ustr where
  "default_url = u ''nats://127.0.0.1:4222''"

abbreviation url_flag :: "string \<Rightarrow> flag" where
  "url_flag d \<equiv> \<lparr>fl_dest = d, fl_kind = Text, fl_required = False, fl_default = AStr default_url\<rparr>"

definition input_flags :: "flag list" where
  "input_flags =
     [required_text ''schema_body'',
      \<lparr>fl_dest = ''layer'', fl_kind = Choice (sort recognised_layers), fl_required = True, fl_default = ANone\<rparr>,
      required_text ''name'', required_text ''version'', required_text ''registered_by'',
      optional_text ''supersedes'', optional_text ''registered_at'']"

definition publish_flags :: "flag list" where
  "publish_flags = [optional_number ''expected_revision'', switch_flag ''create_only'', url_flag ''connect_url'']"

definition capability_flags :: "flag list" where
  "capability_flags =
     [switch_flag ''sign'', optional_text ''kid'', optional_text ''ed25519_priv_key_hex'',
      optional_text ''ed25519_priv_key_file'', switch_flag ''gate'', optional_text ''capability_registry'',
      switch_flag ''capability_bucket'', url_flag ''capability_bucket_connect_url'', optional_text ''gate_as_of'']"

definition revoke_flags :: "flag list" where
  "revoke_flags =
     [required_text ''registered_by'', required_text ''policy_id'', required_text ''revoked_at'',
      optional_text ''revocation_reason'', required_text ''registered_by_publisher'',
      optional_text ''registered_at'', optional_number ''expected_revision'', switch_flag ''lww'',
      url_flag ''connect_url'']"

definition unrevoke_flags :: "flag list" where
  "unrevoke_flags =
     [required_text ''registered_by'', required_text ''policy_id'', required_text ''registered_by_publisher'',
      optional_text ''unrevoke_reason'', optional_text ''registered_at'', url_flag ''connect_url'']"

text \<open>Two flags of a pair exclude each other.\<close>

definition publish_exclusive :: "(string \<times> string) list" where
  "publish_exclusive = [(''expected_revision'', ''create_only'')]"

definition capability_exclusive :: "(string \<times> string) list" where
  "capability_exclusive = [(''ed25519_priv_key_hex'', ''ed25519_priv_key_file''),
     (''capability_registry'', ''capability_bucket'')]"

definition revoke_exclusive :: "(string \<times> string) list" where
  "revoke_exclusive = [(''expected_revision'', ''lww'')]"

datatype subcommand = Publish | DryRun | Revoke | Unrevoke

fun subcommand_flags :: "subcommand \<Rightarrow> flag list \<times> (string \<times> string) list" where
  "subcommand_flags Publish =
     (input_flags @ publish_flags @ capability_flags, publish_exclusive @ capability_exclusive)"
| "subcommand_flags DryRun = (input_flags @ capability_flags, capability_exclusive)"
| "subcommand_flags Revoke = (revoke_flags, revoke_exclusive)"
| "subcommand_flags Unrevoke = (unrevoke_flags, [])"

text \<open>
  A namespace \<open>parse_args\<close> can return for a subcommand: every flag has a value of its kind, the
  required ones are given, and of an exclusive pair at most one has a value other than its default.
\<close>

type_synonym namespace = "string \<Rightarrow> arg_value"

fun kind_ok :: "flag_kind \<Rightarrow> arg_value \<Rightarrow> bool" where
  "kind_ok Text (AStr s) = True"
| "kind_ok (Choice cs) (AStr s) = (s \<in> set cs)"
| "kind_ok Number (AInt n) = True"
| "kind_ok Switch (ABool b) = True"
| "kind_ok k v = False"

definition flag_ok :: "namespace \<Rightarrow> flag \<Rightarrow> bool" where
  "flag_ok ns f \<longleftrightarrow> kind_ok (fl_kind f) (ns (fl_dest f)) \<or> \<not> fl_required f \<and> ns (fl_dest f) = fl_default f"

definition given :: "namespace \<Rightarrow> flag list \<Rightarrow> string \<Rightarrow> bool" where
  "given ns fs d \<longleftrightarrow> list_ex (\<lambda>f. fl_dest f = d \<and> ns d \<noteq> fl_default f) fs"

definition parsed :: "subcommand \<Rightarrow> namespace \<Rightarrow> bool" where
  "parsed cmd ns \<longleftrightarrow> (case subcommand_flags cmd of (fs, ex) \<Rightarrow>
     list_all (flag_ok ns) fs \<and> list_all (\<lambda>(a, b). \<not> (given ns fs a \<and> given ns fs b)) ex)"

text \<open>The attributes as the code reads them.\<close>

fun as_opt_text :: "arg_value \<Rightarrow> ustr option" where
  "as_opt_text (AStr s) = Some s"
| "as_opt_text v = None"

fun as_opt_int :: "arg_value \<Rightarrow> int option" where
  "as_opt_int (AInt n) = Some n"
| "as_opt_int v = None"

fun as_switch :: "arg_value \<Rightarrow> bool" where
  "as_switch (ABool b) = b"
| "as_switch v = False"

fun as_text :: "arg_value \<Rightarrow> ustr" where
  "as_text (AStr s) = s"
| "as_text v = []"

section \<open>The environment\<close>

text \<open>
  What the command takes from outside: the content of a file or the exception of reading it, the
  clock, whether a bucket can be connected to, the handles, and the parameters of the registries and
  of signing. Dates and texts are read with the functions of the other theories.
\<close>

record ('s, 't) cli_env =
  ce_file :: "ustr \<Rightarrow> octets res"
  ce_now :: int
  ce_schema :: schema_env
  ce_sign :: sign_env
  ce_connect :: "ustr \<Rightarrow> unit res"
  ce_connect_policies :: "ustr \<Rightarrow> unit res"
  ce_schemas :: "'s kv_ops"
  ce_policies :: "'t kv_ops"

abbreviation ce_py :: "('s, 't) cli_env \<Rightarrow> pyenv" where
  "ce_py C \<equiv> sv_py (ce_schema C)"

section \<open>Loading\<close>

definition load_json_object :: "('s, 't) cli_env \<Rightarrow> ustr \<Rightarrow> items res" where
  "load_json_object C path =
     sbind (ce_file C path) (\<lambda>raw.
     sbind (utf8_decode raw) (\<lambda>txt.
     sbind (json_loads (ce_py C) txt) (\<lambda>v. case v of PDict d \<Rightarrow> Inr d | _ \<Rightarrow> Inl TypeErr)))"

definition load_schema_body :: "('s, 't) cli_env \<Rightarrow> ustr \<Rightarrow> items res" where
  "load_schema_body C path = load_json_object C path"

definition parse_instant :: "pyenv \<Rightarrow> ustr \<Rightarrow> dt res" where
  "parse_instant P value =
     sbind (fromisoformat P (replace_z (py_strip value))) (\<lambda>d.
       if \<not> aware d then Inl ValueErr else astimezone_utc P d)"

definition parse_registered_at :: "('s, 't) cli_env \<Rightarrow> ustr option \<Rightarrow> dt res" where
  "parse_registered_at C value =
     (case value of None \<Rightarrow> Inr (Dt (ce_now C) (Some 0)) | Some s \<Rightarrow> parse_instant (ce_py C) s)"

definition parse_optional_rfc3339 :: "pyenv \<Rightarrow> pyval \<Rightarrow> dt option res" where
  "parse_optional_rfc3339 P value = (case value of
       PNone \<Rightarrow> Inr None
     | PStr s \<Rightarrow> sbind (parse_instant P s) (\<lambda>d. Inr (Some d))
     | _ \<Rightarrow> Inl TypeErr)"

definition flags_consistent :: "namespace \<Rightarrow> unit res" where
  "flags_consistent ns =
     (let sign = as_switch (ns ''sign''); gate = as_switch (ns ''gate'');
          kid = as_opt_text (ns ''kid''); hex_key = as_opt_text (ns ''ed25519_priv_key_hex'');
          file_key = as_opt_text (ns ''ed25519_priv_key_file'');
          cap_path = as_opt_text (ns ''capability_registry'');
          cap_bucket = as_switch (ns ''capability_bucket''); gate_as_of = as_opt_text (ns ''gate_as_of'') in
      sbind (if sign then
               (if kid = None \<or> kid = Some [] then Inl ValueErr
                else if hex_key = None \<and> file_key = None then Inl ValueErr
                else Inr ())
             else ensure (kid = None \<and> hex_key = None \<and> file_key = None) ValueErr) (\<lambda>_.
      if gate then
        (if \<not> sign then Inl ValueErr
         else if cap_path = None \<and> \<not> cap_bucket then Inl ValueErr
         else Inr ())
      else ensure (cap_path = None \<and> \<not> cap_bucket \<and> gate_as_of = None) ValueErr))"

definition decode_hex_seed :: "ustr \<Rightarrow> octets res" where
  "decode_hex_seed value =
     (let s = py_strip value in
      if length s \<noteq> 64 then Inl ValueErr
      else sbind (rethrow is_value_error ValueErr (fromhex s)) (\<lambda>seed.
        if length seed \<noteq> 32 then Inl ValueErr else Inr seed))"

text \<open>
  A flag names the key or its file. Without either the code runs into an assertion, which the check
  of the flags rules out.
\<close>

definition load_ed25519_priv_key ::
    "('s, 't) cli_env \<Rightarrow> ustr option \<Rightarrow> ustr option \<Rightarrow> octets res" where
  "load_ed25519_priv_key C hex_value file_value =
     (case (hex_value, file_value) of
        (Some h, _) \<Rightarrow> decode_hex_seed h
      | (None, None) \<Rightarrow> Inl (ClassErr ''AssertionError'')
      | (None, Some f) \<Rightarrow>
          sbind (ce_file C f) (\<lambda>raw.
            if length raw = 32 then Inr raw
            else if list_all (\<lambda>b. b < 128) raw then decode_hex_seed raw
            else Inl ValueErr))"

text \<open>\<open>tuple(v)\<close> for a value read from JSON: the elements of a list, the characters of a text.\<close>

definition tuple_of :: "pyval \<Rightarrow> pyval list res" where
  "tuple_of v = (case v of
       PList vs \<Rightarrow> Inr vs
     | PStr s \<Rightarrow> Inr (map (\<lambda>c. PStr [c]) s)
     | PDict d \<Rightarrow> Inr (map (\<lambda>kv. PStr (fst kv)) d)
     | _ \<Rightarrow> Inl TypeErr)"

text \<open>
  A pair of a list of two becomes a pair, anything else \<open>(None, None)\<close>; the constructor of the policy
  refuses a pair with a part that is no text.
\<close>

definition triple_of :: "pyval \<Rightarrow> (ustr \<times> ustr) res" where
  "triple_of v = (case v of
       PList [PStr a, PStr b] \<Rightarrow> Inr (a, b)
     | _ \<Rightarrow> Inl RegisteredByCapabilityErr)"

definition note_of :: "pyval \<Rightarrow> ustr option res" where
  "note_of v = (case v of
       PNone \<Rightarrow> Inr None
     | PStr s \<Rightarrow> Inr (Some s)
     | _ \<Rightarrow> Inl RegisteredByCapabilityErr)"

definition policy_from_dict :: "pyenv \<Rightarrow> items \<Rightarrow> capability_policy res" where
  "policy_from_dict P item =
     (case (map_of item (u ''registered_by''), map_of item (u ''allowed_kids'')) of
        (Some rb, Some kids) \<Rightarrow>
          sbind (tuple_of kids) (\<lambda>kids.
          case map_of item (u ''allowed_triples'') of
            Some (PList raw) \<Rightarrow>
              sbind (parse_optional_rfc3339 P (dget item ''not_before'')) (\<lambda>nb.
              sbind (parse_optional_rfc3339 P (dget item ''not_after'')) (\<lambda>na.
              sbind (mapM_sum triple_of raw) (\<lambda>triples.
              sbind (note_of (dget item ''note'')) (\<lambda>nt.
              mk_policy rb kids triples nb na
                (case map_of item (u ''disabled'') of None \<Rightarrow> False | Some v \<Rightarrow> py_truthy v) nt None None))))
          | _ \<Rightarrow> Inl TypeErr)
      | _ \<Rightarrow> Inl TypeErr)"

definition policy_of_item :: "pyenv \<Rightarrow> pyval \<Rightarrow> capability_policy res" where
  "policy_of_item P v = (case v of PDict item \<Rightarrow> policy_from_dict P item | _ \<Rightarrow> Inl TypeErr)"

definition load_capability_registry :: "('s, 't) cli_env \<Rightarrow> ustr \<Rightarrow> registry res" where
  "load_capability_registry C path =
     sbind (load_json_object C path) (\<lambda>d.
     case dget d ''policies'' of
       PList items \<Rightarrow>
         sbind (mapM_sum (policy_of_item (ce_py C)) items) (\<lambda>ps.
           Inr (foldl (\<lambda>reg p. add_policy p reg) [] ps))
     | _ \<Rightarrow> Inl TypeErr)"

text \<open>From the bucket; a failure to connect or to read is the caller's.\<close>

definition load_registry_from_bucket :: "('s, 't) cli_env \<Rightarrow> ustr \<Rightarrow> ('t, registry) io" where
  "load_registry_from_bucket C url =
     io_bind (io_res (ce_connect_policies C url)) (\<lambda>_. snapshot_registry (ce_py C) (ce_policies C))"

definition build_entry ::
    "('s, 't) cli_env \<Rightarrow> items \<Rightarrow> ustr \<Rightarrow> ustr \<Rightarrow> ustr \<Rightarrow> ustr \<Rightarrow> dt \<Rightarrow> ustr option \<Rightarrow> registry_entry res" where
  "build_entry C body layer name version rb at prev =
     sbind (as_str SchemaGateErr (dget body ''$id'')) (\<lambda>body_id.
     if py_strip rb = [] then Inl SchemaGateErr
     else sbind (body_sha256 (sv_sha256 (ce_schema C)) body) (\<lambda>h.
       Inr \<lparr>se_layer = PStr layer, se_name = PStr name, se_version = PStr version,
         se_schema_id = PStr body_id, se_body = body, se_sha256 = PStr h,
         se_registered_at = at, se_registered_by = PStr rb,
         se_supersedes = opt_str prev\<rparr>))"

text \<open>The file form of a key: 32 raw octets, or the 64 digits, give the same seed either way.\<close>

lemma seed_of_hex:
  assumes "octets_ok b" "length b = 32"
  shows "decode_hex_seed (hexdigest b) = Inr b"
proof -
  have graph: "c \<in> set (hexdigest b) \<Longrightarrow> \<not> py_space c" for c
    using hexdigest_graph [OF assms(1)] by (fastforce simp: py_space_def)
  have "dropWhile py_space xs = xs" if "\<forall>c \<in> set xs. \<not> py_space c" for xs
    using that by (cases xs) auto
  from this [of "hexdigest b"] this [of "rev (hexdigest b)"] graph
  have "py_strip (hexdigest b) = hexdigest b"
    by (simp add: py_strip_def)
  with assms show ?thesis by (simp add: decode_hex_seed_def length_hexdigest)
qed

text \<open>
  A text instead of a list of key ids is taken apart into its characters, and a registry file that
  means one key grants each letter of it.
\<close>

lemma kids_of_text: "tuple_of (PStr (u ''ab'')) = Inr [PStr (u ''a''), PStr (u ''b'')]"
  by (simp add: tuple_of_def u_def)

text \<open>Every instant the command line reads is in UTC.\<close>

lemma parse_instant_utc: "parse_instant P s = Inr d \<Longrightarrow> utcoff d = Some 0"
  by (auto simp: parse_instant_def split: if_splits dest: astimezone_utc_InrD)

lemma parse_registered_at_utc: "parse_registered_at C x = Inr d \<Longrightarrow> utcoff d = Some 0"
  by (auto simp: parse_registered_at_def parse_instant_utc split: option.splits)

end
