(* ===== verification/PublisherCli.thy ===== *)
theory PublisherCli
  imports PublisherInput PolicyWatch
begin

text \<open>
  The commands of the publisher, \<open>schemas/publisher_cli.py\<close> from \<open>_print_receipt_stdout\<close> on:
  \<open>publish\<close> and \<open>dry-run\<close> over the schema bucket, \<open>revoke\<close> and \<open>unrevoke\<close> over the bucket of
  capability policies. A command runs on both buckets. Its value is the receipt it prints (and exit
  code 0) or the exit code it reports an error with; an exception is one that no handler catches. The
  clean-up of a connection, whose failures are ignored, is left out.
\<close>

section \<open>Exit codes of failed calls\<close>

text \<open>A computation with an early return, and a \<open>try\<close> whose handlers return.\<close>

definition then_do ::
    "('s, exit_code + 'a) io \<Rightarrow> ('a \<Rightarrow> ('s, exit_code + 'b) io) \<Rightarrow> ('s, exit_code + 'b) io" where
  "then_do m f = io_bind m (\<lambda>x. case x of Inl c \<Rightarrow> io_ret (Inl c) | Inr a \<Rightarrow> f a)"

definition exit_on :: "(exc \<Rightarrow> exit_code option) \<Rightarrow> ('s, 'a) io \<Rightarrow> ('s, exit_code + 'a) io" where
  "exit_on h m s = (case m s of
       (Inl e, s') \<Rightarrow> ((case h e of Some c \<Rightarrow> Inr (Inl c) | None \<Rightarrow> Inl e), s')
     | (Inr a, s') \<Rightarrow> (Inr (Inr a), s'))"

definition leave :: "exit_code \<Rightarrow> ('s, exit_code + 'a) io" where
  "leave c = io_ret (Inl c)"

definition in_schemas :: "('s, 'a) io \<Rightarrow> ('s \<times> 't, 'a) io" where
  "in_schemas m st = (case m (fst st) of (x, s') \<Rightarrow> (x, (s', snd st)))"

definition in_policies :: "('t, 'a) io \<Rightarrow> ('s \<times> 't, 'a) io" where
  "in_policies m st = (case m (snd st) of (x, t') \<Rightarrow> (x, (fst st, t')))"

fun is_policy_error :: "exc \<Rightarrow> bool" where
  "is_policy_error PolicyEnvelopeErr = True"
| "is_policy_error PolicyValidationErr = True"
| "is_policy_error PolicyBackendErr = True"
| "is_policy_error (PolicyConflictErr k n a) = True"
| "is_policy_error (RevocationConflictErr k a b) = True"
| "is_policy_error e = False"

definition prep_exit :: "exc \<Rightarrow> exit_code option" where
  "prep_exit e =
     (if cls_name e \<in> {''FileNotFoundError'', ''PermissionError''} then Some INPUT_ERROR
      else if is_type_error e \<or> is_value_error e then Some INPUT_ERROR
      else if e = SchemaGateErr \<or> e = EntrySignatureErr \<or> e = RegisteredByCapabilityErr
        \<or> is_policy_error e then Some VALIDATION_ERROR
      else None)"

definition write_exit :: "exc \<Rightarrow> exit_code option" where
  "write_exit e =
     (if e = SchemaGateErr then Some VALIDATION_ERROR
      else case e of SchemaConflictErr k n a \<Rightarrow> Some CAS_CONFLICT | _ \<Rightarrow> Some BACKEND_ERROR)"

definition read_exit :: "exc \<Rightarrow> exit_code option" where
  "read_exit e = (if e = PolicyEnvelopeErr then Some VALIDATION_ERROR else None)"

definition rewrite_exit :: "exc \<Rightarrow> exit_code option" where
  "rewrite_exit e =
     (if e = RegisteredByCapabilityErr \<or> e = PolicyValidationErr then Some VALIDATION_ERROR else None)"

fun unrevoke_exit :: "exc \<Rightarrow> exit_code option" where
  "unrevoke_exit (PolicyConflictErr k n a) = Some CAS_CONFLICT"
| "unrevoke_exit PolicyValidationErr = Some VALIDATION_ERROR"
| "unrevoke_exit PolicyEnvelopeErr = Some VALIDATION_ERROR"
| "unrevoke_exit e = Some BACKEND_ERROR"

fun revoke_exit :: "exc \<Rightarrow> exit_code option" where
  "revoke_exit (RevocationConflictErr k a b) = Some REVOCATION_CONFLICT"
| "revoke_exit e = unrevoke_exit e"

definition value_exit :: "exc \<Rightarrow> exit_code option" where
  "value_exit e = (if is_value_error e then Some INPUT_ERROR else None)"

section \<open>Receipts\<close>

datatype publish_mode = MODE_LWW | MODE_CAS | MODE_CREATE_ONLY | MODE_DRY_RUN

datatype policy_source = FromFile | FromBucket

text \<open>The gate's decision stands for the dictionary the receipt has; its reason text is left out.\<close>

record publish_receipt =
  pr_mode :: publish_mode
  pr_key :: ustr
  pr_layer :: pyval
  pr_name :: pyval
  pr_version :: pyval
  pr_schema_id :: pyval
  pr_sha256 :: pyval
  pr_revision :: "int option"
  pr_expected_revision :: "int option"
  pr_registered_by :: pyval
  pr_registered_at :: ustr
  pr_supersedes :: pyval
  pr_signed :: bool
  pr_kid :: "pyval option"
  pr_decision :: "gate_decision option"
  pr_source :: "policy_source option"

record revoke_receipt =
  rr_mode :: publish_mode
  rr_key :: ustr
  rr_registered_by :: ustr
  rr_policy_id :: ustr
  rr_revoked_at :: ustr
  rr_reason :: "ustr option"
  rr_expected_revision :: "int option"
  rr_previous_revision :: int
  rr_new_revision :: int
  rr_registered_at :: ustr
  rr_publisher :: ustr

record unrevoke_receipt =
  ur_key :: ustr
  ur_registered_by :: ustr
  ur_policy_id :: ustr
  ur_previous_revoked_at :: ustr
  ur_previous_reason :: "ustr option"
  ur_previous_revision :: int
  ur_new_revision :: int
  ur_registered_at :: ustr
  ur_publisher :: ustr
  ur_reason :: "ustr option"

text \<open>\<open>isoformat().replace("+00:00", "Z")\<close> of a datetime in UTC.\<close>

definition iso_z :: "dt \<Rightarrow> ustr" where
  "iso_z d = iso_base (wall d) @ u ''Z''"

definition revoke_receipt_dict :: "revoke_receipt \<Rightarrow> items" where
  "revoke_receipt_dict r =
     [(u ''cmd'', PStr (u ''revoke'')),
      (u ''mode'', PStr (if rr_mode r = MODE_LWW then u ''lww'' else u ''cas'')),
      (u ''key'', PStr (rr_key r)), (u ''registered_by'', PStr (rr_registered_by r)),
      (u ''policy_id'', PStr (rr_policy_id r)), (u ''revoked_at'', PStr (rr_revoked_at r)),
      (u ''revocation_reason'', opt_str (rr_reason r)),
      (u ''expected_revision'', case rr_expected_revision r of None \<Rightarrow> PNone | Some n \<Rightarrow> PInt n),
      (u ''previous_revision'', PInt (rr_previous_revision r)),
      (u ''new_revision'', PInt (rr_new_revision r)),
      (u ''registered_at'', PStr (rr_registered_at r)),
      (u ''registered_by_publisher'', PStr (rr_publisher r))]"

definition unrevoke_receipt_dict :: "unrevoke_receipt \<Rightarrow> items" where
  "unrevoke_receipt_dict r =
     [(u ''cmd'', PStr (u ''unrevoke'')), (u ''mode'', PStr (u ''lww'')),
      (u ''key'', PStr (ur_key r)), (u ''registered_by'', PStr (ur_registered_by r)),
      (u ''policy_id'', PStr (ur_policy_id r)),
      (u ''previous_revoked_at'', PStr (ur_previous_revoked_at r)),
      (u ''previous_revocation_reason'', opt_str (ur_previous_reason r)),
      (u ''previous_revision'', PInt (ur_previous_revision r)),
      (u ''new_revision'', PInt (ur_new_revision r)),
      (u ''registered_at'', PStr (ur_registered_at r)),
      (u ''registered_by_publisher'', PStr (ur_publisher r)),
      (u ''unrevoke_reason'', opt_str (ur_reason r))]"

section \<open>Preparing an entry\<close>

text \<open>An entry and its signature as the gate of capability policies sees them.\<close>

fun str_part :: "pyval \<Rightarrow> ustr" where
  "str_part (PStr s) = s"
| "str_part v = []"

definition gate_view :: "registry_entry \<Rightarrow> schema_entry" where
  "gate_view e =
     \<lparr>entry_layer = str_part (se_layer e), entry_name = str_part (se_name e),
      entry_version = str_part (se_version e), schema_id = str_part (se_schema_id e),
      schema_body = se_body e, schema_body_sha256 = str_part (se_sha256 e),
      entry_registered_at = se_registered_at e, entry_registered_by = str_part (se_registered_by e),
      supersedes = (case se_supersedes e of PStr s \<Rightarrow> Some s | _ \<Rightarrow> None)\<rparr>"

definition sign_input ::
    "('s, 't) cli_env \<Rightarrow> namespace \<Rightarrow> registry_entry \<Rightarrow> signed_registry_entry option res" where
  "sign_input C ns e =
     (if as_switch (ns ''sign'') then
        sbind (load_ed25519_priv_key C (as_opt_text (ns ''ed25519_priv_key_hex''))
                 (as_opt_text (ns ''ed25519_priv_key_file''))) (\<lambda>priv.
        sbind (sign_entry (ce_py C) (ce_sign C) e priv (as_text (ns ''kid''))) (\<lambda>s. Inr (Some s)))
      else Inr None)"

definition gate_registry :: "('s, 't) cli_env \<Rightarrow> namespace \<Rightarrow> ('s \<times> 't, registry \<times> policy_source) io" where
  "gate_registry C ns =
     (if as_switch (ns ''capability_bucket'') then
        io_bind (in_policies (load_registry_from_bucket C (as_text (ns ''capability_bucket_connect_url''))))
          (\<lambda>reg. io_ret (reg, FromBucket))
      else io_res (sbind (load_capability_registry C (as_text (ns ''capability_registry'')))
          (\<lambda>reg. Inr (reg, FromFile))))"

definition run_gate ::
    "('s, 't) cli_env \<Rightarrow> namespace \<Rightarrow> signed_registry_entry option \<Rightarrow>
       ('s \<times> 't, (gate_decision \<times> policy_source) option) io" where
  "run_gate C ns signed =
     (if as_switch (ns ''gate'') then
        (case signed of
           None \<Rightarrow> io_raise (ClassErr ''AssertionError'')
         | Some s \<Rightarrow>
             io_bind (gate_registry C ns) (\<lambda>(reg, src).
             io_res (sbind (parse_optional_rfc3339 (ce_py C) (opt_str (as_opt_text (ns ''gate_as_of'')))) (\<lambda>as_of.
                     sbind (gate_signed_entry \<lparr>signed_part = gate_view (sg_entry s),
                              signed_signature = sg_signature s\<rparr> reg as_of) (\<lambda>d.
                     Inr (Some (d, src)))))))
      else io_ret None)"

record prepared =
  pp_entry :: registry_entry
  pp_signed :: "signed_registry_entry option"
  pp_gate :: "(gate_decision \<times> policy_source) option"

definition entry_input :: "('s, 't) cli_env \<Rightarrow> namespace \<Rightarrow> registry_entry res" where
  "entry_input C ns =
     sbind (flags_consistent ns) (\<lambda>_.
     sbind (load_schema_body C (as_text (ns ''schema_body''))) (\<lambda>body.
     sbind (parse_registered_at C (as_opt_text (ns ''registered_at''))) (\<lambda>at.
     build_entry C body (as_text (ns ''layer'')) (as_text (ns ''name'')) (as_text (ns ''version''))
       (as_text (ns ''registered_by'')) at (as_opt_text (ns ''supersedes'')))))"

text \<open>The dry run derives the key of the entry first, as the write of a publish does.\<close>

definition prepare :: "bool \<Rightarrow> ('s, 't) cli_env \<Rightarrow> namespace \<Rightarrow> ('s \<times> 't, prepared) io" where
  "prepare check_key C ns =
     io_bind (io_res (entry_input C ns)) (\<lambda>e.
     io_bind (io_res (if check_key then entry_key e else Inr [])) (\<lambda>_.
     io_bind (io_res (sign_input C ns e)) (\<lambda>signed.
     io_bind (run_gate C ns signed) (\<lambda>gate.
     io_ret \<lparr>pp_entry = e, pp_signed = signed, pp_gate = gate\<rparr>))))"

definition denied :: "prepared \<Rightarrow> bool" where
  "denied p \<longleftrightarrow> (case pp_gate p of None \<Rightarrow> False | Some (d, src) \<Rightarrow> \<not> allowed d)"

section \<open>Publishing\<close>

definition resolve_mode :: "namespace \<Rightarrow> publish_mode \<times> int option" where
  "resolve_mode ns =
     (if as_switch (ns ''create_only'') then (MODE_CREATE_ONLY, Some 0)
      else case as_opt_int (ns ''expected_revision'') of
        Some n \<Rightarrow> (MODE_CAS, Some n)
      | None \<Rightarrow> (MODE_LWW, None))"

definition publish_receipt_of ::
    "publish_mode \<Rightarrow> prepared \<Rightarrow> int option \<Rightarrow> int option \<Rightarrow> publish_receipt res" where
  "publish_receipt_of mode p written expected =
     (let e = pp_entry p in
      sbind (entry_key e) (\<lambda>key.
      Inr \<lparr>pr_mode = mode, pr_key = key, pr_layer = se_layer e, pr_name = se_name e,
        pr_version = se_version e, pr_schema_id = se_schema_id e, pr_sha256 = se_sha256 e,
        pr_revision = written, pr_expected_revision = expected, pr_registered_by = se_registered_by e,
        pr_registered_at = isoformat_utc (wall (se_registered_at e)), pr_supersedes = se_supersedes e,
        pr_signed = (pp_signed p \<noteq> None),
        pr_kid = (case pp_signed p of None \<Rightarrow> None | Some s \<Rightarrow> map_of (sg_signature s) (u ''kid'')),
        pr_decision = map_option fst (pp_gate p), pr_source = map_option snd (pp_gate p)\<rparr>))"

definition publish_write :: "('s, 't) cli_env \<Rightarrow> int option \<Rightarrow> registry_entry \<Rightarrow> ('s \<times> 't, int) io" where
  "publish_write C expected e =
     in_schemas (case expected of
         None \<Rightarrow> schema_put (ce_schema C) (ce_schemas C) e
       | Some n \<Rightarrow> schema_put_with_revision (ce_schema C) (ce_schemas C) e n)"

definition run_publish :: "('s, 't) cli_env \<Rightarrow> namespace \<Rightarrow> ('s \<times> 't, exit_code + publish_receipt) io" where
  "run_publish C ns =
     then_do (exit_on prep_exit (prepare False C ns)) (\<lambda>p.
     if denied p then leave CAPABILITY_DENY
     else
       io_bind (io_res (ce_connect C (as_text (ns ''connect_url'')))) (\<lambda>_.
       then_do (exit_on write_exit (publish_write C (snd (resolve_mode ns)) (pp_entry p))) (\<lambda>n.
       io_res (sbind (publish_receipt_of (fst (resolve_mode ns)) p (Some n) (snd (resolve_mode ns)))
         (\<lambda>r. Inr (Inr r))))))"

definition run_dry_run :: "('s, 't) cli_env \<Rightarrow> namespace \<Rightarrow> ('s \<times> 't, exit_code + publish_receipt) io" where
  "run_dry_run C ns =
     then_do (exit_on prep_exit (prepare True C ns)) (\<lambda>p.
     if denied p then leave CAPABILITY_DENY
     else io_res (sbind (publish_receipt_of MODE_DRY_RUN p None None) (\<lambda>r. Inr (Inr r))))"

section \<open>Revoking\<close>

text \<open>
  The texts of the command: the instant of the revocation, the publisher, the identity pair and the
  new registration date. The last is parsed outside any handler.
\<close>

definition exit_res :: "(exc \<Rightarrow> exit_code option) \<Rightarrow> 'a res \<Rightarrow> (exit_code + 'a) res" where
  "exit_res h r = (case r of
       Inl e \<Rightarrow> (case h e of Some c \<Rightarrow> Inr (Inl c) | None \<Rightarrow> Inl e)
     | Inr a \<Rightarrow> Inr (Inr a))"

definition rewrite_inputs :: "('s, 't) cli_env \<Rightarrow> namespace \<Rightarrow> ('w, exit_code + ustr \<times> dt) io" where
  "rewrite_inputs C ns =
     (if py_strip (as_text (ns ''registered_by_publisher'')) = [] then leave INPUT_ERROR
      else
        then_do (io_res (exit_res value_exit
            (key_for_policy_pair (as_text (ns ''registered_by'')) (as_text (ns ''policy_id''))))) (\<lambda>key.
        io_bind (io_res (parse_registered_at C (as_opt_text (ns ''registered_at'')))) (\<lambda>at.
        io_ret (Inr (key, at)))))"

definition read_target ::
    "('s, 't) cli_env \<Rightarrow> namespace \<Rightarrow> ('s \<times> 't, exit_code + policy_record \<times> int) io" where
  "read_target C ns =
     then_do (exit_on read_exit (in_policies (get_with_revision_by_pair (ce_py C) (ce_policies C)
         (as_text (ns ''registered_by'')) (as_text (ns ''policy_id''))))) (\<lambda>found.
     case found of None \<Rightarrow> leave REVOKE_TARGET_NOT_FOUND | Some x \<Rightarrow> io_ret (Inr x))"

text \<open>\<open>dataclasses.replace\<close> of the two revocation fields, which runs the constructor again.\<close>

definition replace_revocation :: "capability_policy \<Rightarrow> dt option \<Rightarrow> ustr option \<Rightarrow> capability_policy res" where
  "replace_revocation p rv reason =
     mk_policy (PStr (registered_by p)) (map PStr (allowed_kids p)) (allowed_triples p) (not_before p)
       (not_after p) (disabled p) (policy_note p) rv reason"

definition rewritten ::
    "policy_record \<Rightarrow> dt option \<Rightarrow> ustr option \<Rightarrow> dt \<Rightarrow> ustr \<Rightarrow> unrevoke_marker option \<Rightarrow> policy_record res" where
  "rewritten old rv reason at publisher marker =
     sbind (replace_revocation (rec_policy old) rv reason) (\<lambda>p.
     mk_record p (PStr (policy_id old)) at (PStr publisher) marker)"

text \<open>
  The write: \<open>--lww\<close> overwrites, otherwise the revision read is the one written at, after it has been
  compared with the one the operator names.
\<close>

definition revoke_write ::
    "('s, 't) cli_env \<Rightarrow> namespace \<Rightarrow> int \<Rightarrow> policy_record \<Rightarrow>
       ('s \<times> 't, exit_code + publish_mode \<times> int option \<times> int) io" where
  "revoke_write C ns live_revision new =
     (if as_switch (ns ''lww'') then
        then_do (exit_on revoke_exit (in_policies (policy_put (ce_py C) (ce_policies C) new)))
          (\<lambda>n. io_ret (Inr (MODE_LWW, None, n)))
      else if as_opt_int (ns ''expected_revision'') \<notin> {None, Some live_revision} then leave CAS_CONFLICT
      else
        then_do (exit_on revoke_exit
            (in_policies (put_with_revision (ce_py C) (ce_policies C) new live_revision)))
          (\<lambda>n. io_ret (Inr (MODE_CAS, Some live_revision, n))))"

definition run_revoke :: "('s, 't) cli_env \<Rightarrow> namespace \<Rightarrow> ('s \<times> 't, exit_code + revoke_receipt) io" where
  "run_revoke C ns =
     then_do (io_res (exit_res value_exit (parse_registered_at C (as_opt_text (ns ''revoked_at''))))) (\<lambda>revoked.
     then_do (rewrite_inputs C ns) (\<lambda>(key, at).
     io_bind (io_res (ce_connect_policies C (as_text (ns ''connect_url'')))) (\<lambda>_.
     then_do (read_target C ns) (\<lambda>(old, live_revision).
     let reason = as_opt_text (ns ''revocation_reason'');
         publisher = as_text (ns ''registered_by_publisher'') in
     then_do (io_res (exit_res rewrite_exit (rewritten old (Some revoked) reason at publisher None))) (\<lambda>new.
     then_do (revoke_write C ns live_revision new) (\<lambda>(mode, expected, n).
     io_ret (Inr \<lparr>rr_mode = mode, rr_key = key, rr_registered_by = as_text (ns ''registered_by''),
       rr_policy_id = as_text (ns ''policy_id''), rr_revoked_at = iso_z revoked, rr_reason = reason,
       rr_expected_revision = expected, rr_previous_revision = live_revision, rr_new_revision = n,
       rr_registered_at = iso_z at, rr_publisher = publisher\<rparr>)))))))"

definition run_unrevoke :: "('s, 't) cli_env \<Rightarrow> namespace \<Rightarrow> ('s \<times> 't, exit_code + unrevoke_receipt) io" where
  "run_unrevoke C ns =
     then_do (rewrite_inputs C ns) (\<lambda>(key, at).
     io_bind (io_res (ce_connect_policies C (as_text (ns ''connect_url'')))) (\<lambda>_.
     then_do (read_target C ns) (\<lambda>(old, live_revision).
     case revoked_at (rec_policy old) of
       None \<Rightarrow> leave UNREVOKE_TARGET_NOT_REVOKED
     | Some previous \<Rightarrow>
         let previous_reason = revocation_reason (rec_policy old);
             reason = as_opt_text (ns ''unrevoke_reason'');
             publisher = as_text (ns ''registered_by_publisher'') in
         then_do (io_res (exit_res (\<lambda>e. if e = PolicyValidationErr then Some VALIDATION_ERROR else None)
             (mk_marker reason previous previous_reason))) (\<lambda>marker.
         then_do (io_res (exit_res rewrite_exit
             (rewritten old None None at publisher (Some marker)))) (\<lambda>new.
         then_do (exit_on unrevoke_exit (in_policies (policy_put (ce_py C) (ce_policies C) new))) (\<lambda>n.
         io_ret (Inr \<lparr>ur_key = key, ur_registered_by = as_text (ns ''registered_by''),
           ur_policy_id = as_text (ns ''policy_id''), ur_previous_revoked_at = iso_z previous,
           ur_previous_reason = previous_reason, ur_previous_revision = live_revision,
           ur_new_revision = n, ur_registered_at = iso_z at, ur_publisher = publisher,
           ur_reason = reason\<rparr>)))))))"

section \<open>The entry point\<close>

datatype receipt = Published publish_receipt | Revoked revoke_receipt | Unrevoked unrevoke_receipt

definition with_receipt :: "('a \<Rightarrow> receipt) \<Rightarrow> ('s, exit_code + 'a) io \<Rightarrow> ('s, exit_code + receipt) io" where
  "with_receipt f m = then_do m (\<lambda>a. io_ret (Inr (f a)))"

fun run_command :: "('s, 't) cli_env \<Rightarrow> subcommand \<Rightarrow> namespace \<Rightarrow> ('s \<times> 't, exit_code + receipt) io" where
  "run_command C DryRun ns = with_receipt Published (run_dry_run C ns)"
| "run_command C Revoke ns = with_receipt Revoked (run_revoke C ns)"
| "run_command C Unrevoke ns = with_receipt Unrevoked (run_unrevoke C ns)"
| "run_command C Publish ns = with_receipt Published (run_publish C ns)"

fun exit_status :: "exit_code + receipt \<Rightarrow> nat" where
  "exit_status (Inl c) = exit_value c"
| "exit_status (Inr r) = exit_value EXIT_OK"

section \<open>How a command ends\<close>

lemma then_do_ok [res_elims]:
  "then_do m f s = (Inr (Inr b), s'') \<longleftrightarrow> (\<exists>a s'. m s = (Inr (Inr a), s') \<and> f a s' = (Inr (Inr b), s''))"
  by (auto simp: then_do_def io_bind_def split: prod.splits sum.splits)

lemma exit_on_ok [res_elims]: "exit_on h m s = (Inr (Inr a), s') \<longleftrightarrow> m s = (Inr a, s')"
  by (auto simp: exit_on_def split: prod.splits sum.splits option.splits)

lemma exit_res_ok [res_elims]: "exit_res h r = Inr (Inr a) \<longleftrightarrow> r = Inr a"
  by (auto simp: exit_res_def split: sum.splits option.splits)

lemma in_policies_eq [res_elims]:
  "in_policies m st = (x, st') \<longleftrightarrow> (\<exists>t'. m (snd st) = (x, t') \<and> st' = (fst st, t'))"
  by (auto simp: in_policies_def split: prod.splits)

lemma in_schemas_eq [res_elims]:
  "in_schemas m st = (x, st') \<longleftrightarrow> (\<exists>s'. m (fst st) = (x, s') \<and> st' = (s', snd st))"
  by (auto simp: in_schemas_def split: prod.splits)

lemma leave_ok [res_elims, simp]: "leave c s = (Inr (Inr a), s') \<longleftrightarrow> False"
  by (simp add: leave_def)

text \<open>
  A step that leaves the buckets alone, and one that leaves them alone whenever it does not reach
  its result: no exit code and no exception comes after a change.
\<close>

definition untouched :: "('s, 'a) io \<Rightarrow> 's \<Rightarrow> bool" where
  "untouched m s \<longleftrightarrow> snd (m s) = s"

definition clean_exit :: "('s, exit_code + 'a) io \<Rightarrow> 's \<Rightarrow> bool" where
  "clean_exit m s \<longleftrightarrow> (case fst (m s) of Inr (Inr a) \<Rightarrow> True | _ \<Rightarrow> snd (m s) = s)"

named_theorems clean \<open>steps that change a bucket only when they succeed\<close>

lemma untouched_res [clean]: "untouched (io_res r) s"
  by (simp add: untouched_def)

lemma untouched_leave [clean]: "untouched (leave c) s"
  by (simp add: untouched_def leave_def)

lemma untouched_clean [clean]: "untouched m s \<Longrightarrow> clean_exit m s"
  by (auto simp: untouched_def clean_exit_def split: sum.splits)

lemma clean_leave [clean]: "clean_exit (leave c) s"
  by (rule untouched_clean [OF untouched_leave])

lemma untouched_exit_on [clean]: "untouched m s \<Longrightarrow> untouched (exit_on h m) s"
  by (cases "m s"; cases "fst (m s)") (auto simp: untouched_def exit_on_def)

lemma untouched_bind [clean]:
  "untouched m s \<Longrightarrow> (\<And>a. m s = (Inr a, s) \<Longrightarrow> untouched (f a) s) \<Longrightarrow> untouched (io_bind m f) s"
  by (cases "m s"; cases "fst (m s)") (auto simp: untouched_def io_bind_def)

lemma untouched_then [clean]:
  "untouched m s \<Longrightarrow> (\<And>a. m s = (Inr (Inr a), s) \<Longrightarrow> untouched (f a) s) \<Longrightarrow> untouched (then_do m f) s"
  unfolding then_do_def by (rule untouched_bind) (auto simp: untouched_res split: sum.split)

lemma clean_bind [clean]:
  assumes "untouched m s" "\<And>a. m s = (Inr a, s) \<Longrightarrow> clean_exit (f a) s"
  shows "clean_exit (io_bind m f) s"
proof (cases "fst (m s)")
  case (Inl e)
  with assms(1) have "m s = (Inl e, s)" by (simp add: untouched_def prod_eq_iff)
  then show ?thesis by (simp add: clean_exit_def io_bind_def)
next
  case (Inr a)
  with assms(1) have m: "m s = (Inr a, s)" by (simp add: untouched_def prod_eq_iff)
  then have eq: "io_bind m f s = f a s" by (simp add: io_bind_def)
  show ?thesis using assms(2) [OF m] unfolding clean_exit_def eq .
qed

lemma clean_then [clean]:
  "untouched m s \<Longrightarrow> (\<And>a. m s = (Inr (Inr a), s) \<Longrightarrow> clean_exit (f a) s) \<Longrightarrow> clean_exit (then_do m f) s"
  unfolding then_do_def by (rule clean_bind) (auto simp: untouched_res untouched_clean split: sum.split)

lemma clean_last [clean]:
  assumes "clean_exit m s" "\<And>a s'. \<exists>b. f a s' = (Inr (Inr b), s')"
  shows "clean_exit (then_do m f) s"
proof -
  obtain x s' where m: "m s = (x, s')" by (cases "m s")
  consider (stop) "s' = s" "\<And>a. x \<noteq> Inr (Inr a)" | (go) a where "x = Inr (Inr a)"
    using assms(1) m by (cases x; cases "projr x") (auto simp: clean_exit_def)
  then show ?thesis
  proof cases
    case stop
    with m show ?thesis
      by (cases x; cases "projr x") (auto simp: clean_exit_def then_do_def io_bind_def)
  next
    case go
    obtain b where "f a s' = (Inr (Inr b), s')" using assms(2) by blast
    with m go show ?thesis by (simp add: clean_exit_def then_do_def io_bind_def)
  qed
qed

lemma clean_write [clean]:
  "(\<And>e s'. m s = (Inl e, s') \<Longrightarrow> s' = s) \<Longrightarrow> clean_exit (exit_on h m) s"
  by (cases "m s"; cases "fst (m s)") (auto simp: clean_exit_def exit_on_def split: option.splits sum.splits)

section \<open>Revocations\<close>

lemma rewritten_ok:
  assumes "rewritten old rv reason at publisher marker = Inr new"
  shows "rec_policy new = (rec_policy old)\<lparr>revoked_at := rv, revocation_reason := reason\<rparr>
    \<and> policy_id new = policy_id old \<and> registered_at new = at
    \<and> registered_by_publisher new = publisher \<and> unrevoke_audit_marker new = marker"
proof -
  from assms obtain p where p: "replace_revocation (rec_policy old) rv reason = Inr p"
    and r: "mk_record p (PStr (policy_id old)) at (PStr publisher) marker = Inr new"
    by (auto simp: rewritten_def)
  have "map PStr (allowed_kids (rec_policy old)) = map PStr (allowed_kids p) \<Longrightarrow>
      allowed_kids (rec_policy old) = allowed_kids p"
    by (auto simp: inj_map_eq_map inj_def)
  with p r show ?thesis
    by (cases "rec_policy old"; cases p) (auto simp: replace_revocation_def mk_policy_Inr mk_record_Inr)
qed


lemma rewritten_wf:
  assumes "rewritten old rv reason at publisher marker = Inr new" "\<And>m. marker = Some m \<Longrightarrow> aware (previous_revoked_at m)"
  shows "record_wf new"
  using assms
  by (auto simp: rewritten_def replace_revocation_def mk_policy_Inr mk_record_Inr record_wf_def split: option.splits)

lemma read_target_ok:
  assumes "kv_bucket (ce_policies C) view seq I" "I t" "read_target C ns (s, t) = (Inr (Inr (old, n)), st)"
  shows "st = (s, t) \<and> (\<exists>key b.
    key_for_policy_pair (as_text (ns ''registered_by'')) (as_text (ns ''policy_id'')) = Inr key
    \<and> view t key = Some (b, n) \<and> envelope_to_record (ce_py C) b = Inr old)"
proof -
  from assms(3) obtain t' where g: "get_with_revision_by_pair (ce_py C) (ce_policies C)
      (as_text (ns ''registered_by'')) (as_text (ns ''policy_id'')) t = (Inr (Some (old, n)), t')"
    and st: "st = (s, t')"
    by (auto simp: read_target_def leave_def res_elims split: option.splits)
  then obtain key where key:
    "key_for_policy_pair (as_text (ns ''registered_by'')) (as_text (ns ''policy_id'')) = Inr key"
    by (auto simp: get_with_revision_by_pair_def split: sum.splits if_splits)
  then have "key \<noteq> []" by (auto simp: key_for_policy_pair_def key_prefix_def)
  from kv_bucket.get_with_revision_live [OF assms(1,2) this, of "ce_py C"] g st key show ?thesis
    by (auto simp: get_with_revision_by_pair_def live_record_def live_rev_def split: option.splits)
qed

lemma put_stores:
  assumes "kv_bucket kv view seq I" "I t" "record_wf r" "policy_put E kv r t = (Inr n, t')"
  shows "\<exists>k b. record_key r = Inr k \<and> I t' \<and> seq t < n \<and> seq t' = n \<and> view t' = (view t)(k \<mapsto> (b, n))
    \<and> envelope_to_record E b = Inr (record_utc r)"
  using kv_bucket.put_result [OF assms(1,2,4)] envelope_reads [OF assms(3)] by blast

lemma pinned_stores:
  assumes "kv_bucket kv view seq I" "I t" "record_wf r" "put_with_revision E kv r m t = (Inr n, t')"
  shows "\<exists>k b. record_key r = Inr k \<and> I t' \<and> seq t < n \<and> seq t' = n \<and> view t' = (view t)(k \<mapsto> (b, n))
    \<and> envelope_to_record E b = Inr (record_utc r) \<and> live_rev (view t k) = m
    \<and> (\<exists>x. live_record E (view t k) = Inr x \<and> revocation_gate k x r = Inr ())"
proof -
  from assms(4) obtain k t1 where c: "put_check E kv r m t = (Inr k, t1)"
    and w: "put_commit E kv r m k t1 = (Inr n, t')"
    by (auto simp: put_with_revision_def io_bind_Inr)
  from kv_bucket.put_check_result [OF assms(1,2) c] have t1: "t1 = t" and k: "record_key r = Inr k"
    "\<exists>x. live_record E (view t k) = Inr x \<and> revocation_gate k x r = Inr ()" by blast+
  from kv_bucket.put_commit_result [OF assms(1,2) w [unfolded t1]] envelope_reads [OF assms(3)] k
  show ?thesis by blast
qed

lemma revoke_write_ok:
  assumes "kv_bucket (ce_policies C) view seq I" "I t" "record_wf new"
    and "revoke_write C ns live_revision new (s, t) = (Inr (Inr (mode, expected, n)), st)"
  shows "\<exists>k b t'. st = (s, t') \<and> record_key new = Inr k \<and> I t' \<and> seq t < n \<and> seq t' = n
    \<and> view t' = (view t)(k \<mapsto> (b, n)) \<and> envelope_to_record (ce_py C) b = Inr (record_utc new)
    \<and> (mode = MODE_CAS \<longrightarrow> live_rev (view t k) = live_revision
        \<and> (\<exists>x. live_record (ce_py C) (view t k) = Inr x \<and> revocation_gate k x new = Inr ()))
    \<and> (mode = MODE_LWW \<longleftrightarrow> as_switch (ns ''lww'')) \<and> (mode \<noteq> MODE_LWW \<longrightarrow> mode = MODE_CAS)"
proof (cases "as_switch (ns ''lww'')")
  case True
  with assms(4) obtain t' where "policy_put (ce_py C) (ce_policies C) new t = (Inr n, t')" "st = (s, t')"
    "mode = MODE_LWW" by (auto simp: revoke_write_def res_elims)
  with put_stores [OF assms(1-3) this(1)] True show ?thesis by auto
next
  case False
  with assms(4) obtain t' where
    "put_with_revision (ce_py C) (ce_policies C) new live_revision t = (Inr n, t')" "st = (s, t')"
    "mode = MODE_CAS" by (auto simp: revoke_write_def res_elims split: if_splits)
  with pinned_stores [OF assms(1-3) this(1)] False show ?thesis by auto
qed



lemma untouched_read_target [clean]:
  assumes "kv_bucket (ce_policies C) view seq I" "I (snd st)"
  shows "untouched (read_target C ns) st"
proof -
  have "snd (get_with_revision_by_pair (ce_py C) (ce_policies C) rb pid (snd st)) = snd st" for rb pid
  proof (cases "key_for_policy_pair rb pid")
    case (Inr key)
    then have "key \<noteq> []" by (auto simp: key_for_policy_pair_def key_prefix_def)
    from kv_bucket.get_with_revision_live [OF assms this, of "ce_py C"] Inr show ?thesis
      by (simp add: get_with_revision_by_pair_def)
  qed (simp add: get_with_revision_by_pair_def)
  then have "untouched (in_policies (get_with_revision_by_pair (ce_py C) (ce_policies C) rb pid)) st" for rb pid
    by (simp add: untouched_def in_policies_def split_beta)
  then show ?thesis
    unfolding read_target_def
    by (intro untouched_then untouched_exit_on) (auto split: option.split intro: clean)
qed

lemma untouched_rewrite_inputs [clean]: "untouched (rewrite_inputs C ns) st"
  by (auto simp: rewrite_inputs_def intro!: clean)

lemma clean_in_policies:
  assumes "\<And>e t'. m (snd st) = (Inl e, t') \<Longrightarrow> t' = snd st"
  shows "clean_exit (exit_on h (in_policies m)) st"
proof (rule clean_write)
  fix e st'
  assume "in_policies m st = (Inl e, st')"
  then obtain t' where "m (snd st) = (Inl e, t')" "st' = (fst st, t')"
    by (auto simp: in_policies_eq)
  with assms show "st' = st" by auto
qed

lemma clean_in_schemas:
  assumes "\<And>e s'. m (fst st) = (Inl e, s') \<Longrightarrow> s' = fst st"
  shows "clean_exit (exit_on h (in_schemas m)) st"
proof (rule clean_write)
  fix e st'
  assume "in_schemas m st = (Inl e, st')"
  then obtain s' where "m (fst st) = (Inl e, s')" "st' = (s', snd st)"
    by (auto simp: in_schemas_eq)
  with assms show "st' = st" by auto
qed

lemma clean_policies_put [clean]:
  assumes "kv_bucket (ce_policies C) view seq I" "I (snd st)"
  shows "clean_exit (exit_on h (in_policies (policy_put E (ce_policies C) r))) st"
  using kv_bucket.put_error [OF assms] by (intro clean_in_policies) blast

lemma clean_put_last [clean]:
  assumes "kv_bucket (ce_policies C) view seq I" "I (snd st)"
  shows "clean_exit (then_do (exit_on h (in_policies (policy_put E (ce_policies C) r)))
    (\<lambda>n. io_ret (Inr (f n)))) st"
  by (intro clean_last clean_policies_put [OF assms]) simp



lemma clean_unrevoke:
  assumes "kv_bucket (ce_policies C) view seq I" "I (snd st)"
  shows "clean_exit (run_unrevoke C ns) st"
  unfolding run_unrevoke_def Let_def
  by (intro clean_then clean_bind untouched_res untouched_rewrite_inputs
      untouched_read_target [OF assms] | clarsimp split: option.split)+
    (auto intro!: clean_then clean_put_last [OF assms] untouched_res clean_leave)

lemma utc_of_utc: "utcoff d = Some 0 \<Longrightarrow> utc_of d = d"
  by (cases d) (simp add: utc_of_def instant_def)

lemma rewritten_utc:
  assumes "rewritten old rv reason at publisher marker = Inr new" "record_utc old = old"
    and "\<And>d. rv = Some d \<Longrightarrow> utcoff d = Some 0" "utcoff at = Some 0"
    and "\<And>m. marker = Some m \<Longrightarrow> utcoff (previous_revoked_at m) = Some 0"
  shows "record_utc new = new"
proof -
  from assms(2) have "policy_utc (rec_policy old) = rec_policy old"
    by (cases old) (simp add: record_utc_def)
  then have "map_option utc_of (not_before (rec_policy old)) = not_before (rec_policy old)"
    "map_option utc_of (not_after (rec_policy old)) = not_after (rec_policy old)"
    by (cases "rec_policy old"; simp add: policy_utc_def)+
  moreover have "map_option utc_of rv = rv" using assms(3) by (cases rv) (auto simp: utc_of_utc)
  moreover have "map_option marker_utc marker = marker"
    using assms(5) by (cases marker) (auto simp: marker_utc_def utc_of_utc)
  ultimately show ?thesis
    using rewritten_ok [OF assms(1)] assms(4)
    by (cases new; cases "rec_policy old") (auto simp: record_utc_def policy_utc_def utc_of_utc)
qed

lemma rewritten_key:
  "rewritten old rv reason at publisher marker = Inr new \<Longrightarrow> record_key new = record_key old"
  using rewritten_ok [of old rv reason at publisher marker new] by (simp add: record_key_def)

abbreviation target_key :: "namespace \<Rightarrow> ustr res" where
  "target_key ns \<equiv> key_for_policy_pair (as_text (ns ''registered_by'')) (as_text (ns ''policy_id''))"

lemma rewrite_inputs_ok:
  assumes "rewrite_inputs C ns w = (Inr (Inr (key, at)), w')"
  shows "w' = w \<and> target_key ns = Inr key \<and> utcoff at = Some 0
    \<and> parse_registered_at C (as_opt_text (ns ''registered_at'')) = Inr at"
  using assms
  by (auto simp: rewrite_inputs_def res_elims io_bind_Inr simp del: io_res_bind split: if_splits
      dest: parse_registered_at_utc)

lemma revoke_steps:
  assumes "run_revoke C ns (s, t) = (Inr (Inr r), st)" "kv_bucket (ce_policies C) view seq I" "I t"
  obtains d key at old b new mode expected n where
    "parse_registered_at C (as_opt_text (ns ''revoked_at'')) = Inr d" "utcoff d = Some 0"
    "target_key ns = Inr key" "utcoff at = Some 0"
    "parse_registered_at C (as_opt_text (ns ''registered_at'')) = Inr at"
    "view t key = Some (b, rr_previous_revision r)" "envelope_to_record (ce_py C) b = Inr old"
    "read_target C ns (s, t) = (Inr (Inr (old, rr_previous_revision r)), (s, t))"
    "rewritten old (Some d) (as_opt_text (ns ''revocation_reason'')) at
       (as_text (ns ''registered_by_publisher'')) None = Inr new"
    "revoke_write C ns (rr_previous_revision r) new (s, t) = (Inr (Inr (mode, expected, n)), st)"
    "rr_mode r = mode" "rr_key r = key" "rr_new_revision r = n"
    "rr_reason r = as_opt_text (ns ''revocation_reason'')" "rr_revoked_at r = iso_z d"
    "rr_expected_revision r = expected" "rr_registered_at r = iso_z at"
    "rr_registered_by r = as_text (ns ''registered_by'')" "rr_policy_id r = as_text (ns ''policy_id'')"
    "rr_publisher r = as_text (ns ''registered_by_publisher'')"
proof -
  from assms(1) obtain d key at old m new mode expected n st1 st2 where
    d: "parse_registered_at C (as_opt_text (ns ''revoked_at'')) = Inr d"
    and i: "rewrite_inputs C ns (s, t) = (Inr (Inr (key, at)), st1)"
    and t: "read_target C ns st1 = (Inr (Inr (old, m)), st2)"
    and n: "rewritten old (Some d) (as_opt_text (ns ''revocation_reason'')) at
       (as_text (ns ''registered_by_publisher'')) None = Inr new"
    and w: "revoke_write C ns m new st2 = (Inr (Inr (mode, expected, n)), st)"
    and r: "r = \<lparr>rr_mode = mode, rr_key = key, rr_registered_by = as_text (ns ''registered_by''),
       rr_policy_id = as_text (ns ''policy_id''), rr_revoked_at = iso_z d,
       rr_reason = as_opt_text (ns ''revocation_reason''),
       rr_expected_revision = expected, rr_previous_revision = m, rr_new_revision = n,
       rr_registered_at = iso_z at, rr_publisher = as_text (ns ''registered_by_publisher'')\<rparr>"
    by (auto simp: run_revoke_def Let_def res_elims io_bind_Inr simp del: io_res_bind)
  from rewrite_inputs_ok [OF i] have st1: "st1 = (s, t)" by simp
  from read_target_ok [OF assms(2,3) t [unfolded st1]] obtain key' b where
    "st2 = (s, t)" "target_key ns = Inr key'" "view t key' = Some (b, m)"
    "envelope_to_record (ce_py C) b = Inr old" by blast
  with that [OF d parse_registered_at_utc [OF d]] rewrite_inputs_ok [OF i] t n w r st1 show ?thesis by auto
qed



text \<open>
  no other writer is overwritten. A revocation reads its target, then checks and commits the
  pinned write, and other writers run in between twice: if the write commits, the record it replaces
  is still the one that was read, a policy revoked meanwhile included.
\<close>

lemma revoke_interleaved:
  assumes "kv_bucket (ce_policies C) view seq I" "I t1"
    and "read_target C ns (s, t1) = (Inr (Inr (old, n)), st)" "record_key old = target_key ns"
    and "rewritten old (Some d) reason at publisher None = Inr new"
    and "kv_run (ce_policies C) t1 t2" "put_check (ce_py C) (ce_policies C) new n t2 = (Inr k, t2')"
    and "kv_run (ce_policies C) t2' t3" "put_commit (ce_py C) (ce_policies C) new n k t3 = (Inr m, t4)"
  shows "target_key ns = Inr k \<and> view t3 k = view t1 k \<and> n < m
    \<and> (\<exists>b. view t4 = (view t3)(k \<mapsto> (b, m)) \<and> envelope_to_record (ce_py C) b = Inr (record_utc new))
    \<and> (\<forall>d'. revoked_at (rec_policy old) = Some d' \<longrightarrow> dt_eq d d')"
proof -
  note laws = kv_bucket.run_stable [OF assms(1)] kv_bucket.run_same_revision [OF assms(1)]
  from read_target_ok [OF assms(1-3)] obtain key b where key: "target_key ns = Inr key"
    and b: "view t1 key = Some (b, n)" "envelope_to_record (ce_py C) b = Inr old" by blast
  from kv_bucket.view_seq [OF assms(1,2) b(1)] have n: "0 < n" "n \<le> seq t1" by auto
  from laws(1) [OF assms(6,2)] have t2: "I t2" "seq t1 \<le> seq t2" by auto
  from kv_bucket.put_check_result [OF assms(1) t2(1) assms(7)] obtain x where [simp]: "t2' = t2"
    and k: "record_key new = Inr k" and x: "live_record (ce_py C) (view t2 k) = Inr x"
      "revocation_gate k x new = Inr ()" by blast
  have [simp]: "k = key" using k key assms(4) rewritten_key [OF assms(5)] by simp
  from laws(1) [OF assms(8)] t2 have t3: "I t3" "seq t2 \<le> seq t3" by auto
  from kv_bucket.put_commit_result [OF assms(1) t3(1) assms(9)] obtain b' where
    w: "record_to_envelope (ce_py C) new = Inr b'" "live_rev (view t3 key) = n" "seq t3 < m"
      "view t4 = (view t3)(key \<mapsto> (b', m))" by auto
  from w(2) n(1) obtain c where c: "view t3 key = Some (c, n)"
    by (auto simp: live_rev_def split: option.splits)
  from laws(2) [OF assms(8) _ _ c] t2 n have c2: "view t2 key = Some (c, n)" by simp
  from laws(2) [OF assms(6,2) n(2) c2] b(1) have [simp]: "c = b" by simp
  have "\<forall>d'. revoked_at (rec_policy old) = Some d' \<longrightarrow> dt_eq d d'"
    using x c2 b rewritten_ok [OF assms(5)] by (auto simp: live_record_def revocation_gate_def)
  moreover have "envelope_to_record (ce_py C) b' = Inr (record_utc new)"
    using envelope_reads [OF rewritten_wf [OF assms(5)] w(1)] by simp
  ultimately show ?thesis using key b c w n t2 t3 by auto
qed

lemma unrevoke_steps:
  assumes "run_unrevoke C ns (s, t) = (Inr (Inr r), (s', t'))" "kv_bucket (ce_policies C) view seq I" "I t"
  obtains key old b d new k b' where
    "target_key ns = Inr key" "view t key = Some (b, ur_previous_revision r)"
    "envelope_to_record (ce_py C) b = Inr old" "revoked_at (rec_policy old) = Some d"
    "rec_policy new = (rec_policy old)\<lparr>revoked_at := None, revocation_reason := None\<rparr>"
    "policy_id new = policy_id old" "unrevoke_audit_marker new = Some \<lparr>unrevoke_reason = ur_reason r,
       previous_revoked_at = d, previous_revocation_reason = revocation_reason (rec_policy old)\<rparr>"
    "record_key old = Inr k" "s' = s" "I t'" "view t' = (view t)(k \<mapsto> (b', ur_new_revision r))"
    "envelope_to_record (ce_py C) b' = Inr new" "ur_previous_revoked_at r = iso_z d"
    "ur_key r = key" "ur_previous_revision r < ur_new_revision r"
proof -
  from assms(1) obtain key at old m d mk new n st1 st2 where
    i: "rewrite_inputs C ns (s, t) = (Inr (Inr (key, at)), st1)"
    and t: "read_target C ns st1 = (Inr (Inr (old, m)), st2)"
    and d: "revoked_at (rec_policy old) = Some d"
    and mk: "mk_marker (as_opt_text (ns ''unrevoke_reason'')) d (revocation_reason (rec_policy old)) = Inr mk"
    and new: "rewritten old None None at (as_text (ns ''registered_by_publisher'')) (Some mk) = Inr new"
    and w: "in_policies (policy_put (ce_py C) (ce_policies C) new) st2 = (Inr n, (s', t'))"
    and r: "ur_key r = key" "ur_previous_revoked_at r = iso_z d" "ur_previous_revision r = m"
      "ur_new_revision r = n" "ur_reason r = as_opt_text (ns ''unrevoke_reason'')"
    by (auto simp: run_unrevoke_def Let_def res_elims io_bind_Inr simp del: io_res_bind
        split: option.splits)
  from rewrite_inputs_ok [OF i] have st1: "st1 = (s, t)" and at: "utcoff at = Some 0" by auto
  from read_target_ok [OF assms(2,3) t [unfolded st1]] obtain key' b where st2: "st2 = (s, t)"
    and b: "target_key ns = Inr key'" "view t key' = Some (b, m)" "envelope_to_record (ce_py C) b = Inr old"
    by blast
  from decoded_wf [OF b(3)] have old: "record_utc old = old" by blast
  with d have "map_option utc_of (Some d) = Some d"
    by (cases old; cases "rec_policy old") (auto simp: record_utc_def policy_utc_def)
  then have "d = Dt (instant d) (Some 0)" by (simp add: utc_of_def)
  then have du: "utcoff d = Some 0" by (metis dt.sel(2))
  from mk have m: "mk = \<lparr>unrevoke_reason = as_opt_text (ns ''unrevoke_reason''), previous_revoked_at = d,
      previous_revocation_reason = revocation_reason (rec_policy old)\<rparr>" "aware d"
    by (auto simp: mk_marker_def)
  from w st2 have put: "policy_put (ce_py C) (ce_policies C) new t = (Inr n, t')" and s': "s' = s"
    by (auto simp: in_policies_eq)
  have "record_wf new" by (rule rewritten_wf [OF new]) (use m in simp)
  note stores = put_stores [OF assms(2,3) this put]
  have "record_utc new = new" by (rule rewritten_utc [OF new old _ at]) (use m du in simp_all)
  with stores obtain k b' where "record_key new = Inr k" "I t'" "seq t < n"
    "view t' = (view t)(k \<mapsto> (b', n))" "envelope_to_record (ce_py C) b' = Inr new" by auto
  with s' that [of key b old d new k b'] rewrite_inputs_ok [OF i] b d m r rewritten_ok [OF new] rewritten_key [OF new]
    kv_bucket.view_seq [OF assms(2,3) b(2)]
  show ?thesis by auto
qed

text \<open>
  the two commands are inverse. A policy that is revoked and whose revocation is then lifted has
  every field of its bundle back, and an audit marker that names the lifted revocation, so that the
  watch classifies the write as an explicit un-revoke; no other key has changed, and the second receipt
  refers to the first.
\<close>

lemma unrevoke_restores:
  assumes "kv_bucket (ce_policies C) view seq I" "I t"
    and "run_revoke C ns (s, t) = (Inr (Inr r), (s1, t1))"
    and "policy_get (ce_py C) (ce_policies C) (rr_key r) t = (Inr (Some old), t)" "record_key old = Inr (rr_key r)"
    and "run_unrevoke (C\<lparr>ce_now := later\<rparr>) ns' (s1, t1) = (Inr (Inr q), (s2, t2))" "target_key ns' = target_key ns"
  shows "\<exists>d final. parse_registered_at C (as_opt_text (ns ''revoked_at'')) = Inr d
    \<and> policy_get (ce_py C) (ce_policies C) (rr_key r) t2 = (Inr (Some final), t2)
    \<and> rec_policy final = (rec_policy old)\<lparr>revoked_at := None, revocation_reason := None\<rparr>
    \<and> policy_id final = policy_id old
    \<and> unrevoke_audit_marker final = Some \<lparr>unrevoke_reason = ur_reason q, previous_revoked_at = d,
        previous_revocation_reason = rr_reason r\<rparr>
    \<and> put_kind (Some d) final = EXPLICIT_UNREVOKE
    \<and> (\<forall>k. k \<noteq> rr_key r \<longrightarrow> view t2 k = view t k)
    \<and> ur_previous_revision q = rr_new_revision r \<and> ur_previous_revoked_at q = rr_revoked_at r"
  using assms(3)
proof (rule revoke_steps [OF _ assms(1,2)])
  fix d key at old' b new mode expected n
  assume d: "parse_registered_at C (as_opt_text (ns ''revoked_at'')) = Inr d" "utcoff d = Some 0"
    and k: "target_key ns = Inr key" "utcoff at = Some 0"
    and o: "view t key = Some (b, rr_previous_revision r)" "envelope_to_record (ce_py C) b = Inr old'"
    and new: "rewritten old' (Some d) (as_opt_text (ns ''revocation_reason'')) at
         (as_text (ns ''registered_by_publisher'')) None = Inr new"
    and w: "revoke_write C ns (rr_previous_revision r) new (s, t) = (Inr (Inr (mode, expected, n)), (s1, t1))"
    and rr: "rr_key r = key" "rr_new_revision r = n" "rr_reason r = as_opt_text (ns ''revocation_reason'')"
      "rr_revoked_at r = iso_z d"
  have ne: "key \<noteq> []" using k(1) by (auto simp: key_for_policy_pair_def key_prefix_def)
  from kv_bucket.policy_get_live [OF assms(1,2) ne] assms(4) rr(1) o have old: "old' = old"
    by (simp add: live_record_def)
  have utc: "record_utc new = new"
    using rewritten_utc [OF new _ _ k(2)] decoded_wf [OF o(2)] d(2) by simp
  from revoke_write_ok [OF assms(1,2) rewritten_wf [OF new] w] rewritten_key [OF new] assms(5) old utc rr
  obtain b' where t1: "I t1" "view t1 = (view t)(key \<mapsto> (b', n))" "envelope_to_record (ce_py C) b' = Inr new"
    by auto
  have "kv_bucket (ce_policies (C\<lparr>ce_now := later\<rparr>)) view seq I" using assms(1) by simp
  from assms(6) this t1(1) show ?thesis
  proof (rule unrevoke_steps)
    fix key' old2 b2 d2 new2 k2 b3
    assume f: "target_key ns' = Inr key'" "view t1 key' = Some (b2, ur_previous_revision q)"
      "envelope_to_record (ce_py (C\<lparr>ce_now := later\<rparr>)) b2 = Inr old2" "revoked_at (rec_policy old2) = Some d2"
      and p: "rec_policy new2 = (rec_policy old2)\<lparr>revoked_at := None, revocation_reason := None\<rparr>"
        "policy_id new2 = policy_id old2" "unrevoke_audit_marker new2 = Some \<lparr>unrevoke_reason = ur_reason q,
          previous_revoked_at = d2, previous_revocation_reason = revocation_reason (rec_policy old2)\<rparr>"
      and z: "record_key old2 = Inr k2" "I t2" "view t2 = (view t1)(k2 \<mapsto> (b3, ur_new_revision q))"
        "envelope_to_record (ce_py (C\<lparr>ce_now := later\<rparr>)) b3 = Inr new2" "ur_previous_revoked_at q = iso_z d2"
    have "key' = key" using f(1) k(1) assms(7) by simp
    with f t1 have old2: "old2 = new" "ur_previous_revision q = n" by auto
    have "k2 = key" using z(1) rewritten_key [OF new] assms(5) rr(1) old by (simp add: old2)
    moreover have "d2 = d" using f(4) rewritten_ok [OF new] by (simp add: old2)
    ultimately show ?thesis
      using kv_bucket.policy_get_live [OF assms(1) z(2) ne, of "ce_py C"] z p rewritten_ok [OF new] d rr t1
      by (simp add: old2 old live_record_def put_kind_def)
  qed
qed

section \<open>Concrete commands\<close>

definition sample_cli :: "(mock_kv, mock_kv) cli_env" where
  "sample_cli = \<lparr>ce_file = (\<lambda>p. Inl (ClassErr ''FileNotFoundError'')), ce_now = 5,
     ce_schema = sample_schema_env, ce_sign = sample_sign_env, ce_connect = (\<lambda>_. Inr ()),
     ce_connect_policies = (\<lambda>_. Inr ()), ce_schemas = mock_ops, ce_policies = mock_ops\<rparr>"

definition sample_args :: namespace where
  "sample_args = (\<lambda>_. ANone)(''registered_by'' := AStr (u ''ops''), ''policy_id'' := AStr (u ''p1''),
     ''registered_by_publisher'' := AStr (u ''ops''), ''revoked_at'' := AStr (isoformat_utc 0),
     ''revocation_reason'' := AStr (u ''x''), ''lww'' := ABool False)"

text \<open>The record before, its revocation, and the record after the revocation is lifted.\<close>

definition cli_record :: policy_record where
  "cli_record = sample_record\<lparr>registered_at := Dt 7 (Some 0)\<rparr>"

definition cli_revoked :: policy_record where
  "cli_revoked = sample_record\<lparr>registered_at := Dt 5 (Some 0),
     rec_policy := sample_policy\<lparr>revoked_at := Some (Dt 0 (Some 0)), revocation_reason := Some (u ''x'')\<rparr>\<rparr>"

definition cli_lifted :: policy_record where
  "cli_lifted = sample_record\<lparr>registered_at := Dt 6 (Some 0), unrevoke_audit_marker := Some \<lparr>unrevoke_reason = None,
     previous_revoked_at = Dt 0 (Some 0), previous_revocation_reason = Some (u ''x'')\<rparr>\<rparr>"

lemmas cli_records = cli_record_def cli_revoked_def cli_lifted_def sample_record_def sample_policy_def

lemma cli_records_key:
  "record_key cli_record = Inr sample_key" "record_key cli_revoked = Inr sample_key"
  "record_key cli_lifted = Inr sample_key"
  using sample_record_ok(3) by (simp_all add: cli_records record_key_def)

lemma cli_records_wf: "record_wf cli_record" "record_wf cli_revoked" "record_wf cli_lifted"
  using sample_record_ok(1)
  by (auto simp: cli_records record_wf_def policy_wf_def aware_def)

lemma cli_records_encodable:
  "record_encodable cli_record" "record_encodable cli_revoked" "record_encodable cli_lifted"
  using sample_record_ok(2)
  by (auto simp: cli_records record_encodable_def policy_encodable_def dt_ok_def aware_def instant_def
      max_us_def us_day_def u_ok)

lemma cli_records_utc:
  "record_utc cli_record = cli_record" "record_utc cli_revoked = cli_revoked" "record_utc cli_lifted = cli_lifted"
  by (simp_all add: cli_records record_utc_def policy_utc_def marker_utc_def utc_of_def instant_def)

text \<open>The in-memory bucket with one record at one revision.\<close>

definition cell :: "octets \<Rightarrow> int \<Rightarrow> mock_kv" where
  "cell b n = \<lparr>store = [(sample_key, b, n)], revision = n\<rparr>"

lemma cell_inv: "0 < n \<Longrightarrow> mock_inv (cell b n)"
  by (simp add: cell_def mock_inv_def)

lemma cell_view: "mock_view (cell b n) sample_key = Some (b, n)"
  by (simp add: cell_def mock_view_def)

lemma sample_target: "target_key sample_args = Inr sample_key"
  using sample_record_ok(3) by (simp add: sample_args_def record_key_def sample_record_def sample_policy_def)

lemma cell_read:
  assumes "envelope_to_record sample_env b = Inr r" "0 < n" "target_key ns = Inr sample_key"
    and "ce_py C = sample_env" "ce_policies C = mock_ops"
  shows "read_target C ns (s, cell b n) = (Inr (Inr (r, n)), (s, cell b n))"
proof -
  have "get_with_revision sample_env mock_ops sample_key (cell b n) = (Inr (Some (r, n)), cell b n)"
    using mock.get_with_revision_live [OF cell_inv [OF assms(2)] sample_key_ne(1)] assms(1)
    by (simp add: cell_view live_record_def live_rev_def)
  then show ?thesis
    using assms(3-5) by (simp add: read_target_def then_do_def io_bind_def exit_on_def in_policies_def
        get_with_revision_by_pair_def)
qed

lemma cell_put:
  assumes "record_key r = Inr sample_key" "record_to_envelope sample_env r = Inr b'"
  shows "policy_put sample_env mock_ops r (cell b n) = (Inr (n + 1), cell b' (n + 1))"
  using assms by (simp add: policy_put_def mock_ops_def mock_write_def Let_def io_bind_def cell_def)

lemma cell_pinned:
  assumes "record_key r = Inr sample_key" "record_to_envelope sample_env r = Inr b'"
    and "envelope_to_record sample_env b = Inr old" "revoked_at (rec_policy old) = None" "0 < n"
  shows "put_check sample_env mock_ops r n (cell b n) = (Inr sample_key, cell b n)"
    "put_commit sample_env mock_ops r n sample_key (cell b n) = (Inr (n + 1), cell b' (n + 1))"
    "put_with_revision sample_env mock_ops r n (cell b n) = (Inr (n + 1), cell b' (n + 1))"
proof -
  show c: "put_check sample_env mock_ops r n (cell b n) = (Inr sample_key, cell b n)"
    using mock.policy_get_live [OF cell_inv [OF assms(5)] sample_key_ne(1), of sample_env] assms
    by (simp add: put_check_def cell_view live_record_def revocation_gate_def io_bind_def)
  show w: "put_commit sample_env mock_ops r n sample_key (cell b n) = (Inr (n + 1), cell b' (n + 1))"
    using assms(2) by (simp add: put_commit_def cell_def io_bind_def kv_update_with_revision_def mock_ops_def
        io_catch_def mock_update_def mock_write_def Let_def)
  show "put_with_revision sample_env mock_ops r n (cell b n) = (Inr (n + 1), cell b' (n + 1))"
    using c w by (simp add: put_with_revision_def io_bind_def)
qed

lemma iso_base_head: "\<exists>y rest. iso_base w = pad 4 y @ rest"
proof -
  obtain y m dd where c: "civil (nat w div 86400000000) = (y, m, dd)" by (rule prod_cases3)
  show ?thesis
    unfolding iso_base_def Let_def c prod.case
    apply (rule exI)
    apply (rule exI)
    apply (rule refl)
    done
qed

lemma iso_base_digit: "\<exists>c rest. iso_base w = c # rest \<and> 48 \<le> c \<and> c \<le> 57"
proof -
  have digits: "set (pad k n) \<subseteq> {48..57}" for k n by (induction k arbitrary: n) auto
  obtain y rest where w: "iso_base w = pad 4 y @ rest" using iso_base_head by blast
  have "0 < k \<Longrightarrow> pad k n \<noteq> []" for k n by (cases k) simp_all
  then have "pad 4 y \<noteq> []" by simp
  then obtain c cs where cs: "pad 4 y = c # cs" by (cases "pad 4 y") simp_all
  with digits [of 4 y] have "48 \<le> c" "c \<le> 57" by auto
  with w cs show ?thesis by simp
qed

lemma iso_strip: "replace_z (py_strip (isoformat_utc w)) = isoformat_utc w"
proof -
  obtain c rest where c: "iso_base w = c # rest" "48 \<le> c" "c \<le> 57" using iso_base_digit by blast
  have "\<not> py_space c" using c by (simp add: py_space_def)
  moreover have "isoformat_utc w = c # rest @ [43, 48, 48, 58, 48, 48]"
    using c by (simp add: isoformat_utc_def u_def)
  ultimately have "py_strip (isoformat_utc w) = isoformat_utc w"
    by (simp add: py_strip_def) (simp add: py_space_def)
  moreover have "\<not> ends_with (u ''Z'') (isoformat_utc w)"
    by (simp add: isoformat_utc_def u_def ends_with_def)
  ultimately show ?thesis by (simp add: replace_z_def)
qed

lemma sample_instants:
  "parse_registered_at sample_cli (as_opt_text (sample_args ''revoked_at'')) = Inr (Dt 0 (Some 0))"
  by (simp add: parse_registered_at_def parse_instant_def sample_cli_def sample_args_def sample_schema_env_def
      iso_strip isoformat_utc_Z max_us_def us_day_def aware_def astimezone_utc_def)

lemma sample_rewrite:
  "rewritten cli_record (Some (Dt 0 (Some 0))) (Some (u ''x'')) (Dt 5 (Some 0)) (u ''ops'') None = Inr cli_revoked"
  "rewritten cli_revoked None None (Dt 6 (Some 0)) (u ''ops'')
     (Some \<lparr>unrevoke_reason = None, previous_revoked_at = Dt 0 (Some 0), previous_revocation_reason = Some (u ''x'')\<rparr>)
   = Inr cli_lifted"
  using cli_records_wf
  by (auto simp: rewritten_def replace_revocation_def mk_policy_Inr mk_record_Inr cli_records record_wf_def policy_wf_def)

lemma ops_strip: "py_strip (u ''ops'') \<noteq> []"
  by (simp add: py_strip_def py_space_def u_def)

lemma sample_arg [simp]:
  "sample_args ''registered_by'' = AStr (u ''ops'')" "sample_args ''policy_id'' = AStr (u ''p1'')"
  "sample_args ''registered_by_publisher'' = AStr (u ''ops'')" "sample_args ''revocation_reason'' = AStr (u ''x'')"
  "sample_args ''registered_at'' = ANone" "sample_args ''lww'' = ABool False"
  "sample_args ''expected_revision'' = ANone" "sample_args ''unrevoke_reason'' = ANone"
  by (simp_all add: sample_args_def)

lemma sample_cli_simps [simp]:
  "sv_py (ce_schema sample_cli) = sample_env" "ce_policies sample_cli = mock_ops"
  "ce_connect_policies sample_cli = (\<lambda>_. Inr ())" "ce_now sample_cli = 5"
  by (simp_all add: sample_cli_def sample_schema_env_def)

lemmas run_steps = then_do_def io_bind_def exit_on_def exit_res_def in_policies_def

lemma sample_revoke:
  assumes "record_to_envelope sample_env cli_record = Inr b" "record_to_envelope sample_env cli_revoked = Inr b'" "0 < n"
  obtains r where "run_revoke sample_cli sample_args (s, cell b n) = (Inr (Inr r), (s, cell b' (n + 1)))"
    "rr_key r = sample_key"
proof -
  have "envelope_to_record sample_env b = Inr cli_record"
    using envelope_reads [OF cli_records_wf(1) assms(1)] by (simp add: cli_records_utc)
  note read = cell_read [OF this assms(3) sample_target, of sample_cli s]
    and writes = cell_pinned(3) [OF cli_records_key(2) assms(2) this _ assms(3)]
  have "rewrite_inputs sample_cli sample_args w = (Inr (Inr (sample_key, Dt 5 (Some 0))), w)" for w :: "mock_kv \<times> mock_kv"
    using sample_target ops_strip
    by (simp add: rewrite_inputs_def run_steps parse_registered_at_def)
  moreover have "revoke_write sample_cli sample_args n cli_revoked (s, cell b n)
      = (Inr (Inr (MODE_CAS, Some n, n + 1)), (s, cell b' (n + 1)))"
    using writes by (simp add: revoke_write_def run_steps cli_records)
  ultimately have "\<exists>r. run_revoke sample_cli sample_args (s, cell b n) = (Inr (Inr r), (s, cell b' (n + 1)))
      \<and> rr_key r = sample_key"
    using read sample_instants sample_rewrite(1)
    by (simp add: run_revoke_def run_steps Let_def)
  with that show ?thesis by blast
qed

lemma sample_unrevoke:
  assumes "record_to_envelope sample_env cli_revoked = Inr b" "record_to_envelope sample_env cli_lifted = Inr b'" "0 < n"
  obtains q where "run_unrevoke (sample_cli\<lparr>ce_now := 6\<rparr>) sample_args (s, cell b n)
    = (Inr (Inr q), (s, cell b' (n + 1)))"
proof -
  let ?C = "sample_cli\<lparr>ce_now := 6\<rparr>"
  have "envelope_to_record sample_env b = Inr cli_revoked"
    using envelope_reads [OF cli_records_wf(2) assms(1)] by (simp add: cli_records_utc)
  note read = cell_read [OF this assms(3) sample_target, of ?C s]
  have "rewrite_inputs ?C sample_args w = (Inr (Inr (sample_key, Dt 6 (Some 0))), w)" for w :: "mock_kv \<times> mock_kv"
    using sample_target ops_strip
    by (simp add: rewrite_inputs_def run_steps parse_registered_at_def)
  moreover have "revoked_at (rec_policy cli_revoked) = Some (Dt 0 (Some 0))"
    "revocation_reason (rec_policy cli_revoked) = Some (u ''x'')"
    by (simp_all add: cli_records)
  ultimately have "\<exists>q. run_unrevoke ?C sample_args (s, cell b n) = (Inr (Inr q), (s, cell b' (n + 1)))"
    using read sample_rewrite(2) cell_put [OF cli_records_key(3) assms(2), of b n]
    by (simp add: run_unrevoke_def run_steps mk_marker_def aware_def Let_def)
  with that show ?thesis by blast
qed

lemma cli_envelopes:
  obtains b1 b2 b3 where "record_to_envelope sample_env cli_record = Inr b1"
    "record_to_envelope sample_env cli_revoked = Inr b2" "record_to_envelope sample_env cli_lifted = Inr b3"
  using record_to_envelope_total [OF cli_records_encodable(1)] record_to_envelope_total [OF cli_records_encodable(2)]
    record_to_envelope_total [OF cli_records_encodable(3)] by meson

lemma sample_cli_policies: "kv_bucket (ce_policies sample_cli) mock_view revision mock_inv"
  using mock.kv_bucket_axioms by (simp add: sample_cli_def)


lemma unrevoke_restores_witness:
  "\<exists>t t1 t2 r q final. run_revoke sample_cli sample_args (mock_empty, t) = (Inr (Inr r), (mock_empty, t1))
     \<and> run_unrevoke (sample_cli\<lparr>ce_now := 6\<rparr>) sample_args (mock_empty, t1) = (Inr (Inr q), (mock_empty, t2))
     \<and> policy_get sample_env mock_ops sample_key t2 = (Inr (Some final), t2)
     \<and> rec_policy final = rec_policy cli_record \<and> put_kind (Some (Dt 0 (Some 0))) final = EXPLICIT_UNREVOKE"
proof -
  obtain b1 b2 b3 where b: "record_to_envelope sample_env cli_record = Inr b1"
    "record_to_envelope sample_env cli_revoked = Inr b2" "record_to_envelope sample_env cli_lifted = Inr b3"
    by (rule cli_envelopes)
  obtain r where r: "run_revoke sample_cli sample_args (mock_empty, cell b1 1) = (Inr (Inr r), (mock_empty, cell b2 (1 + 1)))"
    "rr_key r = sample_key"
    by (rule sample_revoke [OF b(1,2) zero_less_one])
  have "(0::int) < 1 + 1" by simp
  from sample_unrevoke [OF b(2,3) this] obtain q where
    q: "run_unrevoke (sample_cli\<lparr>ce_now := 6\<rparr>) sample_args (mock_empty, cell b2 (1 + 1))
      = (Inr (Inr q), (mock_empty, cell b3 (1 + 1 + 1)))" by blast
  have "policy_get (ce_py sample_cli) (ce_policies sample_cli) (rr_key r) (cell b1 1) = (Inr (Some cli_record), cell b1 1)"
    using mock.policy_get_live [OF cell_inv [of 1 b1] sample_key_ne(1), of sample_env] r(2)
      envelope_reads [OF cli_records_wf(1) b(1)]
    by (simp add: cell_view live_record_def cli_records_utc)
  moreover have "record_key cli_record = Inr (rr_key r)" by (simp add: cli_records_key r(2))
  ultimately obtain d final where f: "parse_registered_at sample_cli (as_opt_text (sample_args ''revoked_at'')) = Inr d"
    "policy_get (ce_py sample_cli) (ce_policies sample_cli) (rr_key r) (cell b3 (1 + 1 + 1)) = (Inr (Some final), cell b3 (1 + 1 + 1))"
    "rec_policy final = (rec_policy cli_record)\<lparr>revoked_at := None, revocation_reason := None\<rparr>"
    "put_kind (Some d) final = EXPLICIT_UNREVOKE"
    using unrevoke_restores [OF sample_cli_policies cell_inv [OF zero_less_one] r(1) _ _ q refl] by blast
  from f(1) sample_instants have "d = Dt 0 (Some 0)" by simp
  moreover have "(rec_policy cli_record)\<lparr>revoked_at := None, revocation_reason := None\<rparr> = rec_policy cli_record"
    by (simp add: cli_records)
  ultimately have "policy_get sample_env mock_ops sample_key (cell b3 (1 + 1 + 1)) = (Inr (Some final), cell b3 (1 + 1 + 1))"
    "rec_policy final = rec_policy cli_record" "put_kind (Some (Dt 0 (Some 0))) final = EXPLICIT_UNREVOKE"
    using f(2,3,4) by (simp_all add: r(2))
  with r(1) q show ?thesis by blast
qed

lemma revoke_interleaved_witness:
  "\<exists>t t' m. put_commit sample_env mock_ops cli_revoked 1 sample_key t = (Inr m, t')
     \<and> mock_view t sample_key \<noteq> None \<and> 1 < m"
proof -
  obtain b1 b2 b3 where b: "record_to_envelope sample_env cli_record = Inr b1"
    "record_to_envelope sample_env cli_revoked = Inr b2" by (rule cli_envelopes)
  have e: "envelope_to_record sample_env b1 = Inr cli_record"
    using envelope_reads [OF cli_records_wf(1) b(1)] by (simp add: cli_records_utc)
  have "revoked_at (rec_policy cli_record) = None" by (simp add: cli_records)
  note w = cell_pinned [OF cli_records_key(2) b(2) e this zero_less_one]
  have key: "record_key cli_record = target_key sample_args" by (simp only: cli_records_key sample_target)
  have read: "read_target sample_cli sample_args (mock_empty, cell b1 1) = (Inr (Inr (cli_record, 1)), (mock_empty, cell b1 1))"
    by (rule cell_read [OF e zero_less_one sample_target]) simp_all
  have "put_check (ce_py sample_cli) (ce_policies sample_cli) cli_revoked 1 (cell b1 1) = (Inr sample_key, cell b1 1)"
    "put_commit (ce_py sample_cli) (ce_policies sample_cli) cli_revoked 1 sample_key (cell b1 1) = (Inr (1 + 1), cell b2 (1 + 1))"
    using w by simp_all
  from revoke_interleaved [OF sample_cli_policies cell_inv [OF zero_less_one] read key sample_rewrite(1)
      run_refl this(1) run_refl this(2)] w(2) show ?thesis
    using cell_view [of b1 1] by (intro exI conjI) auto
qed

end
