(* ===== verification/Spec2Isabelle.thy ===== *)
theory Spec2Isabelle
  imports PolicyReplication Caveats Subjects ConnectRetry SigCache VerifyBridge AipSchema TransportFetch EntrySigning SchemaReplication PublisherCli
begin

text \<open>
  \<^bold>\<open>A verification development for wakir-protocol\<close>

  The repository implements the protocol layer of an agent platform: capability policies kept in a
  NATS key-value bucket and enforced by a gate, a registry of JSON schemas beside them with signed
  entries and a command line that publishes and revokes, canonical forms that are hashed and signed,
  the mapping of events to NATS subjects and frames, the NATS connection with its retries, and the
  identity and federation documents with their keys, signatures, DNS anchors and transport. This
  development translates the Python source into executable definitions and proves what makes each
  part correct.

  \<^bold>\<open>Parts, theories and files\<close> (paths below \<open>src/wakir_protocol\<close>)

  \<^item> Vocabulary: \<open>Prelude\<close> (texts as code points, octets, exceptions as one datatype, the sum
    monad, state passing with exceptions, ordered dicts), \<open>Utf8\<close>, \<open>Json\<close> and
    \<open>JsonRoundtrip\<close> (\<open>json.dumps\<close> and \<open>json.loads\<close>), \<open>Pyeq\<close> (\<open>==\<close> and truth of JSON values),
    \<open>Pytime\<close> (datetimes), \<open>Pytext\<close> (\<open>str\<close> methods, \<open>int\<close>), \<open>Fnmatch\<close>, \<open>Pyre\<close>
    (the regular expressions the code uses). These model what the source uses of the language.
  \<^item> Capability gate: \<open>PolicyGate\<close>, \<open>schemas/registered_by_capability.py\<close>.
  \<^item> Policy backend, \<open>schemas/capability_policy_nats_kv_backend.py\<close>:
    \<open>PolicyEnvelope\<close> (keys, records, the stored JSON), \<open>KvStore\<close> (the bucket behind the
    locale \<open>kv_bucket\<close>, interpreted on the in-memory bucket of the repository's tests),
    \<open>PolicyBackend\<close> (get, put, pinned put, delete, snapshots), \<open>PolicyWatch\<close>
    (watch decoding, live snapshot, revocation classification).
  \<^item> Policy replication: \<open>PolicyReplication\<close>, \<open>schemas/capability_policy_replication.py\<close>.
  \<^item> Schema registry, \<open>schemas/registry_nats_kv_backend.py\<close>: \<open>SchemaEnvelope\<close> (entries, stored JSON,
    write gates), \<open>SchemaRegistry\<close> (the operations over the bucket, snapshot, live snapshot);
    \<open>EntrySigning\<close>, \<open>schemas/entry_signing.py\<close>; \<open>SchemaReplication\<close>, \<open>schemas/replication.py\<close>.
  \<^item> Publisher, \<open>schemas/publisher_cli.py\<close>: \<open>PublisherInput\<close> (flags, loaders, parsers),
    \<open>PublisherCli\<close> (publish, dry-run, revoke, unrevoke with their exit codes and receipts).
  \<^item> Canonical forms: \<open>Jcs\<close>, \<open>identity_substrate/_jcs_pure.py\<close>; \<open>Caveats\<close>,
    \<open>canonical/caveat_set.py\<close>.
  \<^item> Subjects and frames: \<open>Subjects\<close>, \<open>wirelang/nats_subject_mapping.py\<close>;
    \<open>Frames\<close>, \<open>wirelang/frame_builder.py\<close>.
  \<^item> Connection: \<open>NatsAdapter\<close>, \<open>adapters/real_nats_adapter/adapter.py\<close>;
    \<open>ConnectRetry\<close>, \<open>connect_retry.py\<close> beside it (locale \<open>retry_env\<close>,
    interpreted on a simulated network and on the live adapter without its library).
  \<^item> Identity documents, below \<open>identity_substrate\<close>: \<open>Signing\<close>, \<open>aip_signing.py\<close> and
    \<open>did_document_signing.py\<close> (locale \<open>signed_document\<close>, interpreted for both and by
    \<open>EntrySigning\<close>); \<open>OrderCache\<close> (locale \<open>bounded_cache\<close>), interpreted by \<open>SigCache\<close>,
    \<open>aip_signature_verification_cache.py\<close>, and \<open>HttpsBackend\<close>, \<open>aip_https_backend.py\<close>;
    \<open>KidResolver\<close>, \<open>kid_resolver.py\<close>; \<open>VerifyBridge\<close>, \<open>verify_bridge.py\<close>; \<open>SchemaPure\<close>,
    \<open>_schema_pure.py\<close>; \<open>AipSchema\<close>, the schema the repository ships and the bridge's choice of a
    validator.
  \<^item> Anchors and federation, below \<open>identity_substrate\<close>: \<open>DnsAnchor\<close>, \<open>dns_anchor.py\<close>; \<open>Ed25519\<close>,
    \<open>FtdDocument\<close> and \<open>FtdVerifier\<close>, \<open>ftd_verifier.py\<close>; \<open>TransportFetch\<close>,
    \<open>aip_document_transport_fetch.py\<close>.

  \<^bold>\<open>How the parts meet.\<close> The policy backend stores the gate's policies in the envelope form and
  rebuilds the gate's registry from a bucket; the watch components follow a bucket's events; each
  replicator drives a source and a target of its backend. The schema registry uses the same bucket
  interface, and its entries are signed over their stored form. The publisher builds and signs an
  entry, asks the gate about it with policies from a file or from the policy bucket, and writes it to
  the schema bucket; its other two commands rewrite a policy. Signing rests on the canonicaliser, the
  signature cache and the bridge on signing, the resolver on the transport and on the verifier it is
  given; this theory puts the bridge behind the resolver. The fetch of an anchored document uses the
  transport and the anchor lookup, the federation verifier the anchor lookup and its own
  canonicaliser. The retry layer drives the adapter.

  \<^bold>\<open>State.\<close> An object with mutable attributes is a record that its methods take and return
  (\<open>sig_cache\<close>, \<open>etag_cache\<close>, \<open>ftd_cache\<close>, \<open>attempt_log\<close>, \<open>real_adapter\<close>, the live snapshots); the
  bucket is the state of the locale \<open>kv_bucket\<close>, a command of the publisher runs on a pair of them; a
  coroutine that awaits between a read and a write is split there, and other writers run in between
  as a step relation. Raising is a value of \<open>exc + 'a\<close> and leaves the writes before it behind. To
  speak of what is done to the outside, a run is compared with itself over a world that also logs
  (\<open>recorded\<close> for calls of \<open>urlopen\<close>, \<open>traced\<close> for sleeps).

  \<^bold>\<open>What the lemmas show.\<close> For the gate: exactly what is granted, which denial is reported, and
  that adding policies is monotone. For the policy backend: codec round trips and error behaviour,
  that a pinned write loses no update and never un-revokes under interleaving, that snapshots are
  complete and that the live snapshot refines them. For replication: convergence, idempotence, that
  well-filed sources do not un-revoke, and for schemas that the target mirrors the source. For the
  registry: that what its writes store stays sound, and that the live snapshot follows. For entry
  signatures: sign-verify across the stored form, binding, and when an entry is accepted. For the
  publisher: what a revocation changes and reports, that lifting it restores the policy, and that
  failing commands write nothing. For the canonical forms: equal bytes exactly for equal abstract
  values. For subjects: parsing and building invert each other. For the retry layer: termination,
  recovery, bounds on everything it sleeps, the shape of its log. For signing: sign-verify, and that
  a signature binds the document. For the caches: transparency, bounds and book-keeping. For the
  transport: which calls it makes, and that what it returns was served and verified. For keys and
  schemas: that listing and resolving agree, soundness of a resolved key, and that the schema walk
  decides a declarative reading. For anchors and federation: what a verified document satisfies,
  which errors can come out, and that the cache serves only what was verified and not poisoned.

  \<^bold>\<open>Fuel and loops.\<close> The JSON parser takes twice the length of its text plus two as fuel, and
  \<open>json_loads_no_fuel_error\<close> shows that this always suffices; \<open>urllib_open\<close> takes 41, which
  \<open>urllib_open_ends\<close> shows to be enough for the redirects its limits allow. The polling loop of the
  retry layer is a partial function whose termination is part of \<open>retry_returns\<close>. All other loops
  are structural or have a measure.

  \<^bold>\<open>Parameters.\<close> The NATS client, \<open>rfc8785\<close>, \<open>jsonschema\<close>, \<open>dnspython\<close>, SHA-256 and SHA-512, Ed25519
  of \<open>cryptography\<close>, secp256k1, \<open>urlopen\<close> (whose default is modelled over a single exchange), the
  requests of DNS over HTTPS, clocks and random sources are arguments of the definitions that use
  them; what is assumed of them are hypotheses of a locale or of the theorem. The interpreter's
  Unicode tables, \<open>re.search\<close> on the patterns a schema carries, and the texts only
  \<open>datetime.fromisoformat\<close> of some versions accepts are arguments too.

  \<^bold>\<open>Not modelled.\<close> The rounding of doubles (seconds are rational numbers, a float in a document is
  its \<open>repr\<close>); CPython's recursion limit and memory; cancellation of tasks; writers on the target
  bucket that run inside one step of a replicator; sharing of nested mutable values between a
  caller and a returned dict; log output and message texts of exceptions; the parsing of argument
  vectors by \<open>argparse\<close>. Of the repository, the persona layer (whose values are those of a YAML
  library), the SPIFFE adapters and the operator scripts (input and output), key derivation, secret
  sharing and the drill over them (wrappers of cryptographic packages), the document templates, and
  the package files are left out.
\<close>


section \<open>Publishing and fetching an identity document\<close>

text \<open>The bridge as it is made by default, with the document's own keys and no pinned hash.\<close>

definition default_bridge :: "sign_env \<Rightarrow> text_env \<Rightarrow> float_int \<Rightarrow> (items \<Rightarrow> bool res) \<Rightarrow> bridge_config" where
  "default_bridge E T F schema = \<lparr>bc_sign = E, bc_text = T, bc_schema = schema,
     bc_resolver = default_pubkey_resolver F, bc_verifier = verify_aip_signature E, bc_expected = None\<rparr>"

lemma default_bridge_simps [simp]:
  "bc_sign (default_bridge E T F S) = E" "bc_text (default_bridge E T F S) = T"
  "bc_schema (default_bridge E T F S) = S" "bc_resolver (default_bridge E T F S) = default_pubkey_resolver F"
  "bc_verifier (default_bridge E T F S) = verify_aip_signature E" "bc_expected (default_bridge E T F S) = None"
  by (simp_all add: default_bridge_def)

lemma get_item_set: "get_item (dict_set d (u k) v) k' = (if k' = k then v else get_item d k')"
  by (simp add: get_item_def)

lemma single_key:
  assumes "get_item body ''public_keys'' = PList [PDict e]" "get_item e ''key_hex'' = PStr (hexdigest pub)" "octets_ok pub"
  shows "default_pubkey_resolver F body = Inr pub"
  using assms by (auto simp: default_pubkey_resolver_def chosen_entry_def)

lemma signed_document_result:
  assumes "length pub = 32" "octets_ok pub"
    and "\<And>m. octets_ok (ed_sign E priv m) \<and> length (ed_sign E priv m) = 64
           \<and> ed_verify E pub (ed_sign E priv m) m = Inr True"
    and "sign_aip_document E body priv kid = Inr block"
    and "get_item body ''id'' = PStr doc_id" "get_item body ''public_keys'' = PList [PDict e]"
    and "get_item e ''key_hex'' = PStr (hexdigest pub)"
    and "schema (dict_set body (u ''document_signature'') (PDict block)) = Inr True"
  shows "\<exists>digest. aip_payload E body = Inr digest
    \<and> verify_from_transport (default_bridge E T F schema)
        (\<lambda>_. Response (Some (PDict (dict_set body (u ''document_signature'') (PDict block)))) raw) doc_id
      = Inr \<lparr>vr_ok = True, vr_document = Some (dict_set body (u ''document_signature'') (PDict block)),
          vr_jcs_sha256 = Some (hexdigest digest), vr_source = doc_id, vr_error = None\<rparr>"
proof -
  let ?d = "dict_set body (u ''document_signature'') (PDict block)"
  from assms(4) obtain digest where digest: "aip_payload E body = Inr digest"
    by (auto simp: sign_aip_document_def split: if_splits)
  then have "aip_payload E ?d = Inr digest" by (simp add: aip_payload_def)
  moreover have "verify_aip_signature E ?d block pub = Inr True"
    using aip_block_verifies [OF assms(1,3,4)] by (simp add: aip.verify_attached)
  moreover have "default_pubkey_resolver F ?d = Inr pub"
    using assms(2,6,7) by (intro single_key) (auto simp: get_item_set)
  ultimately show ?thesis
    using digest assms(5,8)
    by (simp add: verify_from_transport_def parse_body_def check_signature_def check_pin_def get_item_set)
qed

text \<open>
  C24: What a publisher signs, the bridge accepts: a document that lists its key, carries its
  identifier and is signed with \<open>sign_aip_document\<close> passes the whole pipeline with its block
  attached, and the result holds the hash that was signed.
\<close>

theorem signed_document_accepted:
  assumes "length pub = 32" "octets_ok pub"
    and "\<And>m. octets_ok (ed_sign E priv m) \<and> length (ed_sign E priv m) = 64
           \<and> ed_verify E pub (ed_sign E priv m) m = Inr True"
    and "sign_aip_document E body priv kid = Inr block"
    and "get_item body ''id'' = PStr doc_id" "get_item body ''public_keys'' = PList [PDict e]"
    and "get_item e ''key_hex'' = PStr (hexdigest pub)"
    and "schema (dict_set body (u ''document_signature'') (PDict block)) = Inr True"
  shows "\<exists>digest. aip_payload E body = Inr digest
    \<and> verify_from_transport (default_bridge E T F schema)
        (\<lambda>_. Response (Some (PDict (dict_set body (u ''document_signature'') (PDict block)))) raw) doc_id
      = Inr \<lparr>vr_ok = True, vr_document = Some (dict_set body (u ''document_signature'') (PDict block)),
          vr_jcs_sha256 = Some (hexdigest digest), vr_source = doc_id, vr_error = None\<rparr>"
  using assms by (rule signed_document_result)

lemma served_authentic:
  assumes "served T (make_https_aip_verify_fn (default_bridge E TE F schema)) calls uri d"
  shows "(\<exists>rq x b. (rq, Opened x) \<in> set calls \<and> serves T rq x b
         \<and> json_loads_bytes (t_text T) b = Inr (PDict d))
      \<and> schema d = Inr True \<and> get_item d ''id'' = PStr uri
      \<and> (\<exists>block pubkey. get_item d ''document_signature'' = PDict block
           \<and> default_pubkey_resolver F d = Inr pubkey \<and> verify_aip_signature E d block pubkey = Inr True)"
proof -
  obtain rq x b body where b: "(rq, Opened x) \<in> set calls" "serves T rq x b"
    "json_loads_bytes (t_text T) b = Inr (PDict body)"
    "make_https_aip_verify_fn (default_bridge E TE F schema) uri b body = Inr d"
    using assms by (auto simp: served_def)
  from verify_fn_authentic [OF b(4)] b(1-3) show ?thesis
    by (auto simp: authentic_def)
qed

text \<open>
  C23: What the HTTPS resolver returns with the bridge as its verifier is authentic. Over any
  sequence of calls with a new ETag cache, each document returned for a URI was served: among the
  calls of \<open>urlopen\<close> there is one, for an \<open>https://\<close> URL, answered by a 2xx whose body is within the
  size limit, and that body decodes to the document (freshly, or before it was reused on a 304).
  The document passes the schema, carries that URI as its identifier and a signature block that
  verifies under the key the document itself names for it.
\<close>

theorem fetched_documents_authentic:
  assumes "new_etag_cache n = Inr c"
    and "resolve_all (recorded T) (make_https_aip_verify_fn (default_bridge E TE F schema)) uris (Some c, (w, []))
      = (rs, (c', (w', calls)))"
  shows "resolve_all T (make_https_aip_verify_fn (default_bridge E TE F schema)) uris (Some c, w) = (rs, (c', w'))
    \<and> list_all2 (\<lambda>uri r. \<forall>d. r = Inr d \<longrightarrow>
      (\<exists>rq x b. (rq, Opened x) \<in> set calls \<and> serves T rq x b
         \<and> json_loads_bytes (t_text T) b = Inr (PDict d))
      \<and> schema d = Inr True \<and> get_item d ''id'' = PStr uri
      \<and> (\<exists>block pubkey. get_item d ''document_signature'' = PDict block
           \<and> default_pubkey_resolver F d = Inr pubkey \<and> verify_aip_signature E d block pubkey = Inr True)) uris rs"
proof -
  let ?v = "make_https_aip_verify_fn (default_bridge E TE F schema)"
  note c = new_cache_holds [OF assms(1)]
  have "list_all2 (\<lambda>uri r. \<forall>d. r = Inr d \<longrightarrow> served T ?v calls uri d) uris rs"
    using resolve_all_holds [OF served_established c(1) c(3) assms(2)] by simp
  then show ?thesis
    by (rule conjI [OF resolve_all_recorded [OF assms(2)] list.rel_mono_strong])
      (intro allI impI, rule served_authentic, simp)
qed

section \<open>A document published and fetched\<close>

definition published_body :: items where
  "published_body = [(u ''document_signature'', PNone), (u ''id'', PStr (u ''https://a'')),
     (u ''public_keys'', PList [PDict [(u ''key_hex'', PStr (hexdigest (replicate 32 2)))]])]"

definition published_doc :: "items \<Rightarrow> items" where
  "published_doc block = dict_set published_body (u ''document_signature'') (PDict block)"

lemma twos_ok: "octets_ok (replicate 32 2)"
  by (simp add: octets_ok_def is_octet_def list_all_iff)

lemma hexdigest_str_ok: "octets_ok b \<Longrightarrow> str_ok (hexdigest b)"
  using hexdigest_graph by (fastforce intro: scalar_ascii)

lemma published_plain: "json_plain (PDict (dict_pop published_body (u ''document_signature'')))"
  "jcs_ok (PDict (dict_pop published_body (u ''document_signature'')))"
  using hexdigest_str_ok [OF twos_ok] u_ok
  by (simp_all add: published_body_def dict_pop_def)

lemma published_payload:
  obtains c where "aip_payload sample_sign_env published_body = Inr c"
proof -
  obtain c where "canonicalize (PDict (dict_pop published_body (u ''document_signature''))) = Inr c"
    using published_plain(2) jcs_accepts by blast
  then show ?thesis
    using that by (simp add: aip_payload_def jcs_canonicalize_def sample_sign_env_def)
qed

lemma published_signs:
  obtains sig where "sign_aip_document sample_sign_env published_body sample_priv default_kid
      = Inr [(u ''alg'', PStr (u ''Ed25519'')), (u ''kid'', PStr default_kid),
             (u ''signature'', PStr (hexdigest (pad64 sig)))]"
proof -
  obtain c where "aip_payload sample_sign_env published_body = Inr c" by (rule published_payload)
  then have "sign_aip_document sample_sign_env published_body sample_priv default_kid
      = Inr [(u ''alg'', PStr (u ''Ed25519'')), (u ''kid'', PStr default_kid),
             (u ''signature'', PStr (hexdigest (pad64 c)))]"
    by (simp add: sign_aip_document_def sample_priv_def) (simp add: sample_sign_env_def)
  then show ?thesis by (rule that)
qed

lemma signed_document_accepted_witness:
  "\<exists>block digest. verify_from_transport (default_bridge sample_sign_env sample_text_env (\<lambda>_. None) (\<lambda>_. Inr True))
        (\<lambda>_. Response (Some (PDict (published_doc block))) None) (u ''https://a'')
      = Inr \<lparr>vr_ok = True, vr_document = Some (published_doc block), vr_jcs_sha256 = Some (hexdigest digest),
          vr_source = u ''https://a'', vr_error = None\<rparr>"
proof -
  obtain sig where s: "sign_aip_document sample_sign_env published_body sample_priv default_kid
      = Inr [(u ''alg'', PStr (u ''Ed25519'')), (u ''kid'', PStr default_kid),
             (u ''signature'', PStr (hexdigest (pad64 sig)))]"
    by (rule published_signs)
  have "\<exists>digest. aip_payload sample_sign_env published_body = Inr digest
    \<and> verify_from_transport (default_bridge sample_sign_env sample_text_env (\<lambda>_. None) (\<lambda>_. Inr True))
        (\<lambda>_. Response (Some (PDict (published_doc [(u ''alg'', PStr (u ''Ed25519'')), (u ''kid'', PStr default_kid),
             (u ''signature'', PStr (hexdigest (pad64 sig)))]))) None) (u ''https://a'')
      = Inr \<lparr>vr_ok = True, vr_document = Some (published_doc [(u ''alg'', PStr (u ''Ed25519'')), (u ''kid'', PStr default_kid),
             (u ''signature'', PStr (hexdigest (pad64 sig)))]),
          vr_jcs_sha256 = Some (hexdigest digest), vr_source = u ''https://a'', vr_error = None\<rparr>"
    unfolding published_doc_def
    by (rule signed_document_accepted [where pub = "replicate 32 2" and e = "[(u ''key_hex'', PStr (hexdigest (replicate 32 2)))]", OF _ twos_ok _ s])
      (simp_all add: sample_sign_env_def published_body_def get_item_def)
  then show ?thesis by blast
qed

text \<open>The document served as its canonical bytes.\<close>

definition served_text_env :: text_env where
  "served_text_env = sample_text_env\<lparr>other_text := utf8_decode\<rparr>"

definition served_transport :: "octets \<Rightarrow> nat transport" where
  "served_transport b = \<lparr>t_text = served_text_env, max_body_bytes = length b, max_redirects = 0,
     user_agent = [], t_open = (\<lambda>rq w. (Opened \<lparr>rs_status = Some 200, rs_getcode = None,
       rs_read = (\<lambda>n. RBytes b), rs_headers = []\<rparr>, w + 1))\<rparr>"

lemma served_json:
  assumes "json_plain v" "jcs_ok v" "json_canon utf16_codeunits v = v"
  obtains b where "json_loads_bytes served_text_env b = Inr v"
proof -
  obtain b where b: "canonicalize v = Inr b" using assms(2) jcs_accepts by blast
  with assms(1) obtain t where t: "json_emit utf16_codeunits v = Inr t" "utf8_encode t = Inr b"
    by (rule canonicalize_text)
  have "json_text served_text_env b = Inr t"
    using utf8_decode_encode [OF t(2)] by (simp add: json_text_def served_text_env_def)
  moreover have "json_loads E t = Inr v" for E
    using loads_emit [OF assms(1) t(1)] assms(3) by simp
  ultimately have "json_loads_bytes served_text_env b = Inr v" by (simp add: json_loads_bytes_def)
  then show ?thesis by (rule that)
qed

lemma served_get:
  assumes "json_loads_bytes served_text_env b = Inr (PDict d)"
  shows "\<exists>resp. transport_get (served_transport b) (u ''https://a'') None [] 0 = (Inr resp, 1)
    \<and> dr_bytes resp = b \<and> dr_body resp = d \<and> dr_etag resp = None"
proof -
  have "enforce_https (te_chars served_text_env) (u ''https://a'') = Inr ()"
    by (simp add: enforce_https_def served_text_env_def sample_text_env_def u_def py_lower_def ascii_lower_def)
  then show ?thesis
    using assms
    by (simp add: transport_get_def served_transport_def fetch.simps read_2xx_def response_status_def
        headers_to_mapping_def Let_def)
qed

lemma bridge_ok_iff_witness:
  "\<exists>B r. verify_from_transport B (\<lambda>_. Response (Some (PDict (published_doc []))) None) (u ''https://a'')
      = Inr r \<and> vr_ok r \<and> authentic B (u ''https://a'') (published_doc [])"
proof -
  let ?B = "default_bridge sample_sign_env sample_text_env (\<lambda>_. None) (\<lambda>_. Inr True)\<lparr>bc_verifier := \<lambda>_ _ _. Inr True\<rparr>"
  let ?get = "\<lambda>_. Response (Some (PDict (published_doc []))) None"
  obtain c where c: "aip_payload sample_sign_env published_body = Inr c" by (rule published_payload)
  then have "aip_payload sample_sign_env (published_doc []) = Inr c"
    by (simp add: aip_payload_def published_doc_def)
  moreover have "default_pubkey_resolver (\<lambda>_. None) (published_doc []) = Inr (replicate 32 2)"
    by (rule single_key [OF _ _ twos_ok, where e = "[(u ''key_hex'', PStr (hexdigest (replicate 32 2)))]"])
      (simp_all add: published_doc_def published_body_def get_item_def)
  moreover have "get_item (published_doc []) ''id'' = PStr (u ''https://a'')"
    "get_item (published_doc []) ''document_signature'' = PDict []"
    by (simp_all add: published_doc_def published_body_def get_item_def)
  ultimately have run: "verify_from_transport ?B ?get (u ''https://a'')
      = Inr \<lparr>vr_ok = True, vr_document = Some (published_doc []), vr_jcs_sha256 = Some (hexdigest c),
          vr_source = u ''https://a'', vr_error = None\<rparr>"
    by (simp add: verify_from_transport_def parse_body_def check_signature_def check_pin_def default_bridge_def
        sample_sign_env_def)
  have "authentic ?B (u ''https://a'') (published_doc [])"
    using bridge_ok_iff [OF run] by (simp add: parse_body_def)
  with run show ?thesis by (metis verify_result.select_convs(1))
qed

text \<open>The signed document is served, fetched, verified and returned.\<close>

definition served_doc :: "octets \<Rightarrow> items" where
  "served_doc s = published_doc [(u ''alg'', PStr (u ''Ed25519'')), (u ''kid'', PStr default_kid),
     (u ''signature'', PStr (hexdigest s))]"

lemma served_doc_entries:
  "served_doc s = [(u ''document_signature'', PDict [(u ''alg'', PStr (u ''Ed25519'')), (u ''kid'', PStr default_kid),
       (u ''signature'', PStr (hexdigest s))]), (u ''id'', PStr (u ''https://a'')),
     (u ''public_keys'', PList [PDict [(u ''key_hex'', PStr (hexdigest (replicate 32 2)))]])]"
  by (simp add: served_doc_def published_doc_def published_body_def)

lemma served_canon:
  "json_plain (PDict (served_doc s))" "octets_ok s \<Longrightarrow> jcs_ok (PDict (served_doc s))"
  "json_canon utf16_codeunits (PDict (served_doc s)) = PDict (served_doc s)"
proof -
  show "json_plain (PDict (served_doc s))" by (simp add: served_doc_entries u_def)
  show "octets_ok s \<Longrightarrow> jcs_ok (PDict (served_doc s))"
    using hexdigest_str_ok [OF twos_ok] hexdigest_str_ok [of s] u_ok
    by (simp add: served_doc_entries default_kid_def)
  show "json_canon utf16_codeunits (PDict (served_doc s)) = PDict (served_doc s)"
    by (simp add: served_doc_entries u_def)
qed

definition served_cache :: "items etag_cache" where
  "served_cache = \<lparr>ec_max = 64, ec_entries = [], ec_order = []\<rparr>"

lemma served_new_cache: "new_etag_cache 64 = Inr served_cache"
  by (simp add: new_etag_cache_def served_cache_def)

lemma published_result:
  assumes "sign_aip_document sample_sign_env published_body sample_priv default_kid = Inr block"
  shows "\<exists>digest. aip_payload sample_sign_env published_body = Inr digest
    \<and> verify_from_transport (default_bridge sample_sign_env sample_text_env (\<lambda>_. None) (\<lambda>_. Inr True))
        (\<lambda>_. Response (Some (PDict (dict_set published_body (u ''document_signature'') (PDict block)))) raw)
        (u ''https://a'')
      = Inr \<lparr>vr_ok = True, vr_document = Some (dict_set published_body (u ''document_signature'') (PDict block)),
          vr_jcs_sha256 = Some (hexdigest digest), vr_source = u ''https://a'', vr_error = None\<rparr>"
  by (rule signed_document_result [OF _ twos_ok _ assms,
        where e = "[(u ''key_hex'', PStr (hexdigest (replicate 32 2)))]"])
    (simp_all add: sample_sign_env_def published_body_def get_item_def)

lemma fetched_documents_authentic_witness:
  "\<exists>b s c w calls. resolve_all (recorded (served_transport b))
        (make_https_aip_verify_fn (default_bridge sample_sign_env sample_text_env (\<lambda>_. None) (\<lambda>_. Inr True)))
        [u ''https://a''] (Some served_cache, (0, [])) = ([Inr (served_doc s)], (c, (w, calls)))
    \<and> (\<exists>rq x b'. (rq, Opened x) \<in> set calls \<and> serves (served_transport b) rq x b')
    \<and> get_item (served_doc s) ''id'' = PStr (u ''https://a'')"
proof -
  obtain sig where sig: "sign_aip_document sample_sign_env published_body sample_priv default_kid
      = Inr [(u ''alg'', PStr (u ''Ed25519'')), (u ''kid'', PStr default_kid),
             (u ''signature'', PStr (hexdigest (pad64 sig)))]"
    by (rule published_signs)
  let ?s = "pad64 sig" let ?d = "served_doc ?s"
  let ?v = "make_https_aip_verify_fn (default_bridge sample_sign_env sample_text_env (\<lambda>_. None) (\<lambda>_. Inr True))"
  obtain b where b: "json_loads_bytes served_text_env b = Inr (PDict ?d)"
    using served_canon [of ?s] served_json by (metis pad64_ok(1))
  obtain resp where get: "transport_get (served_transport b) (u ''https://a'') None [] 0 = (Inr resp, 1)"
    "dr_bytes resp = b" "dr_body resp = ?d" "dr_etag resp = None"
    using served_get [OF b] by blast
  have "\<exists>x. verify_from_transport (default_bridge sample_sign_env sample_text_env (\<lambda>_. None) (\<lambda>_. Inr True))
      (\<lambda>_. Response (Some (PDict ?d)) (Some b)) (u ''https://a'')
    = Inr \<lparr>vr_ok = True, vr_document = Some ?d, vr_jcs_sha256 = Some x, vr_source = u ''https://a'',
        vr_error = None\<rparr>"
    using published_result [OF sig, of "Some b"] by (auto simp: served_doc_def published_doc_def)
  then have v: "?v (u ''https://a'') b ?d = Inr ?d"
    by (auto simp: make_https_aip_verify_fn_def default_bridge_def)
  have run: "resolve_all (served_transport b) ?v [u ''https://a''] (Some served_cache, 0)
      = ([Inr ?d], (Some served_cache, 1))"
    using get v by (simp add: resolve_def etag_get_def served_cache_def)
  obtain rs c w calls where rec: "resolve_all (recorded (served_transport b)) ?v [u ''https://a'']
      (Some served_cache, (0, [])) = (rs, (c, (w, calls)))"
    by (metis surj_pair)
  from fetched_documents_authentic [OF served_new_cache rec] run have "rs = [Inr ?d]"
    "\<exists>rq x b'. (rq, Opened x) \<in> set calls \<and> serves (served_transport b) rq x b'"
    "get_item ?d ''id'' = PStr (u ''https://a'')"
    by auto
  with rec show ?thesis by blast
qed

end
